(* ===== verification/Prelude.thy ===== *)
theory Prelude
  imports Main "HOL-Library.Word" "HOL-Library.List_Lexorder" "HOL-Library.Char_ord"
begin

text \<open>
  The prelude of the development: what the components of the server share.
  \<^item> \<open>fault\<close> and \<open>res\<close>: the ways the C++ code stops instead of returning (a failed
    \<open>assert\<close>, a null pointer that is dereferenced, an exception nothing catches, a read of
    storage whose lifetime has ended, an allocation that fails, a fatal entry of the log) and results that may be such a stop, with the
    sequencing \<open>bindE\<close> and the check \<open>assertE\<close>.
  \<^item> \<open>wrap32\<close>: an integer reduced to the range of \<open>int32_t\<close>.
  \<^item> the decimal text of integers: \<open>operator<<\<close>, \<open>atoi\<close> and \<open>std::stoi\<close> of the standard library.
  \<^item> vectors of \<open>char\<close>: \<open>resize\<close> and \<open>std::copy\<close> into a position.
  \<^item> \<open>std::map\<close>: an association list in ascending order of the keys, as iteration visits it.
  The collections \<open>fault_simps\<close>, \<open>int32_simps\<close> and \<open>vec_simps\<close> carry the component proofs.
\<close>

named_theorems fault_simps \<open>rewriting of results that may be faults\<close>
named_theorems int32_simps \<open>32-bit integers\<close>
named_theorems vec_simps \<open>vectors and copies\<close>

section \<open>Faults\<close>

datatype fault =
    AssertionFailure
  | NullDereference
  | InvalidArgument
  | OutOfRange
  | UndefinedBehaviour
  | BadAlloc
  | Aborted

type_synonym 'a res = "fault + 'a"

definition bindE :: "'a res \<Rightarrow> ('a \<Rightarrow> 'b res) \<Rightarrow> 'b res" where
  "bindE m f = (case m of Inl e \<Rightarrow> Inl e | Inr x \<Rightarrow> f x)"

definition assertE :: "bool \<Rightarrow> unit res" where
  "assertE b = (if b then Inr () else Inl AssertionFailure)"

lemma bindE_Inl [simp]: "bindE (Inl e) f = Inl e"
  by (simp add: bindE_def)

lemma bindE_Inr [simp]: "bindE (Inr x) f = f x"
  by (simp add: bindE_def)

lemma assertE_True [simp]: "assertE True = Inr ()"
  by (simp add: assertE_def)

lemma assertE_False [simp]: "assertE False = Inl AssertionFailure"
  by (simp add: assertE_def)

lemma assertE_Inr_iff [simp]: "assertE b = Inr u \<longleftrightarrow> b"
  by (simp add: assertE_def)

lemma assertE_Inl_iff [simp]: "assertE b = Inl e \<longleftrightarrow> \<not> b \<and> e = AssertionFailure"
  by (auto simp: assertE_def)

lemma bindE_assertE [fault_simps]:
  "bindE (assertE b) f = (if b then f () else Inl AssertionFailure)"
  by (simp add: assertE_def)

lemma bindE_eq_Inr_iff [fault_simps]:
  "bindE m f = Inr y \<longleftrightarrow> (\<exists>x. m = Inr x \<and> f x = Inr y)"
  by (cases m) auto

lemma bindE_eq_Inl_iff [fault_simps]:
  "bindE m f = Inl e \<longleftrightarrow> m = Inl e \<or> (\<exists>x. m = Inr x \<and> f x = Inl e)"
  by (cases m) auto

lemma bindE_assoc: "bindE (bindE m f) g = bindE m (\<lambda>x. bindE (f x) g)"
  by (cases m) auto

lemma bindE_cong [fundef_cong]:
  "m = m' \<Longrightarrow> (\<And>x. m' = Inr x \<Longrightarrow> f x = g x) \<Longrightarrow> bindE m f = bindE m' g"
  by (cases m') auto

section \<open>The range of 32-bit integers\<close>

definition wrap32 :: "int \<Rightarrow> int" where
  "wrap32 x = signed_take_bit 31 x"

definition is_int32 :: "int \<Rightarrow> bool" where
  "is_int32 x \<longleftrightarrow> - (2 ^ 31) \<le> x \<and> x < 2 ^ 31"

lemma wrap32_id [int32_simps]: "is_int32 x \<Longrightarrow> wrap32 x = x"
  by (simp add: wrap32_def is_int32_def signed_take_bit_int_eq_self)

lemma wrap32_range [simp]: "is_int32 (wrap32 x)"
  using signed_take_bit_int_greater_eq_minus_exp [of 31 x] signed_take_bit_int_less_exp [of 31 x]
  by (simp add: wrap32_def is_int32_def)

section \<open>Decimal text\<close>

definition digit_char :: "nat \<Rightarrow> char" where
  "digit_char d = char_of (48 + d)"

definition is_digit :: "char \<Rightarrow> bool" where
  "is_digit c \<longleftrightarrow> 48 \<le> (of_char c :: nat) \<and> (of_char c :: nat) \<le> 57"

definition digit_val :: "char \<Rightarrow> nat" where
  "digit_val c = of_char c - 48"

fun show_nat :: "nat \<Rightarrow> string" where
  "show_nat n = (if n < 10 then [digit_char n] else show_nat (n div 10) @ [digit_char (n mod 10)])"

declare show_nat.simps [simp del]

definition show_int :: "int \<Rightarrow> string" where
  "show_int x = (if x < 0 then CHR ''-'' # show_nat (nat (- x)) else show_nat (nat x))"

definition digits_val :: "string \<Rightarrow> nat" where
  "digits_val ds = foldl (\<lambda>acc c. 10 * acc + digit_val c) 0 ds"

definition is_space :: "char \<Rightarrow> bool" where
  "is_space c \<longleftrightarrow> c \<in> set [CHR '' '', CHR 0x09, CHR 0x0A, CHR 0x0B, CHR 0x0C, CHR 0x0D]"

text \<open>
  The scan both \<open>atoi\<close> and \<open>std::stoi\<close> make (that of \<open>strtol\<close> in base 10): white space, an
  optional sign, then the longest run of digits. \<open>None\<close> when there is no digit.
\<close>

definition scan_int :: "string \<Rightarrow> int option" where
  "scan_int s =
     (let t = dropWhile is_space s;
          neg = (t \<noteq> [] \<and> hd t = CHR ''-'');
          u = (if t \<noteq> [] \<and> (hd t = CHR ''-'' \<or> hd t = CHR ''+'') then tl t else t);
          ds = takeWhile is_digit u
      in if ds = [] then None
         else Some (if neg then - int (digits_val ds) else int (digits_val ds)))"

definition saturate64 :: "int \<Rightarrow> int" where
  "saturate64 x = max (- (2 ^ 63)) (min (2 ^ 63 - 1) x)"

text \<open>\<open>atoi\<close> is \<open>(int) strtol(s, NULL, 10)\<close>: \<open>strtol\<close> saturates at the range of \<open>long\<close>.\<close>

definition atoi :: "string \<Rightarrow> int" where
  "atoi s = (case scan_int s of None \<Rightarrow> 0 | Some v \<Rightarrow> wrap32 (saturate64 v))"

definition atoll :: "string \<Rightarrow> int" where
  "atoll s = (case scan_int s of None \<Rightarrow> 0 | Some v \<Rightarrow> saturate64 v)"

definition stoi :: "string \<Rightarrow> int res" where
  "stoi s = (case scan_int s of None \<Rightarrow> Inl InvalidArgument
     | Some v \<Rightarrow> if is_int32 v then Inr v else Inl OutOfRange)"

text \<open>A C string ends at its first NUL character.\<close>

definition c_str :: "string \<Rightarrow> string" where
  "c_str s = takeWhile (\<lambda>c. c \<noteq> CHR 0x00) s"

lemma of_char_digit_char: "d < 10 \<Longrightarrow> (of_char (digit_char d) :: nat) = 48 + d"
  by (simp add: digit_char_def)

lemma is_digit_digit_char [simp]: "d < 10 \<Longrightarrow> is_digit (digit_char d)"
  by (simp add: is_digit_def of_char_digit_char)

lemma digit_val_digit_char [simp]: "d < 10 \<Longrightarrow> digit_val (digit_char d) = d"
  by (simp add: digit_val_def of_char_digit_char)

lemma show_nat_digits: "\<forall>c \<in> set (show_nat n). is_digit c"
proof (induction n rule: show_nat.induct)
  case (1 n)
  then show ?case by (cases "n < 10") (auto simp: show_nat.simps [of n])
qed

lemma show_nat_nonempty [simp]: "show_nat n \<noteq> []"
  by (subst show_nat.simps) simp

lemma show_nat_length: "m < 10 ^ k \<Longrightarrow> 0 < k \<Longrightarrow> length (show_nat m) \<le> k"
proof (induction m arbitrary: k rule: show_nat.induct)
  case (1 m)
  show ?case
  proof (cases "m < 10")
    case True
    with 1(3) show ?thesis by (simp add: show_nat.simps [of m])
  next
    case False
    then obtain k' where k: "k = Suc k'" "0 < k'"
      using 1(2,3) by (cases k; cases "k - 1") auto
    then have "m div 10 < 10 ^ k'" using 1(2) by (simp add: less_mult_imp_div_less mult.commute)
    with 1(1) [OF False this k(2)] False k(1) show ?thesis by (simp add: show_nat.simps [of m])
  qed
qed

lemma digits_val_append [simp]: "digits_val (ds @ [c]) = 10 * digits_val ds + digit_val c"
  by (simp add: digits_val_def)

lemma digits_val_show_nat: "digits_val (show_nat n) = n"
proof (induction n rule: show_nat.induct)
  case (1 n)
  show ?case
  proof (cases "n < 10")
    case True
    then show ?thesis by (simp add: show_nat.simps [of n] digits_val_def)
  next
    case False
    with 1 show ?thesis by (simp add: show_nat.simps [of n])
  qed
qed

lemma is_digit_not_space: "is_digit c \<Longrightarrow> \<not> is_space c"
  by (auto simp: is_digit_def is_space_def)

lemma is_digit_not_sign: "is_digit c \<Longrightarrow> c \<noteq> CHR ''-'' \<and> c \<noteq> CHR ''+''"
  by (auto simp: is_digit_def)

lemma show_nat_Cons: "\<exists>c cs. show_nat n = c # cs \<and> is_digit c"
  using show_nat_nonempty [of n] show_nat_digits [of n] by (cases "show_nat n") auto

lemma takeWhile_show_nat [simp]: "takeWhile is_digit (show_nat n) = show_nat n"
  using show_nat_digits [of n] by (simp add: takeWhile_eq_all_conv)

lemma minus_not_space [simp]: "\<not> is_space (CHR ''-'')"
  by (simp add: is_space_def)

lemma scan_int_show_int [simp]: "scan_int (show_int x) = Some x"
proof (cases "x < 0")
  case True
  then show ?thesis
    by (simp add: scan_int_def show_int_def Let_def digits_val_show_nat)
next
  case False
  obtain c cs where c: "show_nat (nat x) = c # cs" "is_digit c"
    using show_nat_Cons by blast
  have "dropWhile is_space (show_nat (nat x)) = show_nat (nat x)"
    using c is_digit_not_space by simp
  moreover have "hd (show_nat (nat x)) \<noteq> CHR ''-''" "hd (show_nat (nat x)) \<noteq> CHR ''+''"
    using c is_digit_not_sign by simp_all
  ultimately show ?thesis
    using False by (simp add: scan_int_def show_int_def Let_def digits_val_show_nat)
qed

lemma atoi_show_int [int32_simps]: "is_int32 x \<Longrightarrow> atoi (show_int x) = x"
  by (simp add: atoi_def saturate64_def wrap32_id is_int32_def min_def max_def)

lemma stoi_show_int [int32_simps]: "is_int32 x \<Longrightarrow> stoi (show_int x) = Inr x"
  by (simp add: stoi_def)

lemma show_int_inj: "show_int x = show_int y \<Longrightarrow> x = y"
  by (metis scan_int_show_int option.inject)

section \<open>Vectors of char\<close>

lemma all_shift: "(\<forall>j < n. P (r + j)) \<longleftrightarrow> (\<forall>q. r \<le> q \<and> q < r + n \<longrightarrow> P q)" for n r :: nat
  by (auto simp: le_iff_add)

definition resize :: "nat \<Rightarrow> string \<Rightarrow> string" where
  "resize n xs = take n xs @ replicate (n - length xs) (CHR 0x00)"

text \<open>\<open>std::copy(d, d+len, begin()+i)\<close>.\<close>

definition copy_at :: "nat \<Rightarrow> 'a list \<Rightarrow> 'a list \<Rightarrow> 'a list" where
  "copy_at i ys xs = take i xs @ ys @ drop (i + length ys) xs"

lemma length_resize [simp, vec_simps]: "length (resize n xs) = n"
  by (simp add: resize_def)

lemma take_resize [vec_simps]: "k \<le> length xs \<Longrightarrow> k \<le> n \<Longrightarrow> take k (resize n xs) = take k xs"
  by (simp add: resize_def min_def)

lemma length_copy_at [simp, vec_simps]:
  "i + length ys \<le> length xs \<Longrightarrow> length (copy_at i ys xs) = length xs"
  by (simp add: copy_at_def)

lemma drop_copy_at [vec_simps]:
  "i + length ys \<le> length xs \<Longrightarrow> drop i (copy_at i ys xs) = ys @ drop (i + length ys) xs"
  by (simp add: copy_at_def)

lemma copy_at_window [vec_simps]:
  "i + length ys \<le> length xs \<Longrightarrow> take (length ys) (drop i (copy_at i ys xs)) = ys"
  by (simp add: copy_at_def)

section \<open>Ordered sets\<close>

text \<open>
  \<open>std::set\<close>: the list of the elements in ascending order. \<open>insert\<close> returns whether the element was new, \<open>erase\<close> how many
  elements it removed; \<open>lower_bound\<close> is the part from the first element that is not less.
\<close>

definition set_insert :: "'a::linorder \<Rightarrow> 'a list \<Rightarrow> 'a list \<times> bool" where
  "set_insert x xs = (if x \<in> set xs then (xs, False) else (insort x xs, True))"

definition set_erase :: "'a \<Rightarrow> 'a list \<Rightarrow> 'a list \<times> nat" where
  "set_erase x xs = (filter (\<lambda>y. y \<noteq> x) xs, if x \<in> set xs then 1 else 0)"

definition lower_bound :: "'a::linorder \<Rightarrow> 'a list \<Rightarrow> 'a list" where
  "lower_bound x xs = dropWhile (\<lambda>y. y < x) xs"

definition below_bound :: "'a::linorder \<Rightarrow> 'a list \<Rightarrow> 'a list" where
  "below_bound x xs = takeWhile (\<lambda>y. y < x) xs"

lemma strict_sorted_insort [simp]:
  "sorted_wrt (<) xs \<Longrightarrow> x \<notin> set xs \<Longrightarrow> sorted_wrt (<) (insort x xs)" for x :: "'a::linorder"
  by (simp add: strict_sorted_iff sorted_insort distinct_insort)

lemma below_bound_filter: "sorted_wrt (<) xs \<Longrightarrow> below_bound x xs = filter (\<lambda>y. y < x) xs" for x :: "'a::linorder"
  by (induction xs) (fastforce simp: below_bound_def not_less intro!: filter_False [symmetric])+

lemma lower_bound_filter: "sorted_wrt (<) xs \<Longrightarrow> lower_bound x xs = filter (\<lambda>y. \<not> y < x) xs" for x :: "'a::linorder"
  by (induction xs) (auto simp: lower_bound_def not_less intro!: filter_True [symmetric])

lemma bounds_split [simp]: "below_bound x xs @ lower_bound x xs = xs"
  by (simp add: below_bound_def lower_bound_def)

section \<open>Ordered maps\<close>

text \<open>
  \<open>m[k] = v\<close>, \<open>m.insert(k, v)\<close> (which leaves an entry that is there), \<open>m.erase(k)\<close>; \<open>m.find(k)\<close> is
  \<open>map_of\<close>. The keys that are strings are compared as \<open>std::string\<close> compares them.
\<close>

fun map_put :: "'k::linorder \<Rightarrow> 'v \<Rightarrow> ('k \<times> 'v) list \<Rightarrow> ('k \<times> 'v) list" where
  "map_put k v [] = [(k, v)]"
| "map_put k v ((k', v') # m) =
     (if k < k' then (k, v) # (k', v') # m
      else if k = k' then (k, v) # m
      else (k', v') # map_put k v m)"

definition map_insert :: "'k::linorder \<Rightarrow> 'v \<Rightarrow> ('k \<times> 'v) list \<Rightarrow> ('k \<times> 'v) list" where
  "map_insert k v m = (case map_of m k of None \<Rightarrow> map_put k v m | Some _ \<Rightarrow> m)"

definition map_erase :: "'k \<Rightarrow> ('k \<times> 'v) list \<Rightarrow> ('k \<times> 'v) list" where
  "map_erase k m = filter (\<lambda>(k', v). k' \<noteq> k) m"

definition map_ordered :: "('k::linorder \<times> 'v) list \<Rightarrow> bool" where
  "map_ordered m \<longleftrightarrow> sorted_wrt (<) (map fst m)"

lemma map_of_put [simp]: "map_of (map_put k v m) = (map_of m)(k \<mapsto> v)"
  by (induction m) (auto simp: fun_eq_iff)

lemma map_of_erase [simp]: "map_of (map_erase k m) = (map_of m)(k := None)"
  by (induction m) (auto simp: map_erase_def fun_eq_iff)

lemma map_of_insert:
  "map_of (map_insert k v m) = (if map_of m k = None then (map_of m)(k \<mapsto> v) else map_of m)"
  by (auto simp: map_insert_def split: option.splits)

lemma keys_map_put: "fst ` set (map_put k v m) = insert k (fst ` set m)"
  by (simp flip: dom_map_of_conv_image_fst)

lemma map_ordered_Nil [simp]: "map_ordered []"
  by (simp add: map_ordered_def)

lemma map_ordered_put [simp]: "map_ordered m \<Longrightarrow> map_ordered (map_put k v m)"
proof (induction m)
  case (Cons kv m)
  then show ?case
    using keys_map_put [of k v m] by (cases kv) (auto simp: map_ordered_def)
qed (simp add: map_ordered_def)

lemma map_ordered_insert [simp]: "map_ordered m \<Longrightarrow> map_ordered (map_insert k v m)"
  by (simp add: map_insert_def split: option.split)

lemma map_ordered_erase [simp]: "map_ordered m \<Longrightarrow> map_ordered (map_erase k m)"
  by (induction m) (auto simp: map_erase_def map_ordered_def)

lemma map_ordered_distinct: "map_ordered m \<Longrightarrow> distinct (map fst m)"
  by (simp add: map_ordered_def strict_sorted_iff)

lemma map_of_mem_iff: "map_ordered m \<Longrightarrow> (k, v) \<in> set m \<longleftrightarrow> map_of m k = Some v"
  using map_ordered_distinct [of m] by (auto intro: map_of_is_SomeI dest: map_of_SomeD)

end
