(* ===== verification/Database.thy ===== *)
theory Database
  imports Prelude
begin

text \<open>
  \<open>Field.h\<close>, \<open>Field.cpp\<close>, \<open>QueryResult.h\<close>, \<open>QueryResult.cpp\<close>, \<open>mysqltool.h\<close>, \<open>mysqltool.cpp\<close>,
  \<open>MySqlManager.h\<close>, \<open>MySqlManager.cpp\<close>: the access to the database. The MySQL client library is not
  part of the repository; the calls the code makes are the fields of \<open>mysql_api\<close>, over a state
  \<open>'m\<close> of that library and the server behind it. Output to the console is left out.

  The lemmas say what the row loops of the clients (\<open>row_loop\<close>) do on a result with rows and on an
  empty one, how a statement is retried when the server has gone away, and which columns the tables
  have.
\<close>

section \<open>Field\<close>

datatype DataTypes = TYPE_NONE | TYPE_STRING | TYPE_INTEGER | TYPE_FLOAT | TYPE_BOOL | TYPE_NULL

record Field =
  m_value :: string
  m_name :: string
  m_type :: DataTypes
  m_isnull :: bool

definition new_Field :: Field where
  "new_Field = \<lparr>m_value = [], m_name = [], m_type = TYPE_NONE, m_isnull = True\<rparr>"

text \<open>\<open>SetValue(value, nLen)\<close>: \<open>None\<close> is a null pointer.\<close>

definition SetValue :: "string option \<Rightarrow> Field \<Rightarrow> Field" where
  "SetValue val f =
     (case val of
        None \<Rightarrow> f\<lparr>m_isnull := True, m_value := []\<rparr>
      | Some s \<Rightarrow> if length s = 0 then f\<lparr>m_isnull := True, m_value := []\<rparr>
                  else f\<lparr>m_value := s, m_isnull := False\<rparr>)"

definition GetString :: "Field \<Rightarrow> string" where
  "GetString f = m_value f"

definition toBool :: "Field \<Rightarrow> bool" where
  "toBool f \<longleftrightarrow> atoi (c_str (m_value f)) \<noteq> 0"

definition toInt32 :: "Field \<Rightarrow> int" where
  "toInt32 f = atoi (c_str (m_value f))"

definition toInt64 :: "Field \<Rightarrow> int" where
  "toInt64 f = atoll (c_str (m_value f))"

section \<open>QueryResult\<close>

datatype enum_field_types =
    FIELD_TYPE_TIMESTAMP | FIELD_TYPE_DATE | FIELD_TYPE_TIME | FIELD_TYPE_DATETIME | FIELD_TYPE_YEAR
  | FIELD_TYPE_STRING | FIELD_TYPE_VAR_STRING | FIELD_TYPE_BLOB | FIELD_TYPE_SET | FIELD_TYPE_NULL
  | FIELD_TYPE_TINY | FIELD_TYPE_SHORT | FIELD_TYPE_LONG | FIELD_TYPE_LONGLONG | FIELD_TYPE_INT24
  | FIELD_TYPE_ENUM | FIELD_TYPE_FLOAT | FIELD_TYPE_DOUBLE | FIELD_TYPE_OTHER

definition toType :: "enum_field_types \<Rightarrow> DataTypes" where
  "toType t =
     (if t \<in> {FIELD_TYPE_TIMESTAMP, FIELD_TYPE_DATE, FIELD_TYPE_TIME, FIELD_TYPE_DATETIME,
              FIELD_TYPE_YEAR, FIELD_TYPE_STRING, FIELD_TYPE_VAR_STRING, FIELD_TYPE_BLOB,
              FIELD_TYPE_SET} then TYPE_STRING
      else if t = FIELD_TYPE_NULL then TYPE_NULL
      else if t \<in> {FIELD_TYPE_TINY, FIELD_TYPE_SHORT, FIELD_TYPE_LONG, FIELD_TYPE_LONGLONG,
                   FIELD_TYPE_INT24, FIELD_TYPE_ENUM} then TYPE_INTEGER
      else if t \<in> {FIELD_TYPE_FLOAT, FIELD_TYPE_DOUBLE} then TYPE_FLOAT
      else TYPE_NONE)"

text \<open>A stored result (\<open>MYSQL_RES\<close>): the columns and the rows not fetched yet; \<open>None\<close> is SQL's NULL.\<close>

type_synonym sql_row = "string option list"

record mysql_res =
  res_fields :: "(string \<times> enum_field_types) list"
  res_rows :: "sql_row list"

text \<open>
  \<open>m_CurrentRow\<close> is a \<open>std::vector\<close>; \<open>row_storage\<close> says whether it has storage, which \<open>clear()\<close> does not
  give up. \<open>m_result\<close> is \<open>None\<close> after \<open>EndQuery\<close>.
\<close>

record QueryResult =
  m_CurrentRow :: "Field list"
  row_storage :: bool
  m_vecFieldName :: "string list"
  m_result :: "mysql_res option"
  m_rowcount :: nat
  m_cloumncount :: nat

definition EndQuery :: "QueryResult \<Rightarrow> QueryResult" where
  "EndQuery q = q\<lparr>m_CurrentRow := [], m_vecFieldName := [], m_result := None,
     m_rowcount := 0, m_cloumncount := 0\<rparr>"

text \<open>\<open>MYSQL_ROW\<close> has as many entries as there are columns; reading past them is undefined.\<close>

definition new_QueryResult :: "mysql_res option \<Rightarrow> nat \<Rightarrow> nat \<Rightarrow> QueryResult res" where
  "new_QueryResult result rowcount cloumncount =
     (case result of
        None \<Rightarrow> Inl NullDereference
      | Some r \<Rightarrow>
          let q = \<lparr>m_CurrentRow = replicate cloumncount new_Field, row_storage = (0 < cloumncount),
                   m_vecFieldName = replicate cloumncount [], m_result = Some r,
                   m_rowcount = rowcount, m_cloumncount = cloumncount\<rparr>
          in case res_rows r of
               [] \<Rightarrow> Inr (EndQuery q)
             | row # rows \<Rightarrow>
                 if cloumncount \<le> length (res_fields r) \<and> cloumncount \<le> length row
                 then Inr (q\<lparr>m_vecFieldName := map fst (take cloumncount (res_fields r)),
                             m_CurrentRow := map (\<lambda>((name, tp), val).
                               SetValue val (new_Field\<lparr>m_type := toType tp, m_name := name\<rparr>))
                               (zip (take cloumncount (res_fields r)) (take cloumncount row)),
                             m_result := Some (r\<lparr>res_rows := rows\<rparr>)\<rparr>)
                 else Inl UndefinedBehaviour)"

definition NextRow :: "QueryResult \<Rightarrow> (bool \<times> QueryResult) res" where
  "NextRow q =
     (case m_result q of
        None \<Rightarrow> Inr (False, q)
      | Some r \<Rightarrow>
          (case res_rows r of
             [] \<Rightarrow> Inr (False, EndQuery q)
           | row # rows \<Rightarrow>
               if m_cloumncount q \<le> length row \<and> m_cloumncount q \<le> length (m_CurrentRow q)
               then Inr (True, q\<lparr>m_CurrentRow := map2 SetValue (take (m_cloumncount q) row) (m_CurrentRow q),
                                 m_result := Some (r\<lparr>res_rows := rows\<rparr>)\<rparr>)
               else Inl UndefinedBehaviour))"

text \<open>
  \<open>Fetch()\<close> is \<open>m_CurrentRow.data()\<close>: null only for a vector without storage. \<open>Some fs\<close> is a pointer to
  the elements \<open>fs\<close> that are alive; \<open>pRow[i]\<close> beyond them is undefined (\<open>row_field\<close>).
\<close>

definition Fetch :: "QueryResult \<Rightarrow> Field list option" where
  "Fetch q = (if row_storage q then Some (m_CurrentRow q) else None)"

definition row_field :: "Field list \<Rightarrow> nat \<Rightarrow> Field res" where
  "row_field pRow i = (if i < length pRow then Inr (pRow ! i) else Inl UndefinedBehaviour)"

definition GetFieldIndexByname :: "QueryResult \<Rightarrow> string \<Rightarrow> int" where
  "GetFieldIndexByname q name =
     (case find (\<lambda>i. m_vecFieldName q ! i = name) [0..<length (m_vecFieldName q)] of
        Some i \<Rightarrow> int i | None \<Rightarrow> - 1)"

text \<open>
  The loop the clients write over a result: fetch the current row, work on it, go on while
  \<open>NextRow\<close> says so. The body gives the new state and whether it leaves the loop.
\<close>

definition rows_left :: "QueryResult \<Rightarrow> nat" where
  "rows_left q = (case m_result q of None \<Rightarrow> 0 | Some r \<Rightarrow> length (res_rows r))"

lemma NextRow_decreases: "NextRow q = Inr (True, q') \<Longrightarrow> rows_left q' < rows_left q"
  by (auto simp: NextRow_def rows_left_def split: option.splits list.splits if_splits)

function row_loop :: "(Field list \<Rightarrow> 's \<Rightarrow> ('s \<times> bool) res) \<Rightarrow> QueryResult \<Rightarrow> 's \<Rightarrow> 's res" where
  "row_loop body q s =
     (case Fetch q of
        None \<Rightarrow> Inr s
      | Some pRow \<Rightarrow>
          bindE (body pRow s) (\<lambda>(s', leave).
          if leave then Inr s'
          else bindE (NextRow q) (\<lambda>(more, q'). if more then row_loop body q' s' else Inr s')))"
  by pat_completeness auto
termination
  by (relation "measure (\<lambda>(body, q, s). rows_left q)") (auto dest: NextRow_decreases)

declare row_loop.simps [simp del]

section \<open>MySQLTool\<close>

record 'm mysql_api =
  mysql_close :: "'m \<Rightarrow> 'm"
  mysql_real_connect :: "string \<Rightarrow> string \<Rightarrow> string \<Rightarrow> string \<Rightarrow> nat \<Rightarrow> 'm \<Rightarrow> bool \<times> 'm"
  mysql_query :: "string \<Rightarrow> 'm \<Rightarrow> bool \<times> 'm"
  mysql_real_query :: "string \<Rightarrow> 'm \<Rightarrow> bool \<times> 'm"
  mysql_errno :: "'m \<Rightarrow> int"
  mysql_store_result :: "'m \<Rightarrow> mysql_res option \<times> 'm"
  mysql_affected_rows :: "'m \<Rightarrow> nat"
  mysql_field_count :: "'m \<Rightarrow> nat"

text \<open>
  \<open>my_mysql\<close> says whether the handle is non-null. The query functions give \<open>True\<close> where the C function
  returns 0.
\<close>

record 'm MySQLTool =
  my_mysql :: bool
  my_host :: string
  my_user :: string
  my_password :: string
  my_dbname :: string
  my_port :: nat
  my_env :: 'm

definition CR_SERVER_GONE_ERROR :: int where
  "CR_SERVER_GONE_ERROR = 2006"

definition new_MySQLTool :: "'m \<Rightarrow> 'm MySQLTool" where
  "new_MySQLTool env = \<lparr>my_mysql = False, my_host = [], my_user = [], my_password = [],
     my_dbname = [], my_port = 3306, my_env = env\<rparr>"

definition connect ::
  "'m mysql_api \<Rightarrow> string \<Rightarrow> string \<Rightarrow> string \<Rightarrow> string \<Rightarrow> nat \<Rightarrow> 'm MySQLTool \<Rightarrow> bool \<times> 'm MySQLTool" where
  "connect api host user passwd db port t =
     (let env0 = (if my_mysql t then mysql_close api (my_env t) else my_env t);
          (ok, env1) = mysql_real_connect api (c_str host) (c_str user) (c_str passwd) (c_str db) port env0
      in if ok
         then let (_, env2) = mysql_query api ''set names utf8;'' env1
              in (True, t\<lparr>my_mysql := True, my_host := host, my_user := user, my_password := passwd,
                          my_dbname := db, my_env := env2\<rparr>)
         else (False, t\<lparr>my_mysql := False, my_env := env1\<rparr>))"

text \<open>The reconnections inside \<open>Query\<close> and \<open>Execute\<close> use the default port 3306.\<close>

definition reconnect :: "'m mysql_api \<Rightarrow> 'm MySQLTool \<Rightarrow> bool \<times> 'm MySQLTool" where
  "reconnect api t = connect api (my_host t) (my_user t) (my_password t) (my_dbname t) 3306 t"

definition ensure_handle :: "'m mysql_api \<Rightarrow> 'm MySQLTool \<Rightarrow> bool \<times> 'm MySQLTool" where
  "ensure_handle api t = (if my_mysql t then (True, t) else reconnect api t)"

text \<open>
  Both statement functions run the statement, and once more after a new connection when the server
  has gone away.
\<close>

definition run_statement ::
  "'m mysql_api \<Rightarrow> (string \<Rightarrow> 'm \<Rightarrow> bool \<times> 'm) \<Rightarrow> string \<Rightarrow> 'm MySQLTool \<Rightarrow> bool \<times> 'm MySQLTool" where
  "run_statement api call sql t =
     (let (ret, env1) = call sql (my_env t); t1 = t\<lparr>my_env := env1\<rparr>
      in if ret then (True, t1)
         else if mysql_errno api env1 = CR_SERVER_GONE_ERROR
         then let (ok, t2) = reconnect api t1
              in if \<not> ok then (False, t2)
                 else let (ret', env3) = call sql (my_env t2) in (ret', t2\<lparr>my_env := env3\<rparr>)
         else (False, t1))"

definition tool_Query :: "'m mysql_api \<Rightarrow> string \<Rightarrow> 'm MySQLTool \<Rightarrow> (QueryResult option \<times> 'm MySQLTool) res" where
  "tool_Query api sql t =
     (let (ok, t1) = ensure_handle api t
      in if \<not> ok then Inr (None, t1)
         else let (ran, t2) = run_statement api (mysql_real_query api) sql t1
              in if \<not> ran then Inr (None, t2)
                 else let (result, env) = mysql_store_result api (my_env t2);
                          t3 = t2\<lparr>my_env := env\<rparr>
                      in bindE (new_QueryResult result (mysql_affected_rows api env) (mysql_field_count api env))
                           (\<lambda>q. Inr (Some q, t3)))"

text \<open>
  \<open>Execute(sql, nAffectedCount, nErrno)\<close>: \<open>mysql_query\<close> takes a C string, so a statement ends at its
  first NUL character. The result is the returned value, the number of affected rows (where the
  call succeeds) and the tool.
\<close>

definition tool_Execute3 :: "'m mysql_api \<Rightarrow> string \<Rightarrow> 'm MySQLTool \<Rightarrow> bool \<times> nat \<times> 'm MySQLTool" where
  "tool_Execute3 api sql t =
     (let (ok, t1) = ensure_handle api t
      in if \<not> ok then (False, 0, t1)
         else let (ran, t2) = run_statement api (mysql_query api) (c_str sql) t1
              in if \<not> ran then (False, 0, t2)
                 else (True, mysql_affected_rows api (my_env t2), t2))"

definition tool_Execute :: "'m mysql_api \<Rightarrow> string \<Rightarrow> 'm MySQLTool \<Rightarrow> bool \<times> 'm MySQLTool" where
  "tool_Execute api sql t = (let (ok, n, t') = tool_Execute3 api sql t in (ok, t'))"

section \<open>MySqlManager\<close>

record sFieldInfo =
  fd_sName :: string
  fd_sType :: string
  fd_sDesc :: string

record sTableInfo =
  tb_sName :: string
  mapField :: "(string \<times> sFieldInfo) list"
  sKey :: string

definition mk_field :: "string \<Rightarrow> string \<Rightarrow> string \<Rightarrow> sFieldInfo" where
  "mk_field name tp desc = \<lparr>fd_sName = name, fd_sType = tp, fd_sDesc = desc\<rparr>"

text \<open>The tables, with the text of the source (the column comments are UTF-8).\<close>

definition t_user_info :: sTableInfo where
  "t_user_info =
     \<lparr>tb_sName = ''t_user'',
      mapField = fold (\<lambda>f. map_put (fd_sName f) f) [
        mk_field (''f_id'')
          (''bigint(20) NOT NULL AUTO_INCREMENT COMMENT '' @ [CHR 0x27, CHR 0xE8, CHR 0x87, CHR 0xAA, CHR 0xE5, CHR 0xA2, CHR 0x9E] @ ''ID'' @ [CHR 0x27])
          (''bigint(20)''),
        mk_field (''f_user_id'')
          (''bigint(20) NOT NULL COMMENT '' @ [CHR 0x27, CHR 0xE7, CHR 0x94, CHR 0xA8, CHR 0xE6, CHR 0x88, CHR 0xB7] @ ''ID'' @ [CHR 0x27])
          (''bigint(20)''),
        mk_field (''f_username'')
          (''varchar(64) NOT NULL COMMENT '' @ [CHR 0x27, CHR 0xE7, CHR 0x94, CHR 0xA8, CHR 0xE6, CHR 0x88, CHR 0xB7, CHR 0xE5, CHR 0x90, CHR 0x8D, CHR 0x27])
          (''varchar(64)''),
        mk_field (''f_nickname'')
          (''varchar(64) NOT NULL COMMENT '' @ [CHR 0x27, CHR 0xE7, CHR 0x94, CHR 0xA8, CHR 0xE6, CHR 0x88, CHR 0xB7, CHR 0xE6, CHR 0x98, CHR 0xB5, CHR 0xE7, CHR 0xA7, CHR 0xB0, CHR 0x27])
          (''varchar(64)''),
        mk_field (''f_password'')
          (''varchar(64) NOT NULL COMMENT '' @ [CHR 0x27, CHR 0xE7, CHR 0x94, CHR 0xA8, CHR 0xE6, CHR 0x88, CHR 0xB7, CHR 0xE5, CHR 0xAF, CHR 0x86, CHR 0xE7, CHR 0xA0, CHR 0x81, CHR 0x27])
          (''varchar(64)''),
        mk_field (''f_facetype'')
          (''int(10) DEFAULT 0 COMMENT '' @ [CHR 0x27, CHR 0xE7, CHR 0x94, CHR 0xA8, CHR 0xE6, CHR 0x88, CHR 0xB7, CHR 0xE5, CHR 0xA4, CHR 0xB4, CHR 0xE5, CHR 0x83, CHR 0x8F, CHR 0xE7, CHR 0xB1, CHR 0xBB, CHR 0xE5, CHR 0x9E, CHR 0x8B, CHR 0x27])
          (''int(10)''),
        mk_field (''f_customface'')
          (''varchar(32) DEFAULT NULL COMMENT '' @ [CHR 0x27, CHR 0xE8, CHR 0x87, CHR 0xAA, CHR 0xE5, CHR 0xAE, CHR 0x9A, CHR 0xE4, CHR 0xB9, CHR 0x89, CHR 0xE5, CHR 0xA4, CHR 0xB4, CHR 0xE5, CHR 0x83, CHR 0x8F, CHR 0xE5, CHR 0x90, CHR 0x8D, CHR 0x27])
          (''varchar(32)''),
        mk_field (''f_customfacefmt'')
          (''varchar(6) DEFAULT NULL COMMENT '' @ [CHR 0x27, CHR 0xE8, CHR 0x87, CHR 0xAA, CHR 0xE5, CHR 0xAE, CHR 0x9A, CHR 0xE4, CHR 0xB9, CHR 0x89, CHR 0xE5, CHR 0xA4, CHR 0xB4, CHR 0xE5, CHR 0x83, CHR 0x8F, CHR 0xE6, CHR 0xA0, CHR 0xBC, CHR 0xE5, CHR 0xBC, CHR 0x8F, CHR 0x27])
          (''varchar(6)''),
        mk_field (''f_gender'')
          (''int(2)  DEFAULT 0 COMMENT '' @ [CHR 0x27, CHR 0xE6, CHR 0x80, CHR 0xA7, CHR 0xE5, CHR 0x88, CHR 0xAB, CHR 0x27])
          (''int(2)''),
        mk_field (''f_birthday'')
          (''bigint(20)  DEFAULT 19900101 COMMENT '' @ [CHR 0x27, CHR 0xE7, CHR 0x94, CHR 0x9F, CHR 0xE6, CHR 0x97, CHR 0xA5, CHR 0x27])
          (''bigint(20)''),
        mk_field (''f_signature'')
          (''varchar(256) DEFAULT NULL COMMENT '' @ [CHR 0x27, CHR 0xE5, CHR 0x9C, CHR 0xB0, CHR 0xE5, CHR 0x9D, CHR 0x80, CHR 0x27])
          (''varchar(256)''),
        mk_field (''f_address'')
          (''varchar(256) DEFAULT NULL COMMENT '' @ [CHR 0x27, CHR 0xE5, CHR 0x9C, CHR 0xB0, CHR 0xE5, CHR 0x9D, CHR 0x80, CHR 0x27])
          (''varchar(256)''),
        mk_field (''f_phonenumber'')
          (''varchar(64) DEFAULT NULL COMMENT '' @ [CHR 0x27, CHR 0xE7, CHR 0x94, CHR 0xB5, CHR 0xE8, CHR 0xAF, CHR 0x9D, CHR 0x27])
          (''varchar(64)''),
        mk_field (''f_mail'')
          (''varchar(256) DEFAULT NULL COMMENT '' @ [CHR 0x27, CHR 0xE9, CHR 0x82, CHR 0xAE, CHR 0xE7, CHR 0xAE, CHR 0xB1, CHR 0x27])
          (''varchar(256)''),
        mk_field (''f_owner_id'')
          (''bigint(20) DEFAULT 0 COMMENT '' @ [CHR 0x27, CHR 0xE7, CHR 0xBE, CHR 0xA4, CHR 0xE8, CHR 0xB4, CHR 0xA6, CHR 0xE5, CHR 0x8F, CHR 0xB7, CHR 0xE7, CHR 0xBE, CHR 0xA4, CHR 0xE4, CHR 0xB8, CHR 0xBB] @ ''userid'' @ [CHR 0x27])
          (''bigint(20)''),
        mk_field (''f_register_time'')
          (''datetime NOT NULL COMMENT '' @ [CHR 0x27, CHR 0xE6, CHR 0xB3, CHR 0xA8, CHR 0xE5, CHR 0x86, CHR 0x8C, CHR 0xE6, CHR 0x97, CHR 0xB6, CHR 0xE9, CHR 0x97, CHR 0xB4, CHR 0x27])
          (''datetime''),
        mk_field (''f_remark'')
          (''varchar(64) NULL COMMENT '' @ [CHR 0x27, CHR 0xE5, CHR 0xA4, CHR 0x87, CHR 0xE6, CHR 0xB3, CHR 0xA8, CHR 0x27])
          (''varchar(64)''),
        mk_field (''f_update_time'')
          (''timestamp NOT NULL DEFAULT CURRENT_TIMESTAMP ON UPDATE CURRENT_TIMESTAMP COMMENT '' @ [CHR 0x27, CHR 0xE6, CHR 0x9B, CHR 0xB4, CHR 0xE6, CHR 0x96, CHR 0xB0, CHR 0xE6, CHR 0x97, CHR 0xB6, CHR 0xE9, CHR 0x97, CHR 0xB4, CHR 0x27])
          (''timestamp'')] [],
      sKey = ''PRIMARY KEY (f_user_id), INDEX f_user_id (f_user_id), KEY  f_id  ( f_id )''\<rparr>"

definition t_chatmsg_info :: sTableInfo where
  "t_chatmsg_info =
     \<lparr>tb_sName = ''t_chatmsg'',
      mapField = fold (\<lambda>f. map_put (fd_sName f) f) [
        mk_field (''f_id'')
          (''bigint(20) NOT NULL AUTO_INCREMENT COMMENT '' @ [CHR 0x27, CHR 0xE8, CHR 0x87, CHR 0xAA, CHR 0xE5, CHR 0xA2, CHR 0x9E] @ ''ID'' @ [CHR 0x27])
          (''bigint(20)''),
        mk_field (''f_senderid'')
          (''bigint(20) NOT NULL COMMENT '' @ [CHR 0x27, CHR 0xE5, CHR 0x8F, CHR 0x91, CHR 0xE9, CHR 0x80, CHR 0x81, CHR 0xE8, CHR 0x80, CHR 0x85] @ ''id'' @ [CHR 0x27])
          (''bigint(20)''),
        mk_field (''f_targetid'')
          (''bigint(20) NOT NULL COMMENT '' @ [CHR 0x27, CHR 0xE6, CHR 0x8E, CHR 0xA5, CHR 0xE6, CHR 0x94, CHR 0xB6, CHR 0xE8, CHR 0x80, CHR 0x85] @ ''id'' @ [CHR 0x27])
          (''bigint(20)''),
        mk_field (''f_msgcontent'')
          (''blob NOT NULL COMMENT '' @ [CHR 0x27, CHR 0xE8, CHR 0x81, CHR 0x8A, CHR 0xE5, CHR 0xA4, CHR 0xA9, CHR 0xE5, CHR 0x86, CHR 0x85, CHR 0xE5, CHR 0xAE, CHR 0xB9, CHR 0x27])
          (''blob''),
        mk_field (''f_create_time'')
          (''timestamp NOT NULL DEFAULT CURRENT_TIMESTAMP ON UPDATE CURRENT_TIMESTAMP COMMENT '' @ [CHR 0x27, CHR 0xE6, CHR 0x9B, CHR 0xB4, CHR 0xE6, CHR 0x96, CHR 0xB0, CHR 0xE6, CHR 0x97, CHR 0xB6, CHR 0xE9, CHR 0x97, CHR 0xB4, CHR 0x27])
          (''timestamp''),
        mk_field (''f_remark'')
          (''varchar(64) NULL COMMENT '' @ [CHR 0x27, CHR 0xE5, CHR 0xA4, CHR 0x87, CHR 0xE6, CHR 0xB3, CHR 0xA8, CHR 0x27])
          (''varchar(64)'')] [],
      sKey = ''PRIMARY KEY (f_id), INDEX f_id (f_id)''\<rparr>"

definition t_user_relationship_info :: sTableInfo where
  "t_user_relationship_info =
     \<lparr>tb_sName = ''t_user_relationship'',
      mapField = fold (\<lambda>f. map_put (fd_sName f) f) [
        mk_field (''f_id'')
          (''bigint(20) NOT NULL AUTO_INCREMENT COMMENT '' @ [CHR 0x27, CHR 0xE8, CHR 0x87, CHR 0xAA, CHR 0xE5, CHR 0xA2, CHR 0x9E] @ ''ID'' @ [CHR 0x27])
          (''bigint(20)''),
        mk_field (''f_user_id1'')
          (''bigint(20) NOT NULL COMMENT '' @ [CHR 0x27, CHR 0xE7, CHR 0x94, CHR 0xA8, CHR 0xE6, CHR 0x88, CHR 0xB7] @ ''ID'' @ [CHR 0x27])
          (''bigint(20)''),
        mk_field (''f_user_id2'')
          (''bigint(20) NOT NULL COMMENT '' @ [CHR 0x27, CHR 0xE7, CHR 0x94, CHR 0xA8, CHR 0xE6, CHR 0x88, CHR 0xB7] @ ''ID'' @ [CHR 0x27])
          (''bigint(20)''),
        mk_field (''f_remark'')
          (''varchar(64) NULL COMMENT '' @ [CHR 0x27, CHR 0xE5, CHR 0xA4, CHR 0x87, CHR 0xE6, CHR 0xB3, CHR 0xA8, CHR 0x27])
          (''varchar(64)''),
        mk_field (''f_create_time'')
          (''timestamp NOT NULL DEFAULT CURRENT_TIMESTAMP ON UPDATE CURRENT_TIMESTAMP COMMENT '' @ [CHR 0x27, CHR 0xE6, CHR 0x9B, CHR 0xB4, CHR 0xE6, CHR 0x96, CHR 0xB0, CHR 0xE6, CHR 0x97, CHR 0xB6, CHR 0xE9, CHR 0x97, CHR 0xB4, CHR 0x27])
          (''timestamp'')] [],
      sKey = ''PRIMARY KEY (f_id), INDEX f_id (f_id)''\<rparr>"

record 'm MySqlManager =
  m_mapTable :: "(string \<times> sTableInfo) list"
  mgr_mysql :: "'m MySQLTool option"

definition new_MySqlManager :: "'m MySqlManager" where
  "new_MySqlManager =
     \<lparr>m_mapTable = fold (\<lambda>info. map_insert (tb_sName info) info)
        [t_user_info, t_chatmsg_info, t_user_relationship_info] [],
      mgr_mysql = None\<rparr>"

definition mgr_Query ::
  "'m mysql_api \<Rightarrow> string \<Rightarrow> 'm MySqlManager \<Rightarrow> (QueryResult option \<times> 'm MySqlManager) res" where
  "mgr_Query api sql mgr =
     (case mgr_mysql mgr of
        None \<Rightarrow> Inr (None, mgr)
      | Some t \<Rightarrow> bindE (tool_Query api sql t) (\<lambda>(r, t'). Inr (r, mgr\<lparr>mgr_mysql := Some t'\<rparr>)))"

definition mgr_Execute :: "'m mysql_api \<Rightarrow> string \<Rightarrow> 'm MySqlManager \<Rightarrow> bool \<times> 'm MySqlManager" where
  "mgr_Execute api sql mgr =
     (case mgr_mysql mgr of
        None \<Rightarrow> (False, mgr)
      | Some t \<Rightarrow> let (ok, t') = tool_Execute api sql t in (ok, mgr\<lparr>mgr_mysql := Some t'\<rparr>))"

definition CheckDatabase :: "'m mysql_api \<Rightarrow> 'm MySqlManager \<Rightarrow> (bool \<times> 'm MySqlManager) res" where
  "CheckDatabase api mgr =
     (case mgr_mysql mgr of
        None \<Rightarrow> Inr (False, mgr)
      | Some t \<Rightarrow>
          bindE (tool_Query api ''show databases;'' t) (\<lambda>(result, t').
          let mgr' = mgr\<lparr>mgr_mysql := Some t'\<rparr>
          in case result of
               None \<Rightarrow> Inr (False, mgr')
             | Some q \<Rightarrow>
                 bindE (row_loop (\<lambda>pRow found.
                   bindE (row_field pRow 0) (\<lambda>f.
                   let hit = (GetString f = my_dbname t') in Inr (hit, hit))) q False) (\<lambda>found.
                 Inr (found, mgr'))))"

definition CreateDatabase :: "'m mysql_api \<Rightarrow> 'm MySqlManager \<Rightarrow> bool \<times> 'm MySqlManager" where
  "CreateDatabase api mgr =
     (case mgr_mysql mgr of
        None \<Rightarrow> (False, mgr)
      | Some t \<Rightarrow>
          let (ok, naffect, t') = tool_Execute3 api (''create database '' @ my_dbname t @ '';'') t;
              mgr' = mgr\<lparr>mgr_mysql := Some t'\<rparr>
          in if \<not> ok then (False, mgr') else (naffect = 1, mgr'))"

definition create_table_sql :: "sTableInfo \<Rightarrow> string" where
  "create_table_sql info =
     ''create table if not exists '' @ tb_sName info @ ''(''
     @ concat (map (\<lambda>(i, (k, field)). (if i \<noteq> 0 then '','' else []) @ fd_sName field @ '' '' @ fd_sType field)
         (enumerate (0 :: nat) (mapField info)))
     @ (if length (sKey info) > 0 then '','' @ sKey info else [])
     @ '') default charset=utf8mb4,ENGINE=InnoDB;''"

definition CreateTable :: "'m mysql_api \<Rightarrow> sTableInfo \<Rightarrow> 'm MySqlManager \<Rightarrow> bool \<times> 'm MySqlManager" where
  "CreateTable api info mgr =
     (case mgr_mysql mgr of
        None \<Rightarrow> (False, mgr)
      | Some t \<Rightarrow>
          if length (mapField info) = 0 then (False, mgr)
          else mgr_Execute api (create_table_sql info) mgr)"

fun alter_columns ::
  "'m mysql_api \<Rightarrow> string \<Rightarrow> sFieldInfo list \<Rightarrow> 'm MySqlManager \<Rightarrow> bool \<times> 'm MySqlManager" where
  "alter_columns api prefix [] mgr = (True, mgr)"
| "alter_columns api prefix (f # fs) mgr =
     (let (ok, mgr') = mgr_Execute api (prefix @ fd_sName f @ '' '' @ fd_sType f @ '';'') mgr
      in if \<not> ok then (False, mgr') else alter_columns api prefix fs mgr')"

text \<open>
  \<open>CheckTable\<close>: the columns the table lacks (\<open>rest\<close>) are added, those whose type differs
  (\<open>mapChange\<close>) are modified.
\<close>

definition check_row ::
  "sTableInfo \<Rightarrow> Field list \<Rightarrow> (string \<times> sFieldInfo) list \<times> (string \<times> sFieldInfo) list
    \<Rightarrow> (((string \<times> sFieldInfo) list \<times> (string \<times> sFieldInfo) list) \<times> bool) res" where
  "check_row info pRow = (\<lambda>(rest, mapChange).
     bindE (row_field pRow 0) (\<lambda>f0. bindE (row_field pRow 1) (\<lambda>f1.
     let name = GetString f0; tp = GetString f1
     in case map_of (mapField info) name of
          None \<Rightarrow> Inr ((rest, mapChange), False)
        | Some fi \<Rightarrow>
            Inr ((map_erase name rest, if fd_sType fi \<noteq> tp then map_insert name fi mapChange else mapChange),
                 False))))"

definition CheckTable ::
  "'m mysql_api \<Rightarrow> sTableInfo \<Rightarrow> 'm MySqlManager \<Rightarrow> (bool \<times> 'm MySqlManager) res" where
  "CheckTable api info mgr =
     (case mgr_mysql mgr of
        None \<Rightarrow> Inr (False, mgr)
      | Some t \<Rightarrow>
          bindE (tool_Query api (''desc '' @ tb_sName info @ '';'') t) (\<lambda>(result, t').
          let mgr' = mgr\<lparr>mgr_mysql := Some t'\<rparr>
          in case result of
               None \<Rightarrow> Inr (CreateTable api info mgr')
             | Some q \<Rightarrow>
                 bindE (row_loop (check_row info) q (mapField info, [])) (\<lambda>(rest, mapChange).
                 let (ok, mgr2) = alter_columns api (''alter table '' @ tb_sName info @ '' add column '')
                                    (map snd rest) mgr'
                 in if \<not> ok then Inr (False, mgr2)
                    else Inr (alter_columns api (''alter table '' @ tb_sName info @ '' modify column '')
                                (map snd mapChange) mgr2))))"

definition UpdateTable ::
  "'m mysql_api \<Rightarrow> sTableInfo \<Rightarrow> 'm MySqlManager \<Rightarrow> (bool \<times> 'm MySqlManager) res" where
  "UpdateTable api info mgr =
     bindE (CheckTable api info mgr) (\<lambda>(ok, mgr').
     if \<not> ok then Inr (CreateTable api info mgr') else Inr (True, mgr'))"

fun check_tables ::
  "'m mysql_api \<Rightarrow> sTableInfo list \<Rightarrow> 'm MySqlManager \<Rightarrow> (bool \<times> 'm MySqlManager) res" where
  "check_tables api [] mgr = Inr (True, mgr)"
| "check_tables api (info # infos) mgr =
     bindE (CheckTable api info mgr) (\<lambda>(ok, mgr1).
     if ok then check_tables api infos mgr1
     else let (ok2, mgr2) = CreateTable api info mgr1
          in if \<not> ok2 then Inr (False, mgr2) else check_tables api infos mgr2)"

definition mgr_Init ::
  "'m mysql_api \<Rightarrow> string \<Rightarrow> string \<Rightarrow> string \<Rightarrow> string \<Rightarrow> nat \<Rightarrow> 'm \<Rightarrow> 'm MySqlManager
    \<Rightarrow> (bool \<times> 'm MySqlManager) res" where
  "mgr_Init api host user passwd dbname port env mgr =
     (let (ok, t) = connect api host user passwd dbname port (new_MySQLTool env);
          mgr0 = mgr\<lparr>mgr_mysql := Some t\<rparr>
      in if \<not> ok then Inr (False, mgr0)
         else bindE (CheckDatabase api mgr0) (\<lambda>(found, mgr1).
           let (ok2, mgr2) = (if found then (True, mgr1) else CreateDatabase api mgr1)
           in if \<not> ok2 then Inr (False, mgr2)
              else check_tables api (map snd (m_mapTable mgr2)) mgr2))"

section \<open>What the row loops see\<close>

definition decode_row :: "(string \<times> enum_field_types) list \<Rightarrow> sql_row \<Rightarrow> Field list" where
  "decode_row cols row =
     map2 (\<lambda>(name, tp) val. SetValue val (new_Field\<lparr>m_type := toType tp, m_name := name\<rparr>)) cols row"

fun fold_rows :: "(Field list \<Rightarrow> 's \<Rightarrow> ('s \<times> bool) res) \<Rightarrow> Field list list \<Rightarrow> 's \<Rightarrow> 's res" where
  "fold_rows body [] s = Inr s"
| "fold_rows body (pRow # rows) s =
     bindE (body pRow s) (\<lambda>(s', leave). if leave then Inr s' else fold_rows body rows s')"

text \<open>The state of a result between rows: the current row decoded, the others still to come.\<close>

definition at_row :: "(string \<times> enum_field_types) list \<Rightarrow> sql_row \<Rightarrow> sql_row list \<Rightarrow> QueryResult \<Rightarrow> bool" where
  "at_row cols row rows q \<longleftrightarrow>
     row_storage q \<and> m_cloumncount q = length cols \<and> m_CurrentRow q = decode_row cols row
     \<and> length row = length cols \<and> (\<exists>r. m_result q = Some r \<and> res_rows r = rows)"

lemma length_decode_row [simp]: "length (decode_row cols row) = min (length cols) (length row)"
  by (simp add: decode_row_def)

lemma SetValue_SetValue [simp]: "SetValue v (SetValue u f) = SetValue v f"
  by (auto simp: SetValue_def split: option.splits)

lemma SetValue_decode_row:
  "length row = length cols \<Longrightarrow> length row' = length cols \<Longrightarrow>
     map2 SetValue row' (decode_row cols row) = decode_row cols row'"
  by (rule nth_equalityI) (auto simp: decode_row_def case_prod_beta)

lemma at_row_new:
  assumes "new_QueryResult (Some r) n (length (res_fields r)) = Inr q" "res_rows r = row # rows"
    "0 < length (res_fields r)" "length row = length (res_fields r)"
  shows "at_row (res_fields r) row rows q"
  using assms by (auto simp: new_QueryResult_def at_row_def decode_row_def Let_def case_prod_beta)

lemma row_loop_at_row:
  assumes "at_row cols row rows q" "\<forall>x \<in> set rows. length x = length cols"
  shows "row_loop body q s = fold_rows body (map (decode_row cols) (row # rows)) s"
  using assms
proof (induction rows arbitrary: row q s)
  case Nil
  then have "NextRow q = Inr (False, EndQuery q)"
    by (auto simp: at_row_def NextRow_def)
  with Nil show ?case
    by (cases "body (decode_row cols row) s")
       (auto simp: row_loop.simps [of body q] at_row_def Fetch_def)
next
  case (Cons row' rows)
  then obtain q' where q': "NextRow q = Inr (True, q')" "at_row cols row' rows q'"
    by (auto simp: at_row_def NextRow_def SetValue_decode_row)
  with Cons.IH [OF q'(2)] Cons.prems show ?case
    by (cases "body (decode_row cols row) s")
       (auto simp: row_loop.simps [of body q] at_row_def Fetch_def)
qed

lemma row_loop_empty:
  assumes "new_QueryResult (Some r) n (length (res_fields r)) = Inr q" "res_rows r = []"
    "0 < length (res_fields r)"
  shows "row_loop (\<lambda>pRow s. bindE (row_field pRow i) (\<lambda>f. k pRow f s)) q s = Inl UndefinedBehaviour"
proof -
  have "Fetch q = Some []"
    using assms by (auto simp: new_QueryResult_def Fetch_def EndQuery_def Let_def)
  then show ?thesis
    by (simp add: row_loop.simps [of _ q] row_field_def)
qed

text \<open>
  The loop the clients write over a query result visits every row of a non-empty result exactly
  once, in order, with the decoded fields; on an empty result the loop body runs once on a row whose
  fields have been destroyed, so a body that reads a field has undefined behaviour.
\<close>

theorem row_loop_visits_rows:
  assumes "0 < length (res_fields r)" and "\<forall>row \<in> set (res_rows r). length row = length (res_fields r)"
    and "new_QueryResult (Some r) n (length (res_fields r)) = Inr q"
  shows "(res_rows r \<noteq> [] \<longrightarrow>
            row_loop body q s = fold_rows body (map (decode_row (res_fields r)) (res_rows r)) s)
       \<and> (res_rows r = [] \<longrightarrow>
            row_loop (\<lambda>pRow s. bindE (row_field pRow i) (\<lambda>f. k pRow f s)) q s = Inl UndefinedBehaviour)"
proof (intro conjI impI)
  assume "res_rows r \<noteq> []"
  then obtain row rows where rr: "res_rows r = row # rows" by (cases "res_rows r") auto
  have "at_row (res_fields r) row rows q"
    using at_row_new [OF assms(3) rr assms(1)] assms(2) rr by simp
  from row_loop_at_row [OF this] assms(2) rr
  show "row_loop body q s = fold_rows body (map (decode_row (res_fields r)) (res_rows r)) s" by simp
qed (rule row_loop_empty [OF assms(3) _ assms(1)])

theorem row_loop_visits_rows_witness:
  "let r = \<lparr>res_fields = [(''f_id'', FIELD_TYPE_LONG)], res_rows = [[Some ''4''], [Some ''5'']]\<rparr>
   in \<exists>q. new_QueryResult (Some r) 2 1 = Inr q
      \<and> row_loop (\<lambda>pRow s. bindE (row_field pRow 0) (\<lambda>f. Inr (s @ [GetString f], False))) q []
          = Inr [''4'', ''5'']"
proof -
  let ?r = "\<lparr>res_fields = [(''f_id'', FIELD_TYPE_LONG)], res_rows = [[Some ''4''], [Some ''5'']]\<rparr>"
  obtain q where q: "new_QueryResult (Some ?r) 2 (length (res_fields ?r)) = Inr q"
    by (simp add: new_QueryResult_def Let_def)
  have "row_loop (\<lambda>pRow s. bindE (row_field pRow 0) (\<lambda>f. Inr (s @ [GetString f], False))) q []
      = fold_rows (\<lambda>pRow s. bindE (row_field pRow 0) (\<lambda>f. Inr (s @ [GetString f], False)))
          (map (decode_row (res_fields ?r)) (res_rows ?r)) []"
    using row_loop_visits_rows [OF _ _ q, of "\<lambda>pRow s. bindE (row_field pRow 0) (\<lambda>f. Inr (s @ [GetString f], False))" "[]"]
    by simp
  also have "\<dots> = Inr [''4'', ''5'']"
    by (simp add: decode_row_def row_field_def GetString_def SetValue_def)
  finally show ?thesis using q by (auto simp: Let_def)
qed

section \<open>Statements\<close>

text \<open>
  A statement is run again exactly when the first attempt fails because the server has gone away
  and the new connection succeeds: then the result is that of the second attempt; any other failure
  is reported after one attempt.
\<close>

theorem execute_retry:
  assumes "my_mysql t"
  shows "tool_Execute api sql t =
    (let (ok1, env1) = mysql_query api (c_str sql) (my_env t)
     in if ok1 then (True, t\<lparr>my_env := env1\<rparr>)
        else if mysql_errno api env1 \<noteq> CR_SERVER_GONE_ERROR then (False, t\<lparr>my_env := env1\<rparr>)
        else let (up, t2) = connect api (my_host t) (my_user t) (my_password t) (my_dbname t) 3306
                              (t\<lparr>my_env := env1\<rparr>)
             in if \<not> up then (False, t2)
                else let (ok2, env3) = mysql_query api (c_str sql) (my_env t2)
                     in (ok2, t2\<lparr>my_env := env3\<rparr>))"
  using assms
  by (simp add: tool_Execute_def tool_Execute3_def ensure_handle_def run_statement_def reconnect_def
      Let_def case_prod_beta)

text \<open>A database that answers every statement, for witnesses: its state counts the statements.\<close>

definition demo_api :: "nat mysql_api" where
  "demo_api = \<lparr>mysql_close = (\<lambda>n. n), mysql_real_connect = (\<lambda>h u p d port n. (True, n)),
     mysql_query = (\<lambda>sql n. (True, Suc n)), mysql_real_query = (\<lambda>sql n. (True, Suc n)),
     mysql_errno = (\<lambda>n. 0),
     mysql_store_result = (\<lambda>n. (Some \<lparr>res_fields = [(''f'', FIELD_TYPE_LONG)], res_rows = []\<rparr>, n)),
     mysql_affected_rows = (\<lambda>n. 1), mysql_field_count = (\<lambda>n. 1)\<rparr>"

theorem execute_retry_witness:
  "tool_Execute demo_api ''select 1'' ((new_MySQLTool 0)\<lparr>my_mysql := True\<rparr>)
     = (True, (new_MySQLTool 0)\<lparr>my_mysql := True, my_env := 1\<rparr>)"
  using execute_retry [of "(new_MySQLTool 0)\<lparr>my_mysql := True\<rparr>" demo_api "''select 1''"]
  by (simp add: demo_api_def new_MySQLTool_def)

section \<open>The schema check\<close>

definition all_tables :: "sTableInfo list" where
  "all_tables = [t_user_info, t_chatmsg_info, t_user_relationship_info]"

lemma column_types_differ:
  "\<forall>info \<in> set all_tables. \<forall>(k, f) \<in> set (mapField info). k = fd_sName f \<and> fd_sType f \<noteq> fd_sDesc f"
  by (simp add: all_tables_def t_user_info_def t_chatmsg_info_def t_user_relationship_info_def mk_field_def)

text \<open>
  \<open>CheckTable\<close> compares the type MySQL reports for a column with the full declaration
  (\<open>sType\<close>) instead of the bare type kept for that purpose (\<open>sDesc\<close>): for every column of every table,
  a row that reports exactly the expected type is still recorded as a change, so the column is
  modified at every start of the server.
\<close>

theorem up_to_date_column_is_modified:
  assumes "info \<in> set all_tables" and "map_of (mapField info) k = Some f"
    and "GetString f0 = k" and "GetString f1 = fd_sDesc f"
  shows "check_row info (f0 # f1 # fs) (rest, mapChange)
    = Inr ((map_erase k rest, map_insert k f mapChange), False)"
proof -
  have "fd_sType f \<noteq> fd_sDesc f"
    using assms(1,2) column_types_differ map_of_SomeD by fastforce
  with assms show ?thesis by (simp add: check_row_def row_field_def)
qed

theorem up_to_date_column_is_modified_witness:
  "\<exists>f. map_of (mapField t_chatmsg_info) ''f_senderid'' = Some f
     \<and> check_row t_chatmsg_info
         [new_Field\<lparr>m_value := ''f_senderid''\<rparr>, new_Field\<lparr>m_value := ''bigint(20)''\<rparr>] ([], [])
       = Inr (([], [(''f_senderid'', f)]), False)"
proof -
  obtain f where f: "map_of (mapField t_chatmsg_info) ''f_senderid'' = Some f" "fd_sDesc f = ''bigint(20)''"
    by (simp add: t_chatmsg_info_def mk_field_def)
  with up_to_date_column_is_modified [of t_chatmsg_info "''f_senderid''" f
      "new_Field\<lparr>m_value := ''f_senderid''\<rparr>" "new_Field\<lparr>m_value := ''bigint(20)''\<rparr>" "[]" "[]" "[]"]
  show ?thesis
    by (simp add: all_tables_def GetString_def map_erase_def map_insert_def)
qed

end
