(* ===== verification/Messages.thy ===== *)
theory Messages
  imports Prelude
begin

text \<open>
  \<open>im.proto\<close>: the messages of the protocol between clients and server, one record per message with the
  fields of the schema, and their default values. The classes \<open>protoc\<close> generates from the schema are
  not part of the repository: their \<open>ParseFromString\<close> and \<open>SerializeAsString\<close> are the fields of
  \<open>im_pb\<close>. A parse that fails gives \<open>None\<close>, except for \<open>ChatMsg\<close>, whose result the code uses without
  looking at the outcome.
\<close>

record MessageContainer =
  cmd :: int
  seq :: int
  target_id :: int
  targets :: string
  payload :: string

definition empty_MessageContainer :: MessageContainer where
  "empty_MessageContainer = \<lparr>cmd = 0, seq = 0, target_id = 0, targets = [], payload = []\<rparr>"

record CommonRsp =
  crsp_code :: int
  crsp_msg :: string

record UserInfo =
  ui_userid :: int
  ui_username :: string
  ui_nickname :: string
  ui_facetype :: int
  ui_customface :: string
  ui_gender :: int
  ui_birthday :: int
  ui_signature :: string
  ui_address :: string
  ui_phonenumber :: string
  ui_mail :: string
  ui_status :: int
  ui_clienttype :: int

record RegisterReq =
  rr_username :: string
  rr_nickname :: string
  rr_password :: string
  rr_email :: string
  rr_code :: string

record SendEmailCodeReq =
  se_email :: string

record SendEmailCodeRsp =
  sersp_code :: int
  sersp_msg :: string
  sersp_cooldown_seconds :: int

record LoginReq =
  lr_username :: string
  lr_password :: string
  lr_clienttype :: int
  lr_status :: int

record LoginRsp =
  lrsp_code :: int
  lrsp_msg :: string
  lrsp_user :: "UserInfo option"

record FriendListRsp =
  fl_code :: int
  fl_msg :: string
  fl_friends :: "UserInfo list"

record FindUserReq =
  fu_type :: string
  fu_keyword :: string

record FindUserRsp =
  fursp_code :: int
  fursp_msg :: string
  fursp_user :: "UserInfo option"

record OperateFriendReq =
  of_type :: int
  of_friendid :: int

record UserStatusChangeNotify =
  us_type :: int
  us_userid :: int
  us_customface :: string

record UpdateUserInfoReq =
  uu_nickname :: string
  uu_facetype :: int
  uu_customface :: string
  uu_gender :: int
  uu_birthday :: int
  uu_signature :: string
  uu_address :: string
  uu_phonenumber :: string
  uu_mail :: string

record ModifyPasswordReq =
  mp_oldpassword :: string
  mp_newpassword :: string

record CreateGroupReq =
  cg_groupname :: string

record CreateGroupRsp =
  cgrsp_code :: int
  cgrsp_msg :: string
  cgrsp_groupid :: int
  cgrsp_groupname :: string

record GetGroupMembersReq =
  gm_groupid :: int

record GetGroupMembersRsp =
  gmrsp_code :: int
  gmrsp_msg :: string
  gmrsp_members :: "UserInfo list"

record ChatMsg =
  cm_senderid :: int
  cm_targetid :: int
  cm_content :: string
  cm_timestamp :: int

record MultiChatTargets =
  mt_targets :: "int list"
  mt_content :: string

record AvatarUploadReq =
  au_image_data :: string
  au_format :: string

record AvatarUploadRsp =
  aursp_code :: int
  aursp_msg :: string
  aursp_url :: string

record ChatHistoryReq =
  ch_targetid :: int

record ChatHistoryRsp =
  chrsp_code :: int
  chrsp_msg :: string
  chrsp_targetid :: int
  chrsp_messages :: "ChatMsg list"

record im_pb =
  parse_MessageContainer :: "string \<Rightarrow> MessageContainer option"
  ser_MessageContainer :: "MessageContainer \<Rightarrow> string"
  parse_RegisterReq :: "string \<Rightarrow> RegisterReq option"
  parse_LoginReq :: "string \<Rightarrow> LoginReq option"
  parse_FindUserReq :: "string \<Rightarrow> FindUserReq option"
  parse_OperateFriendReq :: "string \<Rightarrow> OperateFriendReq option"
  parse_UpdateUserInfoReq :: "string \<Rightarrow> UpdateUserInfoReq option"
  parse_ModifyPasswordReq :: "string \<Rightarrow> ModifyPasswordReq option"
  parse_CreateGroupReq :: "string \<Rightarrow> CreateGroupReq option"
  parse_GetGroupMembersReq :: "string \<Rightarrow> GetGroupMembersReq option"
  parse_ChatHistoryReq :: "string \<Rightarrow> ChatHistoryReq option"
  parse_MultiChatTargets :: "string \<Rightarrow> MultiChatTargets option"
  parse_AvatarUploadReq :: "string \<Rightarrow> AvatarUploadReq option"
  parse_SendEmailCodeReq :: "string \<Rightarrow> SendEmailCodeReq option"
  parse_ChatMsg :: "string \<Rightarrow> bool \<times> ChatMsg"
  ser_ChatMsg :: "ChatMsg \<Rightarrow> string"
  ser_CommonRsp :: "CommonRsp \<Rightarrow> string"
  ser_LoginRsp :: "LoginRsp \<Rightarrow> string"
  ser_FriendListRsp :: "FriendListRsp \<Rightarrow> string"
  ser_FindUserRsp :: "FindUserRsp \<Rightarrow> string"
  ser_UserStatusChangeNotify :: "UserStatusChangeNotify \<Rightarrow> string"
  ser_CreateGroupRsp :: "CreateGroupRsp \<Rightarrow> string"
  ser_GetGroupMembersRsp :: "GetGroupMembersRsp \<Rightarrow> string"
  ser_ChatHistoryRsp :: "ChatHistoryRsp \<Rightarrow> string"
  ser_AvatarUploadRsp :: "AvatarUploadRsp \<Rightarrow> string"
  ser_SendEmailCodeRsp :: "SendEmailCodeRsp \<Rightarrow> string"

end
