(* ===== verification/Users.thy ===== *)
theory Users
  imports Database Messages
begin

text \<open>
  \<open>UserManager.h\<close>, \<open>UserManager.cpp\<close>: the users and groups, in memory and in the database. A
  \<open>UserPtr\<close> is an address of \<open>um_heap\<close>: the list \<open>m_cachedUsers\<close>, the map \<open>m_mapUsers\<close> and the sessions
  share the objects, as the comments of the source demand. The mutex makes each operation one
  step. The state holds the database manager (\<open>um_db\<close>), a singleton of its own in the source.

  \<open>users_inv\<close> is the invariant of the two indexes, \<open>ids_inv\<close> that of the two counters; \<open>friends_sym\<close>
  says that friendship is mutual, which includes that every friend is a known user. The locale
  \<open>friendship\<close> states what making and deleting friends promises; it is interpreted on the two
  operations of the manager. \<open>um_step\<close> is the relation of every operation that changes the manager.
\<close>

record user =
  userid :: int
  username :: string
  nickname :: string
  password :: string
  facetype :: int
  customface :: string
  customfacefmt :: string
  gender :: int
  birthday :: int
  signature :: string
  address :: string
  phonenumber :: string
  mail :: string
  status :: int
  ownerid :: int
  friends :: "int set"

definition new_User :: user where
  "new_User = \<lparr>userid = - 1, username = [], nickname = [], password = [], facetype = - 1,
     customface = [], customfacefmt = [], gender = - 1, birthday = - 1, signature = [], address = [],
     phonenumber = [], mail = [], status = 0, ownerid = - 1, friends = {}\<rparr>"

type_synonym UserPtr = nat

definition GROUPID_BOUNDARY :: int where
  "GROUPID_BOUNDARY = 0xFFFFFFF"

record 'm UserManager =
  um_heap :: "UserPtr \<Rightarrow> user"
  um_next :: UserPtr
  m_cachedUsers :: "UserPtr list"
  m_mapUsers :: "int \<Rightarrow> UserPtr option"
  m_baseUserID :: int
  m_baseGroupID :: int
  um_db :: "'m MySqlManager"

definition new_UserManager :: "'m MySqlManager \<Rightarrow> 'm UserManager" where
  "new_UserManager db = \<lparr>um_heap = (\<lambda>_. new_User), um_next = 0, m_cachedUsers = [],
     m_mapUsers = Map.empty, m_baseUserID = 0, m_baseGroupID = 0xFFFFFFF, um_db = db\<rparr>"

definition EscapeSqlString :: "string \<Rightarrow> string" where
  "EscapeSqlString str = concat (map (\<lambda>c. if c = CHR 0x27 then [CHR 0x27, CHR 0x27] else [c]) str)"

text \<open>A quoted SQL literal, as every statement of the file writes it.\<close>

definition quoted :: "string \<Rightarrow> string" where
  "quoted str = [CHR 0x27] @ EscapeSqlString str @ [CHR 0x27]"

definition um_Execute :: "'m mysql_api \<Rightarrow> string \<Rightarrow> 'm UserManager \<Rightarrow> bool \<times> 'm UserManager" where
  "um_Execute api sql um = (let (ok, db) = mgr_Execute api sql (um_db um) in (ok, um\<lparr>um_db := db\<rparr>))"

definition um_Query :: "'m mysql_api \<Rightarrow> string \<Rightarrow> 'm UserManager \<Rightarrow> (QueryResult option \<times> 'm UserManager) res" where
  "um_Query api sql um =
     bindE (mgr_Query api sql (um_db um)) (\<lambda>(r, db). Inr (r, um\<lparr>um_db := db\<rparr>))"

text \<open>\<open>make_shared<User>(u)\<close>, then both indexes.\<close>

definition share_user :: "user \<Rightarrow> 'm UserManager \<Rightarrow> 'm UserManager" where
  "share_user u um =
     um\<lparr>um_heap := (um_heap um)(um_next um := u), um_next := Suc (um_next um),
        m_cachedUsers := m_cachedUsers um @ [um_next um],
        m_mapUsers := (m_mapUsers um)(userid u \<mapsto> um_next um)\<rparr>"

definition update_user :: "UserPtr \<Rightarrow> (user \<Rightarrow> user) \<Rightarrow> 'm UserManager \<Rightarrow> 'm UserManager" where
  "update_user p f um = um\<lparr>um_heap := (um_heap um)(p := f (um_heap um p))\<rparr>"

section \<open>Registration\<close>

definition add_user_sql :: "int \<Rightarrow> user \<Rightarrow> string" where
  "add_user_sql uid u =
     ''INSERT INTO t_user (f_user_id, f_username, f_nickname, f_password, f_mail, f_register_time)''
     @ ''VALUES ('' @ show_int uid @ '', '' @ quoted (username u) @ '', ''
     @ quoted (nickname u) @ '', '' @ quoted (password u) @ '', ''
     @ quoted (mail u) @ '', NOW())''"

text \<open>The result: the returned value, the caller's \<open>User&\<close> and the manager.\<close>

definition AddUser :: "'m mysql_api \<Rightarrow> user \<Rightarrow> 'm UserManager \<Rightarrow> bool \<times> user \<times> 'm UserManager" where
  "AddUser api u um =
     (let um1 = um\<lparr>m_baseUserID := wrap32 (m_baseUserID um + 1)\<rparr>;
          (result, um2) = um_Execute api (add_user_sql (m_baseUserID um1) u) um1
      in if result = False then (False, u, um2)
         else let u' = u\<lparr>userid := m_baseUserID um2, facetype := 0, birthday := 20000101,
                         gender := 0, ownerid := 0\<rparr>
              in (True, u', share_user u' um2))"

definition add_group_sql :: "int \<Rightarrow> string \<Rightarrow> int \<Rightarrow> string" where
  "add_group_sql groupid groupname owner =
     ''INSERT INTO t_user (f_user_id, f_username, f_nickname, f_password, f_owner_id, f_register_time) VALUES (''
     @ show_int groupid @ '', '' @ quoted groupname @ '', ''
     @ quoted groupname @ '', '' @ [CHR 0x27, CHR 0x27] @ '', '' @ show_int owner @ '', NOW())''"

text \<open>\<open>groupname\<close> is a C string; the result is the returned value, \<open>groupid\<close> and the manager.\<close>

definition AddGroup :: "'m mysql_api \<Rightarrow> string \<Rightarrow> int \<Rightarrow> 'm UserManager \<Rightarrow> bool \<times> int \<times> 'm UserManager" where
  "AddGroup api groupname owner um =
     (let um1 = um\<lparr>m_baseGroupID := wrap32 (m_baseGroupID um + 1)\<rparr>;
          groupid = m_baseGroupID um1;
          (ok, um2) = um_Execute api (add_group_sql groupid groupname owner) um1
      in if \<not> ok then (False, groupid, um2)
         else let group = new_User\<lparr>userid := groupid, username := groupname, nickname := groupname,
                                    ownerid := owner, facetype := 0, gender := 0, birthday := 20000101\<rparr>
              in (True, groupid, share_user group um2))"

section \<open>Loading\<close>

definition load_users_sql :: string where
  "load_users_sql =
     ''SELECT f_user_id, f_username, f_nickname, f_password, f_facetype, f_customface,''
     @ '' f_gender, f_birthday, f_signature, f_address, f_phonenumber, f_mail FROM t_user ORDER BY f_user_id DESC''"

definition user_of_row :: "Field list \<Rightarrow> user res" where
  "user_of_row pRow =
     bindE (row_field pRow 0) (\<lambda>f0. bindE (row_field pRow 1) (\<lambda>f1. bindE (row_field pRow 2) (\<lambda>f2.
     bindE (row_field pRow 3) (\<lambda>f3. bindE (row_field pRow 4) (\<lambda>f4. bindE (row_field pRow 5) (\<lambda>f5.
     bindE (row_field pRow 6) (\<lambda>f6. bindE (row_field pRow 7) (\<lambda>f7. bindE (row_field pRow 8) (\<lambda>f8.
     bindE (row_field pRow 9) (\<lambda>f9. bindE (row_field pRow 10) (\<lambda>f10. bindE (row_field pRow 11) (\<lambda>f11.
     Inr (new_User\<lparr>userid := toInt32 f0, username := GetString f1, nickname := GetString f2,
       password := GetString f3, facetype := toInt32 f4, customface := GetString f5,
       gender := toInt32 f6, birthday := toInt32 f7, signature := GetString f8,
       address := GetString f9, phonenumber := GetString f10, mail := GetString f11\<rparr>)))))))))))))"

definition load_user :: "user \<Rightarrow> 'm UserManager \<Rightarrow> 'm UserManager" where
  "load_user u um =
     (let um1 = share_user u um;
          um2 = (if userid u < 0xFFFFFFF \<and> m_baseUserID um1 < userid u
                 then um1\<lparr>m_baseUserID := userid u\<rparr> else um1)
      in if userid u \<ge> 0xFFFFFFF \<and> m_baseGroupID um2 < userid u
         then um2\<lparr>m_baseGroupID := userid u\<rparr> else um2)"

definition LoadUserFromDB :: "'m mysql_api \<Rightarrow> 'm UserManager \<Rightarrow> (bool \<times> 'm UserManager) res" where
  "LoadUserFromDB api um =
     bindE (um_Query api load_users_sql um) (\<lambda>(result, um1).
     case result of
       None \<Rightarrow> Inr (False, um1)
     | Some q \<Rightarrow>
         bindE (row_loop (\<lambda>pRow um. bindE (user_of_row pRow) (\<lambda>u. Inr (load_user u um, False))) q um1)
           (\<lambda>um2. Inr (True, um2)))"

definition load_relationship_sql :: "int \<Rightarrow> string" where
  "load_relationship_sql uid =
     ''SELECT f_user_id1, f_user_id2 FROM t_user_relationship WHERE f_user_id1 = '' @ show_int uid
     @ '' OR f_user_id2 = '' @ show_int uid @ '' ;''"

definition relationship_row :: "int \<Rightarrow> Field list \<Rightarrow> int set \<Rightarrow> (int set \<times> bool) res" where
  "relationship_row uid pRow fs =
     bindE (row_field pRow 0) (\<lambda>f0. bindE (row_field pRow 1) (\<lambda>f1.
     let friendid1 = toInt32 f0; friendid2 = toInt32 f1
     in Inr (if friendid1 = uid then insert friendid2 fs
             else if friendid2 = uid then insert friendid1 fs else fs, False)))"

definition LoadRelationshipFromDB ::
  "'m mysql_api \<Rightarrow> int \<Rightarrow> int set \<Rightarrow> 'm UserManager \<Rightarrow> (bool \<times> int set \<times> 'm UserManager) res" where
  "LoadRelationshipFromDB api uid fs um =
     bindE (um_Query api (load_relationship_sql uid) um) (\<lambda>(result, um1).
     case result of
       None \<Rightarrow> Inr (False, fs, um1)
     | Some q \<Rightarrow> bindE (row_loop (relationship_row uid) q fs) (\<lambda>fs'. Inr (True, fs', um1)))"

fun load_relationships :: "'m mysql_api \<Rightarrow> UserPtr list \<Rightarrow> 'm UserManager \<Rightarrow> 'm UserManager res" where
  "load_relationships api [] um = Inr um"
| "load_relationships api (p # ps) um =
     bindE (LoadRelationshipFromDB api (userid (um_heap um p)) (friends (um_heap um p)) um) (\<lambda>(ok, fs, um1).
     load_relationships api ps (update_user p (\<lambda>u. u\<lparr>friends := fs\<rparr>) um1))"

definition um_init :: "'m mysql_api \<Rightarrow> 'm UserManager \<Rightarrow> (bool \<times> 'm UserManager) res" where
  "um_init api um =
     bindE (LoadUserFromDB api um) (\<lambda>(ok, um1).
     if \<not> ok then Inr (False, um1)
     else bindE (load_relationships api (m_cachedUsers um1) um1) (\<lambda>um2. Inr (True, um2)))"

section \<open>Lookups\<close>

text \<open>\<open>None\<close> is the value \<open>false\<close>: then the caller's pointer keeps its value.\<close>

definition GetUserInfoUsername :: "string \<Rightarrow> 'm UserManager \<Rightarrow> UserPtr option" where
  "GetUserInfoUsername name um = find (\<lambda>p. username (um_heap um p) = name) (m_cachedUsers um)"

definition GetFriendInfoByUserID :: "int \<Rightarrow> UserPtr list \<Rightarrow> 'm UserManager \<Rightarrow> bool \<times> UserPtr list" where
  "GetFriendInfoByUserID uid fs um =
     (case m_mapUsers um uid of
        None \<Rightarrow> (False, fs)
      | Some p \<Rightarrow> (True, fs @ List.map_filter (m_mapUsers um) (sorted_list_of_set (friends (um_heap um p)))))"

definition GetUserByID :: "int \<Rightarrow> 'm UserManager \<Rightarrow> UserPtr option" where
  "GetUserByID uid um = m_mapUsers um uid"

section \<open>Friendship\<close>

definition make_friend_sql :: "int \<Rightarrow> int \<Rightarrow> string" where
  "make_friend_sql smallid greatid =
     ''INSERT INTO t_user_relationship(f_user_id1, f_user_id2) VALUES('' @ show_int smallid @ '', ''
     @ show_int greatid @ '')''"

definition MakeFriendRelationship :: "'m mysql_api \<Rightarrow> int \<Rightarrow> int \<Rightarrow> 'm UserManager \<Rightarrow> bool \<times> 'm UserManager" where
  "MakeFriendRelationship api smallid greatid um =
     (if smallid \<ge> greatid then (False, um)
      else let (ok, um1) = um_Execute api (make_friend_sql smallid greatid) um
           in if \<not> ok then (False, um1)
              else case m_mapUsers um1 smallid of
                     None \<Rightarrow> (False, um1)
                   | Some p \<Rightarrow>
                       let um2 = update_user p (\<lambda>u. u\<lparr>friends := insert greatid (friends u)\<rparr>) um1
                       in case m_mapUsers um2 greatid of
                            None \<Rightarrow> (False, um2)
                          | Some p' \<Rightarrow>
                              (True, update_user p' (\<lambda>u. u\<lparr>friends := insert smallid (friends u)\<rparr>) um2))"

definition erase_friend :: "int \<Rightarrow> int \<Rightarrow> 'm UserManager \<Rightarrow> 'm UserManager" where
  "erase_friend uid friendid um =
     (case m_mapUsers um uid of
        None \<Rightarrow> um
      | Some p \<Rightarrow> update_user p (\<lambda>u. u\<lparr>friends := friends u - {friendid}\<rparr>) um)"

definition release_friend_sql :: "int \<Rightarrow> int \<Rightarrow> string" where
  "release_friend_sql smallid greatid =
     ''DELETE FROM t_user_relationship WHERE f_user_id1 = '' @ show_int smallid
     @ '' AND f_user_id2 = '' @ show_int greatid"

definition ReleaseFriendRelationship :: "'m mysql_api \<Rightarrow> int \<Rightarrow> int \<Rightarrow> 'm UserManager \<Rightarrow> bool \<times> 'm UserManager" where
  "ReleaseFriendRelationship api smallid greatid um =
     (if smallid \<ge> greatid then (False, um)
      else let (ok, um1) = um_Execute api (release_friend_sql smallid greatid) um
           in if \<not> ok then (False, um1)
              else (True, erase_friend greatid smallid (erase_friend smallid greatid um1)))"

definition DeleteFriendToUser :: "'m mysql_api \<Rightarrow> int \<Rightarrow> int \<Rightarrow> 'm UserManager \<Rightarrow> bool \<times> 'm UserManager" where
  "DeleteFriendToUser api uid friendid um =
     (let smallid = (if uid < friendid then uid else friendid);
          greatid = (if uid < friendid then friendid else uid);
          (ok, um1) = um_Execute api (release_friend_sql smallid greatid) um
      in if \<not> ok then (False, um1)
         else (True, erase_friend friendid uid (erase_friend uid friendid um1)))"

section \<open>Changing a user\<close>

definition update_user_sql :: "int \<Rightarrow> user \<Rightarrow> string" where
  "update_user_sql uid u =
     ''UPDATE t_user SET ''
     @ ''f_nickname = '' @ quoted (nickname u) @ '', ''
     @ ''f_facetype = '' @ show_int (facetype u) @ '', ''
     @ ''f_customface = '' @ quoted (customface u) @ '', ''
     @ ''f_gender = '' @ show_int (gender u) @ '', ''
     @ ''f_birthday = '' @ show_int (birthday u) @ '', ''
     @ ''f_signature = '' @ quoted (signature u) @ '', ''
     @ ''f_address = '' @ quoted (address u) @ '', ''
     @ ''f_phonenumber = '' @ quoted (phonenumber u) @ '', ''
     @ ''f_mail = '' @ quoted (mail u) @ '' ''
     @ ''WHERE f_user_id = '' @ show_int uid"

text \<open>The nine fields a profile update carries.\<close>

definition copy_info :: "user \<Rightarrow> user \<Rightarrow> user" where
  "copy_info new u = u\<lparr>nickname := nickname new, facetype := facetype new, customface := customface new,
     gender := gender new, birthday := birthday new, signature := signature new,
     address := address new, phonenumber := phonenumber new, mail := mail new\<rparr>"

definition UpdateUserInfo :: "'m mysql_api \<Rightarrow> int \<Rightarrow> user \<Rightarrow> 'm UserManager \<Rightarrow> bool \<times> 'm UserManager" where
  "UpdateUserInfo api uid new um =
     (let (ok, um1) = um_Execute api (update_user_sql uid new) um
      in if \<not> ok then (False, um1)
         else (True, case m_mapUsers um1 uid of
                       None \<Rightarrow> um1 | Some p \<Rightarrow> update_user p (copy_info new) um1))"

definition modify_password_sql :: "int \<Rightarrow> string \<Rightarrow> string" where
  "modify_password_sql uid pw =
     ''UPDATE t_user SET f_password = '' @ quoted pw @ '' WHERE f_user_id = '' @ show_int uid"

definition ModifyUserPassword :: "'m mysql_api \<Rightarrow> int \<Rightarrow> string \<Rightarrow> 'm UserManager \<Rightarrow> bool \<times> 'm UserManager" where
  "ModifyUserPassword api uid pw um =
     (let (ok, um1) = um_Execute api (modify_password_sql uid pw) um
      in if \<not> ok then (False, um1)
         else (True, case m_mapUsers um1 uid of
                       None \<Rightarrow> um1 | Some p \<Rightarrow> update_user p (\<lambda>u. u\<lparr>password := pw\<rparr>) um1))"

section \<open>Chat messages\<close>

definition save_chat_sql :: "int \<Rightarrow> int \<Rightarrow> string \<Rightarrow> string" where
  "save_chat_sql senderid targetid msg =
     ''INSERT INTO t_chatmsg (f_senderid, f_targetid, f_msgcontent, f_createtime) VALUES (''
     @ show_int senderid @ '', '' @ show_int targetid @ '', ''
     @ quoted msg @ '', NOW())''"

definition SaveChatMsgToDb :: "'m mysql_api \<Rightarrow> int \<Rightarrow> int \<Rightarrow> string \<Rightarrow> 'm UserManager \<Rightarrow> bool \<times> 'm UserManager" where
  "SaveChatMsgToDb api senderid targetid msg um = um_Execute api (save_chat_sql senderid targetid msg) um"

definition chat_history_sql :: "int \<Rightarrow> int \<Rightarrow> int \<Rightarrow> string" where
  "chat_history_sql uid targetid limit =
     (if targetid \<ge> 0xFFFFFFF
      then ''SELECT f_senderid, f_targetid, f_msgcontent, UNIX_TIMESTAMP(f_createtime) FROM t_chatmsg ''
           @ ''WHERE f_targetid = '' @ show_int targetid @ '' ORDER BY f_createtime DESC LIMIT '' @ show_int limit
      else ''SELECT f_senderid, f_targetid, f_msgcontent, UNIX_TIMESTAMP(f_createtime) FROM t_chatmsg ''
           @ ''WHERE (f_senderid = '' @ show_int uid @ '' AND f_targetid = '' @ show_int targetid @ '') ''
           @ ''OR (f_senderid = '' @ show_int targetid @ '' AND f_targetid = '' @ show_int uid @ '') ''
           @ ''ORDER BY f_createtime DESC LIMIT '' @ show_int limit)"

definition history_row :: "Field list \<Rightarrow> ChatMsg list \<Rightarrow> (ChatMsg list \<times> bool) res" where
  "history_row pRow msgs =
     bindE (row_field pRow 0) (\<lambda>f0. bindE (row_field pRow 1) (\<lambda>f1.
     bindE (row_field pRow 2) (\<lambda>f2. bindE (row_field pRow 3) (\<lambda>f3.
     Inr (msgs @ [\<lparr>cm_senderid = toInt32 f0, cm_targetid = toInt32 f1, cm_content = GetString f2,
                   cm_timestamp = toInt64 f3\<rparr>], False)))))"

definition GetChatHistory ::
  "'m mysql_api \<Rightarrow> int \<Rightarrow> int \<Rightarrow> ChatMsg list \<Rightarrow> int \<Rightarrow> 'm UserManager
    \<Rightarrow> (bool \<times> ChatMsg list \<times> 'm UserManager) res" where
  "GetChatHistory api uid targetid msgs limit um =
     bindE (um_Query api (chat_history_sql uid targetid limit) um) (\<lambda>(result, um1).
     case result of
       None \<Rightarrow> Inr (False, msgs, um1)
     | Some q \<Rightarrow> bindE (row_loop history_row q msgs) (\<lambda>msgs'. Inr (True, msgs', um1)))"

section \<open>The two indexes\<close>

definition users_inv :: "'m UserManager \<Rightarrow> bool" where
  "users_inv um \<longleftrightarrow>
     distinct (m_cachedUsers um) \<and> (\<forall>p \<in> set (m_cachedUsers um). p < um_next um)
     \<and> (\<forall>uid p. m_mapUsers um uid = Some p \<longleftrightarrow> p \<in> set (m_cachedUsers um) \<and> userid (um_heap um p) = uid)"

definition known :: "'m UserManager \<Rightarrow> int \<Rightarrow> bool" where
  "known um uid \<longleftrightarrow> m_mapUsers um uid \<noteq> None"

text \<open>Identifiers stay below the two counters, which stay on their sides of the boundary.\<close>

definition ids_inv :: "'m UserManager \<Rightarrow> bool" where
  "ids_inv um \<longleftrightarrow>
     0 \<le> m_baseUserID um \<and> m_baseUserID um < GROUPID_BOUNDARY
     \<and> GROUPID_BOUNDARY \<le> m_baseGroupID um \<and> m_baseGroupID um < 2 ^ 31
     \<and> (\<forall>uid. known um uid \<and> uid < GROUPID_BOUNDARY \<longrightarrow> uid \<le> m_baseUserID um)
     \<and> (\<forall>uid. known um uid \<longrightarrow> uid \<le> m_baseGroupID um)"

text \<open>The object of an identifier, and the friendship its set of friends records.\<close>

definition user_of :: "'m UserManager \<Rightarrow> int \<Rightarrow> user option" where
  "user_of um uid = map_option (um_heap um) (m_mapUsers um uid)"

definition is_friend :: "'m UserManager \<Rightarrow> int \<Rightarrow> int \<Rightarrow> bool" where
  "is_friend um a b \<longleftrightarrow> (\<exists>u. user_of um a = Some u \<and> b \<in> friends u)"

definition friends_sym :: "'m UserManager \<Rightarrow> bool" where
  "friends_sym um \<longleftrightarrow> (\<forall>a b. is_friend um a b \<longrightarrow> is_friend um b a)"

lemma um_Execute_eq:
  "um_Execute api sql um = (ok, um1) \<Longrightarrow> \<exists>db. um1 = um\<lparr>um_db := db\<rparr>"
  by (auto simp: um_Execute_def split: prod.splits)

lemma db_invisible [simp]:
  "users_inv (um\<lparr>um_db := db\<rparr>) = users_inv um" "ids_inv (um\<lparr>um_db := db\<rparr>) = ids_inv um"
  "user_of (um\<lparr>um_db := db\<rparr>) uid = user_of um uid" "known (um\<lparr>um_db := db\<rparr>) uid = known um uid"
  "is_friend (um\<lparr>um_db := db\<rparr>) a b = is_friend um a b"
  by (simp_all add: users_inv_def ids_inv_def user_of_def known_def is_friend_def)

lemma base_invisible [simp]:
  "users_inv (um\<lparr>m_baseUserID := n\<rparr>) = users_inv um" "users_inv (um\<lparr>m_baseGroupID := n\<rparr>) = users_inv um"
  "user_of (um\<lparr>m_baseUserID := n\<rparr>) uid = user_of um uid"
  "user_of (um\<lparr>m_baseGroupID := n\<rparr>) uid = user_of um uid"
  "known (um\<lparr>m_baseUserID := n\<rparr>) uid = known um uid"
  "known (um\<lparr>m_baseGroupID := n\<rparr>) uid = known um uid"
  by (simp_all add: users_inv_def user_of_def known_def)

lemma share_user_inv:
  assumes "users_inv um" "\<not> known um (userid u)"
  shows "users_inv (share_user u um)"
  using assms by (auto simp: users_inv_def share_user_def known_def)

lemma user_of_share [simp]:
  assumes "users_inv um"
  shows "user_of (share_user u um) uid = (if uid = userid u then Some u else user_of um uid)"
proof -
  have "m_mapUsers um uid \<noteq> Some (um_next um)"
    using assms by (auto simp: users_inv_def)
  then show ?thesis by (auto simp: user_of_def share_user_def map_option_case split: option.splits)
qed

lemma known_user_of: "known um uid \<longleftrightarrow> user_of um uid \<noteq> None"
  by (simp add: known_def user_of_def)

lemma known_share [simp]: "users_inv um \<Longrightarrow> known (share_user u um) uid \<longleftrightarrow> uid = userid u \<or> known um uid"
  by (simp add: known_user_of)

lemma update_user_inv:
  assumes "users_inv um" "\<And>u. userid (f u) = userid u"
  shows "users_inv (update_user p f um)"
proof -
  have "userid (um_heap (update_user p f um) q) = userid (um_heap um q)" for q
    using assms(2) by (simp add: update_user_def)
  with assms(1) show ?thesis by (simp add: users_inv_def) (simp add: update_user_def)
qed

lemma m_mapUsers_update [simp]: "m_mapUsers (update_user p f um) = m_mapUsers um"
  by (simp add: update_user_def)

lemma user_of_update:
  assumes "users_inv um" "m_mapUsers um a = Some p"
  shows "user_of (update_user p f um) uid = (if uid = a then map_option f (user_of um a) else user_of um uid)"
proof -
  have "m_mapUsers um uid = Some p \<Longrightarrow> uid = a"
    using assms by (auto simp: users_inv_def)
  then show ?thesis
    using assms(2) by (cases "m_mapUsers um uid") (auto simp: user_of_def update_user_def)
qed

lemma known_update [simp]: "known (update_user p f um) uid = known um uid"
  by (simp add: known_def)

lemma users_inv_userid: "users_inv um \<Longrightarrow> user_of um uid = Some u \<Longrightarrow> userid u = uid"
  by (auto simp: users_inv_def user_of_def)

lemma ids_inv_update [simp]: "ids_inv (update_user p f um) = ids_inv um"
  by (simp add: ids_inv_def update_user_def known_def)

lemma ids_inv_fresh:
  assumes "ids_inv um"
  shows "m_baseUserID um + 1 < GROUPID_BOUNDARY \<Longrightarrow> \<not> known um (m_baseUserID um + 1)"
    and "\<not> known um (m_baseGroupID um + 1)"
  using assms by (force simp: ids_inv_def)+

lemma ids_inv_base:
  assumes "ids_inv um"
  shows "m_baseUserID um + 1 < GROUPID_BOUNDARY \<Longrightarrow> ids_inv (um\<lparr>m_baseUserID := m_baseUserID um + 1\<rparr>)"
    and "m_baseGroupID um + 1 < 2 ^ 31 \<Longrightarrow> ids_inv (um\<lparr>m_baseGroupID := m_baseGroupID um + 1\<rparr>)"
  using assms by (force simp: ids_inv_def known_def)+

lemma ids_inv_share:
  assumes "ids_inv um" "userid u \<le> (if userid u < GROUPID_BOUNDARY then m_baseUserID um else m_baseGroupID um)"
  shows "ids_inv (share_user u um)"
  using assms by (auto simp: ids_inv_def share_user_def known_def split: if_splits)

lemma share_user_bases [simp]:
  "m_baseUserID (share_user u um) = m_baseUserID um" "m_baseGroupID (share_user u um) = m_baseGroupID um"
  by (simp_all add: share_user_def)

subsection \<open>The lemma on each operation\<close>

lemma AddUser_spec:
  assumes inv: "users_inv um" "ids_inv um" and room: "m_baseUserID um + 1 < GROUPID_BOUNDARY"
    and run: "AddUser api u um = (ok, u', um')"
  shows "\<not> known um (m_baseUserID um + 1) \<and> users_inv um' \<and> ids_inv um'
    \<and> m_baseUserID um' = m_baseUserID um + 1
    \<and> (ok \<longrightarrow> u' = u\<lparr>userid := m_baseUserID um + 1, facetype := 0, birthday := 20000101, gender := 0, ownerid := 0\<rparr>
        \<and> (\<forall>uid. user_of um' uid = (if uid = m_baseUserID um + 1 then Some u' else user_of um uid)))
    \<and> (\<not> ok \<longrightarrow> (\<forall>uid. user_of um' uid = user_of um uid))"
proof -
  have wrap: "wrap32 (m_baseUserID um + 1) = m_baseUserID um + 1"
    using inv(2) room by (intro wrap32_id) (simp add: ids_inv_def is_int32_def GROUPID_BOUNDARY_def)
  have fresh: "\<not> known um (m_baseUserID um + 1)"
    using ids_inv_fresh(1) [OF inv(2) room] .
  let ?um1 = "um\<lparr>m_baseUserID := m_baseUserID um + 1\<rparr>"
  obtain ok1 um2 where ex: "um_Execute api (add_user_sql (m_baseUserID um + 1) u) ?um1 = (ok1, um2)"
    by fastforce
  then obtain db where um2: "um2 = ?um1\<lparr>um_db := db\<rparr>"
    using um_Execute_eq by blast
  have ids: "ids_inv um2"
    using ids_inv_base [OF inv(2)] room by (simp add: um2)
  have users: "users_inv um2"
    using inv(1) by (simp add: um2)
  show ?thesis
  proof (cases ok1)
    case False
    with run ex wrap have "um' = um2" "\<not> ok" by (auto simp: AddUser_def Let_def)
    with fresh ids users show ?thesis by (simp add: um2)
  next
    case True
    define v where "v = u\<lparr>userid := m_baseUserID um + 1, facetype := 0, birthday := 20000101,
      gender := 0, ownerid := 0\<rparr>"
    have res: "um' = share_user v um2" "u' = v" "ok"
      using run ex wrap True by (auto simp: AddUser_def Let_def um2 v_def)
    have "users_inv (share_user v um2)"
      using fresh users by (intro share_user_inv) (simp_all add: v_def um2)
    moreover have "ids_inv (share_user v um2)"
      using ids room by (intro ids_inv_share) (simp_all add: v_def um2)
    ultimately show ?thesis
      using fresh users res by (simp add: um2 v_def)
  qed
qed

lemma AddGroup_spec:
  assumes inv: "users_inv um" "ids_inv um" and room: "m_baseGroupID um + 1 < 2 ^ 31"
    and run: "AddGroup api name owner um = (ok, gid, um')"
  shows "gid = m_baseGroupID um + 1 \<and> \<not> known um gid \<and> users_inv um' \<and> ids_inv um'
    \<and> m_baseGroupID um' = gid \<and> m_baseUserID um' = m_baseUserID um
    \<and> (ok \<longrightarrow> (\<exists>g. userid g = gid \<and> username g = name \<and> nickname g = name \<and> ownerid g = owner
          \<and> friends g = {} \<and> (\<forall>uid. user_of um' uid = (if uid = gid then Some g else user_of um uid))))
    \<and> (\<not> ok \<longrightarrow> (\<forall>uid. user_of um' uid = user_of um uid))"
proof -
  have wrap: "wrap32 (m_baseGroupID um + 1) = m_baseGroupID um + 1"
    using inv(2) room by (intro wrap32_id) (simp add: ids_inv_def is_int32_def GROUPID_BOUNDARY_def)
  have fresh: "\<not> known um (m_baseGroupID um + 1)"
    using ids_inv_fresh(2) [OF inv(2)] .
  let ?um1 = "um\<lparr>m_baseGroupID := m_baseGroupID um + 1\<rparr>"
  obtain ok1 um2 where ex: "um_Execute api (add_group_sql (m_baseGroupID um + 1) name owner) ?um1 = (ok1, um2)"
    by fastforce
  then obtain db where um2: "um2 = ?um1\<lparr>um_db := db\<rparr>"
    using um_Execute_eq by blast
  have ids: "ids_inv um2"
    using ids_inv_base(2) [OF inv(2) room] by (simp add: um2)
  have users: "users_inv um2"
    using inv(1) by (simp add: um2)
  show ?thesis
  proof (cases ok1)
    case False
    with run ex wrap have "um' = um2" "\<not> ok" "gid = m_baseGroupID um + 1"
      by (auto simp: AddGroup_def Let_def)
    with fresh ids users show ?thesis by (simp add: um2)
  next
    case True
    define g where "g = new_User\<lparr>userid := m_baseGroupID um + 1, username := name, nickname := name,
      ownerid := owner, facetype := 0, gender := 0, birthday := 20000101\<rparr>"
    have res: "um' = share_user g um2" "gid = m_baseGroupID um + 1" "ok"
      using run ex wrap True by (auto simp: AddGroup_def Let_def um2 g_def)
    have "users_inv (share_user g um2)"
      using fresh users by (intro share_user_inv) (simp_all add: g_def um2)
    moreover have "ids_inv (share_user g um2)"
      using ids inv(2) by (intro ids_inv_share) (simp_all add: g_def um2 ids_inv_def)
    moreover have "userid g = gid \<and> username g = name \<and> nickname g = name \<and> ownerid g = owner \<and> friends g = {}"
      by (simp add: g_def res new_User_def)
    ultimately show ?thesis
      using fresh users res by (auto simp: um2)
  qed
qed

text \<open>An update of the objects that keeps identifiers, through the map.\<close>

definition modify :: "int \<Rightarrow> (user \<Rightarrow> user) \<Rightarrow> 'm UserManager \<Rightarrow> 'm UserManager" where
  "modify uid f um = (case m_mapUsers um uid of None \<Rightarrow> um | Some p \<Rightarrow> update_user p f um)"

lemma modify_inv:
  assumes "users_inv um" "\<And>u. userid (f u) = userid u"
  shows "users_inv (modify uid f um)"
  using assms update_user_inv by (auto simp: modify_def split: option.split)

lemma modify_simps [simp]:
  "ids_inv (modify uid f um) = ids_inv um" "known (modify uid f um) = known um"
  "m_baseUserID (modify uid f um) = m_baseUserID um" "m_baseGroupID (modify uid f um) = m_baseGroupID um"
  "m_mapUsers (modify uid f um) = m_mapUsers um"
  by (auto simp: modify_def fun_eq_iff update_user_def known_def ids_inv_def split: option.split)

lemma user_of_modify:
  "users_inv um \<Longrightarrow> user_of (modify a f um) uid = (if uid = a then map_option f (user_of um a) else user_of um uid)"
  using user_of_update [of um a]
  by (cases "m_mapUsers um a") (simp add: modify_def user_of_def, simp add: modify_def)

lemma erase_friend_modify: "erase_friend uid fid = modify uid (\<lambda>u. u\<lparr>friends := friends u - {fid}\<rparr>)"
  by (simp add: fun_eq_iff erase_friend_def modify_def)

text \<open>The two orders of identifiers the clients pass.\<close>

definition make_friends :: "'m mysql_api \<Rightarrow> int \<Rightarrow> int \<Rightarrow> 'm UserManager \<Rightarrow> bool \<times> 'm UserManager" where
  "make_friends api a b = MakeFriendRelationship api (min a b) (max a b)"

lemma MakeFriendRelationship_known:
  assumes "users_inv um" "known um a" "known um b" "a < b"
    and "MakeFriendRelationship api a b um = (ok, um')"
  shows "\<exists>db. um' = (if ok then modify b (\<lambda>u. u\<lparr>friends := insert a (friends u)\<rparr>)
    (modify a (\<lambda>u. u\<lparr>friends := insert b (friends u)\<rparr>) (um\<lparr>um_db := db\<rparr>)) else um\<lparr>um_db := db\<rparr>)"
proof -
  obtain ok1 um1 where ex: "um_Execute api (make_friend_sql a b) um = (ok1, um1)" by fastforce
  then obtain db where um1: "um1 = um\<lparr>um_db := db\<rparr>" using um_Execute_eq by blast
  with assms ex show ?thesis
    by (intro exI [of _ db])
       (auto simp: MakeFriendRelationship_def modify_def known_def split: if_splits)
qed

lemma DeleteFriendToUser_eq:
  assumes "DeleteFriendToUser api a b um = (ok, um')"
  shows "\<exists>db. um' = (if ok then modify b (\<lambda>u. u\<lparr>friends := friends u - {a}\<rparr>)
    (modify a (\<lambda>u. u\<lparr>friends := friends u - {b}\<rparr>) (um\<lparr>um_db := db\<rparr>)) else um\<lparr>um_db := db\<rparr>)"
proof -
  obtain ok1 um1 where ex: "um_Execute api (release_friend_sql (if a < b then a else b) (if a < b then b else a)) um
    = (ok1, um1)" by fastforce
  then obtain db where um1: "um1 = um\<lparr>um_db := db\<rparr>" using um_Execute_eq by blast
  with assms ex show ?thesis
    by (intro exI [of _ db])
       (auto simp: DeleteFriendToUser_def erase_friend_modify Let_def split: if_splits)
qed

lemma linked_friend:
  assumes "users_inv um" "known um a" "known um b" "a \<noteq> b"
  shows "is_friend (modify b (\<lambda>u. u\<lparr>friends := insert a (friends u)\<rparr>)
      (modify a (\<lambda>u. u\<lparr>friends := insert b (friends u)\<rparr>) um)) x y
    \<longleftrightarrow> is_friend um x y \<or> {x, y} = {a, b}"
proof -
  have "users_inv (modify a (\<lambda>u. u\<lparr>friends := insert b (friends u)\<rparr>) um)"
    using assms(1) by (rule modify_inv) simp
  with assms show ?thesis
    by (cases "x = a"; cases "x = b"; cases "user_of um x")
       (auto simp: is_friend_def user_of_modify known_user_of doubleton_eq_iff)
qed

lemma unlinked_friend:
  assumes "users_inv um"
  shows "is_friend (modify b (\<lambda>u. u\<lparr>friends := friends u - {a}\<rparr>)
      (modify a (\<lambda>u. u\<lparr>friends := friends u - {b}\<rparr>) um)) x y
    \<longleftrightarrow> is_friend um x y \<and> {x, y} \<noteq> {a, b}"
proof -
  have "users_inv (modify a (\<lambda>u. u\<lparr>friends := friends u - {b}\<rparr>) um)"
    using assms by (rule modify_inv) simp
  with assms show ?thesis
    by (cases "x = a"; cases "x = b"; cases "user_of um x")
       (auto simp: is_friend_def user_of_modify doubleton_eq_iff)
qed

section \<open>The contract of friendship\<close>

fun friend_run ::
  "(int \<Rightarrow> int \<Rightarrow> 's \<Rightarrow> bool \<times> 's) \<Rightarrow> (int \<Rightarrow> int \<Rightarrow> 's \<Rightarrow> bool \<times> 's) \<Rightarrow> (bool \<times> int \<times> int) list \<Rightarrow> 's \<Rightarrow> 's" where
  "friend_run link unlink [] s = s"
| "friend_run link unlink ((add, a, b) # reqs) s =
     friend_run link unlink reqs (snd ((if add then link else unlink) a b s))"

locale friendship =
  fixes inv :: "'s \<Rightarrow> bool" and member :: "'s \<Rightarrow> int \<Rightarrow> bool" and friend :: "'s \<Rightarrow> int \<Rightarrow> int \<Rightarrow> bool"
    and link unlink :: "int \<Rightarrow> int \<Rightarrow> 's \<Rightarrow> bool \<times> 's"
  assumes link_inv: "inv s \<Longrightarrow> member s a \<Longrightarrow> member s b \<Longrightarrow> a \<noteq> b \<Longrightarrow> link a b s = (ok, s') \<Longrightarrow>
      inv s' \<and> member s' = member s"
    and link_friend: "inv s \<Longrightarrow> member s a \<Longrightarrow> member s b \<Longrightarrow> a \<noteq> b \<Longrightarrow> link a b s = (ok, s') \<Longrightarrow>
      friend s' x y \<longleftrightarrow> friend s x y \<or> ok \<and> {x, y} = {a, b}"
    and unlink_inv: "inv s \<Longrightarrow> unlink a b s = (ok, s') \<Longrightarrow> inv s' \<and> member s' = member s"
    and unlink_friend: "inv s \<Longrightarrow> unlink a b s = (ok, s') \<Longrightarrow>
      friend s' x y \<longleftrightarrow> friend s x y \<and> \<not> (ok \<and> {x, y} = {a, b})"
begin

lemma link_unlink:
  assumes "inv s" "member s a" "member s b" "a \<noteq> b" "\<not> friend s a b" "\<not> friend s b a"
    and "link a b s = (ok, s1)" "unlink a b s1 = (True, s2)"
  shows "friend s2 = friend s"
proof (intro ext)
  fix x y
  have "inv s1" using link_inv assms by blast
  then show "friend s2 x y = friend s x y"
    using link_friend [OF assms(1-4,7), of x y] unlink_friend [OF _ assms(8), of x y] assms(5,6)
    by (auto simp: doubleton_eq_iff)
qed

lemma run_symmetric:
  assumes "inv s" "\<forall>x y. friend s x y \<longrightarrow> friend s y x"
    and "\<forall>(add, a, b) \<in> set reqs. member s a \<and> member s b \<and> a \<noteq> b"
  shows "inv (friend_run link unlink reqs s) \<and> member (friend_run link unlink reqs s) = member s
    \<and> (\<forall>x y. friend (friend_run link unlink reqs s) x y \<longrightarrow> friend (friend_run link unlink reqs s) y x)"
  using assms
proof (induction reqs arbitrary: s)
  case (Cons r reqs)
  obtain add a b where r: "r = (add, a, b)" by (cases r)
  obtain ok s1 where s1: "(if add then link else unlink) a b s = (ok, s1)" by fastforce
  have mem: "member s a" "member s b" "a \<noteq> b" using Cons.prems(3) r by auto
  have keep: "inv s1 \<and> member s1 = member s"
    using s1 link_inv [OF Cons.prems(1) mem] unlink_inv [OF Cons.prems(1)] by (cases add) auto
  moreover have "\<forall>x y. friend s1 x y \<longrightarrow> friend s1 y x"
    using s1 Cons.prems(2) link_friend [OF Cons.prems(1) mem] unlink_friend [OF Cons.prems(1)]
    by (cases add) (auto simp: insert_commute)
  ultimately show ?case
    using Cons.IH [of s1] Cons.prems(3) s1 r by simp
qed simp

end

interpretation fr: friendship users_inv known is_friend "make_friends api" "DeleteFriendToUser api" for api
proof
  fix s :: "'a UserManager" and a b ok s'
  assume A: "users_inv s" "known s a" "known s b" "a \<noteq> b" "make_friends api a b s = (ok, s')"
  have ordered: "known s (min a b)" "known s (max a b)" "min a b < max a b" "{min a b, max a b} = {a, b}"
    using A by (auto simp: min_def max_def)
  obtain db where s': "s' = (if ok then modify (max a b) (\<lambda>u. u\<lparr>friends := insert (min a b) (friends u)\<rparr>)
    (modify (min a b) (\<lambda>u. u\<lparr>friends := insert (max a b) (friends u)\<rparr>) (s\<lparr>um_db := db\<rparr>)) else s\<lparr>um_db := db\<rparr>)"
    using MakeFriendRelationship_known [OF A(1) ordered(1-3)] A(5) unfolding make_friends_def by blast
  show "users_inv s' \<and> known s' = known s"
    using A(1) by (auto simp: s' fun_eq_iff intro!: modify_inv)
  show "is_friend s' x y \<longleftrightarrow> is_friend s x y \<or> ok \<and> {x, y} = {a, b}" for x y
    using A(1) ordered by (simp add: s' linked_friend)
next
  fix s :: "'a UserManager" and a b ok s'
  assume A: "users_inv s" "DeleteFriendToUser api a b s = (ok, s')"
  from DeleteFriendToUser_eq [OF A(2)] obtain db
    where s': "s' = (if ok then modify b (\<lambda>u. u\<lparr>friends := friends u - {a}\<rparr>)
    (modify a (\<lambda>u. u\<lparr>friends := friends u - {b}\<rparr>) (s\<lparr>um_db := db\<rparr>)) else s\<lparr>um_db := db\<rparr>)"
    by blast
  show "users_inv s' \<and> known s' = known s"
    using A(1) by (auto simp: s' fun_eq_iff intro!: modify_inv)
  show "is_friend s' x y \<longleftrightarrow> is_friend s x y \<and> \<not> (ok \<and> {x, y} = {a, b})" for x y
    using A(1) by (simp add: s' unlinked_friend)
qed

section \<open>Every operation keeps the invariants\<close>

inductive um_step :: "'m mysql_api \<Rightarrow> 'm UserManager \<Rightarrow> 'm UserManager \<Rightarrow> bool" for api where
  step_AddUser: "AddUser api u um = (ok, u', um') \<Longrightarrow> friends u = {} \<Longrightarrow>
     m_baseUserID um + 1 < GROUPID_BOUNDARY \<Longrightarrow> um_step api um um'"
| step_AddGroup: "AddGroup api name owner um = (ok, gid, um') \<Longrightarrow>
     m_baseGroupID um + 1 < 2 ^ 31 \<Longrightarrow> um_step api um um'"
| step_Make: "make_friends api a b um = (ok, um') \<Longrightarrow> known um a \<Longrightarrow> known um b \<Longrightarrow> a \<noteq> b \<Longrightarrow>
     um_step api um um'"
| step_Delete: "DeleteFriendToUser api a b um = (ok, um') \<Longrightarrow> um_step api um um'"
| step_Release: "ReleaseFriendRelationship api a b um = (ok, um') \<Longrightarrow> um_step api um um'"
| step_Update: "UpdateUserInfo api a new um = (ok, um') \<Longrightarrow> um_step api um um'"
| step_Password: "ModifyUserPassword api a pw um = (ok, um') \<Longrightarrow> um_step api um um'"
| step_SaveChat: "SaveChatMsgToDb api a b msg um = (ok, um') \<Longrightarrow> um_step api um um'"

definition um_inv :: "'m UserManager \<Rightarrow> bool" where
  "um_inv um \<longleftrightarrow> users_inv um \<and> ids_inv um \<and> friends_sym um"

lemma is_friend_known: "is_friend um a b \<Longrightarrow> known um a"
  by (auto simp: is_friend_def known_user_of)

lemma friends_sym_new:
  assumes "friends_sym um" "\<not> known um uid" "friends v = {}"
    and "\<forall>x. user_of um' x = (if x = uid then Some v else user_of um x)"
  shows "friends_sym um'"
proof -
  have "is_friend um' x y = is_friend um x y" for x y
    using assms(2-4) by (auto simp: is_friend_def known_user_of)
  then show ?thesis using assms(1) by (simp add: friends_sym_def)
qed

lemma is_friend_alt: "is_friend um x y \<longleftrightarrow> y \<in> (case map_option friends (user_of um x) of None \<Rightarrow> {} | Some f \<Rightarrow> f)"
  by (auto simp: is_friend_def split: option.splits)

lemma friends_sym_same:
  assumes "friends_sym um" "\<forall>x. map_option friends (user_of um' x) = map_option friends (user_of um x)"
  shows "friends_sym um'"
proof -
  have "is_friend um' x y = is_friend um x y" for x y
    using assms(2) by (simp add: is_friend_alt)
  with assms(1) show ?thesis by (simp add: friends_sym_def)
qed

lemma um_inv_db [simp]: "um_inv (um\<lparr>um_db := db\<rparr>) = um_inv um"
  by (simp add: um_inv_def friends_sym_def)

lemma modify_step:
  assumes "um_inv um" "\<And>u. userid (f u) = userid u" "\<And>u. friends (f u) = friends u"
  shows "um_inv (modify a f um)"
proof -
  have "map_option friends (user_of (modify a f um) x) = map_option friends (user_of um x)" for x
    using assms by (cases "user_of um a") (simp_all add: um_inv_def user_of_modify)
  then have "friends_sym (modify a f um)"
    using assms(1) friends_sym_same [of um "modify a f um"] unfolding um_inv_def by blast
  moreover have "users_inv (modify a f um)"
    using assms by (intro modify_inv) (simp_all add: um_inv_def)
  ultimately show ?thesis using assms(1) by (simp add: um_inv_def)
qed

lemma UpdateUserInfo_eq:
  assumes "UpdateUserInfo api a new um = (ok, um')"
  shows "\<exists>db. um' = (if ok then modify a (copy_info new) (um\<lparr>um_db := db\<rparr>) else um\<lparr>um_db := db\<rparr>)"
  using assms by (auto simp: UpdateUserInfo_def um_Execute_def modify_def split: prod.splits if_splits)

lemma ModifyUserPassword_eq:
  assumes "ModifyUserPassword api a pw um = (ok, um')"
  shows "\<exists>db. um' = (if ok then modify a (\<lambda>u. u\<lparr>password := pw\<rparr>) (um\<lparr>um_db := db\<rparr>) else um\<lparr>um_db := db\<rparr>)"
  using assms by (auto simp: ModifyUserPassword_def um_Execute_def modify_def split: prod.splits if_splits)

lemma ReleaseFriendRelationship_eq:
  assumes "ReleaseFriendRelationship api a b um = (ok, um')"
  shows "um' = um \<or> DeleteFriendToUser api a b um = (ok, um')"
  using assms by (auto simp: ReleaseFriendRelationship_def DeleteFriendToUser_def Let_def split: if_splits)

lemma DeleteFriendToUser_inv:
  assumes "um_inv um" "DeleteFriendToUser api a b um = (ok, um')"
  shows "um_inv um' \<and> known um' = known um"
proof -
  have users: "users_inv um" using assms(1) by (simp add: um_inv_def)
  have "ids_inv um'"
    using DeleteFriendToUser_eq [OF assms(2)] assms(1) by (auto simp: um_inv_def)
  then show ?thesis
    using fr.unlink_inv [OF users assms(2)] fr.unlink_friend [OF users assms(2)] assms(1)
    by (simp add: um_inv_def friends_sym_def insert_commute)
qed

lemma make_friends_inv:
  assumes "um_inv um" "known um a" "known um b" "a \<noteq> b" "make_friends api a b um = (ok, um')"
  shows "um_inv um' \<and> known um' = known um"
proof -
  have users: "users_inv um" using assms(1) by (simp add: um_inv_def)
  have ordered: "known um (min a b)" "known um (max a b)" "min a b < max a b"
    using assms by (auto simp: min_def max_def)
  have "ids_inv um'"
    using MakeFriendRelationship_known [OF users ordered, of api ok um'] assms(1,5)
    unfolding make_friends_def by (auto simp: um_inv_def)
  then show ?thesis
    using fr.link_inv [OF users assms(2-5)] fr.link_friend [OF users assms(2-5)] assms(1)
    by (auto simp: um_inv_def friends_sym_def insert_commute)
qed

lemma um_step_inv:
  assumes "um_step api um um'" "um_inv um"
  shows "um_inv um' \<and> (\<forall>uid. known um uid \<longrightarrow> known um' uid)"
  using assms
proof (induction rule: um_step.induct)
  case (step_AddUser u um ok u' um')
  then have spec: "\<not> known um (m_baseUserID um + 1) \<and> users_inv um' \<and> ids_inv um'"
    and users: "ok \<Longrightarrow> friends u' = {} \<and> (\<forall>x. user_of um' x = (if x = m_baseUserID um + 1 then Some u' else user_of um x))"
      "\<not> ok \<Longrightarrow> \<forall>x. user_of um' x = user_of um x"
    using AddUser_spec [of um api u ok u' um'] by (auto simp: um_inv_def)
  then have "friends_sym um'"
    using step_AddUser.prems friends_sym_new [of um] friends_sym_same [of um um']
    by (cases ok) (auto simp: um_inv_def)
  with spec users show ?case
    by (cases ok) (auto simp: um_inv_def known_user_of)
next
  case (step_AddGroup name owner um ok gid um')
  then have spec: "\<not> known um gid \<and> users_inv um' \<and> ids_inv um'"
    and users: "ok \<Longrightarrow> \<exists>g. friends g = {} \<and> (\<forall>x. user_of um' x = (if x = gid then Some g else user_of um x))"
      "\<not> ok \<Longrightarrow> \<forall>x. user_of um' x = user_of um x"
    using AddGroup_spec [of um api name owner ok gid um'] by (auto simp: um_inv_def)
  then have "friends_sym um'"
    using step_AddGroup.prems friends_sym_new [of um] friends_sym_same [of um um']
    by (cases ok) (auto simp: um_inv_def)
  with spec users show ?case
    by (cases ok) (auto simp: um_inv_def known_user_of)
next
  case (step_Make a b um ok um')
  then show ?case using make_friends_inv by metis
next
  case (step_Delete a b um ok um')
  then show ?case using DeleteFriendToUser_inv by metis
next
  case (step_Release a b um ok um')
  then show ?case using ReleaseFriendRelationship_eq DeleteFriendToUser_inv by metis
next
  case (step_Update a new um ok um')
  then obtain db where "um' = (if ok then modify a (copy_info new) (um\<lparr>um_db := db\<rparr>) else um\<lparr>um_db := db\<rparr>)"
    using UpdateUserInfo_eq by blast
  with step_Update.prems show ?case by (auto simp: copy_info_def intro!: modify_step)
next
  case (step_Password a pw um ok um')
  then obtain db where "um' = (if ok then modify a (\<lambda>u. u\<lparr>password := pw\<rparr>) (um\<lparr>um_db := db\<rparr>) else um\<lparr>um_db := db\<rparr>)"
    using ModifyUserPassword_eq by blast
  with step_Password.prems show ?case by (auto intro!: modify_step)
next
  case (step_SaveChat a b msg um ok um')
  then obtain db where "um' = um\<lparr>um_db := db\<rparr>"
    using um_Execute_eq unfolding SaveChatMsgToDb_def by blast
  with step_SaveChat.prems show ?case by simp
qed

text \<open>
  C6. Whatever the database answers, every sequence of operations of the user manager, with
  friendships made between known distinct users and room left in the two ranges of identifiers,
  keeps the indexes consistent, the identifiers below their counters and friendship mutual, and
  forgets no user.
\<close>

theorem operations_keep_invariants:
  assumes "(um_step api)\<^sup>*\<^sup>* um um'" and "um_inv um"
  shows "um_inv um' \<and> (\<forall>uid. known um uid \<longrightarrow> known um' uid)"
  using assms
  by (induction rule: rtranclp_induct) (auto dest: um_step_inv)

definition demo_db :: "nat MySqlManager" where
  "demo_db = \<lparr>m_mapTable = [], mgr_mysql = Some ((new_MySQLTool 0)\<lparr>my_mysql := True\<rparr>)\<rparr>"

definition demo_user :: "string \<Rightarrow> user" where
  "demo_user name = new_User\<lparr>username := name, password := ''pw''\<rparr>"

lemma demo_Execute [simp]:
  "mgr_mysql (um_db um) = Some t \<Longrightarrow> my_mysql t \<Longrightarrow>
     um_Execute demo_api sql um
       = (True, um\<lparr>um_db := (um_db um)\<lparr>mgr_mysql := Some (t\<lparr>my_env := Suc (my_env t)\<rparr>)\<rparr>\<rparr>)"
  by (simp add: um_Execute_def mgr_Execute_def tool_Execute_def tool_Execute3_def ensure_handle_def
      run_statement_def demo_api_def)

lemma demo_Execute_ok: "mgr_mysql (um_db um) = Some t \<Longrightarrow> my_mysql t \<Longrightarrow> \<exists>um'. um_Execute demo_api sql um = (True, um')"
  by simp

lemma new_UserManager_inv [simp]: "um_inv (new_UserManager db)"
  by (simp add: um_inv_def users_inv_def ids_inv_def friends_sym_def is_friend_def new_UserManager_def
      user_of_def known_def GROUPID_BOUNDARY_def)

text \<open>Two users, registered one after the other.\<close>

definition demo_um :: "nat UserManager" where
  "demo_um = (share_user ((demo_user ''bob'')\<lparr>userid := 2\<rparr>)
     (share_user ((demo_user ''ann'')\<lparr>userid := 1\<rparr>) (new_UserManager demo_db)))\<lparr>m_baseUserID := 2\<rparr>"

lemma demo_um_users:
  "users_inv demo_um" "known demo_um uid \<longleftrightarrow> uid = 1 \<or> uid = 2"
  "user_of demo_um 1 = Some ((demo_user ''ann'')\<lparr>userid := 1\<rparr>)"
  "user_of demo_um 2 = Some ((demo_user ''bob'')\<lparr>userid := 2\<rparr>)"
proof -
  have new: "users_inv (new_UserManager demo_db)" "\<not> known (new_UserManager demo_db) uid" for uid
    using new_UserManager_inv by (auto simp: um_inv_def) (simp add: new_UserManager_def known_def)
  have one: "users_inv (share_user ((demo_user ''ann'')\<lparr>userid := 1\<rparr>) (new_UserManager demo_db))"
    using new by (intro share_user_inv) simp_all
  have two: "users_inv (share_user ((demo_user ''bob'')\<lparr>userid := 2\<rparr>)
      (share_user ((demo_user ''ann'')\<lparr>userid := 1\<rparr>) (new_UserManager demo_db)))"
    using one new by (intro share_user_inv) simp_all
  show "users_inv demo_um" "known demo_um uid \<longleftrightarrow> uid = 1 \<or> uid = 2"
    "user_of demo_um 1 = Some ((demo_user ''ann'')\<lparr>userid := 1\<rparr>)"
    "user_of demo_um 2 = Some ((demo_user ''bob'')\<lparr>userid := 2\<rparr>)"
    using new one two by (auto simp: demo_um_def)
qed

lemma demo_um_inv: "um_inv demo_um"
proof -
  have "m_baseUserID demo_um = 2" "m_baseGroupID demo_um = 0xFFFFFFF"
    by (simp_all add: demo_um_def new_UserManager_def)
  then have "ids_inv demo_um"
    by (auto simp: ids_inv_def demo_um_users GROUPID_BOUNDARY_def)
  moreover have "user_of demo_um x = Some u \<Longrightarrow> friends u = {}" for x u
    using demo_um_users(2) [of x] demo_um_users(3,4) by (cases "x = 1 \<or> x = 2") (auto simp: known_user_of demo_user_def new_User_def)
  then have "friends_sym demo_um"
    by (auto simp: friends_sym_def is_friend_def)
  ultimately show ?thesis using demo_um_users(1) by (simp add: um_inv_def)
qed

theorem operations_keep_invariants_witness:
  "um_inv (snd (make_friends demo_api 2 1 demo_um)) \<and> known (snd (make_friends demo_api 2 1 demo_um)) 2"
proof -
  have "um_step demo_api demo_um (snd (make_friends demo_api 2 1 demo_um))"
    by (rule step_Make [of demo_api 2 1 _ "fst (make_friends demo_api 2 1 demo_um)"])
       (simp_all add: demo_um_users)
  then show ?thesis
    using operations_keep_invariants [of demo_api demo_um "snd (make_friends demo_api 2 1 demo_um)"]
    by (simp add: r_into_rtranclp demo_um_inv demo_um_users)
qed

text \<open>
  Registration gives the new user an identifier no user or group has, below the range of groups,
  and the manager then finds exactly that user under it; when the database refuses, no user changes.
\<close>

theorem AddUser_fresh:
  assumes "users_inv um" and "ids_inv um" and "m_baseUserID um + 1 < GROUPID_BOUNDARY"
    and "AddUser api u um = (ok, u', um')"
  shows "(ok \<longrightarrow> \<not> known um (userid u') \<and> userid u' < GROUPID_BOUNDARY \<and> username u' = username u
            \<and> password u' = password u
            \<and> (\<forall>uid. user_of um' uid = (if uid = userid u' then Some u' else user_of um uid)))
       \<and> (\<not> ok \<longrightarrow> (\<forall>uid. user_of um' uid = user_of um uid))"
  using AddUser_spec [OF assms] assms(3) by simp

theorem AddUser_fresh_witness:
  "\<exists>u' um'. AddUser demo_api (demo_user ''ann'') (new_UserManager demo_db) = (True, u', um')
     \<and> user_of um' (userid u') = Some u' \<and> username u' = ''ann''"
proof -
  obtain ok u um where add: "AddUser demo_api (demo_user ''ann'') (new_UserManager demo_db) = (ok, u, um)"
    by (cases "AddUser demo_api (demo_user ''ann'') (new_UserManager demo_db)") auto
  have "ok"
    using add by (auto simp: AddUser_def demo_db_def new_UserManager_def Let_def)
  with add AddUser_fresh [OF _ _ _ add] new_UserManager_inv [of demo_db] show ?thesis
    by (simp add: um_inv_def demo_user_def new_UserManager_def GROUPID_BOUNDARY_def)
qed

text \<open>
  Friendship is symmetric after any sequence of requests that make and delete friendships between
  known distinct users, and no such request adds or removes a user.
\<close>

theorem friendship_symmetric:
  assumes "users_inv um" and "friends_sym um"
    and "\<forall>(add, a, b) \<in> set reqs. known um a \<and> known um b \<and> a \<noteq> b"
  shows "friends_sym (friend_run (make_friends api) (DeleteFriendToUser api) reqs um)
    \<and> known (friend_run (make_friends api) (DeleteFriendToUser api) reqs um) = known um"
  using fr.run_symmetric [of um reqs api] assms by (simp add: friends_sym_def)

theorem friendship_symmetric_witness:
  "friends_sym (friend_run (make_friends demo_api) (DeleteFriendToUser demo_api)
     [(True, 2, 1), (False, 1, 2)] demo_um)"
  using friendship_symmetric [of demo_um "[(True, 2, 1), (False, 1, 2)]" demo_api] demo_um_inv
  by (simp add: um_inv_def demo_um_users)

section \<open>Requests for unknown users\<close>

text \<open>
  C18. A request to befriend a user that does not exist is refused, yet it is not without effect: the
  requester keeps the unknown identifier as a friend, so the next user who registers and receives
  that identifier is a friend of the requester without being asked, and not the other way round.
\<close>

theorem refused_request_befriends_next_user:
  assumes "users_inv um" and "ids_inv um" and "m_baseUserID um + 1 < GROUPID_BOUNDARY"
    and "known um a" and "a < m_baseUserID um + 1"
    and "um_Execute api (make_friend_sql a (m_baseUserID um + 1)) um = (True, um1)"
    and "MakeFriendRelationship api a (m_baseUserID um + 1) um = (ok, um2)"
    and "AddUser api u um2 = (True, u', um3)" and "friends u = {}"
  shows "\<not> ok \<and> userid u' = m_baseUserID um + 1 \<and> is_friend um3 a (userid u') \<and> \<not> is_friend um3 (userid u') a"
proof -
  obtain db where um1: "um1 = um\<lparr>um_db := db\<rparr>" using um_Execute_eq [OF assms(6)] by blast
  let ?f = "\<lambda>u. u\<lparr>friends := insert (m_baseUserID um + 1) (friends u)\<rparr>"
  have fresh: "\<not> known um (m_baseUserID um + 1)" by (rule ids_inv_fresh(1) [OF assms(2,3)])
  have um2: "um2 = modify a ?f um1" and ok: "\<not> ok"
    using assms(4-7) fresh by (auto simp: MakeFriendRelationship_def modify_def known_def um1)
  have inv: "users_inv um2" "ids_inv um2"
    using assms(1,2) by (auto simp: um2 um1 intro!: modify_inv)
  have base: "m_baseUserID um2 = m_baseUserID um" by (simp add: um2 um1)
  obtain v where v: "user_of um a = Some v" using assms(4) by (auto simp: known_user_of)
  have "user_of um2 a = Some (?f v)"
    using assms(1) v by (simp add: um2 um1 user_of_modify)
  with AddUser_spec [OF inv _ assms(8)] assms(3,5,9) ok show ?thesis
    by (auto simp: base is_friend_def)
qed

theorem refused_request_befriends_next_user_witness:
  "\<exists>u' um3. AddUser demo_api (demo_user ''eve'') (snd (MakeFriendRelationship demo_api 1 3 demo_um)) = (True, u', um3)
     \<and> is_friend um3 1 3 \<and> \<not> is_friend um3 3 1"
proof -
  have db: "\<exists>t. mgr_mysql (um_db demo_um) = Some t \<and> my_mysql t" and base: "m_baseUserID demo_um = 2"
    by (simp_all add: demo_um_def share_user_def new_UserManager_def demo_db_def)
  then obtain um1 where ex: "um_Execute demo_api (make_friend_sql 1 3) demo_um = (True, um1)"
    using demo_Execute_ok by blast
  obtain ok um2 where make: "MakeFriendRelationship demo_api 1 3 demo_um = (ok, um2)" by fastforce
  have "m_mapUsers demo_um 3 = None"
    using demo_um_users(2) [of 3] by (simp add: known_def)
  then have "\<exists>t. mgr_mysql (um_db um2) = Some t \<and> my_mysql t"
    using make db by (auto simp: MakeFriendRelationship_def update_user_def split: option.splits if_splits)
  then obtain u' um3 where add: "AddUser demo_api (demo_user ''eve'') um2 = (True, u', um3)"
    by (auto simp: AddUser_def Let_def)
  show ?thesis
    using refused_request_befriends_next_user [of demo_um 1 demo_api um1 ok um2 "demo_user ''eve''" u' um3]
      demo_um_inv make ex add
    by (auto simp: um_inv_def base GROUPID_BOUNDARY_def demo_um_users demo_user_def new_User_def)
qed

section \<open>Lists of friends\<close>

lemma map_filter_all: "\<forall>x \<in> set xs. \<exists>y. f x = Some y \<and> g y = x \<Longrightarrow> map g (List.map_filter f xs) = xs"
  by (induction xs) (auto simp: map_filter_simps)

lemma friend_list_objects:
  assumes "users_inv um" and "friends_sym um" and "user_of um uid = Some u" and "finite (friends u)"
  shows "\<exists>ps. GetFriendInfoByUserID uid fs um = (True, fs @ ps)
    \<and> map (\<lambda>p. userid (um_heap um p)) ps = sorted_list_of_set (friends u)"
proof -
  obtain p where p: "m_mapUsers um uid = Some p" "um_heap um p = u"
    using assms(3) by (auto simp: user_of_def)
  have "\<forall>x \<in> friends u. \<exists>q. m_mapUsers um x = Some q \<and> userid (um_heap um q) = x"
  proof
    fix x assume "x \<in> friends u"
    with assms(3) have "is_friend um uid x" by (auto simp: is_friend_def)
    with assms(2) have "is_friend um x uid" by (simp add: friends_sym_def)
    then obtain q where "m_mapUsers um x = Some q" by (auto simp: is_friend_def user_of_def)
    with assms(1) show "\<exists>q. m_mapUsers um x = Some q \<and> userid (um_heap um q) = x"
      by (auto simp: users_inv_def)
  qed
  then have "map (\<lambda>p. userid (um_heap um p)) (List.map_filter (m_mapUsers um) (sorted_list_of_set (friends u)))
    = sorted_list_of_set (friends u)"
    using assms(4) by (intro map_filter_all) simp
  with p show ?thesis by (simp add: GetFriendInfoByUserID_def)
qed

text \<open>
  With mutual friendship, the friend list of a known user consists of the objects of all its
  friends, each once, in ascending order of their identifiers, appended to what the caller has; for
  an unknown user the call fails and appends nothing.
\<close>

theorem friend_list_complete:
  assumes "users_inv um" and "friends_sym um"
  shows "(user_of um uid = Some u \<and> finite (friends u) \<longrightarrow>
            (\<exists>ps. GetFriendInfoByUserID uid fs um = (True, fs @ ps)
               \<and> map (\<lambda>p. userid (um_heap um p)) ps = sorted_list_of_set (friends u)))
       \<and> (\<not> known um uid \<longrightarrow> GetFriendInfoByUserID uid fs um = (False, fs))"
  using friend_list_objects [OF assms, of uid u fs]
  by (simp add: GetFriendInfoByUserID_def known_def)

definition demo_friends :: "nat UserManager" where
  "demo_friends = modify 2 (\<lambda>u. u\<lparr>friends := insert 1 (friends u)\<rparr>)
     (modify 1 (\<lambda>u. u\<lparr>friends := insert 2 (friends u)\<rparr>) demo_um)"

lemma demo_friends_inv: "users_inv demo_friends" "friends_sym demo_friends"
  "user_of demo_friends 1 = Some ((demo_user ''ann'')\<lparr>userid := 1, friends := {2}\<rparr>)"
proof -
  have one: "users_inv (modify 1 (\<lambda>u. u\<lparr>friends := insert 2 (friends u)\<rparr>) demo_um)"
    using demo_um_users(1) by (rule modify_inv) simp
  then show "users_inv demo_friends"
    unfolding demo_friends_def by (rule modify_inv) simp
  show "friends_sym demo_friends"
    using demo_um_inv linked_friend [of demo_um 1 2]
    by (auto simp: friends_sym_def demo_friends_def um_inv_def demo_um_users insert_commute)
  show "user_of demo_friends 1 = Some ((demo_user ''ann'')\<lparr>userid := 1, friends := {2}\<rparr>)"
    using one demo_um_users(1,3)
    by (simp add: demo_friends_def user_of_modify demo_user_def new_User_def)
qed

theorem friend_list_complete_witness:
  "\<exists>ps. GetFriendInfoByUserID 1 [] demo_friends = (True, ps)
     \<and> map (\<lambda>p. userid (um_heap demo_friends p)) ps = [2]"
  using friend_list_complete [of demo_friends 1 "(demo_user ''ann'')\<lparr>userid := 1, friends := {2}\<rparr>" "[]"]
    demo_friends_inv by simp

end
