(* ===== verification/MsgCache.thy ===== *)
theory MsgCache
  imports Prelude
begin

text \<open>
  \<open>MsgCacheManager.h\<close>, \<open>MsgCacheManager.cpp\<close>: messages for users who are not connected, kept until
  the user logs in. The two lists are guarded by mutexes, so each operation is one atomic step;
  what the operations log is left out.

  The chat cache is shown to be a mailbox (the locale \<open>mailbox\<close>): over any sequence of operations
  every message reaches its user at most once, in order, and none is lost.
\<close>

record NotifyMsgCache =
  nc_userid :: int
  notifymsg :: string

record ChatMsgCache =
  cc_userid :: int
  chatmsg :: string

record MsgCacheManager =
  m_listNotifyMsgCache :: "NotifyMsgCache list"
  m_listChatMsgCache :: "ChatMsgCache list"

definition new_MsgCacheManager :: MsgCacheManager where
  "new_MsgCacheManager = \<lparr>m_listNotifyMsgCache = [], m_listChatMsgCache = []\<rparr>"

definition AddNotifyMsgCache :: "int \<Rightarrow> string \<Rightarrow> MsgCacheManager \<Rightarrow> bool \<times> MsgCacheManager" where
  "AddNotifyMsgCache userid cache mgr =
     (let nc = \<lparr>nc_userid = userid, notifymsg = [] @ cache\<rparr>
      in (True, mgr\<lparr>m_listNotifyMsgCache := m_listNotifyMsgCache mgr @ [nc]\<rparr>))"

text \<open>The body of \<open>GetNotifyMsgCache\<close> is empty: the caller's list stays as it is.\<close>

definition GetNotifyMsgCache ::
  "int \<Rightarrow> NotifyMsgCache list \<Rightarrow> MsgCacheManager \<Rightarrow> NotifyMsgCache list \<times> MsgCacheManager" where
  "GetNotifyMsgCache userid cached mgr = (cached, mgr)"

definition AddChatMsgCache :: "int \<Rightarrow> string \<Rightarrow> MsgCacheManager \<Rightarrow> bool \<times> MsgCacheManager" where
  "AddChatMsgCache userid cache mgr =
     (let c = \<lparr>cc_userid = userid, chatmsg = [] @ cache\<rparr>
      in (True, mgr\<lparr>m_listChatMsgCache := m_listChatMsgCache mgr @ [c]\<rparr>))"

text \<open>
  The loop of \<open>GetChatMsgCache\<close>: an entry of the user goes to the end of the caller's list and out of
  the cache, any other entry stays.
\<close>

fun take_entries ::
  "int \<Rightarrow> ChatMsgCache list \<Rightarrow> ChatMsgCache list \<Rightarrow> ChatMsgCache list \<times> ChatMsgCache list" where
  "take_entries userid cached [] = (cached, [])"
| "take_entries userid cached (it # its) =
     (if cc_userid it = userid then take_entries userid (cached @ [it]) its
      else let (cached', its') = take_entries userid cached its in (cached', it # its'))"

definition GetChatMsgCache ::
  "int \<Rightarrow> ChatMsgCache list \<Rightarrow> MsgCacheManager \<Rightarrow> ChatMsgCache list \<times> MsgCacheManager" where
  "GetChatMsgCache userid cached mgr =
     (let (cached', rest) = take_entries userid cached (m_listChatMsgCache mgr)
      in (cached', mgr\<lparr>m_listChatMsgCache := rest\<rparr>))"

section \<open>Mailboxes\<close>

datatype mail_event = Put int string | Fetch int

fun mail_run ::
  "(int \<Rightarrow> string \<Rightarrow> 'c \<Rightarrow> 'c) \<Rightarrow> (int \<Rightarrow> 'c \<Rightarrow> string list \<times> 'c) \<Rightarrow> mail_event list \<Rightarrow> 'c
    \<Rightarrow> (int \<times> string) list \<times> 'c" where
  "mail_run put fetch [] c = ([], c)"
| "mail_run put fetch (Put u s # es) c = mail_run put fetch es (put u s c)"
| "mail_run put fetch (Fetch u # es) c =
     (let (got, c1) = fetch u c; (del, c2) = mail_run put fetch es c1
      in (map (\<lambda>s. (u, s)) got @ del, c2))"

fun puts_for :: "int \<Rightarrow> mail_event list \<Rightarrow> string list" where
  "puts_for v [] = []"
| "puts_for v (Put u s # es) = (if u = v then s # puts_for v es else puts_for v es)"
| "puts_for v (Fetch u # es) = puts_for v es"

definition delivered_to :: "int \<Rightarrow> (int \<times> string) list \<Rightarrow> string list" where
  "delivered_to v del = map snd (filter (\<lambda>(u, s). u = v) del)"

locale mailbox =
  fixes put :: "int \<Rightarrow> string \<Rightarrow> 'c \<Rightarrow> 'c"
    and fetch :: "int \<Rightarrow> 'c \<Rightarrow> string list \<times> 'c"
    and pending :: "'c \<Rightarrow> int \<Rightarrow> string list"
  assumes pending_put: "pending (put u s c) v = (if v = u then pending c v @ [s] else pending c v)"
    and fetch_result: "fst (fetch u c) = pending c u"
    and fetch_rest: "pending (snd (fetch u c)) v = (if v = u then [] else pending c v)"
begin

lemma fetch_twice: "fst (fetch u (snd (fetch u c))) = []"
  by (simp add: fetch_result fetch_rest)

lemma delivered_same: "delivered_to v (map (\<lambda>s. (v, s)) got @ del) = got @ delivered_to v del"
  by (simp add: delivered_to_def filter_map comp_def)

lemma delivered_other: "u \<noteq> v \<Longrightarrow> delivered_to v (map (\<lambda>s. (u, s)) got @ del) = delivered_to v del"
  by (simp add: delivered_to_def filter_map comp_def)

lemma exactly_once:
  "mail_run put fetch es c = (del, c') \<Longrightarrow>
     delivered_to v del @ pending c' v = pending c v @ puts_for v es"
proof (induction es arbitrary: c del)
  case Nil
  then show ?case by (simp add: delivered_to_def)
next
  case (Cons e es)
  show ?case
  proof (cases e)
    case (Put u s)
    with Cons.prems Cons.IH [of "put u s c" del] show ?thesis by (simp add: pending_put)
  next
    case (Fetch u)
    obtain del1 where del1: "mail_run put fetch es (snd (fetch u c)) = (del1, c')"
      "del = map (\<lambda>s. (u, s)) (pending c u) @ del1"
      using Cons.prems Fetch fetch_result [of u c] by (auto split: prod.splits)
    with Cons.IH [OF del1(1)] Fetch show ?thesis
      by (cases "u = v") (simp_all add: fetch_rest delivered_same delivered_other)
  qed
qed

end

definition chat_put :: "int \<Rightarrow> string \<Rightarrow> MsgCacheManager \<Rightarrow> MsgCacheManager" where
  "chat_put u s mgr = snd (AddChatMsgCache u s mgr)"

definition chat_fetch :: "int \<Rightarrow> MsgCacheManager \<Rightarrow> string list \<times> MsgCacheManager" where
  "chat_fetch u mgr = (let (cached, mgr') = GetChatMsgCache u [] mgr in (map chatmsg cached, mgr'))"

definition chat_pending :: "MsgCacheManager \<Rightarrow> int \<Rightarrow> string list" where
  "chat_pending mgr u = map chatmsg (filter (\<lambda>it. cc_userid it = u) (m_listChatMsgCache mgr))"

lemma take_entries_filter:
  "take_entries u cached its =
     (cached @ filter (\<lambda>it. cc_userid it = u) its, filter (\<lambda>it. cc_userid it \<noteq> u) its)"
  by (induction u cached its rule: take_entries.induct) auto

interpretation chat_box: mailbox chat_put chat_fetch chat_pending
proof unfold_locales
  fix u v :: int and s :: string and c :: MsgCacheManager
  show "chat_pending (chat_put u s c) v = (if v = u then chat_pending c v @ [s] else chat_pending c v)"
    by (simp add: chat_pending_def chat_put_def AddChatMsgCache_def Let_def)
  show "fst (chat_fetch u c) = chat_pending c u"
    by (simp add: chat_fetch_def chat_pending_def GetChatMsgCache_def take_entries_filter)
  have "filter (\<lambda>it. cc_userid it \<noteq> u \<and> cc_userid it = u) its = []" for its :: "ChatMsgCache list"
    by (simp add: filter_empty_conv)
  moreover have "filter (\<lambda>it. cc_userid it \<noteq> u \<and> cc_userid it = v) its = filter (\<lambda>it. cc_userid it = v) its"
    if "v \<noteq> u" for its :: "ChatMsgCache list"
    using that by (intro filter_cong) auto
  ultimately show "chat_pending (snd (chat_fetch u c)) v = (if v = u then [] else chat_pending c v)"
    by (simp add: chat_fetch_def chat_pending_def GetChatMsgCache_def take_entries_filter)
qed

text \<open>
  C13. Over any sequence of \<open>AddChatMsgCache\<close> and \<open>GetChatMsgCache\<close> calls from an empty cache, what has
  been handed to a user followed by what is still cached for the user is exactly what was cached for
  the user, in order: no offline message is lost, duplicated, reordered or given to someone else.
\<close>

theorem offline_exactly_once:
  assumes "mail_run chat_put chat_fetch es new_MsgCacheManager = (del, mgr)"
  shows "delivered_to v del @ chat_pending mgr v = puts_for v es"
  using chat_box.exactly_once [OF assms, of v]
  by (simp add: chat_pending_def new_MsgCacheManager_def)

theorem offline_exactly_once_witness:
  "let es = [Put 7 ''a'', Put 8 ''b'', Put 7 ''c'', Fetch 7, Put 7 ''d'']
   in delivered_to 7 (fst (mail_run chat_put chat_fetch es new_MsgCacheManager))
        @ chat_pending (snd (mail_run chat_put chat_fetch es new_MsgCacheManager)) 7 = [''a'', ''c'', ''d'']"
proof -
  let ?es = "[Put 7 ''a'', Put 8 ''b'', Put 7 ''c'', Fetch 7, Put 7 ''d'']"
  have "mail_run chat_put chat_fetch ?es new_MsgCacheManager
      = (fst (mail_run chat_put chat_fetch ?es new_MsgCacheManager),
         snd (mail_run chat_put chat_fetch ?es new_MsgCacheManager))"
    by (rule prod.collapse [symmetric])
  from offline_exactly_once [OF this, of 7] show ?thesis
    by (simp only: Let_def) simp
qed

end
