(* ===== verification/Services.thy ===== *)
theory Services
  imports Prelude
begin

text \<open>
  \<open>AgentGrpcClient.cpp\<close>, \<open>AvatarGrpcClient.cpp\<close>, \<open>MailGrpcClient.cpp\<close>: the clients of the three
  services the server calls over gRPC. The services and the gRPC runtime are not part of the
  program; the stubs are the fields of \<open>grpc_stubs\<close>, over a state \<open>'g\<close> of the network and the services.
  A call gives \<open>Inl msg\<close> when its status is not ok (\<open>msg\<close> is the error message of the status), else the
  response. The deadline of a call is part of the stub's behaviour. Output to the console is left out.
\<close>

record ProcessMessageReq =
  pm_user_id :: int
  pm_target_id :: int
  pm_content :: string
  pm_chat_type :: int

record ProcessMessageRsp =
  pmrsp_code :: int
  pmrsp_msg :: string
  pmrsp_reply :: string

record UploadReq =
  up_user_id :: int
  up_image_data :: string
  up_format :: string

record UploadRsp =
  uprsp_code :: int
  uprsp_msg :: string
  uprsp_url :: string

record SendCodeRsp =
  scrsp_code :: int
  scrsp_msg :: string
  scrsp_cooldown_seconds :: int

record VerifyCodeRsp =
  vcrsp_code :: int
  vcrsp_msg :: string

record 'g grpc_stubs =
  stub_ProcessMessage :: "ProcessMessageReq \<Rightarrow> 'g \<Rightarrow> (string + ProcessMessageRsp) \<times> 'g"
  stub_HealthCheck :: "'g \<Rightarrow> (string + bool) \<times> 'g"
  stub_Upload :: "UploadReq \<Rightarrow> 'g \<Rightarrow> (string + UploadRsp) \<times> 'g"
  stub_SendCode :: "string \<Rightarrow> 'g \<Rightarrow> (string + SendCodeRsp) \<times> 'g"
  stub_VerifyCode :: "string \<times> string \<Rightarrow> 'g \<Rightarrow> (string + VerifyCodeRsp) \<times> 'g"

section \<open>AgentGrpcClient\<close>

definition agent_unavailable :: string where
  "agent_unavailable = ''Agent '' @ [CHR 0xE6, CHR 0x9C, CHR 0x8D, CHR 0xE5, CHR 0x8A, CHR 0xA1,
     CHR 0xE4, CHR 0xB8, CHR 0x8D, CHR 0xE5, CHR 0x8F, CHR 0xAF, CHR 0xE7, CHR 0x94, CHR 0xA8] @ '': ''"

text \<open>The result is the returned value, \<open>replyOut\<close> and the state of the services.\<close>

definition processMessageSync ::
  "'g grpc_stubs \<Rightarrow> int \<Rightarrow> int \<Rightarrow> string \<Rightarrow> int \<Rightarrow> 'g \<Rightarrow> bool \<times> string \<times> 'g" where
  "processMessageSync stubs userId targetId content chatType g =
     (let (r, g') = stub_ProcessMessage stubs \<lparr>pm_user_id = userId, pm_target_id = targetId,
                      pm_content = content, pm_chat_type = chatType\<rparr> g
      in case r of
           Inl err \<Rightarrow> (False, agent_unavailable @ err, g')
         | Inr rsp \<Rightarrow> if pmrsp_code rsp \<noteq> 0 then (False, pmrsp_msg rsp, g') else (True, pmrsp_reply rsp, g'))"

definition isHealthy :: "'g grpc_stubs \<Rightarrow> 'g \<Rightarrow> bool \<times> 'g" where
  "isHealthy stubs g =
     (let (r, g') = stub_HealthCheck stubs g in (case r of Inl _ \<Rightarrow> False | Inr healthy \<Rightarrow> healthy, g'))"

section \<open>AvatarGrpcClient\<close>

record UploadResult =
  upres_ok :: bool
  upres_url :: string
  upres_errMsg :: string

definition Upload :: "'g grpc_stubs \<Rightarrow> int \<Rightarrow> string \<Rightarrow> string \<Rightarrow> 'g \<Rightarrow> UploadResult \<times> 'g" where
  "Upload stubs userId imgData format g =
     (let result = \<lparr>upres_ok = False, upres_url = [], upres_errMsg = []\<rparr>;
          (r, g') = stub_Upload stubs \<lparr>up_user_id = userId, up_image_data = imgData, up_format = format\<rparr> g
      in case r of
           Inl err \<Rightarrow> (result\<lparr>upres_errMsg := ''gRPC error: '' @ err\<rparr>, g')
         | Inr rsp \<Rightarrow> if uprsp_code rsp \<noteq> 0 then (result\<lparr>upres_errMsg := uprsp_msg rsp\<rparr>, g')
                     else (result\<lparr>upres_ok := True, upres_url := uprsp_url rsp\<rparr>, g'))"

section \<open>MailGrpcClient\<close>

record SendCodeResult =
  scres_ok :: bool
  scres_msg :: string
  scres_cooldownSeconds :: int
  scres_code :: int

record VerifyResult =
  vres_ok :: bool
  vres_msg :: string

definition SendCode :: "'g grpc_stubs \<Rightarrow> string \<Rightarrow> 'g \<Rightarrow> SendCodeResult \<times> 'g" where
  "SendCode stubs email g =
     (let result = \<lparr>scres_ok = False, scres_msg = [], scres_cooldownSeconds = 0, scres_code = 3\<rparr>;
          (r, g') = stub_SendCode stubs email g
      in case r of
           Inl err \<Rightarrow> (result\<lparr>scres_code := 3, scres_msg := ''gRPC error: '' @ err\<rparr>, g')
         | Inr rsp \<Rightarrow> (result\<lparr>scres_code := scrsp_code rsp, scres_msg := scrsp_msg rsp,
                             scres_cooldownSeconds := scrsp_cooldown_seconds rsp,
                             scres_ok := (scrsp_code rsp = 0)\<rparr>, g'))"

definition VerifyCode :: "'g grpc_stubs \<Rightarrow> string \<Rightarrow> string \<Rightarrow> 'g \<Rightarrow> VerifyResult \<times> 'g" where
  "VerifyCode stubs email code g =
     (let result = \<lparr>vres_ok = False, vres_msg = []\<rparr>;
          (r, g') = stub_VerifyCode stubs (email, code) g
      in case r of
           Inl err \<Rightarrow> (result\<lparr>vres_msg := ''gRPC error: '' @ err\<rparr>, g')
         | Inr rsp \<Rightarrow> (result\<lparr>vres_ok := (vcrsp_code rsp = 0), vres_msg := vcrsp_msg rsp\<rparr>, g'))"

end
