(* ===== verification/Sessions.thy ===== *)
theory Sessions
  imports Users MsgCache Services
begin

text \<open>
  \<open>IMSer.h\<close>, \<open>IMSer.cpp\<close>: the registry of sessions, and the state the handlers of \<open>ClientSession\<close> work
  on. The singletons of the program (\<open>UserManager\<close>, \<open>MsgCacheManager\<close>, \<open>IMSer\<close>) are fields of one record
  \<open>world\<close>; sessions are objects of \<open>w_sessions\<close>, which \<open>m_mapclient\<close> owns: a session that has left the map
  is destroyed. A connection is the address of its \<open>TcpConnection\<close>. What is sent is appended to \<open>w_out\<close>
  as the message and its connection; the characters on the wire are those of \<open>IMCodec_send\<close>.
  The server runs one event loop, so each callback is one step.
\<close>

section \<open>State\<close>

type_synonym SessionPtr = nat
type_synonym conn = nat

record session =
  m_sessionid :: string
  m_seq :: int
  m_user :: "UserPtr option"
  m_target :: int
  m_targets :: string
  m_conn :: conn

text \<open>
  \<open>w_callback\<close> is the session bound by \<open>setMessageCallback\<close>; \<open>w_connected\<close> and \<open>w_shutdown\<close> are the
  connections in the state \<open>kConnected\<close> and those \<open>shutdown\<close> was called on; \<open>w_jobs\<close> are the calls of the
  agent service under way on threads of their own.
\<close>

record agent_job =
  job_session :: SessionPtr
  job_userId :: int
  job_targetId :: int
  job_content :: string
  job_chatType :: int

record ('m, 'g) world =
  w_users :: "'m UserManager"
  w_cache :: MsgCacheManager
  w_sessions :: "SessionPtr \<Rightarrow> session"
  w_next :: SessionPtr
  w_callback :: "conn \<Rightarrow> SessionPtr option"
  w_connected :: "conn set"
  w_shutdown :: "conn list"
  m_mapclient :: "(string \<times> SessionPtr) list"
  m_agentClient :: bool
  m_avatarClient :: bool
  m_mailClient :: bool
  w_grpc :: 'g
  w_jobs :: "agent_job list"
  w_out :: "(conn \<times> MessageContainer) list"

text \<open>
  What the handlers take from outside: the generated message classes, the MySQL client, the gRPC
  stubs, whether the server is built with gRPC (\<open>HAVE_AGENT_GRPC\<close>) and the value of \<open>time(nullptr)\<close>.
\<close>

record ('m, 'g) env =
  e_pb :: im_pb
  e_db :: "'m mysql_api"
  e_stubs :: "'g grpc_stubs"
  e_have_grpc :: bool
  e_time :: int

text \<open>The text of a pointer as \<open>operator<<\<close> writes it.\<close>

fun hex_nat :: "nat \<Rightarrow> string" where
  "hex_nat n = (let d = (if n mod 16 < 10 then char_of (48 + n mod 16) else char_of (87 + n mod 16))
                in if n < 16 then [d] else hex_nat (n div 16) @ [d])"

declare hex_nat.simps [simp del]

definition ptr_text :: "nat \<Rightarrow> string" where
  "ptr_text a = (if a = 0 then ''0'' else ''0x'' @ hex_nat a)"

definition update_session :: "SessionPtr \<Rightarrow> (session \<Rightarrow> session) \<Rightarrow> ('m, 'g) world \<Rightarrow> ('m, 'g) world" where
  "update_session sp f w = w\<lparr>w_sessions := (w_sessions w)(sp := f (w_sessions w sp))\<rparr>"

text \<open>A session is alive while the map owns it.\<close>

definition alive :: "('m, 'g) world \<Rightarrow> SessionPtr \<Rightarrow> bool" where
  "alive w sp \<longleftrightarrow> sp \<in> snd ` set (m_mapclient w)"

section \<open>The registry\<close>

definition UserID :: "('m, 'g) world \<Rightarrow> SessionPtr \<Rightarrow> int" where
  "UserID w sp = (case m_user (w_sessions w sp) of None \<Rightarrow> - 1 | Some p \<Rightarrow> userid (um_heap (w_users w) p))"

definition new_ClientSession :: "conn \<Rightarrow> session" where
  "new_ClientSession c = \<lparr>m_sessionid = ptr_text c, m_seq = 0, m_user = None, m_target = 0, m_targets = [],
     m_conn = c\<rparr>"

text \<open>
  The constructor also binds the message callback of the connection. When the key is already in the
  map, \<open>insert\<close> leaves the map as it is and the new session is destroyed at the end of the block.
\<close>

definition OnConnected :: "conn \<Rightarrow> ('m, 'g) world \<Rightarrow> ('m, 'g) world" where
  "OnConnected c w =
     (let sp = w_next w; s = new_ClientSession c
      in w\<lparr>w_sessions := (w_sessions w)(sp := s), w_next := Suc sp, w_callback := (w_callback w)(c \<mapsto> sp),
           m_mapclient := map_insert (m_sessionid s) sp (m_mapclient w)\<rparr>)"

definition OnClose :: "conn \<Rightarrow> ('m, 'g) world \<Rightarrow> ('m, 'g) world" where
  "OnClose c w =
     (case map_of (m_mapclient w) (ptr_text c) of
        None \<Rightarrow> w
      | Some _ \<Rightarrow> w\<lparr>m_mapclient := map_erase (ptr_text c) (m_mapclient w)\<rparr>)"

definition OnConnection :: "conn \<Rightarrow> ('m, 'g) world \<Rightarrow> ('m, 'g) world" where
  "OnConnection c w = (if c \<in> w_connected w then OnConnected c w else OnClose c w)"

definition GetSessionByID :: "int \<Rightarrow> ('m, 'g) world \<Rightarrow> SessionPtr option" where
  "GetSessionByID uid w = map_option snd (find (\<lambda>(k, sp). UserID w sp = uid) (m_mapclient w))"

definition IMSer_init :: "bool \<Rightarrow> ('m, 'g) world \<Rightarrow> bool \<times> ('m, 'g) world" where
  "IMSer_init have_grpc w =
     (True, if have_grpc then w\<lparr>m_agentClient := True, m_avatarClient := True, m_mailClient := True\<rparr> else w)"

definition new_world :: "'m UserManager \<Rightarrow> 'g \<Rightarrow> ('m, 'g) world" where
  "new_world um g = \<lparr>w_users = um, w_cache = new_MsgCacheManager, w_sessions = (\<lambda>_. new_ClientSession 0),
     w_next = 0, w_callback = Map.empty, w_connected = {}, w_shutdown = [], m_mapclient = [],
     m_agentClient = False, m_avatarClient = False, m_mailClient = False, w_grpc = g, w_jobs = [], w_out = []\<rparr>"

text \<open>The events of a connection: it is established, and it goes down.\<close>

definition establish :: "conn \<Rightarrow> ('m, 'g) world \<Rightarrow> ('m, 'g) world" where
  "establish c w = OnConnection c (w\<lparr>w_connected := insert c (w_connected w)\<rparr>)"

definition disconnect :: "conn \<Rightarrow> ('m, 'g) world \<Rightarrow> ('m, 'g) world" where
  "disconnect c w = OnConnection c (w\<lparr>w_connected := w_connected w - {c}\<rparr>)"

section \<open>The contract of the registry\<close>

definition hex_val :: "char \<Rightarrow> nat" where
  "hex_val c = (if of_char c < (58 :: nat) then of_char c - 48 else of_char c - 87)"

lemma hex_val_digit:
  "d < 16 \<Longrightarrow> hex_val (if d < 10 then char_of (48 + d) else char_of (87 + d)) = d"
  by (simp add: hex_val_def)

lemma hex_nat_value: "foldl (\<lambda>a c. 16 * a + hex_val c) 0 (hex_nat n) = n"
proof (induction n rule: hex_nat.induct)
  case (1 n)
  then show ?case
    using hex_val_digit [of "n mod 16"] by (simp add: hex_nat.simps [of n] Let_def split del: if_split)
      (auto split: if_splits)
qed

lemma ptr_text_inj [simp]: "ptr_text a = ptr_text b \<longleftrightarrow> a = b"
proof
  assume eq: "ptr_text a = ptr_text b"
  show "a = b"
  proof (cases "a = 0 \<or> b = 0")
    case False
    with eq have "hex_nat a = hex_nat b" by (simp add: ptr_text_def)
    then show ?thesis by (metis hex_nat_value)
  qed (use eq in \<open>auto simp: ptr_text_def split: if_splits\<close>)
qed simp

datatype conn_event = Up conn | Down conn

fun conn_run :: "(conn \<Rightarrow> 's \<Rightarrow> 's) \<Rightarrow> (conn \<Rightarrow> 's \<Rightarrow> 's) \<Rightarrow> conn_event list \<Rightarrow> 's \<Rightarrow> 's" where
  "conn_run up down [] s = s"
| "conn_run up down (Up c # es) s = conn_run up down es (up c s)"
| "conn_run up down (Down c # es) s = conn_run up down es (down c s)"

text \<open>Connections come up when they are down, and go down when they are up.\<close>

fun proper :: "conn_event list \<Rightarrow> conn set \<Rightarrow> bool" where
  "proper [] C \<longleftrightarrow> True"
| "proper (Up c # es) C \<longleftrightarrow> c \<notin> C \<and> proper es (insert c C)"
| "proper (Down c # es) C \<longleftrightarrow> c \<in> C \<and> proper es (C - {c})"

fun conns_after :: "conn_event list \<Rightarrow> conn set \<Rightarrow> conn set" where
  "conns_after [] C = C"
| "conns_after (Up c # es) C = conns_after es (insert c C)"
| "conns_after (Down c # es) C = conns_after es (C - {c})"

locale registry =
  fixes inv :: "'s \<Rightarrow> bool" and session_of :: "'s \<Rightarrow> conn \<Rightarrow> SessionPtr option"
    and up down :: "conn \<Rightarrow> 's \<Rightarrow> 's"
  assumes up_inv: "inv s \<Longrightarrow> session_of s c = None \<Longrightarrow> inv (up c s)"
    and up_new: "inv s \<Longrightarrow> session_of s c = None \<Longrightarrow> session_of (up c s) c \<noteq> None"
    and up_other: "inv s \<Longrightarrow> session_of s c = None \<Longrightarrow> d \<noteq> c \<Longrightarrow> session_of (up c s) d = session_of s d"
    and down_inv: "inv s \<Longrightarrow> inv (down c s)"
    and down_gone: "inv s \<Longrightarrow> session_of (down c s) c = None"
    and down_other: "inv s \<Longrightarrow> d \<noteq> c \<Longrightarrow> session_of (down c s) d = session_of s d"
begin

lemma up_dom: "inv s \<Longrightarrow> session_of s c = None \<Longrightarrow> dom (session_of (up c s)) = insert c (dom (session_of s))"
  using up_new up_other by (auto simp: dom_def) (metis option.distinct(1))+

lemma down_dom: "inv s \<Longrightarrow> dom (session_of (down c s)) = dom (session_of s) - {c}"
  using down_gone down_other by (auto simp: dom_def) (metis option.distinct(1))+

lemma run_dom:
  "inv s \<Longrightarrow> proper es (dom (session_of s)) \<Longrightarrow>
     inv (conn_run up down es s) \<and> dom (session_of (conn_run up down es s)) = conns_after es (dom (session_of s))"
proof (induction es arbitrary: s)
  case (Cons e es)
  show ?case
  proof (cases e)
    case (Up c)
    with Cons.prems have "session_of s c = None" by (auto simp: dom_def)
    with Cons.IH [of "up c s"] Cons.prems Up show ?thesis by (simp add: up_inv up_dom)
  next
    case (Down c)
    with Cons.IH [of "down c s"] Cons.prems show ?thesis by (simp add: down_inv down_dom)
  qed
qed simp

end

text \<open>
  The invariant of the model: every entry of the map is the session of a connected connection, under
  the text of the connection's address, and is the one the connection calls back.
\<close>

definition registry_inv :: "('m, 'g) world \<Rightarrow> bool" where
  "registry_inv w \<longleftrightarrow>
     map_ordered (m_mapclient w)
     \<and> (\<forall>k sp. map_of (m_mapclient w) k = Some sp \<longrightarrow>
          sp < w_next w \<and> k = ptr_text (m_conn (w_sessions w sp))
          \<and> w_callback w (m_conn (w_sessions w sp)) = Some sp
          \<and> m_conn (w_sessions w sp) \<in> w_connected w)
     \<and> (\<forall>c. c \<in> w_connected w \<longrightarrow> map_of (m_mapclient w) (ptr_text c) \<noteq> None)"

definition session_of :: "('m, 'g) world \<Rightarrow> conn \<Rightarrow> SessionPtr option" where
  "session_of w c = map_of (m_mapclient w) (ptr_text c)"

lemma session_of_connected: "registry_inv w \<Longrightarrow> session_of w c \<noteq> None \<longleftrightarrow> c \<in> w_connected w"
  by (auto simp: registry_inv_def session_of_def) fastforce

lemma establish_eq:
  "session_of w c = None \<Longrightarrow> establish c w =
     w\<lparr>w_connected := insert c (w_connected w), w_sessions := (w_sessions w)(w_next w := new_ClientSession c),
       w_next := Suc (w_next w), w_callback := (w_callback w)(c \<mapsto> w_next w),
       m_mapclient := map_put (ptr_text c) (w_next w) (m_mapclient w)\<rparr>"
  by (simp add: establish_def OnConnection_def OnConnected_def Let_def new_ClientSession_def map_insert_def session_of_def)

lemma disconnect_eq:
  "disconnect c w = w\<lparr>w_connected := w_connected w - {c},
     m_mapclient := (case session_of w c of None \<Rightarrow> m_mapclient w | Some _ \<Rightarrow> map_erase (ptr_text c) (m_mapclient w))\<rparr>"
  by (simp add: disconnect_def OnConnection_def OnClose_def session_of_def split: option.split)

interpretation reg: registry registry_inv session_of establish disconnect
proof
  fix s :: "('m, 'g) world" and c d :: conn
  assume inv: "registry_inv s"
  show "registry_inv (disconnect c s)"
    using inv by (auto simp: registry_inv_def disconnect_eq session_of_def split: option.splits if_splits)
  show "session_of (disconnect c s) c = None" "d \<noteq> c \<Longrightarrow> session_of (disconnect c s) d = session_of s d"
    using inv by (simp_all add: disconnect_eq session_of_def split: option.splits)
  assume none: "session_of s c = None"
  show "session_of (establish c s) c \<noteq> None" "d \<noteq> c \<Longrightarrow> session_of (establish c s) d = session_of s d"
    using none by (simp_all add: establish_eq) (simp_all add: session_of_def)
  have "c \<notin> w_connected s" using none session_of_connected [OF inv] by blast
  moreover have "map_of (m_mapclient s) k \<noteq> Some (w_next s)" for k
    using inv by (auto simp: registry_inv_def)
  ultimately show "registry_inv (establish c s)"
    using inv none by (simp add: establish_eq) (auto simp: registry_inv_def session_of_def new_ClientSession_def intro!: less_SucI)
qed

lemma alive_iff: "registry_inv w \<Longrightarrow> alive w sp \<longleftrightarrow> (\<exists>k. map_of (m_mapclient w) k = Some sp)"
  unfolding alive_def by (force simp: registry_inv_def simp flip: map_of_mem_iff)

lemma callback_alive:
  assumes "registry_inv w" "c \<in> w_connected w"
  shows "\<exists>sp. w_callback w c = Some sp \<and> alive w sp \<and> session_of w c = Some sp \<and> m_conn (w_sessions w sp) = c"
proof -
  obtain sp where sp: "session_of w c = Some sp"
    using session_of_connected [OF assms(1)] assms(2) by blast
  then have "ptr_text c = ptr_text (m_conn (w_sessions w sp)) \<and> w_callback w (m_conn (w_sessions w sp)) = Some sp"
    using assms(1) by (auto simp: registry_inv_def session_of_def)
  with sp show ?thesis
    using assms(1) by (auto simp: alive_iff session_of_def)
qed

lemma registry_inv_new [simp]: "registry_inv (new_world um g)"
  by (simp add: registry_inv_def new_world_def)

text \<open>
  C10. After any sequence of connections coming up and going down, whatever addresses are used again,
  the registry holds exactly the sessions of the connections that are up, each under the text of its
  address, and the message callback of every such connection leads to a session that is alive.
\<close>

theorem registry_tracks_connections:
  assumes "proper es {}" and "w = conn_run establish disconnect es (new_world um g)"
  shows "{c. session_of w c \<noteq> None} = conns_after es {}
    \<and> (\<forall>c. c \<in> conns_after es {} \<longrightarrow>
         (\<exists>sp. w_callback w c = Some sp \<and> alive w sp \<and> session_of w c = Some sp \<and> m_conn (w_sessions w sp) = c))"
proof -
  have empty: "dom (session_of (new_world um g)) = {}"
    by (auto simp: session_of_def new_world_def)
  have run: "registry_inv w" "dom (session_of w) = conns_after es {}"
    using reg.run_dom [of "new_world um g" es] assms empty by simp_all
  then have "c \<in> conns_after es {} \<Longrightarrow> c \<in> w_connected w" for c
    using session_of_connected [OF run(1)] by (auto simp: dom_def)
  moreover have "{c. session_of w c \<noteq> None} = conns_after es {}"
    using run(2) by (simp add: dom_def)
  ultimately show ?thesis
    using callback_alive [OF run(1)] by blast
qed

theorem registry_tracks_connections_witness:
  "session_of (conn_run establish disconnect [Up 16, Up 32, Down 16, Up 16, Down 32] (new_world (new_UserManager demo_db) (0 :: nat))) 16 \<noteq> None
   \<and> session_of (conn_run establish disconnect [Up 16, Up 32, Down 16, Up 16, Down 32] (new_world (new_UserManager demo_db) (0 :: nat))) 32 = None"
proof -
  let ?es = "[Up 16, Up 32, Down 16, Up 16, Down 32]"
  have "{c. session_of (conn_run establish disconnect ?es (new_world (new_UserManager demo_db) (0 :: nat))) c \<noteq> None}
    = conns_after ?es {}"
    using registry_tracks_connections [of ?es, OF _ refl, of "new_UserManager demo_db" "0 :: nat"]
    by (simp del: conn_run.simps)
  also have "\<dots> = {16}" by auto
  finally have "session_of (conn_run establish disconnect ?es (new_world (new_UserManager demo_db) (0 :: nat))) c \<noteq> None
    \<longleftrightarrow> c = 16" for c by blast
  from this [of 16] this [of 32] show ?thesis by (simp del: conn_run.simps)
qed

lemma find_set: "find P xs = Some x \<Longrightarrow> x \<in> set xs \<and> P x"
  by (induction xs) (auto split: if_splits)

lemma GetSessionByID_Some:
  assumes "GetSessionByID uid w = Some sp"
  shows "alive w sp \<and> UserID w sp = uid"
proof -
  obtain k where "find (\<lambda>(k, sp). UserID w sp = uid) (m_mapclient w) = Some (k, sp)"
    using assms by (auto simp: GetSessionByID_def)
  from find_set [OF this] show ?thesis by (force simp: alive_def)
qed

lemma GetSessionByID_None:
  "GetSessionByID uid w = None \<longleftrightarrow> (\<forall>sp. alive w sp \<longrightarrow> UserID w sp \<noteq> uid)"
  by (force simp: GetSessionByID_def alive_def find_None_iff)

end
