(* ===== verification/Net_Buffer.thy ===== *)
theory Net_Buffer
  imports Prelude
begin

text \<open>
  \<open>net/Endian.h\<close> and \<open>net/Buffer.h\<close>, \<open>net/Buffer.cc\<close>: byte order and the receive and send buffer of
  a connection. A buffer is a vector of \<open>char\<close> with two positions: the prependable part is before
  \<open>readerIndex\<close>, the readable part between \<open>readerIndex\<close> and \<open>writerIndex\<close>, the writable part after.
  Every \<open>assert\<close> of the source is a check here (\<open>assertE\<close>); sizes (\<open>size_t\<close>) are natural numbers.

  The buffer is shown to implement a queue of characters (the locale \<open>byte_queue\<close>): \<open>contents\<close> is
  the abstraction, \<open>buffer_inv\<close> the invariant, and no assertion fails where the caller keeps
  to the contract.
\<close>

section \<open>Integers in memory and on the network\<close>

text \<open>The memory of an integer of \<open>k\<close> bytes on a little-endian host, and back.\<close>

fun le_bytes :: "nat \<Rightarrow> nat \<Rightarrow> string" where
  "le_bytes 0 x = []"
| "le_bytes (Suc k) x = char_of (x mod 256) # le_bytes k (x div 256)"

fun of_le_bytes :: "string \<Rightarrow> nat" where
  "of_le_bytes [] = 0"
| "of_le_bytes (c # cs) = of_char c + 256 * of_le_bytes cs"

text \<open>\<open>htobe\<close> and \<open>betoh\<close> of \<open>k\<close> bytes reverse the bytes on such a host.\<close>

definition byte_swap :: "nat \<Rightarrow> 'w::len word \<Rightarrow> 'w word" where
  "byte_swap k w = word_of_nat (of_le_bytes (rev (le_bytes k (unat w))))"

definition hostToNetwork64 :: "64 word \<Rightarrow> 64 word" where
  "hostToNetwork64 host64 = byte_swap 8 host64"

definition hostToNetwork32 :: "32 word \<Rightarrow> 32 word" where
  "hostToNetwork32 host32 = byte_swap 4 host32"

definition hostToNetwork16 :: "16 word \<Rightarrow> 16 word" where
  "hostToNetwork16 host16 = byte_swap 2 host16"

definition networkToHost64 :: "64 word \<Rightarrow> 64 word" where
  "networkToHost64 net64 = byte_swap 8 net64"

definition networkToHost32 :: "32 word \<Rightarrow> 32 word" where
  "networkToHost32 net32 = byte_swap 4 net32"

definition networkToHost16 :: "16 word \<Rightarrow> 16 word" where
  "networkToHost16 net16 = byte_swap 2 net16"

lemma length_le_bytes [simp]: "length (le_bytes k x) = k"
  by (induction k arbitrary: x) auto

lemma of_le_bytes_less: "of_le_bytes cs < 256 ^ length cs"
proof (induction cs)
  case (Cons c cs)
  have "a + 256 * x < 256 * y" if "a < 256" "x < y" for a x y :: nat
    using that by arith
  from this [OF nat_of_char_less_256 Cons] show ?case by simp
qed simp

lemma of_le_bytes_le_bytes: "x < 256 ^ k \<Longrightarrow> of_le_bytes (le_bytes k x) = x"
proof (induction k arbitrary: x)
  case (Suc k)
  then have "x div 256 < 256 ^ k" by (simp add: less_mult_imp_div_less mult.commute)
  with Suc.IH show ?case by simp
qed simp

lemma le_bytes_of_le_bytes: "le_bytes (length cs) (of_le_bytes cs) = cs"
proof (induction cs)
  case (Cons c cs)
  have "(of_char c :: nat) < 256" by (rule nat_of_char_less_256)
  with Cons show ?case by simp
qed simp

lemma le_bytes_inverse: "length cs = k \<Longrightarrow> le_bytes k (of_le_bytes cs) = cs"
  using le_bytes_of_le_bytes by blast

lemma unat_byte_swap:
  assumes "8 * k = LENGTH('w::len)"
  shows "unat (byte_swap k (w :: 'w word)) = of_le_bytes (rev (le_bytes k (unat w)))"
proof -
  have "of_le_bytes (rev (le_bytes k (unat w))) < 256 ^ k"
    using of_le_bytes_less [of "rev (le_bytes k (unat w))"] by simp
  also have "(256 :: nat) ^ k = 2 ^ LENGTH('w)"
    using assms power_mult [of "2 :: nat" 8 k] by simp
  finally show ?thesis
    by (simp add: byte_swap_def unat_of_nat take_bit_nat_eq_self)
qed

lemma le_bytes_byte_swap:
  assumes "8 * k = LENGTH('w::len)"
  shows "le_bytes k (unat (byte_swap k (w :: 'w word))) = rev (le_bytes k (unat w))"
  by (simp add: unat_byte_swap [OF assms] le_bytes_inverse)

lemma byte_swap_swap:
  assumes "8 * k = LENGTH('w::len)"
  shows "byte_swap k (byte_swap k (w :: 'w word)) = w"
proof -
  have "unat w < 2 ^ (8 * k)"
    unfolding assms by (rule unsigned_less)
  then have "unat w < 256 ^ k"
    by (simp add: power_mult)
  then show ?thesis
    by (simp add: byte_swap_def [of k "byte_swap k w"] le_bytes_byte_swap [OF assms]
        of_le_bytes_le_bytes)
qed

section \<open>The buffer\<close>

record buffer =
  buf :: string
  readerIndex :: nat
  writerIndex :: nat

definition kCheapPrepend :: nat where
  "kCheapPrepend = 8"

definition kInitialSize :: nat where
  "kInitialSize = 1024"

definition new_Buffer :: "nat \<Rightarrow> buffer" where
  "new_Buffer initialSize =
     \<lparr>buf = replicate (kCheapPrepend + initialSize) (CHR 0x00),
      readerIndex = kCheapPrepend, writerIndex = kCheapPrepend\<rparr>"

definition readableBytes :: "buffer \<Rightarrow> nat" where
  "readableBytes b = writerIndex b - readerIndex b"

definition writableBytes :: "buffer \<Rightarrow> nat" where
  "writableBytes b = length (buf b) - writerIndex b"

definition prependableBytes :: "buffer \<Rightarrow> nat" where
  "prependableBytes b = readerIndex b"

text \<open>The readable characters: \<open>[peek(), beginWrite())\<close>.\<close>

definition toStringPiece :: "buffer \<Rightarrow> string" where
  "toStringPiece b = take (readableBytes b) (drop (readerIndex b) (buf b))"

definition swap_Buffer :: "buffer \<Rightarrow> buffer \<Rightarrow> buffer \<times> buffer" where
  "swap_Buffer b rhs =
     (b\<lparr>buf := buf rhs, readerIndex := readerIndex rhs, writerIndex := writerIndex rhs\<rparr>,
      rhs\<lparr>buf := buf b, readerIndex := readerIndex b, writerIndex := writerIndex b\<rparr>)"

subsection \<open>Searching\<close>

text \<open>
  \<open>std::search\<close> for two characters and \<open>memchr\<close> for one, over a range; positions are offsets in
  the range. A position of the buffer is an offset from \<open>begin()\<close>; \<open>None\<close> stands for \<open>NULL\<close>.
\<close>

fun search2 :: "char \<Rightarrow> char \<Rightarrow> string \<Rightarrow> nat option" where
  "search2 x y (c # d # cs) =
     (if c = x \<and> d = y then Some 0 else map_option Suc (search2 x y (d # cs)))"
| "search2 x y cs = None"

fun memchr :: "char \<Rightarrow> string \<Rightarrow> nat option" where
  "memchr x [] = None"
| "memchr x (c # cs) = (if c = x then Some 0 else map_option Suc (memchr x cs))"

definition range_from :: "buffer \<Rightarrow> nat \<Rightarrow> string" where
  "range_from b start = take (writerIndex b - start) (drop start (buf b))"

definition findCRLF :: "buffer \<Rightarrow> nat option" where
  "findCRLF b = map_option (\<lambda>i. readerIndex b + i)
     (search2 (CHR 0x0D) (CHR 0x0A) (range_from b (readerIndex b)))"

definition findCRLF_from :: "nat \<Rightarrow> buffer \<Rightarrow> nat option res" where
  "findCRLF_from start b =
     bindE (assertE (readerIndex b \<le> start)) (\<lambda>_.
     bindE (assertE (start \<le> writerIndex b)) (\<lambda>_.
     Inr (map_option (\<lambda>i. start + i) (search2 (CHR 0x0D) (CHR 0x0A) (range_from b start)))))"

definition findEOL :: "buffer \<Rightarrow> nat option" where
  "findEOL b = map_option (\<lambda>i. readerIndex b + i)
     (memchr (CHR 0x0A) (range_from b (readerIndex b)))"

definition findEOL_from :: "nat \<Rightarrow> buffer \<Rightarrow> nat option res" where
  "findEOL_from start b =
     bindE (assertE (readerIndex b \<le> start)) (\<lambda>_.
     bindE (assertE (start \<le> writerIndex b)) (\<lambda>_.
     Inr (map_option (\<lambda>i. start + i) (memchr (CHR 0x0A) (range_from b start)))))"

subsection \<open>Reading\<close>

definition retrieveAll :: "buffer \<Rightarrow> buffer" where
  "retrieveAll b = b\<lparr>readerIndex := kCheapPrepend, writerIndex := kCheapPrepend\<rparr>"

definition retrieve :: "nat \<Rightarrow> buffer \<Rightarrow> buffer res" where
  "retrieve len b =
     bindE (assertE (len \<le> readableBytes b)) (\<lambda>_.
     Inr (if len < readableBytes b then b\<lparr>readerIndex := readerIndex b + len\<rparr>
          else retrieveAll b))"

definition retrieveUntil :: "nat \<Rightarrow> buffer \<Rightarrow> buffer res" where
  "retrieveUntil pos b =
     bindE (assertE (readerIndex b \<le> pos)) (\<lambda>_.
     bindE (assertE (pos \<le> writerIndex b)) (\<lambda>_.
     retrieve (pos - readerIndex b) b))"

definition retrieveInt64 :: "buffer \<Rightarrow> buffer res" where
  "retrieveInt64 b = retrieve 8 b"

definition retrieveInt32 :: "buffer \<Rightarrow> buffer res" where
  "retrieveInt32 b = retrieve 4 b"

definition retrieveInt16 :: "buffer \<Rightarrow> buffer res" where
  "retrieveInt16 b = retrieve 2 b"

definition retrieveInt8 :: "buffer \<Rightarrow> buffer res" where
  "retrieveInt8 b = retrieve 1 b"

definition retrieveAsString :: "nat \<Rightarrow> buffer \<Rightarrow> (string \<times> buffer) res" where
  "retrieveAsString len b =
     bindE (assertE (len \<le> readableBytes b)) (\<lambda>_.
     bindE (retrieve len b) (\<lambda>b'.
     Inr (take len (drop (readerIndex b) (buf b)), b')))"

definition retrieveAllAsString :: "buffer \<Rightarrow> (string \<times> buffer) res" where
  "retrieveAllAsString b = retrieveAsString (readableBytes b) b"

subsection \<open>Writing\<close>

definition makeSpace :: "nat \<Rightarrow> buffer \<Rightarrow> buffer res" where
  "makeSpace len b =
     (if writableBytes b + prependableBytes b < len + kCheapPrepend
      then Inr (b\<lparr>buf := resize (writerIndex b + len) (buf b)\<rparr>)
      else
        bindE (assertE (kCheapPrepend < readerIndex b)) (\<lambda>_.
        let readable = readableBytes b;
            b' = b\<lparr>buf := copy_at kCheapPrepend (toStringPiece b) (buf b),
                   readerIndex := kCheapPrepend, writerIndex := kCheapPrepend + readable\<rparr>
        in bindE (assertE (readable = readableBytes b')) (\<lambda>_. Inr b')))"

definition ensureWritableBytes :: "nat \<Rightarrow> buffer \<Rightarrow> buffer res" where
  "ensureWritableBytes len b =
     bindE (if writableBytes b < len then makeSpace len b else Inr b) (\<lambda>b'.
     bindE (assertE (len \<le> writableBytes b')) (\<lambda>_. Inr b'))"

definition hasWritten :: "nat \<Rightarrow> buffer \<Rightarrow> buffer res" where
  "hasWritten len b =
     bindE (assertE (len \<le> writableBytes b)) (\<lambda>_. Inr (b\<lparr>writerIndex := writerIndex b + len\<rparr>))"

definition unwrite :: "nat \<Rightarrow> buffer \<Rightarrow> buffer res" where
  "unwrite len b =
     bindE (assertE (len \<le> readableBytes b)) (\<lambda>_. Inr (b\<lparr>writerIndex := writerIndex b - len\<rparr>))"

definition append_Buffer :: "string \<Rightarrow> buffer \<Rightarrow> buffer res" where
  "append_Buffer str b =
     bindE (ensureWritableBytes (length str) b) (\<lambda>b'.
     hasWritten (length str) (b'\<lparr>buf := copy_at (writerIndex b') str (buf b')\<rparr>))"

definition prepend :: "string \<Rightarrow> buffer \<Rightarrow> buffer res" where
  "prepend data b =
     bindE (assertE (length data \<le> prependableBytes b)) (\<lambda>_.
     let r = readerIndex b - length data
     in Inr (b\<lparr>readerIndex := r, buf := copy_at r data (buf b)\<rparr>))"

text \<open>
  \<open>shrink\<close>: the local \<open>Buffer other\<close> takes the readable characters and is then swapped in; what it
  got from the swap dies with it.
\<close>

definition shrink :: "nat \<Rightarrow> buffer \<Rightarrow> buffer res" where
  "shrink reserve b =
     bindE (ensureWritableBytes (readableBytes b + reserve) (new_Buffer kInitialSize)) (\<lambda>other.
     bindE (append_Buffer (toStringPiece b) other) (\<lambda>other'.
     Inr (fst (swap_Buffer b other'))))"

subsection \<open>Integers in network byte order\<close>

definition appendInt64 :: "64 word \<Rightarrow> buffer \<Rightarrow> buffer res" where
  "appendInt64 x b = append_Buffer (le_bytes 8 (unat (hostToNetwork64 x))) b"

definition appendInt32 :: "32 word \<Rightarrow> buffer \<Rightarrow> buffer res" where
  "appendInt32 x b = append_Buffer (le_bytes 4 (unat (hostToNetwork32 x))) b"

definition appendInt16 :: "16 word \<Rightarrow> buffer \<Rightarrow> buffer res" where
  "appendInt16 x b = append_Buffer (le_bytes 2 (unat (hostToNetwork16 x))) b"

definition appendInt8 :: "8 word \<Rightarrow> buffer \<Rightarrow> buffer res" where
  "appendInt8 x b = append_Buffer (le_bytes 1 (unat x)) b"

definition peekInt64 :: "buffer \<Rightarrow> 64 word res" where
  "peekInt64 b =
     bindE (assertE (8 \<le> readableBytes b)) (\<lambda>_.
     Inr (networkToHost64 (word_of_nat (of_le_bytes (take 8 (drop (readerIndex b) (buf b)))))))"

definition peekInt32 :: "buffer \<Rightarrow> 32 word res" where
  "peekInt32 b =
     bindE (assertE (4 \<le> readableBytes b)) (\<lambda>_.
     Inr (networkToHost32 (word_of_nat (of_le_bytes (take 4 (drop (readerIndex b) (buf b)))))))"

definition peekInt16 :: "buffer \<Rightarrow> 16 word res" where
  "peekInt16 b =
     bindE (assertE (2 \<le> readableBytes b)) (\<lambda>_.
     Inr (networkToHost16 (word_of_nat (of_le_bytes (take 2 (drop (readerIndex b) (buf b)))))))"

definition peekInt8 :: "buffer \<Rightarrow> 8 word res" where
  "peekInt8 b =
     bindE (assertE (1 \<le> readableBytes b)) (\<lambda>_.
     Inr (word_of_nat (of_le_bytes (take 1 (drop (readerIndex b) (buf b))))))"

definition readInt64 :: "buffer \<Rightarrow> (64 word \<times> buffer) res" where
  "readInt64 b = bindE (peekInt64 b) (\<lambda>x. bindE (retrieveInt64 b) (\<lambda>b'. Inr (x, b')))"

definition readInt32 :: "buffer \<Rightarrow> (32 word \<times> buffer) res" where
  "readInt32 b = bindE (peekInt32 b) (\<lambda>x. bindE (retrieveInt32 b) (\<lambda>b'. Inr (x, b')))"

definition readInt16 :: "buffer \<Rightarrow> (16 word \<times> buffer) res" where
  "readInt16 b = bindE (peekInt16 b) (\<lambda>x. bindE (retrieveInt16 b) (\<lambda>b'. Inr (x, b')))"

definition readInt8 :: "buffer \<Rightarrow> (8 word \<times> buffer) res" where
  "readInt8 b = bindE (peekInt8 b) (\<lambda>x. bindE (retrieveInt8 b) (\<lambda>b'. Inr (x, b')))"

definition prependInt64 :: "64 word \<Rightarrow> buffer \<Rightarrow> buffer res" where
  "prependInt64 x b = prepend (le_bytes 8 (unat (hostToNetwork64 x))) b"

definition prependInt32 :: "32 word \<Rightarrow> buffer \<Rightarrow> buffer res" where
  "prependInt32 x b = prepend (le_bytes 4 (unat (hostToNetwork32 x))) b"

definition prependInt16 :: "16 word \<Rightarrow> buffer \<Rightarrow> buffer res" where
  "prependInt16 x b = prepend (le_bytes 2 (unat (hostToNetwork16 x))) b"

definition prependInt8 :: "8 word \<Rightarrow> buffer \<Rightarrow> buffer res" where
  "prependInt8 x b = prepend (le_bytes 1 (unat x)) b"

subsection \<open>Reading from a descriptor\<close>

text \<open>
  \<open>readv\<close> scatters the received characters over the writable part and a stack buffer of 65536
  characters; \<open>rv\<close> is its outcome, an \<open>errno\<close> or the characters. The result is the returned
  count, the saved \<open>errno\<close> and the buffer.
\<close>

definition extrabuf_size :: nat where
  "extrabuf_size = 65536"

definition readv_capacity :: "buffer \<Rightarrow> nat" where
  "readv_capacity b =
     (let writable = writableBytes b
      in if writable < extrabuf_size then writable + extrabuf_size else writable)"

definition readFd :: "int + string \<Rightarrow> buffer \<Rightarrow> (int \<times> int option \<times> buffer) res" where
  "readFd rv b =
     (let writable = writableBytes b
      in case rv of
           Inl savedErrno \<Rightarrow> Inr (- 1, Some savedErrno, b)
         | Inr got \<Rightarrow>
             let n = length got;
                 b1 = b\<lparr>buf := copy_at (writerIndex b) (take writable got) (buf b)\<rparr>
             in if n \<le> writable
                then Inr (int n, None, b1\<lparr>writerIndex := writerIndex b1 + n\<rparr>)
                else bindE (append_Buffer (drop writable got)
                             (b1\<lparr>writerIndex := length (buf b1)\<rparr>)) (\<lambda>b2.
                     Inr (int n, None, b2)))"

section \<open>Invariant and abstraction\<close>

definition buffer_inv :: "buffer \<Rightarrow> bool" where
  "buffer_inv b \<longleftrightarrow>
     readerIndex b \<le> writerIndex b \<and> writerIndex b \<le> length (buf b) \<and> kCheapPrepend \<le> length (buf b)"

lemmas buffer_sizes = readableBytes_def writableBytes_def prependableBytes_def kCheapPrepend_def
lemmas buffer_view = buffer_inv_def toStringPiece_def buffer_sizes

lemma buffer_inv_new [simp]: "buffer_inv (new_Buffer n)"
  by (simp add: buffer_view new_Buffer_def)

lemma contents_new [simp]: "toStringPiece (new_Buffer n) = []"
  by (simp add: buffer_view new_Buffer_def)

lemma prependableBytes_new [simp]: "prependableBytes (new_Buffer n) = kCheapPrepend"
  by (simp add: prependableBytes_def new_Buffer_def)

lemma length_contents [simp]: "buffer_inv b \<Longrightarrow> length (toStringPiece b) = readableBytes b"
  by (auto simp: buffer_view)

lemma readableBytes_new [simp]: "readableBytes (new_Buffer n) = 0"
  by (simp add: readableBytes_def new_Buffer_def)

lemma contents_empty: "buffer_inv b \<Longrightarrow> toStringPiece b = [] \<longleftrightarrow> readableBytes b = 0"
  by (auto simp: buffer_view)

lemma take_contents:
  "buffer_inv b \<Longrightarrow> n \<le> readableBytes b \<Longrightarrow>
   take n (drop (readerIndex b) (buf b)) = take n (toStringPiece b)"
  by (auto simp: toStringPiece_def min_def)

lemma range_from_contents:
  "range_from b (readerIndex b) = toStringPiece b"
  by (simp add: range_from_def toStringPiece_def readableBytes_def)

lemma retrieveAll_spec:
  "buffer_inv b \<Longrightarrow> buffer_inv (retrieveAll b) \<and> toStringPiece (retrieveAll b) = []
     \<and> prependableBytes (retrieveAll b) = kCheapPrepend"
  by (simp add: retrieveAll_def buffer_view)

lemma retrieve_spec:
  assumes "buffer_inv b" "len \<le> readableBytes b"
  shows "\<exists>b'. retrieve len b = Inr b' \<and> buffer_inv b' \<and> toStringPiece b' = drop len (toStringPiece b)"
proof (cases "len < readableBytes b")
  case True
  with assms show ?thesis
    by (auto simp: retrieve_def buffer_view drop_take add.commute)
next
  case False
  with assms retrieveAll_spec show ?thesis by (simp add: retrieve_def)
qed

lemma retrieve_fails: "\<not> len \<le> readableBytes b \<Longrightarrow> retrieve len b = Inl AssertionFailure"
  by (simp add: retrieve_def)

lemma makeSpace_spec:
  assumes inv: "buffer_inv b" and small: "writableBytes b < len"
  shows "\<exists>b'. makeSpace len b = Inr b' \<and> buffer_inv b' \<and> toStringPiece b' = toStringPiece b
           \<and> len \<le> writableBytes b' \<and> min kCheapPrepend (prependableBytes b) \<le> prependableBytes b'"
proof (cases "writableBytes b + prependableBytes b < len + kCheapPrepend")
  case True
  have "take (readableBytes b) (drop (readerIndex b) (resize (writerIndex b + len) (buf b)))
      = take (readableBytes b) (drop (readerIndex b) (buf b))"
    using inv by (auto simp: buffer_view resize_def drop_take min_def)
  with True inv small show ?thesis
    by (auto simp: makeSpace_def buffer_view)
next
  case False
  have fits: "kCheapPrepend + length (toStringPiece b) \<le> length (buf b)"
    using inv small False by (auto simp: buffer_view)
  have "take (readableBytes b) (drop kCheapPrepend
          (copy_at kCheapPrepend (toStringPiece b) (buf b))) = toStringPiece b"
    using copy_at_window [OF fits] inv by simp
  moreover have "kCheapPrepend < readerIndex b"
    using False small by (auto simp: buffer_sizes)
  then have "makeSpace len b = Inr (b\<lparr>buf := copy_at kCheapPrepend (toStringPiece b) (buf b),
      readerIndex := kCheapPrepend, writerIndex := kCheapPrepend + readableBytes b\<rparr>)"
    using False by (simp add: makeSpace_def Let_def readableBytes_def)
  ultimately show ?thesis
    using False inv fits length_copy_at [OF fits] by (auto simp: buffer_view)
qed

lemma ensureWritableBytes_spec:
  assumes "buffer_inv b"
  shows "\<exists>b'. ensureWritableBytes len b = Inr b' \<and> buffer_inv b' \<and> toStringPiece b' = toStringPiece b
           \<and> len \<le> writableBytes b' \<and> min kCheapPrepend (prependableBytes b) \<le> prependableBytes b'"
proof (cases "writableBytes b < len")
  case True
  with makeSpace_spec [OF assms True] show ?thesis by (auto simp: ensureWritableBytes_def)
qed (use assms in \<open>auto simp: ensureWritableBytes_def\<close>)

lemma append_copy:
  assumes "buffer_inv b" "length str \<le> writableBytes b"
  shows "\<exists>b'. hasWritten (length str) (b\<lparr>buf := copy_at (writerIndex b) str (buf b)\<rparr>) = Inr b'
           \<and> buffer_inv b' \<and> toStringPiece b' = toStringPiece b @ str
           \<and> prependableBytes b' = prependableBytes b"
proof -
  have fits: "writerIndex b + length str \<le> length (buf b)"
    using assms by (auto simp: buffer_view)
  have "drop (readerIndex b) (copy_at (writerIndex b) str (buf b))
      = toStringPiece b @ str @ drop (writerIndex b + length str) (buf b)"
    using assms by (simp add: copy_at_def buffer_view drop_take)
  with assms fits show ?thesis
    by (auto simp: hasWritten_def buffer_view)
qed

lemma append_Buffer_spec:
  assumes "buffer_inv b"
  shows "\<exists>b'. append_Buffer str b = Inr b' \<and> buffer_inv b' \<and> toStringPiece b' = toStringPiece b @ str
           \<and> min kCheapPrepend (prependableBytes b) \<le> prependableBytes b'"
proof -
  obtain b1 where b1: "ensureWritableBytes (length str) b = Inr b1" "buffer_inv b1"
    "toStringPiece b1 = toStringPiece b" "length str \<le> writableBytes b1"
    "min kCheapPrepend (prependableBytes b) \<le> prependableBytes b1"
    using ensureWritableBytes_spec [OF assms] by blast
  with append_copy [OF b1(2,4)] show ?thesis by (auto simp: append_Buffer_def)
qed

lemma prepend_spec:
  assumes "buffer_inv b" "length data \<le> prependableBytes b"
  shows "\<exists>b'. prepend data b = Inr b' \<and> buffer_inv b' \<and> toStringPiece b' = data @ toStringPiece b"
proof -
  let ?r = "readerIndex b - length data"
  have fits: "?r + length data \<le> length (buf b)"
    using assms by (auto simp: buffer_view)
  have "drop ?r (copy_at ?r data (buf b)) = data @ drop (readerIndex b) (buf b)"
    using drop_copy_at [OF fits] assms by (simp add: buffer_view)
  with assms fits show ?thesis
    by (auto simp: prepend_def Let_def buffer_view)
qed

lemma prepend_fails:
  "\<not> length data \<le> prependableBytes b \<Longrightarrow> prepend data b = Inl AssertionFailure"
  by (simp add: prepend_def)

section \<open>The buffer as a queue of characters\<close>

text \<open>
  What the codecs and the connection rely on: characters leave in the order they were appended, a
  prefix can be put in front while there is room, and none of it stops at an assertion.
\<close>

locale byte_queue =
  fixes invar :: "'q \<Rightarrow> bool"
    and contents :: "'q \<Rightarrow> string"
    and room :: "'q \<Rightarrow> nat"
    and append :: "string \<Rightarrow> 'q \<Rightarrow> 'q res"
    and take_front :: "nat \<Rightarrow> 'q \<Rightarrow> 'q res"
    and put_front :: "string \<Rightarrow> 'q \<Rightarrow> 'q res"
  assumes append_ok: "invar q \<Longrightarrow> \<exists>q'. append s q = Inr q' \<and> invar q' \<and> contents q' = contents q @ s
      \<and> min 8 (room q) \<le> room q'"
    and take_front_ok: "invar q \<Longrightarrow> n \<le> length (contents q) \<Longrightarrow>
      \<exists>q'. take_front n q = Inr q' \<and> invar q' \<and> contents q' = drop n (contents q)"
    and put_front_ok: "invar q \<Longrightarrow> length s \<le> room q \<Longrightarrow>
      \<exists>q'. put_front s q = Inr q' \<and> invar q' \<and> contents q' = s @ contents q"
begin

lemma append_eq:
  assumes "invar q" "append s q = Inr q'"
  shows "invar q' \<and> contents q' = contents q @ s \<and> min 8 (room q) \<le> room q'"
  using append_ok [OF assms(1), of s] assms(2) by auto

lemma append_total: "invar q \<Longrightarrow> \<exists>q'. append s q = Inr q'"
  using append_ok by blast

lemma fifo:
  assumes "invar q"
  shows "\<exists>q1 q2. append s q = Inr q1 \<and> take_front (length (contents q)) q1 = Inr q2
           \<and> invar q2 \<and> contents q2 = s"
proof -
  obtain q1 where q1: "append s q = Inr q1" "invar q1" "contents q1 = contents q @ s"
    using append_ok [OF assms] by blast
  then have "length (contents q) \<le> length (contents q1)" by simp
  from take_front_ok [OF q1(2) this] q1 show ?thesis by auto
qed

text \<open>The codecs build a frame in an empty buffer: two pieces appended, a header put in front.\<close>

lemma frame:
  assumes "invar q" "contents q = []" "8 \<le> room q" "length h \<le> 8"
  shows "\<exists>q1 q2 q3. append s q = Inr q1 \<and> contents q1 = s \<and> invar q1
           \<and> append t q1 = Inr q2 \<and> contents q2 = s @ t \<and> invar q2
           \<and> put_front h q2 = Inr q3 \<and> contents q3 = h @ s @ t \<and> invar q3"
proof -
  obtain q1 where q1: "append s q = Inr q1" "invar q1" "contents q1 = s" "8 \<le> room q1"
    using append_ok [OF assms(1), of s] assms(2,3) by auto
  obtain q2 where q2: "append t q1 = Inr q2" "invar q2" "contents q2 = s @ t" "8 \<le> room q2"
    using append_ok [OF q1(2), of t] q1(3,4) by auto
  then have "length h \<le> room q2" using assms(4) by simp
  from put_front_ok [OF q2(2) this] q1 q2 show ?thesis by auto
qed

end

interpretation bq: byte_queue buffer_inv toStringPiece prependableBytes append_Buffer retrieve prepend
proof unfold_locales
  fix q :: buffer and s :: string and n :: nat
  assume inv: "buffer_inv q"
  show "\<exists>q'. append_Buffer s q = Inr q' \<and> buffer_inv q' \<and> toStringPiece q' = toStringPiece q @ s
      \<and> min 8 (prependableBytes q) \<le> prependableBytes q'"
    using append_Buffer_spec [OF inv, of s] by (simp add: kCheapPrepend_def)
  show "n \<le> length (toStringPiece q) \<Longrightarrow>
      \<exists>q'. retrieve n q = Inr q' \<and> buffer_inv q' \<and> toStringPiece q' = drop n (toStringPiece q)"
    using retrieve_spec [OF inv] inv by simp
  show "length s \<le> prependableBytes q \<Longrightarrow>
      \<exists>q'. prepend s q = Inr q' \<and> buffer_inv q' \<and> toStringPiece q' = s @ toStringPiece q"
    using prepend_spec [OF inv] by simp
qed

subsection \<open>Integers\<close>

lemma unat_of_bytes:
  assumes "length cs = k" "8 * k = LENGTH('w::len)"
  shows "unat (word_of_nat (of_le_bytes cs) :: 'w word) = of_le_bytes cs"
proof -
  have "of_le_bytes cs < 2 ^ (8 * k)"
    using of_le_bytes_less [of cs] assms(1) by (simp add: power_mult)
  then show ?thesis
    unfolding assms(2) by (simp add: unat_of_nat take_bit_nat_eq_self)
qed

lemma byte_swap_of_bytes:
  assumes "length cs = k" "8 * k = LENGTH('w::len)"
  shows "byte_swap k (word_of_nat (of_le_bytes cs) :: 'w word) = word_of_nat (of_le_bytes (rev cs))"
  by (simp add: byte_swap_def unat_of_bytes [OF assms] le_bytes_inverse [OF assms(1)])

lemma of_rev_bytes:
  assumes "8 * k = LENGTH('w::len)"
  shows "word_of_nat (of_le_bytes (rev (rev (le_bytes k (unat (x :: 'w word)))))) = x"
proof -
  have "unat x < 2 ^ (8 * k)"
    unfolding assms by (rule unsigned_less)
  then show ?thesis
    by (simp add: of_le_bytes_le_bytes power_mult)
qed

text \<open>The big-endian characters of an integer: what goes over the network.\<close>

lemma network_bytes:
  "le_bytes 8 (unat (hostToNetwork64 x)) = rev (le_bytes 8 (unat x))"
  "le_bytes 4 (unat (hostToNetwork32 y)) = rev (le_bytes 4 (unat y))"
  "le_bytes 2 (unat (hostToNetwork16 z)) = rev (le_bytes 2 (unat z))"
  by (simp_all only: hostToNetwork64_def hostToNetwork32_def hostToNetwork16_def)
     (rule le_bytes_byte_swap, simp)+

lemma network_word:
  assumes "buffer_inv b" "k \<le> readableBytes b" "8 * k = LENGTH('w::len)"
  shows "byte_swap k (word_of_nat (of_le_bytes (take k (drop (readerIndex b) (buf b)))) :: 'w word)
    = word_of_nat (of_le_bytes (rev (take k (toStringPiece b))))"
proof -
  have "length (take k (toStringPiece b)) = k" using assms(1,2) by simp
  from byte_swap_of_bytes [OF this assms(3)] show ?thesis
    by (simp add: take_contents [OF assms(1,2)])
qed

lemma peekInt64_spec: "buffer_inv b \<Longrightarrow> 8 \<le> readableBytes b \<Longrightarrow>
    peekInt64 b = Inr (word_of_nat (of_le_bytes (rev (take 8 (toStringPiece b)))))"
  by (simp add: peekInt64_def networkToHost64_def network_word)

lemma peekInt32_spec: "buffer_inv b \<Longrightarrow> 4 \<le> readableBytes b \<Longrightarrow>
    peekInt32 b = Inr (word_of_nat (of_le_bytes (rev (take 4 (toStringPiece b)))))"
  by (simp add: peekInt32_def networkToHost32_def network_word)

lemma peekInt16_spec: "buffer_inv b \<Longrightarrow> 2 \<le> readableBytes b \<Longrightarrow>
    peekInt16 b = Inr (word_of_nat (of_le_bytes (rev (take 2 (toStringPiece b)))))"
  by (simp add: peekInt16_def networkToHost16_def network_word)

lemma rev_take_1: "rev (take 1 xs) = take 1 xs"
  by (cases xs) simp_all

lemma peekInt8_spec: "buffer_inv b \<Longrightarrow> 1 \<le> readableBytes b \<Longrightarrow>
    peekInt8 b = Inr (word_of_nat (of_le_bytes (rev (take 1 (toStringPiece b)))))"
  by (simp add: peekInt8_def take_contents rev_take_1 del: One_nat_def)

lemmas peek_specs = peekInt64_spec peekInt32_spec peekInt16_spec peekInt8_spec
lemmas append_ints = appendInt64_def appendInt32_def appendInt16_def appendInt8_def
lemmas prepend_ints = prependInt64_def prependInt32_def prependInt16_def prependInt8_def
lemmas read_ints = readInt64_def readInt32_def readInt16_def readInt8_def
  retrieveInt64_def retrieveInt32_def retrieveInt16_def retrieveInt8_def

lemma le_bytes_1: "le_bytes 1 x = rev (le_bytes 1 x)"
  by simp

text \<open>An integer whose characters are at the front of the buffer is what is read, and then gone.\<close>

lemma front_word:
  assumes "buffer_inv b" "toStringPiece b = rev (le_bytes k (unat (x :: 'w::len word))) @ rest"
    "8 * k = LENGTH('w)"
  shows "k \<le> readableBytes b
    \<and> (word_of_nat (of_le_bytes (rev (take k (toStringPiece b)))) :: 'w word) = x
    \<and> (\<exists>b'. retrieve k b = Inr b' \<and> buffer_inv b' \<and> toStringPiece b' = rest)"
proof -
  have "readableBytes b = k + length rest"
    using assms(2) length_contents [OF assms(1)] by simp
  moreover from this have "\<exists>b'. retrieve k b = Inr b' \<and> buffer_inv b' \<and> toStringPiece b' = rest"
    using retrieve_spec [OF assms(1), of k] assms(2) by auto
  ultimately show ?thesis
    using of_rev_bytes [OF assms(3), of x] assms(2) by simp
qed

lemma append_then_front:
  assumes "buffer_inv b" "8 * k = LENGTH('w::len)"
  shows "\<exists>b1 b2. append_Buffer (rev (le_bytes k (unat (x :: 'w word)))) b = Inr b1
    \<and> retrieve (readableBytes b) b1 = Inr b2 \<and> buffer_inv b2 \<and> k \<le> readableBytes b2
    \<and> (word_of_nat (of_le_bytes (rev (take k (toStringPiece b2)))) :: 'w word) = x
    \<and> (\<exists>b3. retrieve k b2 = Inr b3 \<and> readableBytes b3 = 0)"
proof -
  obtain b1 b2 where b: "append_Buffer (rev (le_bytes k (unat x))) b = Inr b1"
    "retrieve (readableBytes b) b1 = Inr b2" "buffer_inv b2"
    "toStringPiece b2 = rev (le_bytes k (unat x)) @ []"
    using bq.fifo [OF assms(1), of "rev (le_bytes k (unat x))"] assms(1) by auto
  from front_word [OF b(3,4) assms(2)] b show ?thesis
    by (metis length_contents list.size(3))
qed

text \<open>
  C15. Integers survive the network byte order: on any well-formed buffer, an integer of each of the
  four widths that is appended is read back unchanged once what was readable before it has been
  retrieved, nothing is left, and no assertion fails on the way.
\<close>

theorem integers_roundtrip:
  assumes "buffer_inv b"
  shows "(\<exists>b1 b2 b3. appendInt64 w b = Inr b1 \<and> retrieve (readableBytes b) b1 = Inr b2
           \<and> readInt64 b2 = Inr (w, b3) \<and> readableBytes b3 = 0)
    \<and> (\<exists>b1 b2 b3. appendInt32 x b = Inr b1 \<and> retrieve (readableBytes b) b1 = Inr b2
           \<and> readInt32 b2 = Inr (x, b3) \<and> readableBytes b3 = 0)
    \<and> (\<exists>b1 b2 b3. appendInt16 y b = Inr b1 \<and> retrieve (readableBytes b) b1 = Inr b2
           \<and> readInt16 b2 = Inr (y, b3) \<and> readableBytes b3 = 0)
    \<and> (\<exists>b1 b2 b3. appendInt8 z b = Inr b1 \<and> retrieve (readableBytes b) b1 = Inr b2
           \<and> readInt8 b2 = Inr (z, b3) \<and> readableBytes b3 = 0)"
proof (intro conjI)
  show "\<exists>b1 b2 b3. appendInt64 w b = Inr b1 \<and> retrieve (readableBytes b) b1 = Inr b2
           \<and> readInt64 b2 = Inr (w, b3) \<and> readableBytes b3 = 0"
    using append_then_front [OF assms, of 8 w] peekInt64_spec
    by (fastforce simp: append_ints network_bytes read_ints)
  show "\<exists>b1 b2 b3. appendInt32 x b = Inr b1 \<and> retrieve (readableBytes b) b1 = Inr b2
           \<and> readInt32 b2 = Inr (x, b3) \<and> readableBytes b3 = 0"
    using append_then_front [OF assms, of 4 x] peekInt32_spec
    by (fastforce simp: append_ints network_bytes read_ints)
  show "\<exists>b1 b2 b3. appendInt16 y b = Inr b1 \<and> retrieve (readableBytes b) b1 = Inr b2
           \<and> readInt16 b2 = Inr (y, b3) \<and> readableBytes b3 = 0"
    using append_then_front [OF assms, of 2 y] peekInt16_spec
    by (fastforce simp: append_ints network_bytes read_ints)
  show "\<exists>b1 b2 b3. appendInt8 z b = Inr b1 \<and> retrieve (readableBytes b) b1 = Inr b2
           \<and> readInt8 b2 = Inr (z, b3) \<and> readableBytes b3 = 0"
    using append_then_front [OF assms, of 1 z] peekInt8_spec
    by (fastforce simp: append_ints read_ints simp flip: le_bytes_1)
qed

theorem integers_roundtrip_witness:
  "buffer_inv (new_Buffer 2) \<and>
   (\<exists>b1 b2 b3. appendInt32 7 (new_Buffer 2) = Inr b1 \<and> retrieve 0 b1 = Inr b2
      \<and> readInt32 b2 = Inr (7, b3) \<and> readableBytes b3 = 0)"
  using integers_roundtrip [of "new_Buffer 2" 1 7 1 1]
  by simp

subsection \<open>Searching and reading from a descriptor\<close>

lemma search2_Some_iff:
  "search2 x y cs = Some i \<longleftrightarrow>
     i + 1 < length cs \<and> cs ! i = x \<and> cs ! (i + 1) = y
     \<and> (\<forall>j < i. \<not> (cs ! j = x \<and> cs ! (j + 1) = y))"
proof (induction x y cs arbitrary: i rule: search2.induct)
  case (1 x y c d cs)
  show ?case
  proof (cases "c = x \<and> d = y")
    case True
    then show ?thesis by (cases i) auto
  next
    case False
    then show ?thesis
      using 1 by (cases i) (auto simp: less_Suc_eq_0_disj)
  qed
qed auto

text \<open>
  \<open>findCRLF\<close> gives the position of the first line end in the readable part of a well-formed
  buffer, and \<open>NULL\<close> exactly when there is none.
\<close>

theorem findCRLF_first:
  assumes "buffer_inv b"
  shows "findCRLF b = Some p \<longleftrightarrow>
      readerIndex b \<le> p \<and> p + 1 < writerIndex b \<and> buf b ! p = CHR 0x0D \<and> buf b ! (p + 1) = CHR 0x0A
      \<and> (\<forall>q. readerIndex b \<le> q \<and> q < p \<longrightarrow> \<not> (buf b ! q = CHR 0x0D \<and> buf b ! (q + 1) = CHR 0x0A))"
proof -
  have nth: "toStringPiece b ! i = buf b ! (readerIndex b + i)" if "i < readableBytes b" for i
    using that assms by (simp add: buffer_view)
  have "findCRLF b = Some p \<longleftrightarrow> readerIndex b \<le> p \<and>
      search2 (CHR 0x0D) (CHR 0x0A) (toStringPiece b) = Some (p - readerIndex b)"
    by (auto simp: findCRLF_def range_from_contents)
  also have "\<dots> \<longleftrightarrow> readerIndex b \<le> p \<and> p + 1 < writerIndex b
      \<and> buf b ! p = CHR 0x0D \<and> buf b ! (p + 1) = CHR 0x0A
      \<and> (\<forall>j < p - readerIndex b. \<not> (buf b ! (readerIndex b + j) = CHR 0x0D
            \<and> buf b ! (readerIndex b + j + 1) = CHR 0x0A))"
    using assms nth by (auto simp: search2_Some_iff readableBytes_def)
  also have "\<dots> \<longleftrightarrow> readerIndex b \<le> p \<and> p + 1 < writerIndex b
      \<and> buf b ! p = CHR 0x0D \<and> buf b ! (p + 1) = CHR 0x0A
      \<and> (\<forall>q. readerIndex b \<le> q \<and> q < p \<longrightarrow> \<not> (buf b ! q = CHR 0x0D \<and> buf b ! (q + 1) = CHR 0x0A))"
    using all_shift [of "p - readerIndex b" "\<lambda>q. \<not> (buf b ! q = CHR 0x0D \<and> buf b ! (q + 1) = CHR 0x0A)"
        "readerIndex b"] by auto
  finally show ?thesis .
qed

theorem findCRLF_first_witness:
  "let b = \<lparr>buf = ''GETxxxxxab'' @ [CHR 0x0D, CHR 0x0A], readerIndex = 8, writerIndex = 12\<rparr>
   in buffer_inv b \<and> findCRLF b = Some 10"
proof -
  let ?b = "\<lparr>buf = ''GETxxxxxab'' @ [CHR 0x0D, CHR 0x0A], readerIndex = 8, writerIndex = 12\<rparr>"
  have inv: "buffer_inv ?b" by (simp add: buffer_view)
  have "\<not> (buf ?b ! q = CHR 0x0D \<and> buf ?b ! (q + 1) = CHR 0x0A)" if "8 \<le> q \<and> q < 10" for q
  proof -
    from that have "q = 8 \<or> q = 9" by arith
    then show ?thesis by auto
  qed
  then have "findCRLF ?b = Some 10"
    unfolding findCRLF_first [OF inv] by simp
  with inv show ?thesis by (simp add: Let_def)
qed

lemma readFd_extends:
  assumes "buffer_inv b" and "length got \<le> readv_capacity b"
  shows "\<exists>b'. readFd (Inr got) b = Inr (int (length got), None, b') \<and> buffer_inv b'
          \<and> toStringPiece b' = toStringPiece b @ got"
proof -
  let ?w = "writableBytes b"
  let ?b1 = "b\<lparr>buf := copy_at (writerIndex b) (take ?w got) (buf b)\<rparr>"
  have le: "length (take ?w got) \<le> ?w" by simp
  obtain b2 where b2: "hasWritten (length (take ?w got)) ?b1 = Inr b2" "buffer_inv b2"
    "toStringPiece b2 = toStringPiece b @ take ?w got"
    using append_copy [OF assms(1) le] by blast
  then have eq2: "b2 = ?b1\<lparr>writerIndex := writerIndex b + length (take ?w got)\<rparr>"
    by (simp add: hasWritten_def fault_simps split: if_splits)
  show ?thesis
  proof (cases "length got \<le> ?w")
    case True
    with b2 eq2 show ?thesis by (simp add: readFd_def Let_def)
  next
    case False
    have "length (buf ?b1) = writerIndex b + ?w"
      using assms(1) False by (auto simp: buffer_view)
    with False eq2 have "b2 = ?b1\<lparr>writerIndex := length (buf ?b1)\<rparr>" by simp
    with False append_Buffer_spec [OF b2(2), of "drop ?w got"] b2(3) show ?thesis
      by (auto simp: readFd_def Let_def)
  qed
qed

text \<open>
  \<open>readFd\<close> keeps the invariant and adds exactly what the descriptor delivered behind what was
  readable, whether or not it fitted in the writable part, for every delivery \<open>readv\<close> can make; an
  error leaves the buffer as it was and reports \<open>errno\<close>. No assertion fails.
\<close>

theorem readFd_appends:
  assumes "buffer_inv b" and "length got \<le> readv_capacity b"
  shows "readFd (Inl e) b = Inr (- 1, Some e, b)
    \<and> (\<exists>b'. readFd (Inr got) b = Inr (int (length got), None, b') \<and> buffer_inv b'
          \<and> toStringPiece b' = toStringPiece b @ got)"
  using readFd_extends [OF assms] by (simp add: readFd_def)

theorem readFd_appends_witness:
  "\<exists>b'. buffer_inv (new_Buffer 2) \<and> readFd (Inr ''hello'') (new_Buffer 2) = Inr (5, None, b')
     \<and> toStringPiece b' = ''hello''"
proof -
  have "length ''hello'' \<le> readv_capacity (new_Buffer 2)"
    by (simp add: readv_capacity_def extrabuf_size_def buffer_sizes new_Buffer_def)
  from readFd_appends [OF buffer_inv_new this, of 0] show ?thesis by auto
qed

lemma writableBytes_append:
  assumes "buffer_inv b" "append_Buffer str b = Inr b'" "length str + n \<le> writableBytes b"
  shows "n \<le> writableBytes b'"
proof -
  have "ensureWritableBytes (length str) b = Inr b"
    using assms(3) by (simp add: ensureWritableBytes_def)
  then show ?thesis
    using assms by (auto simp: append_Buffer_def hasWritten_def fault_simps buffer_view split: if_splits)
qed

text \<open>
  \<open>shrink\<close> never stops at an assertion, keeps the readable characters and leaves at least the
  requested reserve writable.
\<close>

theorem shrink_keeps:
  assumes "buffer_inv b"
  shows "\<exists>b'. shrink reserve b = Inr b' \<and> buffer_inv b' \<and> toStringPiece b' = toStringPiece b
           \<and> reserve \<le> writableBytes b'"
proof -
  obtain o1 where o1: "ensureWritableBytes (readableBytes b + reserve) (new_Buffer kInitialSize) = Inr o1"
    "buffer_inv o1" "toStringPiece o1 = []" "readableBytes b + reserve \<le> writableBytes o1"
    using ensureWritableBytes_spec [of "new_Buffer kInitialSize" "readableBytes b + reserve"] by auto
  obtain o2 where o2: "append_Buffer (toStringPiece b) o1 = Inr o2" "buffer_inv o2"
    "toStringPiece o2 = toStringPiece b"
    using append_Buffer_spec [OF o1(2), of "toStringPiece b"] o1(3) by auto
  have "reserve \<le> writableBytes o2"
    using writableBytes_append [OF o1(2) o2(1)] o1(4) assms by simp
  moreover have "fst (swap_Buffer b o2) = o2"
    by (simp add: swap_Buffer_def)
  ultimately show ?thesis
    using o1 o2 by (simp add: shrink_def)
qed

theorem shrink_keeps_witness:
  "\<exists>b'. buffer_inv (new_Buffer 1) \<and> shrink 3 (new_Buffer 1) = Inr b' \<and> toStringPiece b' = []
     \<and> 3 \<le> writableBytes b'"
  using shrink_keeps [of "new_Buffer 1" 3] by auto

end
