(* ===== verification/Codec.thy ===== *)
theory Codec
  imports Net_Buffer "HOL-Library.Sublist"
begin

text \<open>
  \<open>net/protobuf/ProtobufCodecLite.h\<close>, \<open>ProtobufCodecLite.cc\<close> and \<open>IMCodec.h\<close>, \<open>IMCodec.cpp\<close>: the framing of
  protobuf messages on a connection,
  \<^verbatim>\<open>[len : 4 bytes, big endian][tag][serialized message][adler32 of tag and message : 4 bytes]\<close>.

  The protobuf runtime with the generated classes and zlib's \<open>adler32\<close> are not part of the
  repository: they are the fields of \<open>pb_lib\<close>. The callbacks of a codec act on a state \<open>'st\<close>
  (the server) and may stop with a fault.

  The theorems say that a frame decodes to the message it encodes, that a stream of frames is
  decoded completely and in order whatever pieces TCP delivers it in, and what happens to a frame
  that is damaged.
\<close>

section \<open>ProtobufCodecLite\<close>

datatype ErrorCode =
    kNoError
  | kInvalidLength
  | kCheckSumError
  | kInvalidNameLen
  | kUnknownMessageType
  | kParseError

record 'm pb_lib =
  pb_ByteSize :: "'m \<Rightarrow> nat"
  pb_Serialize :: "'m \<Rightarrow> string"
  pb_Parse :: "string \<Rightarrow> 'm option"
  zlib_adler32 :: "string \<Rightarrow> 32 word"

record ('m, 'st) ProtobufCodecLite =
  tag :: string
  messageCallback :: "'m \<Rightarrow> 'st \<Rightarrow> 'st res"
  rawCb :: "(string \<Rightarrow> 'st \<Rightarrow> (bool \<times> 'st) res) option"
  errorCallback :: "ErrorCode \<Rightarrow> buffer \<times> 'st \<Rightarrow> (buffer \<times> 'st) res"

definition kHeaderLen :: nat where
  "kHeaderLen = 4"

definition kChecksumLen :: nat where
  "kChecksumLen = 4"

definition kMaxMessageLen :: nat where
  "kMaxMessageLen = 64 * 1024 * 1024"

definition kMinMessageLen :: "('m, 'st) ProtobufCodecLite \<Rightarrow> nat" where
  "kMinMessageLen c = length (tag c) + kChecksumLen"

definition asInt32 :: "string \<Rightarrow> 32 word" where
  "asInt32 cs = networkToHost32 (word_of_nat (of_le_bytes (take 4 cs)))"

definition checksum :: "'m pb_lib \<Rightarrow> string \<Rightarrow> 32 word" where
  "checksum lib cs = zlib_adler32 lib cs"

definition validateChecksum :: "'m pb_lib \<Rightarrow> string \<Rightarrow> bool" where
  "validateChecksum lib cs =
     (let expectedCheckSum = asInt32 (drop (length cs - kChecksumLen) cs);
          checkSum = checksum lib (take (length cs - kChecksumLen) cs)
      in checkSum = expectedCheckSum)"

definition parseFromBuffer :: "'m pb_lib \<Rightarrow> string \<Rightarrow> 'm option" where
  "parseFromBuffer lib cs = pb_Parse lib cs"

text \<open>\<open>parse\<close> returns an error code and fills in a message; \<open>Inr\<close> is \<open>kNoError\<close> with the message.\<close>

definition parse :: "'m pb_lib \<Rightarrow> ('m, 'st) ProtobufCodecLite \<Rightarrow> string \<Rightarrow> ErrorCode + 'm" where
  "parse lib c cs =
     (if validateChecksum lib cs
      then if take (length (tag c)) cs = tag c
           then let data = drop (length (tag c)) cs;
                    dataLen = length cs - kChecksumLen - length (tag c)
                in case parseFromBuffer lib (take dataLen data) of
                     Some m \<Rightarrow> Inr m
                   | None \<Rightarrow> Inl kParseError
           else Inl kUnknownMessageType
      else Inl kCheckSumError)"

text \<open>
  \<open>serializeToBuffer\<close>: a message whose \<open>ByteSize\<close> is not the number of characters written is a
  fatal error of the protobuf runtime.
\<close>

definition serializeToBuffer :: "'m pb_lib \<Rightarrow> 'm \<Rightarrow> buffer \<Rightarrow> (nat \<times> buffer) res" where
  "serializeToBuffer lib m b =
     (let byte_size = pb_ByteSize lib m
      in bindE (ensureWritableBytes (byte_size + kChecksumLen) b) (\<lambda>b1.
         bindE (assertE (length (pb_Serialize lib m) = byte_size)) (\<lambda>_.
         bindE (hasWritten byte_size
                  (b1\<lparr>buf := copy_at (writerIndex b1) (pb_Serialize lib m) (buf b1)\<rparr>)) (\<lambda>b2.
         Inr (byte_size, b2)))))"

definition fillEmptyBuffer ::
  "'m pb_lib \<Rightarrow> ('m, 'st) ProtobufCodecLite \<Rightarrow> 'm \<Rightarrow> buffer \<Rightarrow> buffer res" where
  "fillEmptyBuffer lib c m b =
     bindE (assertE (readableBytes b = 0)) (\<lambda>_.
     bindE (append_Buffer (tag c) b) (\<lambda>b1.
     bindE (serializeToBuffer lib m b1) (\<lambda>(byte_size, b2).
     let checkSum = checksum lib (toStringPiece b2)
     in bindE (appendInt32 checkSum b2) (\<lambda>b3.
        bindE (assertE (readableBytes b3 = length (tag c) + byte_size + kChecksumLen)) (\<lambda>_.
        let len = hostToNetwork32 (word_of_nat (readableBytes b3))
        in prepend (le_bytes 4 (unat len)) b3)))))"

text \<open>\<open>send\<close> fills a fresh buffer and hands its readable characters to the connection.\<close>

definition codec_send :: "'m pb_lib \<Rightarrow> ('m, 'st) ProtobufCodecLite \<Rightarrow> 'm \<Rightarrow> string res" where
  "codec_send lib c m =
     bindE (fillEmptyBuffer lib c m (new_Buffer kInitialSize)) (\<lambda>b. Inr (toStringPiece b))"

lemma retrieve_decreases:
  "retrieve n b = Inr b' \<Longrightarrow> 0 < n \<Longrightarrow> readableBytes b' < readableBytes b"
  by (auto simp: retrieve_def bindE_assertE retrieveAll_def readableBytes_def split: if_splits)

function onMessage ::
  "'m pb_lib \<Rightarrow> ('m, 'st) ProtobufCodecLite \<Rightarrow> buffer \<Rightarrow> 'st \<Rightarrow> (buffer \<times> 'st) res" where
  "onMessage lib c b st =
     (if kMinMessageLen c + kHeaderLen \<le> readableBytes b
      then bindE (peekInt32 b) (\<lambda>len.
        if sint len > int kMaxMessageLen \<or> sint len < int (kMinMessageLen c)
        then errorCallback c kInvalidLength (b, st)
        else let n = kHeaderLen + nat (sint len)
             in if n \<le> readableBytes b
                then bindE (case rawCb c of None \<Rightarrow> Inr (True, st)
                            | Some raw \<Rightarrow> raw (take n (drop (readerIndex b) (buf b))) st) (\<lambda>(go, st1).
                  if \<not> go
                  then bindE (retrieve n b) (\<lambda>b'. onMessage lib c b' st1)
                  else (case parse lib c (take (nat (sint len)) (drop (readerIndex b + kHeaderLen) (buf b))) of
                          Inr m \<Rightarrow>
                            bindE (messageCallback c m st1) (\<lambda>st2.
                            bindE (retrieve n b) (\<lambda>b'. onMessage lib c b' st2))
                        | Inl errorCode \<Rightarrow> errorCallback c errorCode (b, st1)))
                else Inr (b, st))
      else Inr (b, st))"
  by pat_completeness auto
termination
  by (relation "measure (\<lambda>(lib, c, b, st). readableBytes b)")
     (auto simp: kHeaderLen_def dest!: retrieve_decreases)

declare onMessage.simps [simp del]

definition errorCodeToString :: "ErrorCode \<Rightarrow> string" where
  "errorCodeToString e =
     (case e of
        kNoError \<Rightarrow> ''NoError''
      | kInvalidLength \<Rightarrow> ''InvalidLength''
      | kCheckSumError \<Rightarrow> ''CheckSumError''
      | kInvalidNameLen \<Rightarrow> ''InvalidNameLen''
      | kUnknownMessageType \<Rightarrow> ''UnknownMessageType''
      | kParseError \<Rightarrow> ''ParseError'')"

text \<open>
  \<open>defaultErrorCallback\<close> on a connection: \<open>connected\<close> and \<open>shutdown\<close> are those of the connection the
  codec serves; the buffer is left as it is.
\<close>

definition defaultErrorCallback ::
  "('st \<Rightarrow> bool) \<Rightarrow> ('st \<Rightarrow> 'st) \<Rightarrow> ErrorCode \<Rightarrow> buffer \<times> 'st \<Rightarrow> (buffer \<times> 'st) res" where
  "defaultErrorCallback connected shutdown errorCode = (\<lambda>(b, st).
     Inr (b, if connected st then shutdown st else st))"

section \<open>IMCodec\<close>

definition IMCodec_new ::
  "('m \<Rightarrow> 'st \<Rightarrow> 'st res) \<Rightarrow> (ErrorCode \<Rightarrow> buffer \<times> 'st \<Rightarrow> (buffer \<times> 'st) res)
    \<Rightarrow> ('m, 'st) ProtobufCodecLite" where
  "IMCodec_new messageCb errorCb =
     \<lparr>tag = ''IM01'', messageCallback = messageCb, rawCb = None, errorCallback = errorCb\<rparr>"

definition IMCodec_send :: "'m pb_lib \<Rightarrow> ('m, 'st) ProtobufCodecLite \<Rightarrow> 'm \<Rightarrow> string res" where
  "IMCodec_send lib c m = codec_send lib c m"

text \<open>\<open>sendRaw\<close>: nothing is sent (\<open>None\<close>) when the cached characters do not parse.\<close>

definition IMCodec_sendRaw ::
  "'m pb_lib \<Rightarrow> ('m, 'st) ProtobufCodecLite \<Rightarrow> string \<Rightarrow> string option res" where
  "IMCodec_sendRaw lib c data =
     (case pb_Parse lib data of
        None \<Rightarrow> Inr None
      | Some container \<Rightarrow> bindE (codec_send lib c container) (\<lambda>frame. Inr (Some frame)))"

definition IMCodec_onMessage ::
  "'m pb_lib \<Rightarrow> ('m, 'st) ProtobufCodecLite \<Rightarrow> buffer \<Rightarrow> 'st \<Rightarrow> (buffer \<times> 'st) res" where
  "IMCodec_onMessage lib c b st = onMessage lib c b st"

section \<open>The wire format\<close>

text \<open>The specification: the characters of a frame, and what a stream of frames delivers.\<close>

definition be32 :: "nat \<Rightarrow> string" where
  "be32 n = rev (le_bytes 4 n)"

definition frame_body :: "'m pb_lib \<Rightarrow> ('m, 'st) ProtobufCodecLite \<Rightarrow> 'm \<Rightarrow> string" where
  "frame_body lib c m =
     tag c @ pb_Serialize lib m @ be32 (unat (zlib_adler32 lib (tag c @ pb_Serialize lib m)))"

definition frame :: "'m pb_lib \<Rightarrow> ('m, 'st) ProtobufCodecLite \<Rightarrow> 'm \<Rightarrow> string" where
  "frame lib c m = be32 (length (frame_body lib c m)) @ frame_body lib c m"

fun deliver :: "('m, 'st) ProtobufCodecLite \<Rightarrow> 'm list \<Rightarrow> 'st \<Rightarrow> 'st res" where
  "deliver c [] st = Inr st"
| "deliver c (m # ms) st = bindE (messageCallback c m st) (\<lambda>st'. deliver c ms st')"

text \<open>
  What the codec relies on of the protobuf runtime for a message: its size is the number of
  characters it serializes to, parsing gives it back, and its frame is not longer than the limit.
\<close>

definition codable :: "'m pb_lib \<Rightarrow> ('m, 'st) ProtobufCodecLite \<Rightarrow> 'm \<Rightarrow> bool" where
  "codable lib c m \<longleftrightarrow>
     pb_ByteSize lib m = length (pb_Serialize lib m)
     \<and> pb_Parse lib (pb_Serialize lib m) = Some m
     \<and> length (tag c) + length (pb_Serialize lib m) + kChecksumLen \<le> kMaxMessageLen"

lemma length_be32 [simp]: "length (be32 n) = 4"
  by (simp add: be32_def)

lemma length_frame_body [simp]:
  "length (frame_body lib c m) = length (tag c) + length (pb_Serialize lib m) + 4"
  by (simp add: frame_body_def)

lemma length_frame [simp]:
  "length (frame lib c m) = length (tag c) + length (pb_Serialize lib m) + 8"
  by (simp add: frame_def)

lemma frame_nonempty [simp]: "frame lib c m \<noteq> []"
  by (simp flip: length_greater_0_conv)

lemma of_be32: "n < 2 ^ 32 \<Longrightarrow> of_le_bytes (rev (be32 n)) = n"
  by (simp add: be32_def of_le_bytes_le_bytes)

lemma sint_word_of_nat_small: "n < 2 ^ 31 \<Longrightarrow> sint (word_of_nat n :: 32 word) = int n"
  by (simp add: sint_uint uint_nat unat_of_nat take_bit_nat_eq_self signed_take_bit_int_eq_self)

lemma sint_word_of_nat_big: "2 ^ 31 \<le> n \<Longrightarrow> n < 2 ^ 32 \<Longrightarrow> sint (word_of_nat n :: 32 word) < 0"
proof -
  assume n: "2 ^ 31 \<le> n" "n < 2 ^ 32"
  then have "(int n + 2 ^ 31) mod 2 ^ 32 = int n + 2 ^ 31 - 2 ^ 32"
    by (subst minus_mod_self2 [symmetric], subst mod_pos_pos_trivial) auto
  with n show ?thesis
    by (simp add: sint_uint uint_nat unat_of_nat take_bit_nat_eq_self signed_take_bit_eq_take_bit_shift
        take_bit_eq_mod)
qed

lemma codable_len:
  assumes "codable lib c m"
  shows "sint (word_of_nat (length (frame_body lib c m)) :: 32 word) = int (length (frame_body lib c m))"
  using assms by (intro sint_word_of_nat_small) (simp add: codable_def kMaxMessageLen_def kChecksumLen_def)

subsection \<open>Encoding\<close>

lemma serializeToBuffer_spec:
  assumes "buffer_inv b" "pb_ByteSize lib m = length (pb_Serialize lib m)"
  shows "\<exists>b'. serializeToBuffer lib m b = Inr (length (pb_Serialize lib m), b') \<and> buffer_inv b'
           \<and> toStringPiece b' = toStringPiece b @ pb_Serialize lib m
           \<and> min kCheapPrepend (prependableBytes b) \<le> prependableBytes b'"
proof -
  obtain b1 where b1: "ensureWritableBytes (pb_ByteSize lib m + kChecksumLen) b = Inr b1"
    "buffer_inv b1" "toStringPiece b1 = toStringPiece b"
    "pb_ByteSize lib m + kChecksumLen \<le> writableBytes b1"
    "min kCheapPrepend (prependableBytes b) \<le> prependableBytes b1"
    using ensureWritableBytes_spec [OF assms(1)] by blast
  have "length (pb_Serialize lib m) \<le> writableBytes b1"
    using b1(4) assms(2) by simp
  from append_copy [OF b1(2) this] b1 assms(2) show ?thesis
    by (auto simp: serializeToBuffer_def Let_def)
qed

lemma appendInt32_be32: "appendInt32 x b = append_Buffer (be32 (unat x)) b"
  by (simp add: appendInt32_def network_bytes be32_def)

lemma le_bytes_host: "n < 2 ^ 32 \<Longrightarrow>
    le_bytes 4 (unat (hostToNetwork32 (word_of_nat n))) = be32 n"
  by (simp add: network_bytes be32_def unat_of_nat take_bit_nat_eq_self)

lemma fillEmptyBuffer_frame:
  assumes inv: "buffer_inv b" "readableBytes b = 0" "8 \<le> prependableBytes b"
    and m: "codable lib c m"
  shows "\<exists>b'. fillEmptyBuffer lib c m b = Inr b' \<and> buffer_inv b' \<and> toStringPiece b' = frame lib c m"
proof -
  have empty: "toStringPiece b = []"
    using inv contents_empty by simp
  have size: "pb_ByteSize lib m = length (pb_Serialize lib m)"
    and small: "length (tag c) + length (pb_Serialize lib m) + 4 < 2 ^ 32"
    using m by (auto simp: codable_def kMaxMessageLen_def kChecksumLen_def)
  obtain b1 where b1: "append_Buffer (tag c) b = Inr b1" "buffer_inv b1" "toStringPiece b1 = tag c"
    "8 \<le> prependableBytes b1"
    using bq.append_ok [OF inv(1), of "tag c"] inv(3) empty by auto
  obtain b2 where b2: "serializeToBuffer lib m b1 = Inr (length (pb_Serialize lib m), b2)"
    "buffer_inv b2" "toStringPiece b2 = tag c @ pb_Serialize lib m" "8 \<le> prependableBytes b2"
    using serializeToBuffer_spec [OF b1(2) size] b1(3,4) by (auto simp: kCheapPrepend_def)
  obtain b3 where b3: "appendInt32 (zlib_adler32 lib (tag c @ pb_Serialize lib m)) b2 = Inr b3"
    "buffer_inv b3" "toStringPiece b3 = frame_body lib c m" "8 \<le> prependableBytes b3"
    using bq.append_ok [OF b2(2)] b2(3,4)
    by (fastforce simp: appendInt32_be32 frame_body_def)
  have len: "readableBytes b3 = length (tag c) + length (pb_Serialize lib m) + 4"
    using length_contents [OF b3(2)] b3(3) by simp
  have "length (be32 (readableBytes b3)) \<le> prependableBytes b3"
    using b3(4) by simp
  moreover have "le_bytes 4 (unat (hostToNetwork32 (word_of_nat (readableBytes b3)))) = be32 (readableBytes b3)"
    using small by (intro le_bytes_host) (simp add: len)
  then have "fillEmptyBuffer lib c m b = prepend (be32 (readableBytes b3)) b3"
    using b1 b2 b3 inv(2) by (simp add: fillEmptyBuffer_def Let_def checksum_def kChecksumLen_def len del: of_nat_add)
  ultimately show ?thesis
    using prepend_spec [OF b3(2)] b3(3) by (simp add: frame_def len)
qed

lemma codec_send_frame: "codable lib c m \<Longrightarrow> codec_send lib c m = Inr (frame lib c m)"
  using fillEmptyBuffer_frame [of "new_Buffer kInitialSize" lib c m]
  by (auto simp: codec_send_def kCheapPrepend_def)

subsection \<open>Decoding\<close>

lemma asInt32_be32:
  assumes "n < 2 ^ 32"
  shows "asInt32 (be32 n) = word_of_nat n"
  using byte_swap_of_bytes [of "be32 n" 4, where 'w = 32] of_be32 [OF assms]
  by (simp add: asInt32_def networkToHost32_def)

lemma parse_frame_body:
  assumes "codable lib c m"
  shows "parse lib c (frame_body lib c m) = Inr m"
proof -
  let ?data = "tag c @ pb_Serialize lib m"
  have "take (length (frame_body lib c m) - kChecksumLen) (frame_body lib c m) = ?data"
    and "drop (length (frame_body lib c m) - kChecksumLen) (frame_body lib c m)
       = be32 (unat (zlib_adler32 lib ?data))"
    by (simp_all add: frame_body_def kChecksumLen_def)
  moreover have "asInt32 (be32 (unat (zlib_adler32 lib ?data))) = zlib_adler32 lib ?data"
    using asInt32_be32 [of "unat (zlib_adler32 lib ?data)"] unsigned_less [of "zlib_adler32 lib ?data"]
    by simp
  ultimately have "validateChecksum lib (frame_body lib c m)"
    by (simp add: validateChecksum_def checksum_def)
  moreover have "take (length (frame_body lib c m) - kChecksumLen - length (tag c))
      (drop (length (tag c)) (frame_body lib c m)) = pb_Serialize lib m"
    by (simp add: kChecksumLen_def) (simp add: frame_body_def)
  moreover have "take (length (tag c)) (frame_body lib c m) = tag c"
    by (simp add: frame_body_def)
  ultimately show ?thesis
    using assms by (simp add: parse_def parseFromBuffer_def codable_def Let_def)
qed

lemma peekInt32_front:
  assumes "buffer_inv b" "toStringPiece b = be32 n @ rest" "n < 2 ^ 32"
  shows "peekInt32 b = Inr (word_of_nat n)"
proof -
  have "4 \<le> readableBytes b"
    using length_contents [OF assms(1)] assms(2) by simp
  then show ?thesis
    using peekInt32_spec [OF assms(1)] assms(2) of_be32 [OF assms(3)] by simp
qed

lemma contents_behind:
  assumes "buffer_inv b" "i + n \<le> readableBytes b"
  shows "take n (drop (readerIndex b + i) (buf b)) = take n (drop i (toStringPiece b))"
  using assms by (simp add: toStringPiece_def drop_take min_def add.commute)

lemma onMessage_step:
  assumes inv: "buffer_inv b" and raw: "rawCb c = None" and m: "codable lib c m"
    and front: "toStringPiece b = frame lib c m @ rest"
  shows "onMessage lib c b st =
      bindE (messageCallback c m st) (\<lambda>st'.
      bindE (retrieve (length (frame lib c m)) b) (\<lambda>b'. onMessage lib c b' st'))"
proof -
  let ?n = "length (frame_body lib c m)"
  have small: "?n < 2 ^ 32" "?n \<le> kMaxMessageLen"
    using m by (auto simp: codable_def kMaxMessageLen_def kChecksumLen_def)
  have size: "readableBytes b = length (frame lib c m) + length rest"
    using length_contents [OF inv] front by simp
  have peek: "peekInt32 b = Inr (word_of_nat ?n)"
    using peekInt32_front [OF inv _ small(1)] front by (simp add: frame_def)
  have "take ?n (drop (readerIndex b + kHeaderLen) (buf b)) = frame_body lib c m"
    using contents_behind [OF inv, of kHeaderLen ?n] size front
    by (simp add: kHeaderLen_def) (simp add: frame_def)
  with parse_frame_body [OF m]
  have "parse lib c (take ?n (drop (readerIndex b + kHeaderLen) (buf b))) = Inr m" by simp
  then show ?thesis
    using peek codable_len [OF m] small size raw
    by (simp add: onMessage.simps [of lib c b] Let_def kHeaderLen_def kMinMessageLen_def kChecksumLen_def
        del: length_frame_body) (simp add: add.commute)
qed

lemma onMessage_wait:
  assumes inv: "buffer_inv b" and m: "codable lib c m"
    and part: "strict_prefix (toStringPiece b) (frame lib c m)"
  shows "onMessage lib c b st = Inr (b, st)"
proof (cases "kMinMessageLen c + kHeaderLen \<le> readableBytes b")
  case True
  let ?n = "length (frame_body lib c m)"
  have small: "?n < 2 ^ 32" "?n \<le> kMaxMessageLen"
    using m by (auto simp: codable_def kMaxMessageLen_def kChecksumLen_def)
  have len: "readableBytes b < length (frame lib c m)"
    using prefix_length_less [OF part] length_contents [OF inv] by simp
  obtain zs where zs: "frame lib c m = toStringPiece b @ zs"
    using part by (auto simp: strict_prefix_def prefix_def)
  have four: "4 \<le> length (toStringPiece b)"
    using True length_contents [OF inv] by (simp add: kHeaderLen_def)
  then have "take 4 (toStringPiece b) = take 4 (frame lib c m)"
    using zs by simp
  then have "toStringPiece b = be32 ?n @ drop 4 (toStringPiece b)"
    by (metis append_take_drop_id frame_def length_be32 append_eq_conv_conj)
  from peekInt32_front [OF inv this small(1)] show ?thesis
    using codable_len [OF m] small True len
    by (simp add: onMessage.simps [of lib c b] Let_def kHeaderLen_def kMinMessageLen_def kChecksumLen_def
        del: length_frame_body) (simp add: frame_def)
qed (simp add: onMessage.simps [of lib c b])

section \<open>Streams\<close>

definition partial_frame :: "'m pb_lib \<Rightarrow> ('m, 'st) ProtobufCodecLite \<Rightarrow> string \<Rightarrow> bool" where
  "partial_frame lib c r \<longleftrightarrow> r = [] \<or> (\<exists>m. codable lib c m \<and> strict_prefix r (frame lib c m))"

abbreviation frames :: "'m pb_lib \<Rightarrow> ('m, 'st) ProtobufCodecLite \<Rightarrow> 'm list \<Rightarrow> string" where
  "frames lib c ms \<equiv> concat (map (frame lib c) ms)"

lemma deliver_append:
  "deliver c (ms1 @ ms2) st = bindE (deliver c ms1 st) (deliver c ms2)"
  by (induction ms1 arbitrary: st) (auto simp: bindE_def split: sum.splits)

lemma onMessage_partial:
  assumes "buffer_inv b" "partial_frame lib c (toStringPiece b)"
  shows "onMessage lib c b st = Inr (b, st)"
proof (cases "toStringPiece b = []")
  case True
  with assms(1) have "readableBytes b = 0" by (simp add: contents_empty)
  then show ?thesis
    by (simp add: onMessage.simps [of lib c b] kHeaderLen_def kMinMessageLen_def)
next
  case False
  with assms(2) obtain m where "codable lib c m" "strict_prefix (toStringPiece b) (frame lib c m)"
    by (auto simp: partial_frame_def)
  then show ?thesis by (rule onMessage_wait [OF assms(1)])
qed

lemma onMessage_stream:
  assumes "rawCb c = None" "buffer_inv b" "\<forall>m \<in> set ms. codable lib c m"
    "toStringPiece b = frames lib c ms @ r" "partial_frame lib c r"
  shows "\<exists>b'. onMessage lib c b st = bindE (deliver c ms st) (\<lambda>st'. Inr (b', st'))
           \<and> buffer_inv b' \<and> toStringPiece b' = r"
  using assms(2-5)
proof (induction ms arbitrary: b st)
  case Nil
  then show ?case using onMessage_partial [of b lib c st] by auto
next
  case (Cons m ms)
  then have front: "toStringPiece b = frame lib c m @ frames lib c ms @ r" by simp
  then have "length (frame lib c m) \<le> readableBytes b"
    using length_contents [OF Cons.prems(1)] by simp
  then obtain b1 where b1: "retrieve (length (frame lib c m)) b = Inr b1" "buffer_inv b1"
    "toStringPiece b1 = frames lib c ms @ r"
    using retrieve_spec [OF Cons.prems(1)] front by fastforce
  have step: "onMessage lib c b st = bindE (messageCallback c m st) (onMessage lib c b1)"
    using onMessage_step [OF Cons.prems(1) assms(1) _ front] Cons.prems(2) b1(1) by simp
  show ?case
  proof (cases "messageCallback c m st")
    case (Inl e)
    with step b1 Cons.IH [of b1] Cons.prems(2,4) show ?thesis by fastforce
  next
    case (Inr st1)
    with step b1 Cons.IH [of b1 st1] Cons.prems(2,4) show ?thesis by auto
  qed
qed

text \<open>
  A connection reads a piece from its descriptor into the input buffer and then lets the codec
  work on the buffer (\<open>TcpConnection::handleRead\<close>); \<open>receive\<close> is a sequence of such reads.
\<close>

fun receive :: "'m pb_lib \<Rightarrow> ('m, 'st) ProtobufCodecLite \<Rightarrow> string list \<Rightarrow> buffer \<Rightarrow> 'st
    \<Rightarrow> (buffer \<times> 'st) res" where
  "receive lib c [] b st = Inr (b, st)"
| "receive lib c (x # xs) b st =
     bindE (readFd (Inr x) b) (\<lambda>(n, e, b1).
     bindE (onMessage lib c b1 st) (\<lambda>(b2, st2). receive lib c xs b2 st2))"

lemma receive_append:
  "receive lib c (xs @ ys) b st = bindE (receive lib c xs b st) (\<lambda>(b', st'). receive lib c ys b' st')"
  by (induction xs arbitrary: b st) (auto simp: bindE_def split: sum.splits prod.splits)

lemma receive_single:
  "receive lib c [x] b st = bindE (readFd (Inr x) b) (\<lambda>(n, e, b1). onMessage lib c b1 st)"
  by (auto simp: bindE_def split: sum.splits prod.splits)

lemma partial_frame_prefix:
  assumes "partial_frame lib c r" "prefix p r"
  shows "partial_frame lib c p"
  using assms unfolding partial_frame_def
  by (metis prefix_Nil prefix_order.le_less_trans)

lemma prefix_of_frames:
  assumes "\<forall>m \<in> set ms. codable lib c m" "partial_frame lib c r" "prefix p (frames lib c ms @ r)"
  shows "\<exists>ms1 ms2 r1. ms = ms1 @ ms2 \<and> p = frames lib c ms1 @ r1 \<and> partial_frame lib c r1"
  using assms(1,3)
proof (induction ms arbitrary: p)
  case Nil
  then have "partial_frame lib c p"
    using partial_frame_prefix [OF assms(2)] by simp
  then show ?case by auto
next
  case (Cons m ms)
  let ?f = "frame lib c m"
  from Cons.prems(2) have "prefix p ?f \<or> (\<exists>p'. p = ?f @ p' \<and> prefix p' (frames lib c ms @ r))"
    by (auto simp: prefix_append)
  then consider "strict_prefix p ?f" | p' where "p = ?f @ p'" "prefix p' (frames lib c ms @ r)"
    by (metis append_Nil2 prefix_order.le_less Nil_prefix)
  then show ?case
  proof cases
    case 1
    with Cons.prems(1) have "partial_frame lib c p" by (auto simp: partial_frame_def)
    then show ?thesis by (intro exI [of _ "[]"] exI [of _ "m # ms"] exI [of _ p]) simp
  next
    case 2
    with Cons.IH [of p'] Cons.prems(1) obtain ms1 ms2 r1
      where "ms = ms1 @ ms2" "p' = frames lib c ms1 @ r1" "partial_frame lib c r1" by auto
    with 2 show ?thesis
      by (intro exI [of _ "m # ms1"] exI [of _ ms2] exI [of _ r1]) simp
  qed
qed

lemma capacity_enough: "length x \<le> extrabuf_size \<Longrightarrow> length x \<le> readv_capacity b"
  by (simp add: readv_capacity_def Let_def)

lemma receive_stream:
  assumes "rawCb c = None" "\<forall>m \<in> set ms. codable lib c m" "partial_frame lib c r"
    "concat xs = frames lib c ms @ r" "\<forall>x \<in> set xs. length x \<le> extrabuf_size"
  shows "\<exists>b'. receive lib c xs (new_Buffer n) st = bindE (deliver c ms st) (\<lambda>st'. Inr (b', st'))
           \<and> buffer_inv b' \<and> toStringPiece b' = r"
  using assms(2-5)
proof (induction xs arbitrary: ms r rule: rev_induct)
  case Nil
  then have "ms = []" "r = []"
    by (cases ms; simp)+
  then show ?case by auto
next
  case (snoc x xs)
  have "prefix (concat xs) (frames lib c ms @ r)"
    using snoc.prems(3) by (metis concat_append prefixI)
  then obtain ms1 ms2 r1 where split: "ms = ms1 @ ms2" "concat xs = frames lib c ms1 @ r1"
    "partial_frame lib c r1"
    using prefix_of_frames [OF snoc.prems(1,2)] by blast
  with snoc.prems(3) have rest: "r1 @ x = frames lib c ms2 @ r" by simp
  obtain b1 where b1: "receive lib c xs (new_Buffer n) st = bindE (deliver c ms1 st) (\<lambda>st'. Inr (b1, st'))"
    "buffer_inv b1" "toStringPiece b1 = r1"
    using snoc.IH [OF _ split(3,2)] snoc.prems(1,4) split(1) by auto
  have "length x \<le> readv_capacity b1"
    using snoc.prems(4) by (intro capacity_enough) simp
  then obtain b2 where b2: "readFd (Inr x) b1 = Inr (int (length x), None, b2)" "buffer_inv b2"
    "toStringPiece b2 = r1 @ x"
    using readFd_extends [OF b1(2)] b1(3) by blast
  have "\<exists>b'. onMessage lib c b2 st1 = bindE (deliver c ms2 st1) (\<lambda>st'. Inr (b', st'))
           \<and> buffer_inv b' \<and> toStringPiece b' = r" for st1
    using onMessage_stream [OF assms(1) b2(2)] snoc.prems(1,2) split(1) b2(3) rest by simp
  then show ?case
    using b1(1) b2(1) split(1)
    by (cases "deliver c ms1 st")
       (auto simp: receive_append receive_single deliver_append simp del: receive.simps)
qed

section \<open>Properties\<close>

text \<open>
  C1. A connection that is fed a stream of frames in pieces of any sizes (at most 65536 characters
  per read) hands exactly the complete messages of the stream to the message callback, each once
  and in order, and keeps the characters of the unfinished frame in its input buffer; a fault of a
  callback is the fault of the run. The pieces make no difference. The protobuf runtime enters only
  through \<open>codable\<close>.
\<close>

theorem stream_decoding:
  assumes "\<forall>m \<in> set ms. codable lib (IMCodec_new cb err) m"
    and "partial_frame lib (IMCodec_new cb err) r"
    and "concat xs = frames lib (IMCodec_new cb err) ms @ r"
    and "\<forall>x \<in> set xs. length x \<le> extrabuf_size"
  shows "\<exists>b'. receive lib (IMCodec_new cb err) xs (new_Buffer kInitialSize) st
             = bindE (deliver (IMCodec_new cb err) ms st) (\<lambda>st'. Inr (b', st'))
           \<and> buffer_inv b' \<and> toStringPiece b' = r"
  by (rule receive_stream [OF _ assms]) (simp add: IMCodec_new_def)

text \<open>A concrete runtime for the witnesses: messages are characters strings sent as they are.\<close>

definition demo_lib :: "string pb_lib" where
  "demo_lib = \<lparr>pb_ByteSize = length, pb_Serialize = (\<lambda>m. m), pb_Parse = Some,
     zlib_adler32 = (\<lambda>cs. word_of_nat (length cs + 1))\<rparr>"

definition demo_codec :: "(string, string list) ProtobufCodecLite" where
  "demo_codec = IMCodec_new (\<lambda>m log. Inr (log @ [m])) (defaultErrorCallback (\<lambda>_. True) (\<lambda>log. log @ [''down'']))"

lemma demo_codable: "length m \<le> 100 \<Longrightarrow> codable demo_lib demo_codec m"
  by (simp add: codable_def demo_lib_def demo_codec_def IMCodec_new_def kChecksumLen_def kMaxMessageLen_def)

theorem stream_decoding_witness:
  "\<exists>b'. receive demo_lib demo_codec
      [frame demo_lib demo_codec ''a'' @ take 5 (frame demo_lib demo_codec ''bc''),
       drop 5 (frame demo_lib demo_codec ''bc'')] (new_Buffer kInitialSize) []
    = Inr (b', [''a'', ''bc'']) \<and> buffer_inv b' \<and> toStringPiece b' = []"
proof -
  let ?xs = "[frame demo_lib demo_codec ''a'' @ take 5 (frame demo_lib demo_codec ''bc''),
       drop 5 (frame demo_lib demo_codec ''bc'')]"
  have 1: "\<forall>m \<in> set [''a'', ''bc'']. codable demo_lib demo_codec m"
    by (simp add: demo_codable)
  have 2: "partial_frame demo_lib demo_codec []"
    by (simp add: partial_frame_def)
  have 3: "concat ?xs = frames demo_lib demo_codec [''a'', ''bc''] @ []"
    by simp
  have 4: "\<forall>x \<in> set ?xs. length x \<le> extrabuf_size"
    by (simp add: extrabuf_size_def demo_lib_def demo_codec_def IMCodec_new_def)
  show ?thesis
    using stream_decoding [OF 1 [unfolded demo_codec_def] 2 [unfolded demo_codec_def]
        3 [unfolded demo_codec_def] 4 [unfolded demo_codec_def], of "[]"]
    by (simp flip: demo_codec_def) (simp add: demo_codec_def IMCodec_new_def)
qed

text \<open>
  C11. \<open>IMCodec::send\<close> never stops at an assertion and puts the documented frame on the wire;
  \<open>sendRaw\<close> of the serialized message sends the same frame; and a codec that finds that frame in
  its input buffer calls back with the message and consumes the frame.
\<close>

theorem send_receive_roundtrip:
  assumes "codable lib (IMCodec_new cb err) m" and "buffer_inv b"
    and "toStringPiece b = frame lib (IMCodec_new cb err) m"
  shows "IMCodec_send lib (IMCodec_new cb err) m = Inr (frame lib (IMCodec_new cb err) m)
    \<and> IMCodec_sendRaw lib (IMCodec_new cb err) (pb_Serialize lib m)
        = Inr (Some (frame lib (IMCodec_new cb err) m))
    \<and> (\<exists>b'. IMCodec_onMessage lib (IMCodec_new cb err) b st = bindE (cb m st) (\<lambda>st'. Inr (b', st'))
          \<and> toStringPiece b' = [])"
proof -
  let ?c = "IMCodec_new cb err"
  have send: "codec_send lib ?c m = Inr (frame lib ?c m)"
    by (rule codec_send_frame [OF assms(1)])
  have "pb_Parse lib (pb_Serialize lib m) = Some m"
    using assms(1) by (simp add: codable_def)
  moreover have "\<exists>b'. onMessage lib ?c b st = bindE (deliver ?c [m] st) (\<lambda>st'. Inr (b', st'))
      \<and> buffer_inv b' \<and> toStringPiece b' = []"
    using assms by (intro onMessage_stream) (simp_all add: partial_frame_def IMCodec_new_def)
  moreover have "deliver ?c [m] st = cb m st"
    by (cases "cb m st") (simp_all add: IMCodec_new_def)
  ultimately show ?thesis
    using send by (auto simp: IMCodec_send_def IMCodec_sendRaw_def IMCodec_onMessage_def)
qed

lemma bytes_in_buffer: "\<exists>b. append_Buffer s (new_Buffer n) = Inr b \<and> buffer_inv b \<and> toStringPiece b = s"
  using bq.append_ok [OF buffer_inv_new, of s n] by auto

theorem send_receive_roundtrip_witness:
  "\<exists>b b'. append_Buffer (frame demo_lib demo_codec ''hi'') (new_Buffer 16) = Inr b
     \<and> IMCodec_send demo_lib demo_codec ''hi'' = Inr (frame demo_lib demo_codec ''hi'')
     \<and> IMCodec_onMessage demo_lib demo_codec b [] = Inr (b', [''hi''])"
proof -
  obtain b where b: "append_Buffer (frame demo_lib demo_codec ''hi'') (new_Buffer 16) = Inr b"
    "buffer_inv b" "toStringPiece b = frame demo_lib demo_codec ''hi''"
    using bytes_in_buffer by blast
  have "codable demo_lib demo_codec ''hi''" by (simp add: demo_codable)
  from send_receive_roundtrip [OF this [unfolded demo_codec_def] b(2,3) [unfolded demo_codec_def], of "[]"]
  show ?thesis using b(1) by (auto simp: demo_codec_def)
qed

text \<open>
  Whatever characters a peer sends, \<open>onMessage\<close> returns (the loop ends), keeps the invariant of
  the buffer and fails no assertion, provided that the callbacks do not fail and that the error
  callback leaves a well-formed buffer.
\<close>

theorem onMessage_safe:
  assumes "buffer_inv b"
    and "\<And>m st. \<exists>st'. messageCallback c m st = Inr st'"
    and "\<And>raw x st. rawCb c = Some raw \<Longrightarrow> \<exists>r. raw x st = Inr r"
    and "\<And>e b st. buffer_inv b \<Longrightarrow> \<exists>b' st'. errorCallback c e (b, st) = Inr (b', st') \<and> buffer_inv b'"
  shows "\<exists>b' st'. onMessage lib c b st = Inr (b', st') \<and> buffer_inv b'"
  using assms(1)
proof (induction "readableBytes b" arbitrary: b st rule: less_induct)
  case less
  show ?case
  proof (cases "kMinMessageLen c + kHeaderLen \<le> readableBytes b")
    case full: True
    then have "4 \<le> readableBytes b" by (simp add: kHeaderLen_def)
    then obtain len where len: "peekInt32 b = Inr len"
      using peekInt32_spec [OF less.prems] by blast
    let ?n = "kHeaderLen + nat (sint len)"
    let ?body = "take (nat (sint len)) (drop (readerIndex b + kHeaderLen) (buf b))"
    show ?thesis
    proof (cases "sint len > int kMaxMessageLen \<or> sint len < int (kMinMessageLen c) \<or> \<not> ?n \<le> readableBytes b")
      case True
      with full len less.prems assms(4) show ?thesis
        by (auto simp: onMessage.simps [of lib c b] Let_def)
    next
      case False
      then obtain b1 where b1: "retrieve ?n b = Inr b1" "buffer_inv b1"
        using retrieve_spec [OF less.prems] by blast
      from b1(1) have smaller: "readableBytes b1 < readableBytes b"
        by (rule retrieve_decreases) (simp add: kHeaderLen_def)
      obtain go st1 where raw: "(case rawCb c of None \<Rightarrow> Inr (True, st)
          | Some raw \<Rightarrow> raw (take ?n (drop (readerIndex b) (buf b))) st) = Inr (go, st1)"
        using assms(3) by (cases "rawCb c") fastforce+
      obtain st2 where "\<And>m. parse lib c ?body = Inr m \<Longrightarrow> messageCallback c m st1 = Inr st2"
        using assms(2) by (cases "parse lib c ?body") fastforce+
      then show ?thesis
        using full len False raw b1(1) less.hyps [OF smaller b1(2), of st1]
          less.hyps [OF smaller b1(2), of st2] less.prems assms(4)
        by (cases "parse lib c ?body") (simp_all add: onMessage.simps [of lib c b] Let_def)
    qed
  qed (use less.prems in \<open>simp add: onMessage.simps [of lib c b]\<close>)
qed

theorem onMessage_safe_witness:
  "\<exists>b b' st'. append_Buffer (replicate 40 (CHR ''x'')) (new_Buffer 16) = Inr b
     \<and> onMessage demo_lib demo_codec b [] = Inr (b', st') \<and> buffer_inv b'"
proof -
  obtain b where b: "append_Buffer (replicate 40 (CHR ''x'')) (new_Buffer 16) = Inr b" "buffer_inv b"
    using bytes_in_buffer by blast
  have "\<exists>b' st'. onMessage demo_lib demo_codec b [] = Inr (b', st') \<and> buffer_inv b'"
    by (rule onMessage_safe [OF b(2)]) (simp_all add: demo_codec_def IMCodec_new_def defaultErrorCallback_def)
  with b(1) show ?thesis by blast
qed



end
