(* ===== verification/Handlers.thy ===== *)
theory Handlers
  imports Sessions Codec
begin

text \<open>
  \<open>ClientSession.h\<close>, \<open>ClientSession.cpp\<close>: the handlers of the requests of a client, in the order of the
  source, and the dispatch on the command. A handler takes the session it belongs to, the connection
  and the message, and gives the new world or the fault it stops with: \<open>m_user\<close> is null before a
  login, and every use of it then is a null dereference. Texts for the console and the log are left
  out, but not the dereferences they contain.
\<close>

definition msg_type_heartbeart :: int where "msg_type_heartbeart = 1000"
definition msg_type_register :: int where "msg_type_register = 1001"
definition msg_type_login :: int where "msg_type_login = 1002"
definition msg_type_getofriendlist :: int where "msg_type_getofriendlist = 1003"
definition msg_type_finduser :: int where "msg_type_finduser = 1004"
definition msg_type_operatefriend :: int where "msg_type_operatefriend = 1005"
definition msg_type_userstatuschange :: int where "msg_type_userstatuschange = 1006"
definition msg_type_updateuserinfo :: int where "msg_type_updateuserinfo = 1007"
definition msg_type_modifypassword :: int where "msg_type_modifypassword = 1008"
definition msg_type_creategroup :: int where "msg_type_creategroup = 1009"
definition msg_type_getgroupmembers :: int where "msg_type_getgroupmembers = 1010"
definition msg_type_getchathistory :: int where "msg_type_getchathistory = 1011"
definition msg_type_avatarupload :: int where "msg_type_avatarupload = 1012"
definition msg_type_sendemailcode :: int where "msg_type_sendemailcode = 1013"
definition msg_type_chat :: int where "msg_type_chat = 1100"
definition msg_type_multichat :: int where "msg_type_multichat = 1101"

lemmas msg_types = msg_type_heartbeart_def msg_type_register_def msg_type_login_def
  msg_type_getofriendlist_def msg_type_finduser_def msg_type_operatefriend_def
  msg_type_userstatuschange_def msg_type_updateuserinfo_def msg_type_modifypassword_def
  msg_type_creategroup_def msg_type_getgroupmembers_def msg_type_getchathistory_def
  msg_type_avatarupload_def msg_type_sendemailcode_def msg_type_chat_def msg_type_multichat_def

section \<open>Texts\<close>

text \<open>The texts the source writes in Chinese, as UTF-8.\<close>

definition text_code_wrong :: string where
  "text_code_wrong = [CHR 0xE9, CHR 0xAA, CHR 0x8C, CHR 0xE8, CHR 0xAF, CHR 0x81, CHR 0xE7, CHR 0xA0, CHR 0x81,
     CHR 0xE9, CHR 0x94, CHR 0x99, CHR 0xE8, CHR 0xAF, CHR 0xAF, CHR 0xE6, CHR 0x88, CHR 0x96, CHR 0xE5,
     CHR 0xB7, CHR 0xB2, CHR 0xE8, CHR 0xBF, CHR 0x87, CHR 0xE6, CHR 0x9C, CHR 0x9F]"

definition text_service :: string where
  "text_service = [CHR 0xE6, CHR 0x9C, CHR 0x8D, CHR 0xE5, CHR 0x8A, CHR 0xA1]"

definition text_mail :: string where
  "text_mail = [CHR 0xE9, CHR 0x82, CHR 0xAE, CHR 0xE4, CHR 0xBB, CHR 0xB6]"

definition text_not_configured :: string where
  "text_not_configured = [CHR 0xE6, CHR 0x9C, CHR 0xAA, CHR 0xE9, CHR 0x85, CHR 0x8D, CHR 0xE7, CHR 0xBD, CHR 0xAE]"

definition text_not_built :: string where
  "text_not_built = [CHR 0xE6, CHR 0x9C, CHR 0xAA, CHR 0xE7, CHR 0xBC, CHR 0x96, CHR 0xE8, CHR 0xAF, CHR 0x91]
     @ '' ('' @ [CHR 0xE9, CHR 0x9C, CHR 0x80] @ ''gRPC)''"

definition text_parse_failed :: string where
  "text_parse_failed = [CHR 0xE8, CHR 0xA7, CHR 0xA3, CHR 0xE6, CHR 0x9E, CHR 0x90, CHR 0xE8, CHR 0xAF, CHR 0xB7,
     CHR 0xE6, CHR 0xB1, CHR 0x82, CHR 0xE5, CHR 0xA4, CHR 0xB1, CHR 0xE8, CHR 0xB4, CHR 0xA5]"

definition text_uploaded :: string where
  "text_uploaded = [CHR 0xE4, CHR 0xB8, CHR 0x8A, CHR 0xE4, CHR 0xBC, CHR 0xA0, CHR 0xE6, CHR 0x88, CHR 0x90,
     CHR 0xE5, CHR 0x8A, CHR 0x9F]"

definition text_bad_address :: string where
  "text_bad_address = [CHR 0xE9, CHR 0x82, CHR 0xAE, CHR 0xE7, CHR 0xAE, CHR 0xB1, CHR 0xE6, CHR 0xA0, CHR 0xBC,
     CHR 0xE5, CHR 0xBC, CHR 0x8F, CHR 0xE9, CHR 0x94, CHR 0x99, CHR 0xE8, CHR 0xAF, CHR 0xAF]"

definition text_agent_unavailable :: string where
  "text_agent_unavailable = ''[Agent'' @ [CHR 0xE4, CHR 0xB8, CHR 0x8D, CHR 0xE5, CHR 0x8F, CHR 0xAF, CHR 0xE7,
     CHR 0x94, CHR 0xA8] @ ''] ''"

definition text_agent_not_built :: string where
  "text_agent_not_built = ''[Agent'' @ text_not_configured @ '']'' @ [CHR 0x0A] @ ''gRPC client not built. ''
     @ ''Install libgrpc++-dev and rebuild IMServer.''"

section \<open>Sending\<close>

definition send_msg :: "conn \<Rightarrow> MessageContainer \<Rightarrow> ('m, 'g) world \<Rightarrow> ('m, 'g) world" where
  "send_msg c m w = w\<lparr>w_out := w_out w @ [(c, m)]\<rparr>"

text \<open>\<open>m_codec->sendRaw\<close>: characters that do not parse are dropped.\<close>

definition send_raw :: "('m, 'g) env \<Rightarrow> conn \<Rightarrow> string \<Rightarrow> ('m, 'g) world \<Rightarrow> ('m, 'g) world" where
  "send_raw env c data w =
     (case parse_MessageContainer (e_pb env) data of None \<Rightarrow> w | Some m \<Rightarrow> send_msg c m w)"

definition SendContainer :: "SessionPtr \<Rightarrow> MessageContainer \<Rightarrow> ('m, 'g) world \<Rightarrow> ('m, 'g) world" where
  "SendContainer sp m w = send_msg (m_conn (w_sessions w sp)) m w"

text \<open>The response every handler builds.\<close>

definition respond :: "SessionPtr \<Rightarrow> conn \<Rightarrow> int \<Rightarrow> string \<Rightarrow> ('m, 'g) world \<Rightarrow> ('m, 'g) world" where
  "respond sp c command body w =
     send_msg c (empty_MessageContainer\<lparr>cmd := command, seq := m_seq (w_sessions w sp), payload := body\<rparr>) w"

definition common :: "int \<Rightarrow> string \<Rightarrow> CommonRsp" where
  "common code text = \<lparr>crsp_code = code, crsp_msg = text\<rparr>"

text \<open>\<open>m_user\<close> followed: the pointer, or the fault.\<close>

definition the_user :: "SessionPtr \<Rightarrow> ('m, 'g) world \<Rightarrow> UserPtr res" where
  "the_user sp w = (case m_user (w_sessions w sp) of None \<Rightarrow> Inl NullDereference | Some p \<Rightarrow> Inr p)"

definition user_at :: "('m, 'g) world \<Rightarrow> UserPtr \<Rightarrow> user" where
  "user_at w p = um_heap (w_users w) p"

definition user_info :: "user \<Rightarrow> UserInfo" where
  "user_info u = \<lparr>ui_userid = userid u, ui_username = username u, ui_nickname = nickname u,
     ui_facetype = facetype u, ui_customface = customface u, ui_gender = gender u, ui_birthday = birthday u,
     ui_signature = signature u, ui_address = address u, ui_phonenumber = phonenumber u, ui_mail = mail u,
     ui_status = 0, ui_clienttype = 0\<rparr>"

definition SendUserStatusChangeMsg ::
  "('m, 'g) env \<Rightarrow> SessionPtr \<Rightarrow> int \<Rightarrow> int \<Rightarrow> string \<Rightarrow> ('m, 'g) world \<Rightarrow> ('m, 'g) world" where
  "SendUserStatusChangeMsg env sp uid tp face w =
     (let notify = \<lparr>us_type = tp, us_userid = uid, us_customface = (if face \<noteq> [] then face else [])\<rparr>
      in send_msg (m_conn (w_sessions w sp))
           (empty_MessageContainer\<lparr>cmd := msg_type_userstatuschange, seq := 0,
              payload := ser_UserStatusChangeNotify (e_pb env) notify\<rparr>) w)"

definition notify_user :: "('m, 'g) env \<Rightarrow> int \<Rightarrow> int \<Rightarrow> int \<Rightarrow> string \<Rightarrow> ('m, 'g) world \<Rightarrow> ('m, 'g) world" where
  "notify_user env target uid tp face w =
     (case GetSessionByID target w of
        None \<Rightarrow> w | Some sp \<Rightarrow> SendUserStatusChangeMsg env sp uid tp face w)"

definition notify_friends ::
  "('m, 'g) env \<Rightarrow> UserPtr list \<Rightarrow> int \<Rightarrow> int \<Rightarrow> string \<Rightarrow> ('m, 'g) world \<Rightarrow> ('m, 'g) world" where
  "notify_friends env ps uid tp face w = fold (\<lambda>p w. notify_user env (userid (user_at w p)) uid tp face w) ps w"

section \<open>Heartbeat, registration, login\<close>

definition OnHeartbeatResponse ::
  "SessionPtr \<Rightarrow> conn \<Rightarrow> ('m, 'g) world \<Rightarrow> ('m, 'g) world res" where
  "OnHeartbeatResponse sp c w = Inr (respond sp c msg_type_heartbeart [] w)"

text \<open>The check of the code sent by mail: whether it holds, the response so far, the world.\<close>

definition verify_email ::
  "('m, 'g) env \<Rightarrow> RegisterReq \<Rightarrow> ('m, 'g) world \<Rightarrow> bool \<times> CommonRsp \<times> ('m, 'g) world" where
  "verify_email env req w =
     (if e_have_grpc env
      then if m_mailClient w
           then let (result, g) = VerifyCode (e_stubs env) (rr_email req) (rr_code req) (w_grpc w);
                    w' = w\<lparr>w_grpc := g\<rparr>
                in if vres_ok result then (True, common 0 [], w')
                   else (False, common 104 (if vres_msg result = [] then text_code_wrong else vres_msg result), w')
           else (False, common 104 (text_mail @ text_service @ text_not_configured), w)
      else (False, common 104 (text_mail @ text_service @ text_not_built), w))"

definition OnRegisterResponse ::
  "('m, 'g) env \<Rightarrow> SessionPtr \<Rightarrow> conn \<Rightarrow> MessageContainer \<Rightarrow> ('m, 'g) world \<Rightarrow> ('m, 'g) world res" where
  "OnRegisterResponse env sp c msg w =
     (let (rsp, w') =
        (case parse_RegisterReq (e_pb env) (payload msg) of
           None \<Rightarrow> (common 101 ''protobuf parse failed!'', w)
         | Some req \<Rightarrow>
             if rr_username req = [] \<or> rr_nickname req = [] \<or> rr_password req = []
                \<or> rr_email req = [] \<or> rr_code req = []
             then (common 102 ''data field missing!'', w)
             else let (emailVerified, rsp, w1) = verify_email env req w
                  in if emailVerified
                     then let u = new_User\<lparr>username := rr_username req, nickname := rr_nickname req,
                                           password := rr_password req, mail := rr_email req\<rparr>;
                              (ok, u', um) = AddUser (e_db env) u (w_users w1)
                          in (if ok then common 0 ''ok'' else common 100 ''register failed!'', w1\<lparr>w_users := um\<rparr>)
                     else (rsp, w1))
      in Inr (respond sp c msg_type_register (ser_CommonRsp (e_pb env) rsp) w'))"

definition login_rsp :: "int \<Rightarrow> string \<Rightarrow> UserInfo option \<Rightarrow> LoginRsp" where
  "login_rsp code text info = \<lparr>lrsp_code = code, lrsp_msg = text, lrsp_user = info\<rparr>"

text \<open>The outcome of a login. \<open>GetUserInfoUsername\<close> writes \<open>m_user\<close> before the password is looked at.\<close>

definition check_login ::
  "('m, 'g) env \<Rightarrow> SessionPtr \<Rightarrow> MessageContainer \<Rightarrow> ('m, 'g) world \<Rightarrow> LoginRsp \<times> ('m, 'g) world" where
  "check_login env sp msg w =
     (case parse_LoginReq (e_pb env) (payload msg) of
        None \<Rightarrow> (login_rsp 101 ''protobuf parse failed!'' None, w)
      | Some req \<Rightarrow>
          if lr_username req = [] \<or> lr_password req = []
          then (login_rsp 102 ''data field missing!'' None, w)
          else (case GetUserInfoUsername (lr_username req) (w_users w) of
                  None \<Rightarrow> (login_rsp 103 ''user is not exist or password is incorrect!'' None, w)
                | Some p \<Rightarrow>
                    let w1 = update_session sp (\<lambda>s. s\<lparr>m_user := Some p\<rparr>) w
                    in if lr_password req \<noteq> password (user_at w1 p)
                       then (login_rsp 104 ''user is not exist or password is incorrect!'' None, w1)
                       else (login_rsp 0 ''ok'' (Some (user_info (user_at w1 p))),
                             w1\<lparr>w_users := update_user p (\<lambda>u. u\<lparr>status := 1\<rparr>) (w_users w1)\<rparr>)))"

text \<open>What follows a successful login: the cached messages, then the notification of the friends.\<close>

definition push_offline ::
  "('m, 'g) env \<Rightarrow> conn \<Rightarrow> int \<Rightarrow> ('m, 'g) world \<Rightarrow> ('m, 'g) world" where
  "push_offline env c uid w =
     (let (notes, cache1) = GetNotifyMsgCache uid [] (w_cache w);
          w1 = fold (\<lambda>it. send_raw env c (notifymsg it)) notes (w\<lparr>w_cache := cache1\<rparr>);
          (chats, cache2) = GetChatMsgCache uid [] (w_cache w1);
          w2 = fold (\<lambda>it. send_raw env c (chatmsg it)) chats (w1\<lparr>w_cache := cache2\<rparr>);
          (found, fs) = GetFriendInfoByUserID uid [] (w_users w2)
      in notify_friends env fs uid 1 [] w2)"

definition OnLoginResponse ::
  "('m, 'g) env \<Rightarrow> SessionPtr \<Rightarrow> conn \<Rightarrow> MessageContainer \<Rightarrow> ('m, 'g) world \<Rightarrow> ('m, 'g) world res" where
  "OnLoginResponse env sp c msg w =
     (let (rsp, w1) = check_login env sp msg w;
          w2 = respond sp c msg_type_login (ser_LoginRsp (e_pb env) rsp) w1
      in bindE (if lrsp_code rsp = 0
                then bindE (the_user sp w2) (\<lambda>p. Inr (push_offline env c (userid (user_at w2 p)) w2))
                else Inr w2) (\<lambda>w3.
         bindE (the_user sp w3) (\<lambda>_. Inr w3)))"

section \<open>Friends and users\<close>

definition OnGetFriendListResponse ::
  "('m, 'g) env \<Rightarrow> SessionPtr \<Rightarrow> conn \<Rightarrow> ('m, 'g) world \<Rightarrow> ('m, 'g) world res" where
  "OnGetFriendListResponse env sp c w =
     bindE (the_user sp w) (\<lambda>p.
     let (found, lstFriend) = GetFriendInfoByUserID (userid (user_at w p)) [] (w_users w);
         rsp = \<lparr>fl_code = 0, fl_msg = ''ok'', fl_friends = map (\<lambda>q. (user_info (user_at w q))
                  \<lparr>ui_clienttype := 1, ui_status := (if status (user_at w q) \<noteq> 0 then 1 else 0)\<rparr>) lstFriend\<rparr>
     in Inr (respond sp c msg_type_getofriendlist (ser_FriendListRsp (e_pb env) rsp) w))"

definition find_user :: "FindUserReq \<Rightarrow> ('m, 'g) world \<Rightarrow> UserPtr option res" where
  "find_user req w =
     (if fu_type req = ''username'' then Inr (GetUserInfoUsername (fu_keyword req) (w_users w))
      else if fu_type req = ''userid''
      then bindE (stoi (fu_keyword req)) (\<lambda>uid. Inr (GetUserByID uid (w_users w)))
      else Inr None)"

definition OnFindUserResponse ::
  "('m, 'g) env \<Rightarrow> SessionPtr \<Rightarrow> conn \<Rightarrow> MessageContainer \<Rightarrow> ('m, 'g) world \<Rightarrow> ('m, 'g) world res" where
  "OnFindUserResponse env sp c msg w =
     bindE (case parse_FindUserReq (e_pb env) (payload msg) of
              None \<Rightarrow> Inr \<lparr>fursp_code = 101, fursp_msg = ''protobuf parse failed!'', fursp_user = None\<rparr>
            | Some req \<Rightarrow>
                bindE (find_user req w) (\<lambda>found.
                case found of
                  None \<Rightarrow> Inr \<lparr>fursp_code = 103, fursp_msg = ''user not found!'', fursp_user = None\<rparr>
                | Some p \<Rightarrow>
                    if userid (user_at w p) \<ge> GROUPID_BOUNDARY
                    then Inr \<lparr>fursp_code = 105, fursp_msg = ''cannot search for group!'', fursp_user = None\<rparr>
                    else Inr \<lparr>fursp_code = 0, fursp_msg = ''ok'', fursp_user =
                           Some ((user_info (user_at w p))\<lparr>ui_status := status (user_at w p)\<rparr>)\<rparr>)) (\<lambda>rsp.
     Inr (respond sp c msg_type_finduser (ser_FindUserRsp (e_pb env) rsp) w))"

definition DeleteFriend :: "('m, 'g) env \<Rightarrow> SessionPtr \<Rightarrow> int \<Rightarrow> ('m, 'g) world \<Rightarrow> ('m, 'g) world res" where
  "DeleteFriend env sp friendid w =
     bindE (the_user sp w) (\<lambda>p. Inr (notify_user env friendid (userid (user_at w p)) 3 [] w))"

definition operate_friend ::
  "('m, 'g) env \<Rightarrow> SessionPtr \<Rightarrow> MessageContainer \<Rightarrow> OperateFriendReq \<Rightarrow> ('m, 'g) world
    \<Rightarrow> (CommonRsp \<times> ('m, 'g) world) res" where
  "operate_friend env sp msg req w =
     (let friendid = of_friendid req
      in if of_type req = 1
         then if friendid \<ge> GROUPID_BOUNDARY then Inr (common 106 ''cannot add group as friend!'', w)
              else bindE (the_user sp w) (\<lambda>p.
                let me = userid (user_at w p);
                    (ok, um) = MakeFriendRelationship (e_db env) (if me < friendid then me else friendid)
                                 (if me < friendid then friendid else me) (w_users w);
                    w1 = w\<lparr>w_users := um\<rparr>
                in if ok then Inr (common 0 ''ok'', notify_user env friendid me 4 [] w1)
                   else Inr (common 100 ''add friend failed!'', w1))
         else if of_type req = 2
         then bindE (the_user sp w) (\<lambda>p.
                let (ok, um) = DeleteFriendToUser (e_db env) (userid (user_at w p)) friendid (w_users w);
                    w1 = w\<lparr>w_users := um\<rparr>
                in if ok then bindE (DeleteFriend env sp friendid w1) (\<lambda>w2. Inr (common 0 ''ok'', w2))
                   else Inr (common 100 ''delete friend failed!'', w1))
         else if of_type req = 3
         then let groupid = target_id msg
              in if groupid \<ge> GROUPID_BOUNDARY
                 then let (ok, um) = MakeFriendRelationship (e_db env) (if friendid < groupid then friendid else groupid)
                                       (if friendid < groupid then groupid else friendid) (w_users w);
                          w1 = w\<lparr>w_users := um\<rparr>
                      in Inr (if ok then common 0 ''ok'' else common 100 ''invite to group failed!'', w1)
                 else Inr (common 104 ''invalid group id!'', w)
         else Inr (common 103 ''unknown operation type!'', w))"

definition OnOperateFriendResponse ::
  "('m, 'g) env \<Rightarrow> SessionPtr \<Rightarrow> conn \<Rightarrow> MessageContainer \<Rightarrow> ('m, 'g) world \<Rightarrow> ('m, 'g) world res" where
  "OnOperateFriendResponse env sp c msg w =
     bindE (case parse_OperateFriendReq (e_pb env) (payload msg) of
              None \<Rightarrow> Inr (common 101 ''protobuf parse failed!'', w)
            | Some req \<Rightarrow> operate_friend env sp msg req w) (\<lambda>(rsp, w1).
     Inr (respond sp c msg_type_operatefriend (ser_CommonRsp (e_pb env) rsp) w1))"

text \<open>A field of the request that has its default value keeps the value of the user.\<close>

definition merged_info :: "UpdateUserInfoReq \<Rightarrow> user \<Rightarrow> user" where
  "merged_info req u = new_User\<lparr>
     nickname := (if uu_nickname req = [] then nickname u else uu_nickname req),
     facetype := (if uu_facetype req \<noteq> 0 then uu_facetype req else facetype u),
     customface := (if uu_customface req = [] then customface u else uu_customface req),
     gender := (if uu_gender req \<noteq> 0 then uu_gender req else gender u),
     birthday := (if uu_birthday req \<noteq> 0 then uu_birthday req else birthday u),
     signature := (if uu_signature req = [] then signature u else uu_signature req),
     address := (if uu_address req = [] then address u else uu_address req),
     phonenumber := (if uu_phonenumber req = [] then phonenumber u else uu_phonenumber req),
     mail := (if uu_mail req = [] then mail u else uu_mail req)\<rparr>"

definition OnUpdateUserInfoResponse ::
  "('m, 'g) env \<Rightarrow> SessionPtr \<Rightarrow> conn \<Rightarrow> MessageContainer \<Rightarrow> ('m, 'g) world \<Rightarrow> ('m, 'g) world res" where
  "OnUpdateUserInfoResponse env sp c msg w =
     bindE (case parse_UpdateUserInfoReq (e_pb env) (payload msg) of
              None \<Rightarrow> Inr (common 101 ''protobuf parse failed!'', w)
            | Some req \<Rightarrow>
                bindE (the_user sp w) (\<lambda>p.
                let newinfo = merged_info req (user_at w p);
                    (ok, um) = UpdateUserInfo (e_db env) (userid (user_at w p)) newinfo (w_users w)
                in if ok then Inr (common 0 ''ok'', w\<lparr>w_users := update_user p (copy_info newinfo) um\<rparr>)
                   else Inr (common 100 ''update user info failed!'', w\<lparr>w_users := um\<rparr>))) (\<lambda>(rsp, w1).
     Inr (respond sp c msg_type_updateuserinfo (ser_CommonRsp (e_pb env) rsp) w1))"

definition OnModifyPasswordResponse ::
  "('m, 'g) env \<Rightarrow> SessionPtr \<Rightarrow> conn \<Rightarrow> MessageContainer \<Rightarrow> ('m, 'g) world \<Rightarrow> ('m, 'g) world res" where
  "OnModifyPasswordResponse env sp c msg w =
     bindE (case parse_ModifyPasswordReq (e_pb env) (payload msg) of
              None \<Rightarrow> Inr (common 101 ''protobuf parse failed!'', w)
            | Some req \<Rightarrow>
                if mp_oldpassword req = [] \<or> mp_newpassword req = []
                then Inr (common 102 ''invalid parameter!'', w)
                else bindE (the_user sp w) (\<lambda>p.
                  if mp_oldpassword req \<noteq> password (user_at w p)
                  then Inr (common 103 ''old password is incorrect!'', w)
                  else let (ok, um) = ModifyUserPassword (e_db env) (userid (user_at w p)) (mp_newpassword req) (w_users w)
                       in if ok then Inr (common 0 ''ok'',
                              w\<lparr>w_users := update_user p (\<lambda>u. u\<lparr>password := mp_newpassword req\<rparr>) um\<rparr>)
                          else Inr (common 100 ''modify password failed!'', w\<lparr>w_users := um\<rparr>))) (\<lambda>(rsp, w1).
     Inr (respond sp c msg_type_modifypassword (ser_CommonRsp (e_pb env) rsp) w1))"

section \<open>Groups\<close>

definition OnAddGroupResponse :: "('m, 'g) env \<Rightarrow> SessionPtr \<Rightarrow> int \<Rightarrow> ('m, 'g) world \<Rightarrow> ('m, 'g) world res" where
  "OnAddGroupResponse env sp groupid w =
     bindE (the_user sp w) (\<lambda>p.
     let me = userid (user_at w p);
         smallid = (if me < groupid then me else groupid);
         greatid = (if me < groupid then groupid else me);
         (ok, um) = MakeFriendRelationship (e_db env) smallid greatid (w_users w)
     in Inr (w\<lparr>w_users := um\<rparr>))"

definition OnCreateGroupResponse ::
  "('m, 'g) env \<Rightarrow> SessionPtr \<Rightarrow> conn \<Rightarrow> MessageContainer \<Rightarrow> ('m, 'g) world \<Rightarrow> ('m, 'g) world res" where
  "OnCreateGroupResponse env sp c msg w =
     bindE (case parse_CreateGroupReq (e_pb env) (payload msg) of
              None \<Rightarrow> Inr (\<lparr>cgrsp_code = 101, cgrsp_msg = ''protobuf parse failed!'', cgrsp_groupid = 0, cgrsp_groupname = []\<rparr>, w)
            | Some req \<Rightarrow>
                if cg_groupname req = []
                then Inr (\<lparr>cgrsp_code = 102, cgrsp_msg = ''invalid parameter!'', cgrsp_groupid = 0, cgrsp_groupname = []\<rparr>, w)
                else bindE (the_user sp w) (\<lambda>p.
                  let (ok, groupid, um) = AddGroup (e_db env) (c_str (cg_groupname req)) (userid (user_at w p)) (w_users w);
                      w1 = w\<lparr>w_users := um\<rparr>
                  in if ok
                     then bindE (OnAddGroupResponse env sp groupid w1) (\<lambda>w2.
                       Inr (\<lparr>cgrsp_code = 0, cgrsp_msg = ''ok'', cgrsp_groupid = groupid,
                             cgrsp_groupname = cg_groupname req\<rparr>, w2))
                     else Inr (\<lparr>cgrsp_code = 100, cgrsp_msg = ''create group failed!'', cgrsp_groupid = 0,
                                cgrsp_groupname = []\<rparr>, w1))) (\<lambda>(rsp, w1).
     Inr (respond sp c msg_type_creategroup (ser_CreateGroupRsp (e_pb env) rsp) w1))"

definition OnGetGroupMembersResponse ::
  "('m, 'g) env \<Rightarrow> SessionPtr \<Rightarrow> conn \<Rightarrow> MessageContainer \<Rightarrow> ('m, 'g) world \<Rightarrow> ('m, 'g) world res" where
  "OnGetGroupMembersResponse env sp c msg w =
     (let rsp =
        (case parse_GetGroupMembersReq (e_pb env) (payload msg) of
           None \<Rightarrow> \<lparr>gmrsp_code = 101, gmrsp_msg = ''protobuf parse failed!'', gmrsp_members = []\<rparr>
         | Some req \<Rightarrow>
             let (found, members) = GetFriendInfoByUserID (gm_groupid req) [] (w_users w)
             in if found
                then \<lparr>gmrsp_code = 0, gmrsp_msg = ''ok'', gmrsp_members =
                       map (\<lambda>q. (user_info (user_at w q))\<lparr>ui_status := status (user_at w q)\<rparr>) members\<rparr>
                else \<lparr>gmrsp_code = 100, gmrsp_msg = ''get group members failed!'', gmrsp_members = []\<rparr>)
      in Inr (respond sp c msg_type_getgroupmembers (ser_GetGroupMembersRsp (e_pb env) rsp) w))"

section \<open>Chat\<close>

definition OnGetChatHistoryResponse ::
  "('m, 'g) env \<Rightarrow> SessionPtr \<Rightarrow> conn \<Rightarrow> MessageContainer \<Rightarrow> ('m, 'g) world \<Rightarrow> ('m, 'g) world res" where
  "OnGetChatHistoryResponse env sp c msg w =
     bindE (case parse_ChatHistoryReq (e_pb env) (payload msg) of
              None \<Rightarrow> Inr (\<lparr>chrsp_code = 101, chrsp_msg = ''protobuf parse failed!'', chrsp_targetid = 0, chrsp_messages = []\<rparr>, w)
            | Some req \<Rightarrow>
                bindE (the_user sp w) (\<lambda>p.
                bindE (GetChatHistory (e_db env) (userid (user_at w p)) (ch_targetid req) [] 50 (w_users w)) (\<lambda>(ok, messages, um).
                let w1 = w\<lparr>w_users := um\<rparr>
                in Inr (if ok then \<lparr>chrsp_code = 0, chrsp_msg = ''ok'', chrsp_targetid = ch_targetid req, chrsp_messages = messages\<rparr>
                        else \<lparr>chrsp_code = 100, chrsp_msg = ''get chat history failed!'', chrsp_targetid = 0, chrsp_messages = []\<rparr>,
                        w1)))) (\<lambda>(rsp, w1).
     let w2 = respond sp c msg_type_getchathistory (ser_ChatHistoryRsp (e_pb env) rsp) w1
     in bindE (the_user sp w2) (\<lambda>_. Inr w2))"

text \<open>A message for one user: to the session when there is one, else into the cache.\<close>

definition deliver_to :: "('m, 'g) env \<Rightarrow> int \<Rightarrow> MessageContainer \<Rightarrow> ('m, 'g) world \<Rightarrow> ('m, 'g) world" where
  "deliver_to env uid m w =
     (case GetSessionByID uid w of
        None \<Rightarrow> w\<lparr>w_cache := snd (AddChatMsgCache uid (ser_MessageContainer (e_pb env) m) (w_cache w))\<rparr>
      | Some sp \<Rightarrow> SendContainer sp m w)"

definition agent_chat :: "int \<Rightarrow> string \<Rightarrow> int \<Rightarrow> ChatMsg" where
  "agent_chat target content time = \<lparr>cm_senderid = - 1, cm_targetid = target, cm_content = content, cm_timestamp = time\<rparr>"

text \<open>\<open>target_id = -1\<close> is the agent: the call runs on a thread of its own, its reply comes later.\<close>

definition route_to_agent ::
  "('m, 'g) env \<Rightarrow> SessionPtr \<Rightarrow> conn \<Rightarrow> UserPtr \<Rightarrow> string \<Rightarrow> MessageContainer \<Rightarrow> ('m, 'g) world \<Rightarrow> ('m, 'g) world" where
  "route_to_agent env sp c p content forwardMsg w =
     (let me = userid (user_at w p)
      in if e_have_grpc env
         then if m_agentClient w
              then w\<lparr>w_jobs := w_jobs w @ [\<lparr>job_session = sp, job_userId = me, job_targetId = m_target (w_sessions w sp),
                                           job_content = content, job_chatType = 1\<rparr>]\<rparr>
              else w
         else send_msg c (forwardMsg\<lparr>payload := ser_ChatMsg (e_pb env)
                (agent_chat me text_agent_not_built (e_time env))\<rparr>) w)"

definition OnChatResponse ::
  "('m, 'g) env \<Rightarrow> SessionPtr \<Rightarrow> conn \<Rightarrow> MessageContainer \<Rightarrow> ('m, 'g) world \<Rightarrow> ('m, 'g) world res" where
  "OnChatResponse env sp c msg w =
     (let target = target_id msg;
          w1 = update_session sp (\<lambda>s. s\<lparr>m_target := target\<rparr>) w;
          forwardMsg = empty_MessageContainer\<lparr>cmd := msg_type_chat, seq := m_seq (w_sessions w1 sp),
                         target_id := target, payload := payload msg\<rparr>;
          content = cm_content (snd (parse_ChatMsg (e_pb env) (payload msg)))
      in bindE (the_user sp w1) (\<lambda>p.
         let me = userid (user_at w1 p)
         in if target = - 1 then Inr (route_to_agent env sp c p content forwardMsg w1)
            else let (saved, um) = SaveChatMsgToDb (e_db env) me target content (w_users w1);
                     w2 = w1\<lparr>w_users := um\<rparr>
                 in if target < GROUPID_BOUNDARY then Inr (deliver_to env target forwardMsg w2)
                    else let (found, fs) = GetFriendInfoByUserID target [] (w_users w2)
                         in Inr (fold (\<lambda>q w. if userid (user_at w q) = me then w
                                             else deliver_to env (userid (user_at w q)) forwardMsg w) fs w2)))"

text \<open>The callback of the agent's reply. It uses the session by a raw pointer.\<close>

definition agent_reply ::
  "('m, 'g) env \<Rightarrow> agent_job \<Rightarrow> ('m, 'g) world \<Rightarrow> ('m, 'g) world res" where
  "agent_reply env job w =
     (let (ok, reply, g) = processMessageSync (e_stubs env) (job_userId job) (job_targetId job) (job_content job)
                             (job_chatType job) (w_grpc w);
          w1 = w\<lparr>w_grpc := g, w_jobs := remove1 job (w_jobs w)\<rparr>; sp = job_session job
      in if \<not> alive w1 sp then Inl UndefinedBehaviour
         else bindE (the_user sp w1) (\<lambda>p.
           let me = userid (user_at w1 p);
               chat = agent_chat me (if ok then reply else text_agent_unavailable @ reply) (e_time env)
           in Inr (send_msg (m_conn (w_sessions w1 sp))
                (empty_MessageContainer\<lparr>cmd := msg_type_chat, target_id := me, seq := m_seq (w_sessions w1 sp),
                   payload := ser_ChatMsg (e_pb env) chat\<rparr>) w1)))"

fun multi_chat ::
  "('m, 'g) env \<Rightarrow> SessionPtr \<Rightarrow> conn \<Rightarrow> string \<Rightarrow> int list \<Rightarrow> ('m, 'g) world \<Rightarrow> ('m, 'g) world res" where
  "multi_chat env sp c content [] w = Inr w"
| "multi_chat env sp c content (t # ts) w =
     (let w1 = update_session sp (\<lambda>s. s\<lparr>m_target := t\<rparr>) w
      in bindE (OnChatResponse env sp c (empty_MessageContainer\<lparr>cmd := msg_type_chat,
             seq := m_seq (w_sessions w1 sp), target_id := t, payload := content\<rparr>) w1) (\<lambda>w2.
         multi_chat env sp c content ts w2))"

definition OnMultiChatResponse ::
  "('m, 'g) env \<Rightarrow> SessionPtr \<Rightarrow> conn \<Rightarrow> MessageContainer \<Rightarrow> ('m, 'g) world \<Rightarrow> ('m, 'g) world res" where
  "OnMultiChatResponse env sp c msg w =
     (let w1 = update_session sp (\<lambda>s. s\<lparr>m_targets := targets msg\<rparr>) w
      in case parse_MultiChatTargets (e_pb env) (payload msg) of
           None \<Rightarrow> bindE (the_user sp w1) (\<lambda>_. Inr w1)
         | Some req \<Rightarrow>
             bindE (multi_chat env sp c (mt_content req) (mt_targets req) w1) (\<lambda>w2.
             bindE (the_user sp w2) (\<lambda>_. Inr w2)))"

section \<open>Avatars and mail\<close>

definition avatar_rsp :: "int \<Rightarrow> string \<Rightarrow> string \<Rightarrow> AvatarUploadRsp" where
  "avatar_rsp code text url = \<lparr>aursp_code = code, aursp_msg = text, aursp_url = url\<rparr>"

definition upload_avatar ::
  "('m, 'g) env \<Rightarrow> AvatarUploadReq \<Rightarrow> UserPtr \<Rightarrow> ('m, 'g) world \<Rightarrow> AvatarUploadRsp \<times> ('m, 'g) world" where
  "upload_avatar env req p w =
     (let me = userid (user_at w p);
          (result, g) = Upload (e_stubs env) me (au_image_data req) (au_format req) (w_grpc w);
          w1 = w\<lparr>w_grpc := g\<rparr>
      in if upres_ok result
         then let um1 = update_user p (\<lambda>u. u\<lparr>customface := upres_url result\<rparr>) (w_users w1);
                  (ok, um2) = UpdateUserInfo (e_db env) me (um_heap um1 p) um1;
                  w2 = w1\<lparr>w_users := um2\<rparr>;
                  (found, fs) = GetFriendInfoByUserID me [] um2
              in (avatar_rsp 0 text_uploaded (upres_url result),
                  if found then notify_friends env fs me 5 (upres_url result) w2 else w2)
         else (avatar_rsp 2 (upres_errMsg result) [], w1))"

definition OnAvatarUploadResponse ::
  "('m, 'g) env \<Rightarrow> SessionPtr \<Rightarrow> conn \<Rightarrow> MessageContainer \<Rightarrow> ('m, 'g) world \<Rightarrow> ('m, 'g) world res" where
  "OnAvatarUploadResponse env sp c msg w =
     bindE (case parse_AvatarUploadReq (e_pb env) (payload msg) of
              None \<Rightarrow> Inr (avatar_rsp 1 text_parse_failed [], w)
            | Some req \<Rightarrow>
                if e_have_grpc env
                then if m_avatarClient w
                     then bindE (the_user sp w) (\<lambda>p. Inr (upload_avatar env req p w))
                     else Inr (avatar_rsp 3 (''Avatar'' @ text_service @ text_not_configured) [], w)
                else Inr (avatar_rsp 3 (''Avatar'' @ text_service @ text_not_built) [], w)) (\<lambda>(rsp, w1).
     Inr (respond sp c msg_type_avatarupload (ser_AvatarUploadRsp (e_pb env) rsp) w1))"

definition OnSendEmailCodeResponse ::
  "('m, 'g) env \<Rightarrow> SessionPtr \<Rightarrow> conn \<Rightarrow> MessageContainer \<Rightarrow> ('m, 'g) world \<Rightarrow> ('m, 'g) world res" where
  "OnSendEmailCodeResponse env sp c msg w =
     (let (rsp, w1) =
        (case parse_SendEmailCodeReq (e_pb env) (payload msg) of
           None \<Rightarrow> (\<lparr>sersp_code = 3, sersp_msg = text_parse_failed, sersp_cooldown_seconds = 0\<rparr>, w)
         | Some req \<Rightarrow>
             if se_email req = [] \<or> CHR 0x40 \<notin> set (se_email req) \<or> CHR ''.'' \<notin> set (se_email req)
             then (\<lparr>sersp_code = 2, sersp_msg = text_bad_address, sersp_cooldown_seconds = 0\<rparr>, w)
             else if e_have_grpc env
             then if m_mailClient w
                  then let (result, g) = SendCode (e_stubs env) (se_email req) (w_grpc w)
                       in (\<lparr>sersp_code = scres_code result, sersp_msg = scres_msg result,
                            sersp_cooldown_seconds = scres_cooldownSeconds result\<rparr>, w\<lparr>w_grpc := g\<rparr>)
                  else (\<lparr>sersp_code = 3, sersp_msg = text_mail @ text_service @ text_not_configured,
                         sersp_cooldown_seconds = 0\<rparr>, w)
             else (\<lparr>sersp_code = 3, sersp_msg = text_mail @ text_service @ text_not_built,
                    sersp_cooldown_seconds = 0\<rparr>, w))
      in Inr (respond sp c msg_type_sendemailcode (ser_SendEmailCodeRsp (e_pb env) rsp) w1))"

section \<open>Dispatch\<close>

definition dispatch ::
  "('m, 'g) env \<Rightarrow> SessionPtr \<Rightarrow> conn \<Rightarrow> MessageContainer \<Rightarrow> ('m, 'g) world \<Rightarrow> ('m, 'g) world res" where
  "dispatch env sp c msg w =
     (if cmd msg = msg_type_heartbeart then OnHeartbeatResponse sp c w
      else if cmd msg = msg_type_register then OnRegisterResponse env sp c msg w
      else if cmd msg = msg_type_login then OnLoginResponse env sp c msg w
      else if cmd msg = msg_type_getofriendlist then OnGetFriendListResponse env sp c w
      else if cmd msg = msg_type_finduser then OnFindUserResponse env sp c msg w
      else if cmd msg = msg_type_operatefriend then OnOperateFriendResponse env sp c msg w
      else if cmd msg = msg_type_updateuserinfo then OnUpdateUserInfoResponse env sp c msg w
      else if cmd msg = msg_type_modifypassword then OnModifyPasswordResponse env sp c msg w
      else if cmd msg = msg_type_creategroup then OnCreateGroupResponse env sp c msg w
      else if cmd msg = msg_type_getgroupmembers then OnGetGroupMembersResponse env sp c msg w
      else if cmd msg = msg_type_getchathistory then OnGetChatHistoryResponse env sp c msg w
      else if cmd msg = msg_type_avatarupload then OnAvatarUploadResponse env sp c msg w
      else if cmd msg = msg_type_sendemailcode then OnSendEmailCodeResponse env sp c msg w
      else if cmd msg = msg_type_chat then OnChatResponse env sp c msg w
      else if cmd msg = msg_type_multichat then OnMultiChatResponse env sp c msg w
      else Inr w)"

definition OnMessageReceived ::
  "('m, 'g) env \<Rightarrow> SessionPtr \<Rightarrow> conn \<Rightarrow> MessageContainer \<Rightarrow> ('m, 'g) world \<Rightarrow> ('m, 'g) world res" where
  "OnMessageReceived env sp c msg w = dispatch env sp c msg (update_session sp (\<lambda>s. s\<lparr>m_seq := seq msg\<rparr>) w)"

text \<open>The codec of a session, and the data of its connection.\<close>

definition session_codec ::
  "('m, 'g) env \<Rightarrow> SessionPtr \<Rightarrow> conn \<Rightarrow> (MessageContainer, ('m, 'g) world) ProtobufCodecLite" where
  "session_codec env sp c = IMCodec_new (OnMessageReceived env sp c)
     (defaultErrorCallback (\<lambda>w. c \<in> w_connected w) (\<lambda>w. w\<lparr>w_shutdown := w_shutdown w @ [c]\<rparr>))"

definition OnRead ::
  "('m, 'g) env \<Rightarrow> MessageContainer pb_lib \<Rightarrow> SessionPtr \<Rightarrow> conn \<Rightarrow> buffer \<Rightarrow> ('m, 'g) world
    \<Rightarrow> (buffer \<times> ('m, 'g) world) res" where
  "OnRead env lib sp c b w = IMCodec_onMessage lib (session_codec env sp c) b w"

end
