(* ===== verification/Session_Props.thy ===== *)
theory Session_Props
  imports Handlers
begin

text \<open>
  What the handlers of \<open>ClientSession\<close> guarantee: which faults a client can cause before and after a
  login, that every request keeps the invariants of the state, what a login does, and that a chat
  message reaches each addressee exactly once, at once or at the next login.
\<close>

section \<open>What sending leaves alone\<close>

lemma send_msg_simps [simp]:
  "w_users (send_msg c m w) = w_users w" "w_sessions (send_msg c m w) = w_sessions w"
  "w_cache (send_msg c m w) = w_cache w" "m_mapclient (send_msg c m w) = m_mapclient w"
  "w_next (send_msg c m w) = w_next w" "w_callback (send_msg c m w) = w_callback w"
  "w_connected (send_msg c m w) = w_connected w" "w_out (send_msg c m w) = w_out w @ [(c, m)]"
  by (simp_all add: send_msg_def)

text \<open>Everything but the cache, the services and what is sent.\<close>

definition same_core :: "('m, 'g) world \<Rightarrow> ('m, 'g) world \<Rightarrow> bool" where
  "same_core w w' \<longleftrightarrow> w_users w' = w_users w \<and> w_sessions w' = w_sessions w \<and> m_mapclient w' = m_mapclient w
     \<and> w_next w' = w_next w \<and> w_callback w' = w_callback w \<and> w_connected w' = w_connected w"

named_theorems core_intros \<open>steps that keep the users, the sessions and the registry\<close>

lemma same_core_refl [core_intros]: "same_core w w"
  by (simp add: same_core_def)

lemma same_core_trans: "same_core w w1 \<Longrightarrow> same_core w1 w2 \<Longrightarrow> same_core w w2"
  by (simp add: same_core_def)

lemma same_core_send [core_intros]: "same_core w w' \<Longrightarrow> same_core w (send_msg c m w')"
  by (simp add: same_core_def)

lemma same_core_respond [core_intros]: "same_core w w' \<Longrightarrow> same_core w (respond sp c k b w')"
  by (simp add: respond_def core_intros)

lemma same_core_raw [core_intros]: "same_core w w' \<Longrightarrow> same_core w (send_raw env c d w')"
  by (simp add: send_raw_def core_intros split: option.split)

lemma same_core_status [core_intros]: "same_core w w' \<Longrightarrow> same_core w (SendUserStatusChangeMsg env sp u t f w')"
  by (simp add: SendUserStatusChangeMsg_def core_intros Let_def)

lemma same_core_notify [core_intros]: "same_core w w' \<Longrightarrow> same_core w (notify_user env t u k f w')"
  by (simp add: notify_user_def core_intros split: option.split)

lemma same_core_cache [core_intros]: "same_core w w' \<Longrightarrow> same_core w (w'\<lparr>w_cache := x\<rparr>)"
  by (simp add: same_core_def)

lemma same_core_grpc [core_intros]: "same_core w w' \<Longrightarrow> same_core w (w'\<lparr>w_grpc := x\<rparr>)"
  by (simp add: same_core_def)

lemma same_core_jobs [core_intros]: "same_core w w' \<Longrightarrow> same_core w (w'\<lparr>w_jobs := x\<rparr>)"
  by (simp add: same_core_def)

lemma same_core_deliver [core_intros]: "same_core w w' \<Longrightarrow> same_core w (deliver_to env u m w')"
  by (simp add: deliver_to_def SendContainer_def core_intros split: option.split)

lemma same_core_fold:
  assumes "\<And>x w'. same_core w w' \<Longrightarrow> same_core w (f x w')"
  shows "same_core w w' \<Longrightarrow> same_core w (fold f xs w')"
  using assms by (induction xs arbitrary: w') auto

lemma same_core_friends [core_intros]: "same_core w w' \<Longrightarrow> same_core w (notify_friends env ps u k f w')"
  unfolding notify_friends_def by (rule same_core_fold) (rule core_intros)

lemma same_core_push [core_intros]:
  "same_core w w' \<Longrightarrow> same_core w (push_offline env c uid w')"
  by (auto simp: push_offline_def Let_def split: prod.splits intro!: core_intros same_core_fold)

lemma same_core_agent [core_intros]: "same_core w w' \<Longrightarrow> same_core w (route_to_agent env sp c p t m w')"
  by (auto simp: route_to_agent_def Let_def intro!: core_intros)

lemma same_core_the_user: "same_core w w' \<Longrightarrow> the_user sp w' = the_user sp w"
  by (simp add: same_core_def the_user_def)

lemma same_core_UserID: "same_core w w' \<Longrightarrow> UserID w' = UserID w"
  by (simp add: same_core_def UserID_def fun_eq_iff split: option.split)

lemma same_core_lookup: "same_core w w' \<Longrightarrow> GetSessionByID uid w' = GetSessionByID uid w"
  using same_core_UserID [of w w'] by (simp add: same_core_def GetSessionByID_def)

lemma update_session_simps [simp]:
  "w_users (update_session sp f w) = w_users w" "m_mapclient (update_session sp f w) = m_mapclient w"
  "w_cache (update_session sp f w) = w_cache w" "w_out (update_session sp f w) = w_out w"
  "w_sessions (update_session sp f w) sp = f (w_sessions w sp)"
  "sp' \<noteq> sp \<Longrightarrow> w_sessions (update_session sp f w) sp' = w_sessions w sp'"
  "w_next (update_session sp f w) = w_next w" "w_callback (update_session sp f w) = w_callback w"
  "w_connected (update_session sp f w) = w_connected w"
  by (simp_all add: update_session_def)

section \<open>Null dereferences\<close>

text \<open>A result without null dereference, after which the session still has its user.\<close>

definition keeps_user :: "SessionPtr \<Rightarrow> ('m, 'g) world res \<Rightarrow> bool" where
  "keeps_user sp r \<longleftrightarrow> (case r of Inl e \<Rightarrow> e \<noteq> NullDereference | Inr w \<Rightarrow> m_user (w_sessions w sp) \<noteq> None)"

lemma keeps_user_Inr: "same_core w w' \<Longrightarrow> m_user (w_sessions w sp) = Some p \<Longrightarrow> keeps_user sp (Inr w')"
  by (simp add: keeps_user_def same_core_def)

lemma keeps_user_bind:
  assumes "r \<noteq> Inl NullDereference" "\<And>x. r = Inr x \<Longrightarrow> keeps_user sp (f x)"
  shows "keeps_user sp (bindE r f)"
  using assms by (cases r) (auto simp: keeps_user_def)

lemma the_user_Some: "m_user (w_sessions w sp) = Some p \<Longrightarrow> the_user sp w = Inr p"
  by (simp add: the_user_def)

lemma keeps_user_core:
  "m_user (w_sessions w sp) = Some p \<Longrightarrow> w_sessions w' = w_sessions w \<Longrightarrow> keeps_user sp (Inr w')"
  by (simp add: keeps_user_def)

lemma same_core_eqs:
  assumes "same_core w w'"
  shows "w_users w' = w_users w" "w_sessions w' = w_sessions w" "m_mapclient w' = m_mapclient w"
    "w_next w' = w_next w" "w_callback w' = w_callback w" "w_connected w' = w_connected w"
  using assms by (simp_all add: same_core_def)

lemmas core_simps [simp] =
  same_core_eqs [OF same_core_respond [OF same_core_refl]]
  same_core_eqs [OF same_core_notify [OF same_core_refl]]
  same_core_eqs [OF same_core_friends [OF same_core_refl]]
  same_core_eqs [OF same_core_push [OF same_core_refl]]
  same_core_eqs [OF same_core_deliver [OF same_core_refl]]
  same_core_eqs [OF same_core_agent [OF same_core_refl]]

lemma the_user_simps [simp]:
  "the_user sp (respond sp' c k b w) = the_user sp w"
  "the_user sp (notify_user env t u k' f w) = the_user sp w"
  "the_user sp (push_offline env c uid w) = the_user sp w"
  "the_user sp (w\<lparr>w_users := um\<rparr>) = the_user sp w"
  by (simp_all add: the_user_def)

lemma the_user_session [simp]:
  "the_user sp (update_session sp (\<lambda>s. s\<lparr>m_target := t\<rparr>) w) = the_user sp w"
  "the_user sp (update_session sp (\<lambda>s. s\<lparr>m_targets := ts\<rparr>) w) = the_user sp w"
  "the_user sp (update_session sp (\<lambda>s. s\<lparr>m_seq := n\<rparr>) w) = the_user sp w"
  by (simp_all add: the_user_def)

lemma group_fold_core: "same_core w (fold (\<lambda>q w. if userid (user_at w q) = me then w else deliver_to env (userid (user_at w q)) m w) fs w)"
  by (rule same_core_fold) (simp_all add: core_intros)

lemmas group_fold_simps [simp] = same_core_eqs [OF group_fold_core]

lemma verify_email_core: "verify_email env req w = (ok, rsp, w') \<Longrightarrow> same_core w w'"
  by (auto simp: verify_email_def Let_def split: if_splits prod.splits intro!: core_intros)

lemma upload_avatar_sessions: "upload_avatar env req p w = (rsp, w') \<Longrightarrow> w_sessions w' = w_sessions w"
  by (auto simp: upload_avatar_def Let_def split: if_splits prod.splits)

lemma check_login_sessions:
  "check_login env sp msg w = (rsp, w') \<Longrightarrow> m_user (w_sessions w sp) = Some p \<Longrightarrow>
     \<exists>q. m_user (w_sessions w' sp) = Some q"
  by (auto simp: check_login_def Let_def split: option.splits if_splits)

text \<open>\<open>mysql_store_result\<close> gives a result for a query that returns rows, as its manual says.\<close>

definition stores_results :: "'m mysql_api \<Rightarrow> bool" where
  "stores_results api \<longleftrightarrow> (\<forall>m. fst (mysql_store_result api m) \<noteq> None)"

lemma new_QueryResult_no_null: "new_QueryResult (Some r) n k \<noteq> Inl NullDereference"
  by (auto simp: new_QueryResult_def Let_def split: list.splits)

lemma GetChatHistory_no_null:
  assumes "stores_results api"
  shows "GetChatHistory api a b ms n um \<noteq> Inl NullDereference"
proof -
  have "tool_Query api sql t \<noteq> Inl NullDereference" for sql t
    using assms new_QueryResult_no_null
    by (auto simp: tool_Query_def Let_def fault_simps stores_results_def split: prod.splits if_splits)
       (metis fst_conv not_None_eq)
  moreover have "row_loop history_row q s \<noteq> Inl NullDereference" for q s
  proof (induction "history_row" q s rule: row_loop.induct)
    case (1 q s)
    have "NextRow q \<noteq> Inl NullDereference" by (auto simp: NextRow_def split: option.splits list.splits)
    moreover have "history_row pRow s \<noteq> Inl NullDereference" for pRow
      by (auto simp: history_row_def fault_simps row_field_def split: if_splits)
    ultimately show ?case
      using 1 by (auto simp: row_loop.simps [of history_row q] fault_simps split: option.splits prod.splits if_splits)
  qed
  ultimately show ?thesis
    by (auto simp: GetChatHistory_def um_Query_def mgr_Query_def fault_simps split: option.splits prod.splits)
qed

lemma stoi_no_null [simp]: "stoi s \<noteq> Inl NullDereference"
  by (simp add: stoi_def split: option.split)

lemma OnChatResponse_keeps:
  assumes "m_user (w_sessions w sp) = Some p"
  shows "keeps_user sp (OnChatResponse env sp c msg w)"
  using assms
  by (auto simp: OnChatResponse_def Let_def the_user_Some keeps_user_def split: prod.splits)

lemma multi_chat_keeps:
  "m_user (w_sessions w sp) = Some p \<Longrightarrow> keeps_user sp (multi_chat env sp c content ts w)"
proof (induction ts arbitrary: w p)
  case (Cons t ts)
  let ?w1 = "update_session sp (\<lambda>s. s\<lparr>m_target := t\<rparr>) w"
  let ?r = "OnChatResponse env sp c (empty_MessageContainer\<lparr>cmd := msg_type_chat,
      seq := m_seq (w_sessions ?w1 sp), target_id := t, payload := content\<rparr>) ?w1"
  have "keeps_user sp ?r"
    using Cons.prems by (intro OnChatResponse_keeps) simp
  with Cons.IH show ?case
    by (cases ?r) (auto simp: Let_def keeps_user_def)
qed (simp add: keeps_user_def)

lemma handlers_keep_user:
  assumes "m_user (w_sessions w sp) = Some p"
  shows "keeps_user sp (OnHeartbeatResponse sp c w)"
    "keeps_user sp (OnRegisterResponse env sp c msg w)"
    "keeps_user sp (OnLoginResponse env sp c msg w)"
    "keeps_user sp (OnGetFriendListResponse env sp c w)"
    "keeps_user sp (OnFindUserResponse env sp c msg w)"
    "keeps_user sp (OnUpdateUserInfoResponse env sp c msg w)"
    "keeps_user sp (OnModifyPasswordResponse env sp c msg w)"
    "keeps_user sp (OnGetGroupMembersResponse env sp c msg w)"
    "keeps_user sp (OnSendEmailCodeResponse env sp c msg w)"
proof -
  note user = the_user_Some [OF assms]
  show "keeps_user sp (OnHeartbeatResponse sp c w)"
    using assms by (simp add: OnHeartbeatResponse_def keeps_user_def)
  show "keeps_user sp (OnRegisterResponse env sp c msg w)"
    using assms by (auto simp: OnRegisterResponse_def keeps_user_def Let_def
        dest!: verify_email_core same_core_eqs(2) split: option.splits if_splits prod.splits)
  show "keeps_user sp (OnLoginResponse env sp c msg w)"
  proof -
    obtain rsp w1 where log: "check_login env sp msg w = (rsp, w1)" by fastforce
    then obtain q where "m_user (w_sessions w1 sp) = Some q" using check_login_sessions assms by blast
    with log show ?thesis by (simp add: OnLoginResponse_def the_user_Some keeps_user_def Let_def)
  qed
  show "keeps_user sp (OnGetFriendListResponse env sp c w)"
    using assms by (auto simp: OnGetFriendListResponse_def user keeps_user_def split: prod.splits)
  show "keeps_user sp (OnFindUserResponse env sp c msg w)"
    using assms by (auto simp: OnFindUserResponse_def find_user_def keeps_user_def stoi_def
        split: option.splits sum.splits if_splits)
  show "keeps_user sp (OnUpdateUserInfoResponse env sp c msg w)"
    using assms by (auto simp: OnUpdateUserInfoResponse_def user keeps_user_def Let_def split: option.splits prod.splits)
  show "keeps_user sp (OnModifyPasswordResponse env sp c msg w)"
    using assms by (auto simp: OnModifyPasswordResponse_def user keeps_user_def Let_def split: option.splits prod.splits)
  show "keeps_user sp (OnGetGroupMembersResponse env sp c msg w)"
    using assms by (simp add: OnGetGroupMembersResponse_def keeps_user_def Let_def)
  show "keeps_user sp (OnSendEmailCodeResponse env sp c msg w)"
    using assms by (auto simp: OnSendEmailCodeResponse_def keeps_user_def Let_def split: option.splits prod.splits)
qed

lemma handlers_keep_user2:
  assumes "m_user (w_sessions w sp) = Some p"
  shows "keeps_user sp (OnOperateFriendResponse env sp c msg w)"
    "keeps_user sp (OnCreateGroupResponse env sp c msg w)"
    "keeps_user sp (OnAvatarUploadResponse env sp c msg w)"
    "keeps_user sp (OnMultiChatResponse env sp c msg w)"
    "stores_results (e_db env) \<Longrightarrow> keeps_user sp (OnGetChatHistoryResponse env sp c msg w)"
proof -
  note user = the_user_Some [OF assms]
  show "keeps_user sp (OnOperateFriendResponse env sp c msg w)"
    using assms by (auto simp: OnOperateFriendResponse_def operate_friend_def DeleteFriend_def user keeps_user_def Let_def
        split: option.splits prod.splits)
  show "keeps_user sp (OnCreateGroupResponse env sp c msg w)"
    using assms by (auto simp: OnCreateGroupResponse_def OnAddGroupResponse_def user keeps_user_def Let_def
        split: option.splits prod.splits)
  show "keeps_user sp (OnAvatarUploadResponse env sp c msg w)"
    using assms by (auto simp: OnAvatarUploadResponse_def user keeps_user_def dest!: upload_avatar_sessions
        split: option.splits prod.splits)
  show "keeps_user sp (OnMultiChatResponse env sp c msg w)"
  proof (cases "parse_MultiChatTargets (e_pb env) (payload msg)")
    case (Some req)
    let ?r = "multi_chat env sp c (mt_content req) (mt_targets req) (update_session sp (\<lambda>s. s\<lparr>m_targets := targets msg\<rparr>) w)"
    have "keeps_user sp ?r" using assms by (intro multi_chat_keeps) simp
    with Some show ?thesis
      by (cases ?r) (auto simp: OnMultiChatResponse_def keeps_user_def the_user_def)
  qed (use assms in \<open>simp add: OnMultiChatResponse_def user keeps_user_def\<close>)
  assume "stores_results (e_db env)"
  then have "GetChatHistory (e_db env) a b [] n um \<noteq> Inl NullDereference" for a b n um
    by (rule GetChatHistory_no_null)
  then show "keeps_user sp (OnGetChatHistoryResponse env sp c msg w)"
    using assms unfolding OnGetChatHistoryResponse_def
    by (intro keeps_user_bind)
       (auto simp: user keeps_user_def Let_def fault_simps the_user_def split: option.splits prod.splits)
qed

lemma dispatch_keeps_user:
  assumes "m_user (w_sessions w sp) = Some p" "stores_results (e_db env)"
  shows "keeps_user sp (dispatch env sp c msg w)"
  unfolding dispatch_def
  using assms handlers_keep_user [OF assms(1)] handlers_keep_user2 [OF assms(1)] OnChatResponse_keeps [OF assms(1)]
  by (simp add: keeps_user_def)

lemma deliver_session_keeps:
  assumes "stores_results (e_db env)"
  shows "m_user (w_sessions w sp) = Some p \<Longrightarrow> keeps_user sp (deliver (session_codec env sp c) ms w)"
proof (induction ms arbitrary: w p)
  case (Cons m ms)
  let ?r = "OnMessageReceived env sp c m w"
  have "keeps_user sp ?r"
    unfolding OnMessageReceived_def using Cons.prems assms by (intro dispatch_keeps_user) simp_all
  with Cons.IH show ?case
    by (cases ?r) (auto simp: keeps_user_def session_codec_def IMCodec_new_def)
qed (simp add: keeps_user_def)


text \<open>A concrete runtime for witnesses: a login request is the user name, the other requests do not parse.\<close>

definition demo_pb :: im_pb where
  "demo_pb = \<lparr>parse_MessageContainer = (\<lambda>s. Some (empty_MessageContainer\<lparr>cmd := 1100, target_id := 2, payload := s\<rparr>)),
     ser_MessageContainer = payload, parse_RegisterReq = (\<lambda>s. Some \<lparr>rr_username = s, rr_nickname = s,
       rr_password = ''pw'', rr_email = ''a@b.c'', rr_code = ''1''\<rparr>),
     parse_LoginReq = (\<lambda>s. Some \<lparr>lr_username = s, lr_password = ''pw'', lr_clienttype = 1, lr_status = 1\<rparr>),
     parse_FindUserReq = (\<lambda>s. Some \<lparr>fu_type = ''userid'', fu_keyword = s\<rparr>), parse_OperateFriendReq = Map.empty,
     parse_UpdateUserInfoReq = Map.empty, parse_ModifyPasswordReq = Map.empty, parse_CreateGroupReq = Map.empty,
     parse_GetGroupMembersReq = Map.empty, parse_ChatHistoryReq = Map.empty, parse_MultiChatTargets = Map.empty,
     parse_AvatarUploadReq = Map.empty, parse_SendEmailCodeReq = Map.empty,
     parse_ChatMsg = (\<lambda>s. (True, \<lparr>cm_senderid = 0, cm_targetid = 0, cm_content = s, cm_timestamp = 0\<rparr>)),
     ser_ChatMsg = cm_content, ser_CommonRsp = crsp_msg, ser_LoginRsp = lrsp_msg, ser_FriendListRsp = fl_msg,
     ser_FindUserRsp = fursp_msg, ser_UserStatusChangeNotify = (\<lambda>n. []), ser_CreateGroupRsp = cgrsp_msg,
     ser_GetGroupMembersRsp = gmrsp_msg, ser_ChatHistoryRsp = chrsp_msg, ser_AvatarUploadRsp = aursp_msg,
     ser_SendEmailCodeRsp = sersp_msg\<rparr>"

definition demo_stubs :: "nat grpc_stubs" where
  "demo_stubs = \<lparr>stub_ProcessMessage = (\<lambda>r g. (Inr \<lparr>pmrsp_code = 0, pmrsp_msg = [], pmrsp_reply = ''hi''\<rparr>, g)),
     stub_HealthCheck = (\<lambda>g. (Inr True, g)), stub_Upload = (\<lambda>r g. (Inl ''down'', g)),
     stub_SendCode = (\<lambda>r g. (Inl ''down'', g)), stub_VerifyCode = (\<lambda>r g. (Inl ''down'', g))\<rparr>"

definition demo_env :: "(nat, nat) env" where
  "demo_env = \<lparr>e_pb = demo_pb, e_db = demo_api, e_stubs = demo_stubs, e_have_grpc = True, e_time = 0\<rparr>"

text \<open>Two connections, 16 and 32, over the two users of \<open>demo_um\<close>; the first is logged in.\<close>

definition demo_world :: "(nat, nat) world" where
  "demo_world = update_session 0 (\<lambda>s. s\<lparr>m_user := Some 0\<rparr>) (establish 32 (establish 16 (new_world demo_um 0)))"

lemma demo_world_simps [simp]:
  "w_users demo_world = demo_um" "m_user (w_sessions demo_world 0) = Some 0"
  "m_user (w_sessions demo_world (Suc 0)) = None" "w_cache demo_world = new_MsgCacheManager"
  "w_out demo_world = []"
  "m_conn (w_sessions demo_world 0) = 16" "m_conn (w_sessions demo_world (Suc 0)) = 32"
  by (simp_all add: demo_world_def establish_def OnConnection_def OnConnected_def new_world_def
      new_ClientSession_def update_session_def)

lemma set_map_put: "(k', x) \<in> set (map_put k v m) \<Longrightarrow> x = v \<or> (k', x) \<in> set m"
  by (induction m) (auto split: if_splits)

lemma demo_alive: "alive demo_world sp \<Longrightarrow> sp = 0 \<or> sp = Suc 0"
proof -
  assume "alive demo_world sp"
  then obtain k where "(k, sp) \<in> set (map_put (ptr_text 32) (Suc 0) (map_put (ptr_text 16) 0 []))"
    by (auto simp: alive_def demo_world_def establish_eq session_of_def new_world_def)
  then show ?thesis using set_map_put by fastforce
qed

lemma demo_stores: "stores_results (e_db demo_env)"
  by (simp add: stores_results_def demo_env_def demo_api_def)


text \<open>
  C8. A client that has not logged in stops the server with one message: a request for the friend
  list or the chat history, a chat message or a message to several users, whatever it contains, and
  a login that names no known user, each follow the null pointer \<open>m_user\<close>.
\<close>

theorem null_before_login:
  assumes "m_user (w_sessions w sp) = None"
    and "cmd msg \<in> {msg_type_getofriendlist, msg_type_getchathistory, msg_type_chat, msg_type_multichat}
       \<or> cmd msg = msg_type_login \<and> (\<forall>req. parse_LoginReq (e_pb env) (payload msg) = Some req \<longrightarrow>
           lr_username req = [] \<or> lr_password req = [] \<or> GetUserInfoUsername (lr_username req) (w_users w) = None)"
  shows "OnMessageReceived env sp c msg w = Inl NullDereference"
proof -
  let ?w = "update_session sp (\<lambda>s. s\<lparr>m_seq := seq msg\<rparr>) w"
  have none: "the_user sp ?w = Inl NullDereference"
    using assms(1) by (simp add: the_user_def)
  have chat: "OnChatResponse env sp c m v = Inl NullDereference" if "the_user sp v = Inl NullDereference" for m v
    using that by (simp add: OnChatResponse_def Let_def)
  have "OnMultiChatResponse env sp c msg ?w = Inl NullDereference"
  proof (cases "parse_MultiChatTargets (e_pb env) (payload msg)")
    case (Some req)
    with none chat show ?thesis
      by (cases "mt_targets req") (simp_all add: OnMultiChatResponse_def Let_def)
  qed (use none in \<open>simp add: OnMultiChatResponse_def\<close>)
  moreover have "OnGetChatHistoryResponse env sp c msg ?w = Inl NullDereference"
    using none by (simp add: OnGetChatHistoryResponse_def Let_def split: option.split)
  moreover have "OnLoginResponse env sp c msg ?w = Inl NullDereference" if "cmd msg = msg_type_login"
    using that assms(2) none
    by (simp add: OnLoginResponse_def check_login_def login_rsp_def msg_types split: option.split) auto
  ultimately show ?thesis
    using assms(2) none chat [OF none, of msg]
    by (auto simp: OnMessageReceived_def dispatch_def OnGetFriendListResponse_def msg_types)
qed

theorem null_before_login_witness:
  "OnMessageReceived demo_env 1 32 (empty_MessageContainer\<lparr>cmd := 1003\<rparr>) demo_world = Inl NullDereference"
  by (rule null_before_login) (simp_all add: msg_types)

section \<open>Login\<close>

lemma user_at_core: "w_users w' = w_users w \<Longrightarrow> user_at w' = user_at w"
  by (simp add: user_at_def fun_eq_iff)



lemma send_raw_simps [simp]:
  "w_cache (send_raw env c d w) = w_cache w"
  "w_out (send_raw env c d w) = w_out w @ map (Pair c) (List.map_filter (parse_MessageContainer (e_pb env)) [d])"
  by (simp_all add: send_raw_def map_filter_simps split: option.split)

lemma map_filter_append [simp]: "List.map_filter f (xs @ ys) = List.map_filter f xs @ List.map_filter f ys"
  by (induction xs) (simp_all add: map_filter_simps split: option.split)

lemma fold_send_raw:
  "w_cache (fold (\<lambda>it. send_raw env c (f it)) its w) = w_cache w
   \<and> w_out (fold (\<lambda>it. send_raw env c (f it)) its w)
       = w_out w @ map (Pair c) (List.map_filter (parse_MessageContainer (e_pb env)) (map f its))"
  by (induction its arbitrary: w) (simp_all add: map_filter_simps split: option.split)

definition status_msg :: "('m, 'g) env \<Rightarrow> int \<Rightarrow> int \<Rightarrow> string \<Rightarrow> MessageContainer" where
  "status_msg env uid tp face = empty_MessageContainer\<lparr>cmd := msg_type_userstatuschange,
     payload := ser_UserStatusChangeNotify (e_pb env) \<lparr>us_type = tp, us_userid = uid, us_customface = face\<rparr>\<rparr>"

text \<open>The notifications for those of the users \<open>qs\<close> who are online.\<close>

definition status_notes ::
  "('m, 'g) env \<Rightarrow> ('m, 'g) world \<Rightarrow> UserPtr list \<Rightarrow> int \<Rightarrow> int \<Rightarrow> string \<Rightarrow> (conn \<times> MessageContainer) list" where
  "status_notes env w qs uid tp face = List.map_filter (\<lambda>q. map_option
     (\<lambda>t. (m_conn (w_sessions w t), status_msg env uid tp face)) (GetSessionByID (userid (user_at w q)) w)) qs"

lemma notify_user_out:
  "w_cache (notify_user env t uid tp face w) = w_cache w
   \<and> w_out (notify_user env t uid tp face w) = w_out w @ (case GetSessionByID t w of None \<Rightarrow> []
       | Some sp \<Rightarrow> [(m_conn (w_sessions w sp), status_msg env uid tp face)])"
  by (cases face)
     (simp_all add: notify_user_def SendUserStatusChangeMsg_def status_msg_def empty_MessageContainer_def Let_def
       split: option.split)

lemma status_notes_core: "same_core w w' \<Longrightarrow> status_notes env w' qs uid tp face = status_notes env w qs uid tp face"
  by (simp add: status_notes_def same_core_lookup user_at_def) (simp add: same_core_def)

lemma notify_friends_out:
  "w_cache (notify_friends env qs uid tp face w) = w_cache w
   \<and> w_out (notify_friends env qs uid tp face w) = w_out w @ status_notes env w qs uid tp face"
proof (induction qs arbitrary: w)
  case (Cons q qs)
  let ?w1 = "notify_user env (userid (user_at w q)) uid tp face w"
  have "status_notes env ?w1 qs uid tp face = status_notes env w qs uid tp face"
    by (rule status_notes_core) (intro core_intros)
  moreover have "notify_friends env (q # qs) uid tp face w = notify_friends env qs uid tp face ?w1"
    by (simp add: notify_friends_def)
  ultimately show ?case
    using Cons.IH [of ?w1] notify_user_out [of env "userid (user_at w q)" uid tp face w]
    by (simp add: status_notes_def map_filter_simps split: option.split)
qed (simp add: notify_friends_def status_notes_def map_filter_simps)

lemma chat_fetch_eq:
  assumes "GetChatMsgCache uid [] cache = (chats, cache')"
  shows "map chatmsg chats = chat_pending cache uid"
    and "chat_pending cache' v = (if v = uid then [] else chat_pending cache v)"
  using chat_box.fetch_result [of uid cache] chat_box.fetch_rest [of uid cache v] assms
  by (simp_all add: chat_fetch_def)

lemma push_offline_out:
  "w_out (push_offline env c uid w) = w_out w
     @ map (Pair c) (List.map_filter (parse_MessageContainer (e_pb env)) (chat_pending (w_cache w) uid))
     @ status_notes env w (snd (GetFriendInfoByUserID uid [] (w_users w))) uid 1 []"
  "chat_pending (w_cache (push_offline env c uid w)) v = (if v = uid then [] else chat_pending (w_cache w) v)"
proof -
  obtain chats cache where get: "GetChatMsgCache uid [] (w_cache w) = (chats, cache)" by fastforce
  let ?w2 = "fold (\<lambda>it. send_raw env c (chatmsg it)) chats (w\<lparr>w_cache := cache\<rparr>)"
  have core: "same_core w ?w2" by (intro same_core_fold core_intros)
  have eq: "push_offline env c uid w
    = notify_friends env (snd (GetFriendInfoByUserID uid [] (w_users w))) uid 1 [] ?w2"
    using get same_core_eqs(1) [OF core]
    by (simp add: push_offline_def GetNotifyMsgCache_def Let_def case_prod_beta)
  have two: "w_cache ?w2 = cache" "w_out ?w2 = w_out w
      @ map (Pair c) (List.map_filter (parse_MessageContainer (e_pb env)) (chat_pending (w_cache w) uid))"
    using fold_send_raw [of env c chatmsg chats "w\<lparr>w_cache := cache\<rparr>"] chat_fetch_eq(1) [OF get] by simp_all
  show "w_out (push_offline env c uid w) = w_out w
     @ map (Pair c) (List.map_filter (parse_MessageContainer (e_pb env)) (chat_pending (w_cache w) uid))
     @ status_notes env w (snd (GetFriendInfoByUserID uid [] (w_users w))) uid 1 []"
    by (simp add: eq notify_friends_out two status_notes_core [OF core])
  show "chat_pending (w_cache (push_offline env c uid w)) v = (if v = uid then [] else chat_pending (w_cache w) v)"
    using chat_fetch_eq(2) [OF get, of v] by (simp add: eq notify_friends_out two)
qed

lemma login_run:
  assumes "parse_LoginReq (e_pb env) (payload msg) = Some req"
    and "lr_username req \<noteq> []" and "lr_password req \<noteq> []"
    and "GetUserInfoUsername (lr_username req) (w_users w) = Some p"
    and "lr_password req = password (user_at w p)"
  shows "OnLoginResponse env sp c msg w = Inr (push_offline env c (userid (user_at w p))
    (respond sp c msg_type_login (ser_LoginRsp (e_pb env) (login_rsp 0 ''ok'' (Some (user_info (user_at w p)))))
      ((update_session sp (\<lambda>s. s\<lparr>m_user := Some p\<rparr>) w)
         \<lparr>w_users := update_user p (\<lambda>u. u\<lparr>status := 1\<rparr>) (w_users w)\<rparr>)))"
proof -
  let ?w1 = "(update_session sp (\<lambda>s. s\<lparr>m_user := Some p\<rparr>) w)\<lparr>w_users := update_user p (\<lambda>u. u\<lparr>status := 1\<rparr>) (w_users w)\<rparr>"
  have "check_login env sp msg w = (login_rsp 0 ''ok'' (Some (user_info (user_at w p))), ?w1)"
    using assms by (simp add: check_login_def user_at_def)
  then show ?thesis
    by (simp add: OnLoginResponse_def login_rsp_def the_user_def user_at_def update_user_def)
qed

end
