(* ===== verification/Delivery.thy ===== *)
theory Delivery
  imports Session_Props
begin

text \<open>
  What a successful login does, and the delivery of chat messages: to one user, to the members of a
  group, and to users who are offline and log in later.
\<close>

section \<open>Login\<close>

text \<open>
  C3. A login with the right password answers with code 0 and the user's profile, binds the session,
  marks the user online, sends every chat message cached for the user, in order, on the new
  connection and forgets them, leaves the cached messages of all other users alone, and notifies
  exactly the friends who are online; nothing else is sent.
\<close>

theorem login_success:
  assumes "parse_LoginReq (e_pb env) (payload msg) = Some req"
    and "lr_username req \<noteq> []" and "lr_password req \<noteq> []"
    and "GetUserInfoUsername (lr_username req) (w_users w) = Some p"
    and "lr_password req = password (user_at w p)" and "uid = userid (user_at w p)"
  shows "\<exists>w'. OnLoginResponse env sp c msg w = Inr w'
    \<and> m_user (w_sessions w' sp) = Some p \<and> UserID w' sp = uid \<and> status (user_at w' p) = 1
    \<and> (\<forall>v. chat_pending (w_cache w') v = (if v = uid then [] else chat_pending (w_cache w) v))
    \<and> w_out w' = w_out w
        @ [(c, empty_MessageContainer\<lparr>cmd := msg_type_login, seq := m_seq (w_sessions w sp),
              payload := ser_LoginRsp (e_pb env) (login_rsp 0 ''ok'' (Some (user_info (user_at w p))))\<rparr>)]
        @ map (Pair c) (List.map_filter (parse_MessageContainer (e_pb env)) (chat_pending (w_cache w) uid))
        @ status_notes env w' (snd (GetFriendInfoByUserID uid [] (w_users w'))) uid 1 []"
proof -
  let ?w1 = "(update_session sp (\<lambda>s. s\<lparr>m_user := Some p\<rparr>) w)\<lparr>w_users := update_user p (\<lambda>u. u\<lparr>status := 1\<rparr>) (w_users w)\<rparr>"
  let ?w2 = "respond sp c msg_type_login (ser_LoginRsp (e_pb env) (login_rsp 0 ''ok'' (Some (user_info (user_at w p))))) ?w1"
  let ?w' = "push_offline env c uid ?w2"
  have run: "OnLoginResponse env sp c msg w = Inr ?w'"
    using login_run [OF assms(1-5)] assms(6) by simp
  have core: "same_core ?w1 ?w'" by (intro core_intros)
  have same_notes: "status_notes env ?w2 fs uid 1 [] = status_notes env ?w' fs uid 1 []" for fs
    by (rule status_notes_core [symmetric]) (intro core_intros)
  have out: "w_out ?w2 = w_out w @ [(c, empty_MessageContainer\<lparr>cmd := msg_type_login, seq := m_seq (w_sessions w sp),
      payload := ser_LoginRsp (e_pb env) (login_rsp 0 ''ok'' (Some (user_info (user_at w p))))\<rparr>)]"
    "w_cache ?w2 = w_cache w"
    by (simp_all add: respond_def)
  have "m_user (w_sessions ?w' sp) = Some p" "UserID ?w' sp = uid" "status (user_at ?w' p) = 1"
    using assms(6) by (simp_all add: UserID_def user_at_def update_user_def)
  then show ?thesis
    using run push_offline_out [of env c uid ?w2] by (simp add: out same_notes)
qed

theorem login_success_witness:
  "\<exists>w'. OnLoginResponse demo_env 1 32 (empty_MessageContainer\<lparr>payload := ''bob''\<rparr>) demo_world = Inr w'
     \<and> UserID w' 1 = 2 \<and> status (user_at w' 1) = 1"
proof -
  have found: "GetUserInfoUsername ''bob'' demo_um = Some 1" and at: "user_at demo_world 1 = (demo_user ''bob'')\<lparr>userid := 2\<rparr>"
    by (simp_all add: GetUserInfoUsername_def user_at_def demo_um_def share_user_def new_UserManager_def
        demo_user_def new_User_def)
  let ?req = "\<lparr>lr_username = ''bob'', lr_password = ''pw'', lr_clienttype = 1, lr_status = 1\<rparr>"
  have "parse_LoginReq (e_pb demo_env) (payload (empty_MessageContainer\<lparr>payload := ''bob''\<rparr>)) = Some ?req"
    by (simp add: demo_env_def demo_pb_def)
  from login_success [OF this _ _ _ _ refl, of demo_world 1 1 32] found at show ?thesis
    by (simp add: demo_user_def) blast
qed

section \<open>Chat\<close>

text \<open>The message that is passed on.\<close>

definition forward_msg :: "('m, 'g) world \<Rightarrow> SessionPtr \<Rightarrow> MessageContainer \<Rightarrow> MessageContainer" where
  "forward_msg w sp msg = empty_MessageContainer\<lparr>cmd := msg_type_chat, seq := m_seq (w_sessions w sp),
     target_id := target_id msg, payload := payload msg\<rparr>"

lemma chat_pending_Add:
  "chat_pending (snd (AddChatMsgCache u s cache)) v = (if v = u then chat_pending cache v @ [s] else chat_pending cache v)"
  using chat_box.pending_put [of u s cache v] by (simp add: chat_put_def)

lemma deliver_to_out:
  "w_out (deliver_to env uid m w) = w_out w @ (case GetSessionByID uid w of None \<Rightarrow> []
     | Some t \<Rightarrow> [(m_conn (w_sessions w t), m)])"
  "chat_pending (w_cache (deliver_to env uid m w)) v = chat_pending (w_cache w) v
     @ (if v = uid \<and> GetSessionByID uid w = None then [ser_MessageContainer (e_pb env) m] else [])"
  by (simp_all add: deliver_to_def SendContainer_def chat_pending_Add split: option.split)

text \<open>The state in which a chat message is passed on.\<close>

definition chat_state :: "('m, 'g) env \<Rightarrow> SessionPtr \<Rightarrow> MessageContainer \<Rightarrow> ('m, 'g) world \<Rightarrow> ('m, 'g) world" where
  "chat_state env sp msg w =
     (let w1 = update_session sp (\<lambda>s. s\<lparr>m_target := target_id msg\<rparr>) w
      in w1\<lparr>w_users := snd (SaveChatMsgToDb (e_db env) (UserID w sp) (target_id msg)
              (cm_content (snd (parse_ChatMsg (e_pb env) (payload msg)))) (w_users w))\<rparr>)"

lemma chat_state_simps:
  "m_mapclient (chat_state env sp msg w) = m_mapclient w" "w_out (chat_state env sp msg w) = w_out w"
  "w_cache (chat_state env sp msg w) = w_cache w"
  "m_conn (w_sessions (chat_state env sp msg w) t) = m_conn (w_sessions w t)"
  "m_user (w_sessions (chat_state env sp msg w) t) = m_user (w_sessions w t)"
  "um_heap (w_users (chat_state env sp msg w)) = um_heap (w_users w)"
  "m_mapUsers (w_users (chat_state env sp msg w)) = m_mapUsers (w_users w)"
proof -
  obtain db where "snd (SaveChatMsgToDb (e_db env) (UserID w sp) (target_id msg)
      (cm_content (snd (parse_ChatMsg (e_pb env) (payload msg)))) (w_users w)) = (w_users w)\<lparr>um_db := db\<rparr>"
    unfolding SaveChatMsgToDb_def using um_Execute_eq by (metis prod.collapse)
  then show "um_heap (w_users (chat_state env sp msg w)) = um_heap (w_users w)"
    "m_mapUsers (w_users (chat_state env sp msg w)) = m_mapUsers (w_users w)"
    by (simp_all add: chat_state_def Let_def)
qed (simp_all add: chat_state_def Let_def update_session_def)

lemma chat_state_lookup:
  "GetSessionByID uid (chat_state env sp msg w) = GetSessionByID uid w"
  "user_at (chat_state env sp msg w) = user_at w"
  "GetFriendInfoByUserID uid fs (w_users (chat_state env sp msg w)) = GetFriendInfoByUserID uid fs (w_users w)"
proof -
  have "UserID (chat_state env sp msg w) = UserID w"
    by (simp add: UserID_def fun_eq_iff chat_state_simps split: option.split)
  then show "GetSessionByID uid (chat_state env sp msg w) = GetSessionByID uid w"
    by (simp add: GetSessionByID_def chat_state_simps)
qed (simp_all add: user_at_def fun_eq_iff GetFriendInfoByUserID_def chat_state_simps split: option.split)

definition group_deliver ::
  "('m, 'g) env \<Rightarrow> int \<Rightarrow> MessageContainer \<Rightarrow> UserPtr list \<Rightarrow> ('m, 'g) world \<Rightarrow> ('m, 'g) world" where
  "group_deliver env me m fs w = fold (\<lambda>q w. if userid (user_at w q) = me then w
     else deliver_to env (userid (user_at w q)) m w) fs w"

lemma OnChat_run:
  assumes "m_user (w_sessions w sp) = Some p" "target_id msg \<noteq> - 1"
  shows "OnChatResponse env sp c msg w = Inr
    (if target_id msg < GROUPID_BOUNDARY then deliver_to env (target_id msg) (forward_msg w sp msg) (chat_state env sp msg w)
     else group_deliver env (UserID w sp) (forward_msg w sp msg)
            (snd (GetFriendInfoByUserID (target_id msg) [] (w_users w))) (chat_state env sp msg w))"
proof -
  have me: "userid (user_at (update_session sp f w) p) = UserID w sp" for f
    using assms(1) by (simp add: UserID_def user_at_def)
  obtain saved um where save: "SaveChatMsgToDb (e_db env) (UserID w sp) (target_id msg)
      (cm_content (snd (parse_ChatMsg (e_pb env) (payload msg)))) (w_users w) = (saved, um)"
    by fastforce
  have st: "chat_state env sp msg w = (update_session sp (\<lambda>s. s\<lparr>m_target := target_id msg\<rparr>) w)\<lparr>w_users := um\<rparr>"
    using save by (simp add: chat_state_def)
  have "GetFriendInfoByUserID (target_id msg) [] um = GetFriendInfoByUserID (target_id msg) [] (w_users w)"
    using chat_state_lookup(3) [of "target_id msg" "[]" env sp msg w] by (simp add: st)
  then show ?thesis
    using assms by (simp add: OnChatResponse_def Let_def the_user_def me save st group_deliver_def forward_msg_def
        case_prod_beta cong: if_cong)
qed

text \<open>
  C5. A chat message to a user, from a session that has a user, is passed on exactly once: to the
  first session of the target when there is one, else into the target's cache; nothing else is sent
  or cached, for the target or for anyone else.
\<close>

theorem chat_delivered_once:
  assumes "m_user (w_sessions w sp) = Some p" and "target_id msg \<noteq> - 1" and "target_id msg < GROUPID_BOUNDARY"
  shows "\<exists>w'. OnChatResponse env sp c msg w = Inr w'
    \<and> w_out w' = w_out w @ (case GetSessionByID (target_id msg) w of None \<Rightarrow> []
        | Some t \<Rightarrow> [(m_conn (w_sessions w t), forward_msg w sp msg)])
    \<and> (\<forall>v. chat_pending (w_cache w') v = chat_pending (w_cache w) v
        @ (if v = target_id msg \<and> GetSessionByID (target_id msg) w = None
           then [ser_MessageContainer (e_pb env) (forward_msg w sp msg)] else []))"
  using assms
  by (simp add: OnChat_run deliver_to_out chat_state_lookup chat_state_simps split: option.split)

theorem chat_delivered_once_witness:
  "\<exists>w'. OnChatResponse demo_env 0 16 (empty_MessageContainer\<lparr>target_id := 2, payload := ''hello''\<rparr>) demo_world = Inr w'
     \<and> chat_pending (w_cache w') 2 = [''hello'']"
proof -
  have "UserID demo_world 0 = 1" "UserID demo_world (Suc 0) = - 1"
    by (simp_all add: UserID_def demo_um_def share_user_def new_UserManager_def)
  then have "UserID demo_world t \<noteq> 2" if "alive demo_world t" for t
    using demo_alive [OF that] by auto
  then have "GetSessionByID 2 demo_world = None"
    by (simp add: GetSessionByID_None)
  then show ?thesis
    using chat_delivered_once [of demo_world 0 0 "empty_MessageContainer\<lparr>target_id := 2, payload := ''hello''\<rparr>" demo_env 16]
    by (auto simp: GROUPID_BOUNDARY_def demo_env_def demo_pb_def forward_msg_def chat_pending_def new_MsgCacheManager_def)
qed

subsection \<open>Groups\<close>

lemma group_deliver_core: "same_core w (group_deliver env me m fs w)"
  unfolding group_deliver_def by (rule group_fold_core)

lemma group_deliver_out:
  assumes "ids = filter (\<lambda>u. u \<noteq> me) (map (\<lambda>q. userid (user_at w q)) fs)" "distinct ids"
  shows "w_out (group_deliver env me m fs w) = w_out w
      @ List.map_filter (\<lambda>u. map_option (\<lambda>t. (m_conn (w_sessions w t), m)) (GetSessionByID u w)) ids
    \<and> (\<forall>v. chat_pending (w_cache (group_deliver env me m fs w)) v = chat_pending (w_cache w) v
      @ (if v \<in> set ids \<and> GetSessionByID v w = None then [ser_MessageContainer (e_pb env) m] else []))"
  using assms
proof (induction fs arbitrary: w ids)
  case (Cons q fs)
  let ?u = "userid (user_at w q)"
  let ?w1 = "if ?u = me then w else deliver_to env ?u m w"
  have core: "same_core w ?w1" by (simp add: core_intros)
  have at: "user_at ?w1 = user_at w" by (rule user_at_core) (simp add: same_core_eqs [OF core])
  define rest where "rest = filter (\<lambda>u. u \<noteq> me) (map (\<lambda>q. userid (user_at w q)) fs)"
  have ids: "ids = (if ?u = me then rest else ?u # rest)" and dist: "distinct rest"
    using Cons.prems by (auto simp: rest_def split: if_splits)
  have eq: "group_deliver env me m (q # fs) w = group_deliver env me m fs ?w1"
    by (simp add: group_deliver_def)
  have same: "GetSessionByID u ?w1 = GetSessionByID u w" "w_sessions ?w1 = w_sessions w" for u
    by (rule same_core_lookup [OF core]) (rule same_core_eqs(2) [OF core])
  have rest1: "rest = filter (\<lambda>u. u \<noteq> me) (map (\<lambda>q. userid (user_at ?w1 q)) fs)"
    by (simp only: at rest_def)
  note IH = Cons.IH [OF rest1 dist, unfolded same]
  show ?case
  proof (cases "?u = me")
    case False
    then have "?u \<notin> set rest" using Cons.prems ids by simp
    with IH False show ?thesis unfolding eq ids
      by (auto simp: deliver_to_out map_filter_simps split: option.split)
  qed (use IH in \<open>simp add: eq ids\<close>)
qed (simp add: group_deliver_def map_filter_simps)

text \<open>
  C4. A chat message to a group, from a session that has a user, reaches every member but the sender
  exactly once: members who are online get it on their session, in ascending order of their
  identifiers, the others in their cache; the sender and users outside the group get nothing.
\<close>

theorem group_chat_delivered_once:
  assumes "m_user (w_sessions w sp) = Some p" and "target_id msg \<ge> GROUPID_BOUNDARY"
    and "users_inv (w_users w)" and "friends_sym (w_users w)"
    and "user_of (w_users w) (target_id msg) = Some g" and "finite (friends g)"
    and "ids = filter (\<lambda>u. u \<noteq> UserID w sp) (sorted_list_of_set (friends g))"
  shows "\<exists>w'. OnChatResponse env sp c msg w = Inr w'
    \<and> w_out w' = w_out w @ List.map_filter (\<lambda>u. map_option (\<lambda>t. (m_conn (w_sessions w t), forward_msg w sp msg))
        (GetSessionByID u w)) ids
    \<and> (\<forall>v. chat_pending (w_cache w') v = chat_pending (w_cache w) v
        @ (if v \<in> set ids \<and> GetSessionByID v w = None
           then [ser_MessageContainer (e_pb env) (forward_msg w sp msg)] else []))"
proof -
  let ?w1 = "chat_state env sp msg w"
  obtain fs where fs: "GetFriendInfoByUserID (target_id msg) [] (w_users w) = (True, fs)"
      "map (\<lambda>q. userid (um_heap (w_users w) q)) fs = sorted_list_of_set (friends g)"
    using friend_list_objects [OF assms(3-6), of "[]"] by auto
  have run: "OnChatResponse env sp c msg w = Inr (group_deliver env (UserID w sp) (forward_msg w sp msg) fs ?w1)"
    using OnChat_run [OF assms(1), of msg env c] assms(2) fs(1) by (simp add: GROUPID_BOUNDARY_def)
  have ids: "ids = filter (\<lambda>u. u \<noteq> UserID w sp) (map (\<lambda>q. userid (user_at ?w1 q)) fs)"
    using assms(7) fs(2) by (simp add: chat_state_lookup user_at_def)
  have "distinct ids" using assms(7) by simp
  from group_deliver_out [OF ids this, of env "forward_msg w sp msg"] run show ?thesis
    by (simp add: chat_state_lookup chat_state_simps)
qed

text \<open>A group whose only member is the second user of \<open>demo_um\<close>.\<close>

definition demo_group :: user where
  "demo_group = new_User\<lparr>userid := 0xFFFFFFF\<rparr>"

definition demo_group_um :: "nat UserManager" where
  "demo_group_um = modify 0xFFFFFFF (\<lambda>u. u\<lparr>friends := insert 2 (friends u)\<rparr>)
     (modify 2 (\<lambda>u. u\<lparr>friends := insert 0xFFFFFFF (friends u)\<rparr>) (share_user demo_group demo_um))"

lemma demo_group_simps: "userid demo_group = 0xFFFFFFF" "friends demo_group = {}"
  by (simp_all add: demo_group_def new_User_def)

lemma demo_group_um:
  "users_inv demo_group_um" "friends_sym demo_group_um"
  "user_of demo_group_um 0xFFFFFFF = Some (demo_group\<lparr>friends := {2}\<rparr>)"
  "userid (um_heap demo_group_um 0) = 1"
proof -
  let ?um0 = "share_user demo_group demo_um"
  have inv0: "users_inv ?um0"
    by (rule share_user_inv) (simp_all add: demo_um_users demo_group_simps)
  have new: "\<forall>x. user_of ?um0 x = (if x = 0xFFFFFFF then Some demo_group else user_of demo_um x)"
    by (simp add: demo_um_users demo_group_simps)
  have sym0: "friends_sym ?um0"
    by (rule friends_sym_new [OF _ _ _ new])
       (use demo_um_inv in \<open>simp_all add: um_inv_def demo_um_users demo_group_simps\<close>)
  have inv1: "users_inv (modify 2 (\<lambda>u. u\<lparr>friends := insert 0xFFFFFFF (friends u)\<rparr>) ?um0)"
    using inv0 by (rule modify_inv) simp
  show "users_inv demo_group_um"
    unfolding demo_group_um_def using inv1 by (rule modify_inv) simp
  have "known ?um0 2" "known ?um0 0xFFFFFFF" by (simp_all add: demo_um_users demo_group_simps)
  from linked_friend [OF inv0 this] sym0 show "friends_sym demo_group_um"
    by (auto simp: demo_group_um_def friends_sym_def insert_commute)
  show "user_of demo_group_um 0xFFFFFFF = Some (demo_group\<lparr>friends := {2}\<rparr>)"
    unfolding demo_group_um_def
    by (simp add: user_of_modify [OF inv1] user_of_modify [OF inv0] demo_um_users demo_group_simps)
  have "userid (um_heap (modify a f um) 0) = userid (um_heap um 0)" if "\<And>u. userid (f u) = userid u"
    for a f and um :: "nat UserManager"
    using that by (simp add: modify_def update_user_def split: option.split)
  then show "userid (um_heap demo_group_um 0) = 1"
    by (simp add: demo_group_um_def) (simp add: share_user_def demo_um_def new_UserManager_def)
qed

theorem group_chat_delivered_once_witness:
  "\<exists>w'. OnChatResponse demo_env 0 16 (empty_MessageContainer\<lparr>target_id := 0xFFFFFFF, payload := ''hello''\<rparr>)
      (demo_world\<lparr>w_users := demo_group_um\<rparr>) = Inr w' \<and> chat_pending (w_cache w') 2 = [''hello'']"
proof -
  let ?w = "demo_world\<lparr>w_users := demo_group_um\<rparr>"
  let ?msg = "empty_MessageContainer\<lparr>target_id := 0xFFFFFFF, payload := ''hello''\<rparr>"
  have me: "UserID ?w 0 = 1" "UserID ?w (Suc 0) = - 1"
    by (simp_all add: UserID_def demo_group_um)
  have "alive ?w t \<Longrightarrow> alive demo_world t" for t by (simp add: alive_def)
  then have "UserID ?w t \<noteq> 2" if "alive ?w t" for t
    using demo_alive [of t] me that by auto
  then have off: "GetSessionByID 2 ?w = None" by (simp add: GetSessionByID_None)
  have ids: "[2] = filter (\<lambda>u. u \<noteq> UserID ?w 0) (sorted_list_of_set (friends (demo_group\<lparr>friends := {2}\<rparr>)))"
    by (simp add: me)
  have fwd: "ser_MessageContainer (e_pb demo_env) (forward_msg w 0 ?msg) = ''hello''" for w :: "(nat, nat) world"
    by (simp add: demo_env_def demo_pb_def forward_msg_def)
  have empty: "chat_pending (w_cache ?w) 2 = []"
    by (simp add: chat_pending_def new_MsgCacheManager_def)
  have pre: "m_user (w_sessions ?w 0) = Some 0" "target_id ?msg \<ge> GROUPID_BOUNDARY" "users_inv (w_users ?w)"
    "friends_sym (w_users ?w)" "user_of (w_users ?w) (target_id ?msg) = Some (demo_group\<lparr>friends := {2}\<rparr>)"
    "finite (friends (demo_group\<lparr>friends := {2}\<rparr>))"
    by (simp_all add: GROUPID_BOUNDARY_def demo_group_um)
  obtain w' where w': "OnChatResponse demo_env 0 16 ?msg ?w = Inr w'"
    "\<forall>v. chat_pending (w_cache w') v = chat_pending (w_cache ?w) v
        @ (if v \<in> set [2] \<and> GetSessionByID v ?w = None
           then [ser_MessageContainer (e_pb demo_env) (forward_msg ?w 0 ?msg)] else [])"
    using group_chat_delivered_once [OF pre ids, of demo_env 16] by blast
  have "chat_pending (w_cache w') 2 = [''hello'']"
    using spec [OF w'(2), of 2] by (simp only: off empty fwd) simp
  with w'(1) show ?thesis by blast
qed

section \<open>Messages for users who are offline\<close>



end
