(* ===== verification/User_Storage.thy ===== *)
theory User_Storage
  imports Users
begin

text \<open>
  What \<open>UserManager\<close> and the database exchange: the state the manager builds at start from the rows
  of the tables (\<open>LoadUserFromDB\<close>, \<open>LoadRelationshipFromDB\<close>, \<open>GetChatHistory\<close>), and how far the quoting of
  values in its statements (\<open>EscapeSqlString\<close>) can be read back.
\<close>

section \<open>The users at start\<close>

lemma um_Query_eq: "um_Query api sql um = Inr (r, um1) \<Longrightarrow> \<exists>db. um1 = um\<lparr>um_db := db\<rparr>"
  by (auto simp: um_Query_def fault_simps split: prod.splits)

lemma user_of_row_shape:
  assumes "user_of_row pRow = Inr u"
  shows "friends u = {} \<and> is_int32 (userid u)"
proof -
  have "is_int32 0" by (simp add: is_int32_def)
  then have "is_int32 (toInt32 f)" for f
    by (simp add: toInt32_def atoi_def split: option.split)
  then show ?thesis
    using assms by (auto simp: user_of_row_def fault_simps new_User_def)
qed

lemma load_user_step:
  assumes "users_inv um" "ids_inv um" "\<not> known um (userid u)" "is_int32 (userid u)"
  shows "users_inv (load_user u um) \<and> ids_inv (load_user u um)
    \<and> (\<forall>uid. user_of (load_user u um) uid = (if uid = userid u then Some u else user_of um uid))"
proof -
  have "users_inv (share_user u um)"
    using assms by (intro share_user_inv)
  moreover have "ids_inv (load_user u um)"
    using assms
    by (auto simp: load_user_def ids_inv_def Let_def known_def share_user_def GROUPID_BOUNDARY_def is_int32_def
        intro: order_trans)
  ultimately show ?thesis
    using assms by (simp add: load_user_def Let_def)
qed

lemma load_users_fold:
  assumes "users_inv um" "ids_inv um" "distinct (map userid us)"
    and "\<forall>u \<in> set us. \<not> known um (userid u) \<and> is_int32 (userid u)"
  shows "users_inv (fold load_user us um) \<and> ids_inv (fold load_user us um)
    \<and> (\<forall>uid. user_of (fold load_user us um) uid
         = (case map_of (map (\<lambda>u. (userid u, u)) us) uid of Some u \<Rightarrow> Some u | None \<Rightarrow> user_of um uid))"
  using assms
proof (induction us arbitrary: um)
  case (Cons u us)
  have step: "users_inv (load_user u um) \<and> ids_inv (load_user u um)
    \<and> (\<forall>uid. user_of (load_user u um) uid = (if uid = userid u then Some u else user_of um uid))"
    using Cons.prems by (intro load_user_step) simp_all
  have fresh: "map_of (map (\<lambda>u. (userid u, u)) us) (userid u) = None"
    using Cons.prems(3) by (auto simp: map_of_eq_None_iff)
  have "\<forall>v \<in> set us. \<not> known (load_user u um) (userid v) \<and> is_int32 (userid v)"
    using Cons.prems(3,4) step by (auto simp: known_user_of) (metis image_eqI)
  with Cons.IH [of "load_user u um"] Cons.prems(3) step fresh show ?case
    by (auto split: option.split)
qed simp

lemma fold_rows_users:
  "map user_of_row rows = map Inr us \<Longrightarrow>
     fold_rows (\<lambda>pRow um. bindE (user_of_row pRow) (\<lambda>u. Inr (load_user u um, False))) rows um
       = Inr (fold load_user us um)"
proof (induction rows arbitrary: us um)
  case (Cons row rows)
  then obtain u us' where "us = u # us'" "user_of_row row = Inr u" "map user_of_row rows = map Inr us'"
    by (cases us) auto
  with Cons.IH show ?case by simp
qed simp


text \<open>A database that answers every query with one result, for witnesses.\<close>

definition table_api :: "mysql_res \<Rightarrow> nat mysql_api" where
  "table_api r = demo_api\<lparr>mysql_store_result := (\<lambda>n. (Some r, n)),
     mysql_field_count := (\<lambda>n. length (res_fields r))\<rparr>"

lemma table_api_Query:
  assumes "mgr_mysql (um_db um) = Some t" "my_mysql t"
    and "new_QueryResult (Some r) 1 (length (res_fields r)) = Inr q"
  shows "\<exists>um1. um_Query (table_api r) sql um = Inr (Some q, um1)"
  using assms
  by (simp add: um_Query_def mgr_Query_def tool_Query_def ensure_handle_def run_statement_def
      table_api_def demo_api_def)

definition demo_table :: mysql_res where
  "demo_table = \<lparr>res_fields = map (\<lambda>name. (name, FIELD_TYPE_STRING))
       [''id'', ''name'', ''nick'', ''pw'', ''face'', ''custom'', ''gender'', ''birth'', ''sig'', ''addr'', ''phone'', ''mail''],
     res_rows = [[Some ''1'', Some ''ann'', Some ''Ann'', Some ''pw'', Some ''0'', None, Some ''0'',
                  Some ''20000101'', None, None, None, Some ''a@b'']]\<rparr>"

lemma demo_id: "atoi (c_str ''1'') = 1"
  by (simp add: c_str_def atoi_def scan_int_def is_space_def is_digit_def digits_val_def digit_val_def
      wrap32_def saturate64_def)


section \<open>Friends and messages at start\<close>

definition row_pair :: "(string \<times> enum_field_types) list \<Rightarrow> sql_row \<Rightarrow> int \<times> int" where
  "row_pair cols row = (toInt32 (decode_row cols row ! 0), toInt32 (decode_row cols row ! 1))"

lemma fold_rows_relationship:
  assumes "2 \<le> length cols" "\<forall>row \<in> set rows. length row = length cols"
  shows "fold_rows (relationship_row uid) (map (decode_row cols) rows) fs
    = Inr (fs \<union> {b. \<exists>row \<in> set rows. row_pair cols row = (uid, b) \<or> row_pair cols row = (b, uid)})"
  using assms(2)
proof (induction rows arbitrary: fs)
  case (Cons row rows)
  obtain a b where ab: "row_pair cols row = (a, b)" by fastforce
  with Cons.prems assms(1) have step: "relationship_row uid (decode_row cols row) fs
    = Inr (if a = uid then insert b fs else if b = uid then insert a fs else fs, False)"
    by (cases cols) (auto simp: relationship_row_def row_field_def row_pair_def)
  show ?case
    using Cons.prems ab by (simp add: step Cons.IH) auto
qed simp

text \<open>
  Loading the friends of a user adds exactly the other users of the table's pairs that mention
  it, whichever column it stands in. For a user without any pair the result is empty, and the loop
  reads fields of the row that the empty result has destroyed.
\<close>

theorem load_friends:
  assumes "um_Query api (load_relationship_sql uid) um = Inr (Some q, um1)"
    and "new_QueryResult (Some r) n (length (res_fields r)) = Inr q" and "2 \<le> length (res_fields r)"
    and "\<forall>row \<in> set (res_rows r). length row = length (res_fields r)"
  shows "(res_rows r \<noteq> [] \<longrightarrow> LoadRelationshipFromDB api uid fs um = Inr (True,
            fs \<union> {b. \<exists>row \<in> set (res_rows r). row_pair (res_fields r) row = (uid, b) \<or> row_pair (res_fields r) row = (b, uid)},
            um1))
       \<and> (res_rows r = [] \<longrightarrow> LoadRelationshipFromDB api uid fs um = Inl UndefinedBehaviour)"
proof (intro conjI impI)
  assume "res_rows r \<noteq> []"
  then obtain row rows where rr: "res_rows r = row # rows" by (cases "res_rows r") auto
  have "at_row (res_fields r) row rows q"
    using at_row_new [OF assms(2) rr] assms(3,4) rr by fastforce
  then have "row_loop (relationship_row uid) q fs
    = fold_rows (relationship_row uid) (map (decode_row (res_fields r)) (res_rows r)) fs"
    using row_loop_at_row [of "res_fields r" row rows q] assms(4) rr by simp
  with assms(1) fold_rows_relationship [OF assms(3,4)]
  show "LoadRelationshipFromDB api uid fs um = Inr (True,
      fs \<union> {b. \<exists>row \<in> set (res_rows r). row_pair (res_fields r) row = (uid, b) \<or> row_pair (res_fields r) row = (b, uid)},
      um1)"
    by (simp add: LoadRelationshipFromDB_def)
next
  assume "res_rows r = []"
  then have "row_loop (relationship_row uid) q fs = Inl UndefinedBehaviour"
    unfolding relationship_row_def using assms(3) by (intro row_loop_empty [OF assms(2)]) auto
  with assms(1) show "LoadRelationshipFromDB api uid fs um = Inl UndefinedBehaviour"
    by (simp add: LoadRelationshipFromDB_def)
qed

theorem load_friends_witness:
  "let r = \<lparr>res_fields = [(''f_user_id1'', FIELD_TYPE_LONGLONG), (''f_user_id2'', FIELD_TYPE_LONGLONG)], res_rows = []\<rparr>
   in LoadRelationshipFromDB (table_api r) 1 {} demo_um = Inl UndefinedBehaviour"
proof -
  let ?r = "\<lparr>res_fields = [(''f_user_id1'', FIELD_TYPE_LONGLONG), (''f_user_id2'', FIELD_TYPE_LONGLONG)], res_rows = []\<rparr>"
  obtain q where q: "new_QueryResult (Some ?r) 1 (length (res_fields ?r)) = Inr q"
    by (simp add: new_QueryResult_def Let_def)
  obtain um1 where "um_Query (table_api ?r) (load_relationship_sql 1) demo_um = Inr (Some q, um1)"
    using table_api_Query [OF _ _ q, of demo_um "(new_MySQLTool 0)\<lparr>my_mysql := True\<rparr>"]
    by (auto simp: demo_um_def share_user_def new_UserManager_def demo_db_def)
  from load_friends [OF this q, of "{}"] show ?thesis by simp
qed

section \<open>Quoting\<close>

text \<open>
  How MySQL reads a string literal after its opening quote, in its default mode: a doubled quote is a
  quote, a backslash escapes the next character. The result is the value and the text after the
  literal.
\<close>

definition unescape :: "char \<Rightarrow> string" where
  "unescape c = (case map_of [(CHR ''0'', [CHR 0x00]), (CHR ''b'', [CHR 0x08]), (CHR ''n'', [CHR 0x0A]),
       (CHR ''r'', [CHR 0x0D]), (CHR ''t'', [CHR 0x09]), (CHR ''Z'', [CHR 0x1A]),
       (CHR ''%'', [CHR 0x5C, CHR ''%'']), (CHR ''_'', [CHR 0x5C, CHR ''_''])] c of
     Some s \<Rightarrow> s | None \<Rightarrow> [c])"

fun literal_body :: "string \<Rightarrow> (string \<times> string) option" where
  "literal_body [] = None"
| "literal_body [c] = (if c = CHR 0x27 then Some ([], []) else None)"
| "literal_body (c # d # cs) =
     (if c = CHR 0x27
      then if d = CHR 0x27 then map_option (apfst ((@) [CHR 0x27])) (literal_body cs) else Some ([], d # cs)
      else if c = CHR 0x5C then map_option (apfst ((@) (unescape d))) (literal_body cs)
      else map_option (apfst ((@) [c])) (literal_body (d # cs)))"

fun literal :: "string \<Rightarrow> (string \<times> string) option" where
  "literal (c # cs) = (if c = CHR 0x27 then literal_body cs else None)"
| "literal [] = None"

lemma EscapeSqlString_Cons [simp]:
  "EscapeSqlString (c # s) = (if c = CHR 0x27 then [CHR 0x27, CHR 0x27] else [c]) @ EscapeSqlString s"
  "EscapeSqlString [] = []"
  by (simp_all add: EscapeSqlString_def)

lemma EscapeSqlString_append: "EscapeSqlString (s @ t) = EscapeSqlString s @ EscapeSqlString t"
  by (simp add: EscapeSqlString_def)

lemma literal_body_plain:
  "c \<noteq> CHR 0x27 \<Longrightarrow> c \<noteq> CHR 0x5C \<Longrightarrow> cs \<noteq> [] \<Longrightarrow>
     literal_body (c # cs) = map_option (apfst ((@) [c])) (literal_body cs)"
  by (cases cs) auto

lemma literal_body_escaped:
  "CHR 0x5C \<notin> set s \<Longrightarrow> t \<noteq> [] \<Longrightarrow>
     literal_body (EscapeSqlString s @ t) = map_option (apfst ((@) s)) (literal_body t)"
  by (induction s)
     (auto simp: literal_body_plain option.map_comp comp_def apfst_def map_prod_def option.map_ident
       split_def intro!: option.map_cong0)

lemma literal_body_end: "rest = [] \<or> hd rest \<noteq> CHR 0x27 \<Longrightarrow> literal_body (CHR 0x27 # rest) = Some ([], rest)"
  by (cases rest) auto

text \<open>
  A value without backslashes that the manager quotes is read back by MySQL as that value, and
  the literal ends where the manager ended it, whatever quotes the value holds.
\<close>

theorem quoted_roundtrip:
  assumes "CHR 0x5C \<notin> set s" and "rest = [] \<or> hd rest \<noteq> CHR 0x27"
  shows "literal (quoted s @ rest) = Some (s, rest)"
  using assms literal_body_end [OF assms(2)] by (simp add: quoted_def literal_body_escaped)

theorem quoted_roundtrip_witness:
  "literal (quoted [CHR ''a'', CHR 0x27] @ '', NOW())'') = Some ([CHR ''a'', CHR 0x27], '', NOW())'')"
  by (rule quoted_roundtrip) simp_all

text \<open>
  A value that ends in a backslash escapes its own closing quote: the literal swallows the text up
  to the opening quote of the next value, and that next value is left over as SQL text. So a user who
  chooses two adjacent values (a nickname and a password) chooses part of the statement.
\<close>

theorem backslash_leaves_the_literal:
  assumes "CHR 0x5C \<notin> set s" and "t \<noteq> []" and "hd t \<noteq> CHR 0x27"
  shows "literal (quoted (s @ [CHR 0x5C]) @ '', '' @ quoted t)
    = Some (s @ [CHR 0x27] @ '', '', EscapeSqlString t @ [CHR 0x27])"
proof -
  have "hd (EscapeSqlString t @ [CHR 0x27]) \<noteq> CHR 0x27"
    using assms(2,3) by (cases t) auto
  then have "literal_body (CHR 0x27 # EscapeSqlString t @ [CHR 0x27]) = Some ([], EscapeSqlString t @ [CHR 0x27])"
    by (intro literal_body_end) simp
  then show ?thesis
    using assms(1)
    by (simp add: quoted_def EscapeSqlString_append literal_body_escaped literal_body_plain unescape_def)
qed

theorem backslash_leaves_the_literal_witness:
  "literal (quoted [CHR 0x5C] @ '', '' @ quoted '', 1) -- '')
     = Some ([CHR 0x27] @ '', '', '', 1) -- '' @ [CHR 0x27])"
  using backslash_leaves_the_literal [of "[]" "'', 1) -- ''"] by simp

section \<open>The chat table\<close>

text \<open>
  The statement that stores a chat message and the query of the history name the column
  \<open>f_createtime\<close>, which the table \<open>t_chatmsg\<close> that the server itself creates does not have: its column
  is \<open>f_create_time\<close>.
\<close>

theorem chat_statements_name_a_missing_column:
  "map_of (mapField t_chatmsg_info) ''f_createtime'' = None
   \<and> map_of (mapField t_chatmsg_info) ''f_create_time'' \<noteq> None
   \<and> (\<exists>pre post. save_chat_sql a b msg = pre @ ''f_createtime'' @ post)
   \<and> (\<exists>pre post. chat_history_sql a b n = pre @ ''f_createtime'' @ post)"
proof -
  have "\<exists>pre post. (''INSERT INTO t_chatmsg (f_senderid, f_targetid, f_msgcontent, f_createtime) VALUES (''
      @ xs :: string) = pre @ ''f_createtime'' @ post" for xs
    by (rule exI [of _ "''INSERT INTO t_chatmsg (f_senderid, f_targetid, f_msgcontent, ''"]) simp
  moreover have "\<exists>pre post. (''SELECT f_senderid, f_targetid, f_msgcontent, UNIX_TIMESTAMP(f_createtime) FROM t_chatmsg ''
      @ xs :: string) = pre @ ''f_createtime'' @ post" for xs
    by (rule exI [of _ "''SELECT f_senderid, f_targetid, f_msgcontent, UNIX_TIMESTAMP(''"]) simp
  moreover have "map_of (mapField t_chatmsg_info) ''f_createtime'' = None"
    "map_of (mapField t_chatmsg_info) ''f_create_time'' \<noteq> None"
    by (simp_all add: t_chatmsg_info_def mk_field_def)
  ultimately show ?thesis
    unfolding save_chat_sql_def chat_history_sql_def by simp
qed

end
