(* ===== verification/Session_Inv.thy ===== *)
theory Session_Inv
  imports Session_Props
begin

text \<open>
  The invariant of the server's state and that every request keeps it: the indexes of users are
  consistent, the registry holds the sessions of the open connections, and every session that has a
  user points to one of the manager's objects. The second part is the path of a session from the
  characters of its connection to its handlers.
\<close>

section \<open>Users under requests\<close>

definition grows :: "'m UserManager \<Rightarrow> 'm UserManager \<Rightarrow> bool" where
  "grows um um' \<longleftrightarrow> users_inv um' \<and> ids_inv um' \<and> set (m_cachedUsers um) \<subseteq> set (m_cachedUsers um')"

text \<open>Identifiers are left in both ranges.\<close>

definition room :: "'m UserManager \<Rightarrow> bool" where
  "room um \<longleftrightarrow> m_baseUserID um + 1 < GROUPID_BOUNDARY \<and> m_baseGroupID um + 1 < 2 ^ 31"

named_theorems grow_intros \<open>operations of the user manager that keep its invariants\<close>

lemma m_cachedUsers_simps [simp]:
  "m_cachedUsers (update_user p f um) = m_cachedUsers um"
  "m_cachedUsers (modify a f um) = m_cachedUsers um"
  "m_cachedUsers (share_user u um) = m_cachedUsers um @ [um_next um]"
  by (simp_all add: update_user_def modify_def share_user_def split: option.split)

lemma grows_refl [grow_intros]: "users_inv um \<Longrightarrow> ids_inv um \<Longrightarrow> grows um um"
  by (simp add: grows_def)

lemma grows_trans: "grows um um1 \<Longrightarrow> grows um1 um2 \<Longrightarrow> grows um um2"
  by (auto simp: grows_def)

lemma grows_update:
  "users_inv um \<Longrightarrow> ids_inv um \<Longrightarrow> (\<And>u. userid (f u) = userid u) \<Longrightarrow> grows um (update_user p f um)"
  by (simp add: grows_def update_user_inv)

lemma grows_db [simp]: "grows um (um'\<lparr>um_db := db\<rparr>) = grows um um'" "grows (um\<lparr>um_db := db\<rparr>) um' = grows um um'"
  by (simp_all add: grows_def)

lemma grows_modify:
  "grows um um1 \<Longrightarrow> (\<And>u. userid (f u) = userid u) \<Longrightarrow> grows um (modify a f um1)"
  by (simp add: grows_def modify_inv)

lemma grows_AddUser [grow_intros]:
  assumes "users_inv um" "ids_inv um" "room um" "AddUser api u um = (ok, u', um')"
  shows "grows um um'"
proof -
  have "m_cachedUsers um' = m_cachedUsers um \<or> m_cachedUsers um' = m_cachedUsers um @ [um_next um]"
    using assms(4) by (auto simp: AddUser_def um_Execute_def Let_def split: prod.splits if_splits)
  then show ?thesis
    using AddUser_spec [OF assms(1,2) _ assms(4)] assms(3) by (auto simp: grows_def room_def)
qed

lemma grows_AddGroup [grow_intros]:
  assumes "users_inv um" "ids_inv um" "room um" "AddGroup api name owner um = (ok, gid, um')"
  shows "grows um um'"
proof -
  have "m_cachedUsers um' = m_cachedUsers um \<or> m_cachedUsers um' = m_cachedUsers um @ [um_next um]"
    using assms(4) by (auto simp: AddGroup_def um_Execute_def Let_def split: prod.splits if_splits)
  then show ?thesis
    using AddGroup_spec [OF assms(1,2) _ assms(4)] assms(3) by (auto simp: grows_def room_def)
qed

lemma grows_Make [grow_intros]:
  assumes "users_inv um" "ids_inv um" "MakeFriendRelationship api a b um = (ok, um')"
  shows "grows um um'"
proof -
  obtain ok1 um1 where ex: "um_Execute api (make_friend_sql a b) um = (ok1, um1)" by fastforce
  then obtain db where um1: "um1 = um\<lparr>um_db := db\<rparr>" using um_Execute_eq by blast
  have "um' = um \<or> um' = um1 \<or> um' = modify a (\<lambda>u. u\<lparr>friends := insert b (friends u)\<rparr>) um1
      \<or> um' = modify b (\<lambda>u. u\<lparr>friends := insert a (friends u)\<rparr>) (modify a (\<lambda>u. u\<lparr>friends := insert b (friends u)\<rparr>) um1)"
    using assms(3) ex by (auto simp: MakeFriendRelationship_def modify_def split: if_splits option.splits)
  moreover have "grows um um" "grows um um1" using assms by (simp_all add: um1 grows_def)
  ultimately show ?thesis by (auto intro!: grows_modify)
qed

lemma grows_Delete [grow_intros]:
  assumes "users_inv um" "ids_inv um" "DeleteFriendToUser api a b um = (ok, um')"
  shows "grows um um'"
proof -
  have "grows um um" using assms by (simp add: grows_def)
  with DeleteFriendToUser_eq [OF assms(3)] show ?thesis by (auto intro!: grows_modify)
qed

lemma grows_Update [grow_intros]:
  assumes "users_inv um" "ids_inv um" "UpdateUserInfo api a new um = (ok, um')"
  shows "grows um um'"
proof -
  have "grows um um" using assms by (simp add: grows_def)
  with UpdateUserInfo_eq [OF assms(3)] show ?thesis by (auto intro!: grows_modify simp: copy_info_def)
qed

lemma grows_Password [grow_intros]:
  assumes "users_inv um" "ids_inv um" "ModifyUserPassword api a pw um = (ok, um')"
  shows "grows um um'"
proof -
  have "grows um um" using assms by (simp add: grows_def)
  with ModifyUserPassword_eq [OF assms(3)] show ?thesis by (auto intro!: grows_modify)
qed

lemma grows_SaveChat [grow_intros]:
  assumes "users_inv um" "ids_inv um" "SaveChatMsgToDb api a b msg um = (ok, um')"
  shows "grows um um'"
  using assms um_Execute_eq unfolding SaveChatMsgToDb_def by (metis grows_db(1) grows_refl)

lemma grows_History [grow_intros]:
  assumes "users_inv um" "ids_inv um" "GetChatHistory api a b ms n um = Inr (ok, ms', um')"
  shows "grows um um'"
proof -
  obtain r um1 where q: "um_Query api (chat_history_sql a b n) um = Inr (r, um1)"
    using assms(3) by (auto simp: GetChatHistory_def fault_simps)
  then obtain db where "um1 = um\<lparr>um_db := db\<rparr>"
    by (auto simp: um_Query_def fault_simps split: prod.splits)
  moreover have "um' = um1"
    using assms(3) q by (auto simp: GetChatHistory_def fault_simps split: option.splits)
  ultimately show ?thesis using assms(1,2) by (simp add: grows_def)
qed

section \<open>The invariant of the state\<close>

definition world_inv :: "('m, 'g) world \<Rightarrow> bool" where
  "world_inv w \<longleftrightarrow> users_inv (w_users w) \<and> ids_inv (w_users w) \<and> registry_inv w
     \<and> (\<forall>sp p. m_user (w_sessions w sp) = Some p \<longrightarrow> p \<in> set (m_cachedUsers (w_users w)))"

text \<open>What a handler may change.\<close>

definition request_step :: "('m, 'g) world \<Rightarrow> ('m, 'g) world \<Rightarrow> bool" where
  "request_step w w' \<longleftrightarrow> grows (w_users w) (w_users w') \<and> m_mapclient w' = m_mapclient w \<and> w_next w' = w_next w
     \<and> w_callback w' = w_callback w \<and> w_connected w' = w_connected w
     \<and> (\<forall>sp. m_conn (w_sessions w' sp) = m_conn (w_sessions w sp))
     \<and> (\<forall>sp p. m_user (w_sessions w' sp) = Some p \<longrightarrow>
          m_user (w_sessions w sp) = Some p \<or> p \<in> set (m_cachedUsers (w_users w')))"

lemma request_step_trans: "request_step w w1 \<Longrightarrow> request_step w1 w2 \<Longrightarrow> request_step w w2"
  unfolding request_step_def using grows_trans by (metis grows_def subsetD)

lemma request_step_inv:
  assumes "world_inv w" "request_step w w'"
  shows "world_inv w'"
proof -
  have "registry_inv w'" using assms by (simp add: world_inv_def request_step_def registry_inv_def)
  moreover have "m_user (w_sessions w' sp) = Some p \<Longrightarrow> p \<in> set (m_cachedUsers (w_users w'))" for sp p
    using assms unfolding world_inv_def request_step_def grows_def by blast
  ultimately show ?thesis using assms by (simp add: world_inv_def request_step_def grows_def)
qed

lemma request_step_core:
  "same_core w1 w2 \<Longrightarrow> request_step w w1 \<Longrightarrow> request_step w w2"
  by (simp add: request_step_def same_core_def)

lemma request_step_users:
  "grows (w_users w) um \<Longrightarrow> request_step w (w\<lparr>w_users := um\<rparr>)"
  by (simp add: request_step_def)

lemma request_step_refl: "world_inv w \<Longrightarrow> request_step w w"
  by (simp add: request_step_def world_inv_def grows_refl)

lemma request_step_session:
  assumes "world_inv w" "\<And>s. m_conn (f s) = m_conn s"
    and "\<And>s p. m_user (f s) = Some p \<Longrightarrow> m_user s = Some p \<or> p \<in> set (m_cachedUsers (w_users w))"
  shows "request_step w (update_session sp f w)"
proof -
  have "m_conn (w_sessions (update_session sp f w) t) = m_conn (w_sessions w t)" for t
    using assms(2) by (cases "t = sp") simp_all
  moreover have "m_user (w_sessions (update_session sp f w) t) = Some p \<longrightarrow>
      m_user (w_sessions w t) = Some p \<or> p \<in> set (m_cachedUsers (w_users w))" for t p
    using assms(3) by (cases "t = sp") simp_all
  ultimately show ?thesis
    using assms(1) by (simp add: request_step_def world_inv_def grows_refl)
qed

definition steps_ok :: "('m, 'g) world \<Rightarrow> ('m, 'g) world res \<Rightarrow> bool" where
  "steps_ok w r \<longleftrightarrow> (case r of Inl e \<Rightarrow> True | Inr w' \<Rightarrow> request_step w w')"

lemma steps_ok_simps [simp]: "steps_ok w (Inl e)" "steps_ok w (Inr w') = request_step w w'"
  by (simp_all add: steps_ok_def)

lemma steps_ok_bind: "(\<And>x. r = Inr x \<Longrightarrow> steps_ok w (f x)) \<Longrightarrow> steps_ok w (bindE r f)"
  by (cases r) simp_all

lemma steps_ok_bind_world:
  "steps_ok w r \<Longrightarrow> (\<And>w1. r = Inr w1 \<Longrightarrow> request_step w w1 \<Longrightarrow> steps_ok w (f w1)) \<Longrightarrow> steps_ok w (bindE r f)"
  by (cases r) simp_all

lemma request_step_respond [simp]: "request_step w (respond sp c k b w1) \<longleftrightarrow> request_step w w1"
  by (simp add: request_step_def)

lemma request_step_notify [simp]: "request_step w (notify_user env t u k f w1) \<longleftrightarrow> request_step w w1"
  by (simp add: request_step_def)

lemma world_inv_users: "world_inv w \<Longrightarrow> users_inv (w_users w) \<and> ids_inv (w_users w)"
  by (simp add: world_inv_def)

section \<open>Each handler\<close>

lemma check_login_step:
  assumes "world_inv w" "check_login env sp msg w = (rsp, w')"
  shows "request_step w w'"
proof -
  have bound: "request_step w (update_session sp (\<lambda>s. s\<lparr>m_user := Some p\<rparr>) w)"
    if "GetUserInfoUsername name (w_users w) = Some p" for name p
    using that by (intro request_step_session [OF assms(1)]) (auto simp: GetUserInfoUsername_def dest: find_set)
  have status: "request_step w1 (w1\<lparr>w_users := update_user p (\<lambda>u. u\<lparr>status := 1\<rparr>) (w_users w1)\<rparr>)"
    if "world_inv w1" for w1 :: "('a, 'b) world" and p
    using world_inv_users [OF that] by (intro request_step_users grows_update) simp_all
  have "w' = w \<or> (\<exists>name p. GetUserInfoUsername name (w_users w) = Some p
      \<and> (let w1 = update_session sp (\<lambda>s. s\<lparr>m_user := Some p\<rparr>) w
         in w' = w1 \<or> w' = w1\<lparr>w_users := update_user p (\<lambda>u. u\<lparr>status := 1\<rparr>) (w_users w1)\<rparr>))"
    using assms(2) by (auto simp: check_login_def Let_def split: option.splits if_splits)
  then show ?thesis
  proof (elim disjE exE conjE)
    fix name p
    let ?w1 = "update_session sp (\<lambda>s. s\<lparr>m_user := Some p\<rparr>) w"
    assume "GetUserInfoUsername name (w_users w) = Some p"
    with bound have step: "request_step w ?w1" by blast
    assume "let w1 = ?w1 in w' = w1 \<or> w' = w1\<lparr>w_users := update_user p (\<lambda>u. u\<lparr>status := 1\<rparr>) (w_users w1)\<rparr>"
    with step status [OF request_step_inv [OF assms(1) step], of p] show ?thesis
      using request_step_trans by (metis (no_types, lifting))
  qed (use request_step_refl [OF assms(1)] in simp)
qed

lemma request_step_push [simp]: "request_step w (push_offline env c uid w1) \<longleftrightarrow> request_step w w1"
  by (simp add: request_step_def)

lemma OnLogin_step:
  assumes "world_inv w"
  shows "steps_ok w (OnLoginResponse env sp c msg w)"
proof -
  obtain rsp w1 where log: "check_login env sp msg w = (rsp, w1)" by fastforce
  with check_login_step [OF assms] have "request_step w w1" by blast
  then show ?thesis
    by (cases "the_user sp w1") (simp_all add: OnLoginResponse_def log Let_def)
qed

lemma OnRegister_step:
  assumes "world_inv w" "room (w_users w)"
  shows "steps_ok w (OnRegisterResponse env sp c msg w)"
proof -
  note users = world_inv_users [OF assms(1)]
  have verified: "request_step w (w1\<lparr>w_users := um\<rparr>) \<and> request_step w w1"
    if "verify_email env req w = (v, rsp, w1)" "AddUser (e_db env) u (w_users w1) = (ok, u', um)" for req v rsp w1 u ok u' um
  proof -
    have core: "same_core w w1" using verify_email_core [OF that(1)] .
    then have "grows (w_users w) um"
      using grows_AddUser [of "w_users w"] users assms(2) that(2) by (simp add: same_core_def)
    with core show ?thesis
      using request_step_core [OF core request_step_refl [OF assms(1)]]
      by (auto simp: request_step_def same_core_def)
  qed
  show ?thesis
    using verified request_step_refl [OF assms(1)]
    by (simp add: OnRegisterResponse_def Let_def split: option.splits prod.splits)
qed

lemma friend_handlers_step:
  assumes "world_inv w"
  shows "steps_ok w (OnOperateFriendResponse env sp c msg w)"
    and "steps_ok w (OnUpdateUserInfoResponse env sp c msg w)"
    and "steps_ok w (OnModifyPasswordResponse env sp c msg w)"
proof -
  note users = world_inv_users [OF assms]
  note refl = request_step_refl [OF assms]
  have step: "MakeFriendRelationship (e_db env) a b (w_users w) = (ok, um) \<Longrightarrow> request_step w (w\<lparr>w_users := um\<rparr>)"
    "DeleteFriendToUser (e_db env) a b (w_users w) = (ok, um) \<Longrightarrow> request_step w (w\<lparr>w_users := um\<rparr>)" for a b ok um
    using users grows_Make grows_Delete request_step_users by metis+
  show "steps_ok w (OnOperateFriendResponse env sp c msg w)"
    using refl step
    by (cases "m_user (w_sessions w sp)")
       (auto simp: OnOperateFriendResponse_def operate_friend_def DeleteFriend_def Let_def the_user_def
        split: option.splits prod.splits)
  have upd: "grows (w_users w) (update_user p f um)"
    if "grows (w_users w) um" "\<And>u. userid (f u) = userid u" for p f um
    using that grows_update [of um f p] grows_trans by (metis grows_def)
  have step2: "UpdateUserInfo (e_db env) a new (w_users w) = (ok, um) \<Longrightarrow> grows (w_users w) um"
    "ModifyUserPassword (e_db env) a pw (w_users w) = (ok, um) \<Longrightarrow> grows (w_users w) um" for a new pw ok um
    using users grows_Update grows_Password by metis+
  show "steps_ok w (OnUpdateUserInfoResponse env sp c msg w)"
    using refl step2(1)
    by (cases "m_user (w_sessions w sp)")
       (auto simp: OnUpdateUserInfoResponse_def Let_def the_user_def split: option.splits prod.splits
        intro!: request_step_users upd, simp_all add: copy_info_def)
  show "steps_ok w (OnModifyPasswordResponse env sp c msg w)"
    using refl step2(2)
    by (cases "m_user (w_sessions w sp)")
       (auto simp: OnModifyPasswordResponse_def Let_def the_user_def split: option.splits prod.splits
        intro!: request_step_users upd)
qed

lemma read_handlers_step:
  assumes "world_inv w"
  shows "steps_ok w (OnHeartbeatResponse sp c w)" "steps_ok w (OnGetFriendListResponse env sp c w)"
    "steps_ok w (OnFindUserResponse env sp c msg w)" "steps_ok w (OnGetGroupMembersResponse env sp c msg w)"
    "steps_ok w (OnGetChatHistoryResponse env sp c msg w)" "steps_ok w (OnSendEmailCodeResponse env sp c msg w)"
proof -
  note users = world_inv_users [OF assms]
  note refl = request_step_refl [OF assms]
  show "steps_ok w (OnHeartbeatResponse sp c w)" "steps_ok w (OnGetFriendListResponse env sp c w)"
    "steps_ok w (OnFindUserResponse env sp c msg w)" "steps_ok w (OnGetGroupMembersResponse env sp c msg w)"
    using refl by (auto simp: OnHeartbeatResponse_def OnGetFriendListResponse_def OnFindUserResponse_def
        OnGetGroupMembersResponse_def Let_def split: prod.splits intro!: steps_ok_bind)
  have hist: "GetChatHistory (e_db env) a b ms n (w_users w) = Inr (ok, ms', um) \<Longrightarrow> request_step w (w\<lparr>w_users := um\<rparr>)"
    for a b ms n ok ms' um
    using users grows_History request_step_users by metis
  show "steps_ok w (OnGetChatHistoryResponse env sp c msg w)"
    using refl hist
    by (cases "m_user (w_sessions w sp)")
       (auto simp: OnGetChatHistoryResponse_def Let_def the_user_def fault_simps split: option.splits intro!: steps_ok_bind)
  have "request_step w (w\<lparr>w_grpc := g\<rparr>)" for g
    using refl by (simp add: request_step_def)
  then show "steps_ok w (OnSendEmailCodeResponse env sp c msg w)"
    using refl by (auto simp: OnSendEmailCodeResponse_def Let_def split: option.splits prod.splits)
qed

lemma request_step_fold [simp]:
  "request_step w (fold (\<lambda>q w. if userid (user_at w q) = me then w else deliver_to env (userid (user_at w q)) m w) fs w1)
     \<longleftrightarrow> request_step w w1"
  by (simp add: request_step_def)

lemma request_step_deliver [simp]: "request_step w (deliver_to env u m w1) \<longleftrightarrow> request_step w w1"
  by (simp add: request_step_def)

lemma request_step_agent [simp]: "request_step w (route_to_agent env sp c p t m w1) \<longleftrightarrow> request_step w w1"
  by (simp add: request_step_def)

lemma request_step_target:
  "world_inv w \<Longrightarrow> request_step w (update_session sp (\<lambda>s. s\<lparr>m_target := t\<rparr>) w)"
  "world_inv w \<Longrightarrow> request_step w (update_session sp (\<lambda>s. s\<lparr>m_targets := ts\<rparr>) w)"
  "world_inv w \<Longrightarrow> request_step w (update_session sp (\<lambda>s. s\<lparr>m_seq := n\<rparr>) w)"
  by (intro request_step_session; simp)+

lemma OnChat_step:
  assumes "world_inv w"
  shows "steps_ok w (OnChatResponse env sp c msg w)"
proof -
  let ?w1 = "update_session sp (\<lambda>s. s\<lparr>m_target := target_id msg\<rparr>) w"
  have step1: "request_step w ?w1" by (rule request_step_target [OF assms])
  have save: "request_step w (?w1\<lparr>w_users := um\<rparr>)"
    if "SaveChatMsgToDb (e_db env) a b t (w_users ?w1) = (ok, um)" for a b t ok um
  proof -
    have "request_step ?w1 (?w1\<lparr>w_users := um\<rparr>)"
      using world_inv_users [OF request_step_inv [OF assms step1]] that
      by (intro request_step_users grows_SaveChat) auto
    with step1 show ?thesis by (rule request_step_trans)
  qed
  show ?thesis
    unfolding OnChatResponse_def Let_def
    by (rule steps_ok_bind) (use step1 save in \<open>auto simp: Let_def split: prod.splits\<close>)
qed

lemma multi_chat_step: "world_inv w \<Longrightarrow> steps_ok w (multi_chat env sp c content ts w)"
proof (induction ts arbitrary: w)
  case Nil
  then show ?case by (simp add: request_step_refl)
next
  case (Cons t ts)
  let ?w1 = "update_session sp (\<lambda>s. s\<lparr>m_target := t\<rparr>) w"
  let ?m = "empty_MessageContainer\<lparr>cmd := msg_type_chat, seq := m_seq (w_sessions ?w1 sp), target_id := t, payload := content\<rparr>"
  have step1: "request_step w ?w1" by (rule request_step_target [OF Cons.prems])
  note inv1 = request_step_inv [OF Cons.prems step1]
  show ?case
  proof (cases "OnChatResponse env sp c ?m ?w1")
    case (Inr w2)
    with OnChat_step [OF inv1, of env sp c ?m] have step2: "request_step ?w1 w2" by simp
    with Cons.IH [OF request_step_inv [OF inv1 step2]] have "steps_ok w2 (multi_chat env sp c content ts w2)" by blast
    then show ?thesis
      using Inr request_step_trans [OF request_step_trans [OF step1 step2]]
      by (cases "multi_chat env sp c content ts w2") (simp_all add: Let_def)
  qed (simp add: Let_def)
qed

lemma group_handlers_step:
  assumes "world_inv w"
  shows "steps_ok w (OnMultiChatResponse env sp c msg w)"
    and "room (w_users w) \<Longrightarrow> steps_ok w (OnCreateGroupResponse env sp c msg w)"
proof -
  let ?w1 = "update_session sp (\<lambda>s. s\<lparr>m_targets := targets msg\<rparr>) w"
  have step1: "request_step w ?w1" by (rule request_step_target [OF assms])
  have multi: "steps_ok ?w1 (multi_chat env sp c t ts ?w1)" for t ts
    by (rule multi_chat_step [OF request_step_inv [OF assms step1]])
  show "steps_ok w (OnMultiChatResponse env sp c msg w)"
  proof (cases "parse_MultiChatTargets (e_pb env) (payload msg)")
    case (Some req)
    with multi [of "mt_content req" "mt_targets req"] show ?thesis
      using request_step_trans [OF step1]
      by (cases "multi_chat env sp c (mt_content req) (mt_targets req) ?w1")
         (auto simp: OnMultiChatResponse_def Let_def intro!: steps_ok_bind)
  qed (use step1 in \<open>auto simp: OnMultiChatResponse_def Let_def intro!: steps_ok_bind\<close>)
  assume room: "room (w_users w)"
  have add: "request_step w (w\<lparr>w_users := um\<rparr>)"
    if "AddGroup (e_db env) name owner (w_users w) = (ok, gid, um)" for name owner ok gid um
    using that world_inv_users [OF assms] room by (intro request_step_users grows_AddGroup) auto
  have join: "steps_ok v (OnAddGroupResponse env sp gid v)" if "world_inv v" for v gid
    unfolding OnAddGroupResponse_def Let_def
    by (rule steps_ok_bind)
       (use world_inv_users [OF that] in \<open>auto split: prod.splits intro!: request_step_users intro: grows_Make\<close>)
  show "steps_ok w (OnCreateGroupResponse env sp c msg w)"
  proof (cases "\<exists>req p. parse_CreateGroupReq (e_pb env) (payload msg) = Some req \<and> cg_groupname req \<noteq> []
      \<and> m_user (w_sessions w sp) = Some p")
    case True
    then obtain req p where req: "parse_CreateGroupReq (e_pb env) (payload msg) = Some req" "cg_groupname req \<noteq> []"
      "the_user sp w = Inr p" by (auto simp: the_user_def)
    obtain ok gid um where g: "AddGroup (e_db env) (c_str (cg_groupname req)) (userid (user_at w p)) (w_users w) = (ok, gid, um)"
      by (cases "AddGroup (e_db env) (c_str (cg_groupname req)) (userid (user_at w p)) (w_users w)")
    note step2 = add [OF g]
    show ?thesis
      using req g step2 join [OF request_step_inv [OF assms step2], of gid] request_step_trans [OF step2]
      by (cases "OnAddGroupResponse env sp gid (w\<lparr>w_users := um\<rparr>)") (auto simp: OnCreateGroupResponse_def Let_def)
  qed (use request_step_refl [OF assms] in \<open>auto simp: OnCreateGroupResponse_def the_user_def split: option.splits\<close>)
qed

lemma OnAvatar_step:
  assumes "world_inv w"
  shows "steps_ok w (OnAvatarUploadResponse env sp c msg w)"
proof -
  have upload: "request_step w w'" if "upload_avatar env req p w = (rsp, w')" for req p rsp w'
  proof -
    let ?face = "\<lambda>url. update_user p (\<lambda>u. u\<lparr>customface := url\<rparr>) (w_users w)"
    have grow: "grows (w_users w) um" if "UpdateUserInfo (e_db env) a new (?face url) = (ok, um)" for url a new ok um
    proof -
      have "grows (w_users w) (?face url)"
        using world_inv_users [OF assms] by (intro grows_update) simp_all
      with grows_Update [OF _ _ that] grows_trans show ?thesis by (metis grows_def)
    qed
    have friends: "request_step w (notify_friends env fs a k f w1) \<longleftrightarrow> request_step w w1" for fs a k f w1
      by (simp add: request_step_def)
    show ?thesis
      using that grow request_step_refl [OF assms]
      by (auto simp: upload_avatar_def Let_def friends request_step_def split: prod.splits if_splits)
  qed
  then show ?thesis
    using request_step_refl [OF assms]
    by (cases "m_user (w_sessions w sp)")
       (auto simp: OnAvatarUploadResponse_def the_user_def split: option.splits prod.splits)
qed

section \<open>Every request\<close>

lemma dispatch_step:
  assumes "world_inv w" "room (w_users w)"
  shows "steps_ok w (dispatch env sp c msg w)"
  unfolding dispatch_def
  using read_handlers_step [OF assms(1)] OnRegister_step [OF assms] OnLogin_step [OF assms(1)]
    friend_handlers_step [OF assms(1)] group_handlers_step [OF assms(1)] OnAvatar_step [OF assms(1)]
    OnChat_step [OF assms(1)] request_step_refl [OF assms(1)] assms(2)
  by simp


lemma demo_world_inv: "world_inv demo_world"
proof -
  have "dom (session_of (new_world demo_um (0 :: nat))) = {}"
    by (auto simp: session_of_def new_world_def)
  then have "registry_inv (conn_run establish disconnect [Up 16, Up 32] (new_world demo_um (0 :: nat)))"
    using reg.run_dom [of "new_world demo_um (0 :: nat)" "[Up 16, Up 32]"] by simp
  then have "registry_inv demo_world"
    by (auto simp: demo_world_def registry_inv_def update_session_def)
  moreover have "m_user (w_sessions demo_world sp) = Some p \<Longrightarrow> p = 0" for sp p
    by (auto simp: demo_world_def update_session_def establish_def OnConnection_def OnConnected_def new_world_def
        new_ClientSession_def split: if_splits)
  moreover have "0 \<in> set (m_cachedUsers demo_um)"
    by (simp add: demo_um_def new_UserManager_def share_user_def)
  ultimately show ?thesis
    using demo_um_inv by (auto simp: world_inv_def um_inv_def)
qed


section \<open>From characters to requests\<close>


definition demo_container_lib :: "MessageContainer pb_lib" where
  "demo_container_lib = \<lparr>pb_ByteSize = (\<lambda>m. length (payload m)), pb_Serialize = payload,
     pb_Parse = (\<lambda>s. Some (empty_MessageContainer\<lparr>cmd := 1000, payload := s\<rparr>)),
     zlib_adler32 = (\<lambda>cs. word_of_nat (length cs + 1))\<rparr>"


end
