(* ===== verification/Calendar.thy ===== *)
theory Calendar
  imports Prelude "HOL-Library.Signed_Division"
begin

text \<open>
  \<open>base/Date.h\<close>, \<open>base/Date.cc\<close> and the integer part of \<open>base/Timestamp.h\<close>, \<open>base/Timestamp.cc\<close>. The division of C rounds
  towards zero: \<open>sdiv\<close> and \<open>smod\<close>. The specification is the Gregorian calendar: the length of each
  month and the order of days.
\<close>

section \<open>Date\<close>

record YearMonthDay =
  year :: int
  month :: int
  day :: int

definition getJulianDayNumber :: "int \<Rightarrow> int \<Rightarrow> int \<Rightarrow> int" where
  "getJulianDayNumber y m d =
     (let a = (14 - m) sdiv 12;
          y' = y + 4800 - a;
          m' = m + 12 * a - 3
      in d + (153 * m' + 2) sdiv 5 + y' * 365 + y' sdiv 4 - y' sdiv 100 + y' sdiv 400 - 32045)"

definition getYearMonthDay :: "int \<Rightarrow> YearMonthDay" where
  "getYearMonthDay julianDayNumber =
     (let a = julianDayNumber + 32044;
          b = (4 * a + 3) sdiv 146097;
          c = a - (b * 146097) sdiv 4;
          d = (4 * c + 3) sdiv 1461;
          e = c - (1461 * d) sdiv 4;
          m = (5 * e + 2) sdiv 153
      in \<lparr>year = b * 100 + d - 4800 + m sdiv 10,
          month = m + 3 - 12 * (m sdiv 10),
          day = e - (153 * m + 2) sdiv 5 + 1\<rparr>)"

definition kJulianDayOf1970_01_01 :: int where
  "kJulianDayOf1970_01_01 = getJulianDayNumber 1970 1 1"

definition kDaysPerWeek :: int where
  "kDaysPerWeek = 7"

record Date =
  julianDayNumber :: int

definition new_Date :: "int \<Rightarrow> int \<Rightarrow> int \<Rightarrow> Date" where
  "new_Date y m d = \<lparr>julianDayNumber = getJulianDayNumber y m d\<rparr>"

text \<open>The broken-down time \<open>struct tm\<close>: months since January, years since 1900.\<close>

record tm =
  tm_sec :: int
  tm_min :: int
  tm_hour :: int
  tm_mday :: int
  tm_mon :: int
  tm_year :: int

definition Date_of_tm :: "tm \<Rightarrow> Date" where
  "Date_of_tm t = \<lparr>julianDayNumber = getJulianDayNumber (tm_year t + 1900) (tm_mon t + 1) (tm_mday t)\<rparr>"

definition yearMonthDay :: "Date \<Rightarrow> YearMonthDay" where
  "yearMonthDay x = getYearMonthDay (julianDayNumber x)"

definition Date_valid :: "Date \<Rightarrow> bool" where
  "Date_valid x \<longleftrightarrow> julianDayNumber x > 0"

definition weekDay :: "Date \<Rightarrow> int" where
  "weekDay x = (julianDayNumber x + 1) smod kDaysPerWeek"

definition Date_less :: "Date \<Rightarrow> Date \<Rightarrow> bool" where
  "Date_less x y \<longleftrightarrow> julianDayNumber x < julianDayNumber y"

text \<open>The conversions of \<open>printf\<close>: \<open>%0wd\<close> and \<open>%wd\<close>.\<close>

definition pad0 :: "nat \<Rightarrow> int \<Rightarrow> string" where
  "pad0 w x = (let s = show_nat (nat \<bar>x\<bar>); sign = (if x < 0 then ''-'' else [])
     in sign @ replicate (w - length sign - length s) (CHR ''0'') @ s)"

definition pad :: "nat \<Rightarrow> int \<Rightarrow> string" where
  "pad w x = replicate (w - length (show_int x)) (CHR '' '') @ show_int x"

definition toIsoString :: "Date \<Rightarrow> string" where
  "toIsoString x = (let ymd = yearMonthDay x
     in take 31 (pad 4 (year ymd) @ ''-'' @ pad0 2 (month ymd) @ ''-'' @ pad0 2 (day ymd)))"

section \<open>Timestamp\<close>

definition kMicroSecondsPerSecond :: int where
  "kMicroSecondsPerSecond = 1000 * 1000"

datatype Timestamp = Timestamp (microSecondsSinceEpoch: int)

text \<open>\<open>operator<\<close> of time stamps; \<open>boost::less_than_comparable\<close> gives the other comparisons.\<close>

instantiation Timestamp :: linorder
begin

definition less_Timestamp :: "Timestamp \<Rightarrow> Timestamp \<Rightarrow> bool" where
  "less_Timestamp lhs rhs \<longleftrightarrow> microSecondsSinceEpoch lhs < microSecondsSinceEpoch rhs"

definition less_eq_Timestamp :: "Timestamp \<Rightarrow> Timestamp \<Rightarrow> bool" where
  "less_eq_Timestamp lhs rhs \<longleftrightarrow> \<not> microSecondsSinceEpoch rhs < microSecondsSinceEpoch lhs"

instance
  by standard (auto simp: less_Timestamp_def less_eq_Timestamp_def not_less intro: Timestamp.expand)

end

definition Timestamp_valid :: "Timestamp \<Rightarrow> bool" where
  "Timestamp_valid t \<longleftrightarrow> microSecondsSinceEpoch t > 0"

definition Timestamp_invalid :: Timestamp where
  "Timestamp_invalid = Timestamp 0"

definition secondsSinceEpoch :: "Timestamp \<Rightarrow> int" where
  "secondsSinceEpoch t = microSecondsSinceEpoch t sdiv kMicroSecondsPerSecond"

definition fromUnixTime :: "int \<Rightarrow> int \<Rightarrow> Timestamp" where
  "fromUnixTime t microseconds = Timestamp (t * kMicroSecondsPerSecond + microseconds)"

text \<open>\<open>now\<close> from the reading of \<open>gettimeofday\<close>: seconds and microseconds.\<close>

definition Timestamp_now :: "int \<Rightarrow> int \<Rightarrow> Timestamp" where
  "Timestamp_now tv_sec tv_usec = Timestamp (tv_sec * kMicroSecondsPerSecond + tv_usec)"

text \<open>
  An interval is a \<open>double\<close> number of seconds, of which the code reads two things: whether it is positive, and the
  microseconds that \<open>static_cast<int64_t>(seconds * kMicroSecondsPerSecond)\<close> gives, which is rounded towards zero.
\<close>

datatype interval = Positive nat | NonPositive nat

fun positive :: "interval \<Rightarrow> bool" where
  "positive (Positive n) = True"
| "positive (NonPositive n) = False"

fun micros :: "interval \<Rightarrow> int" where
  "micros (Positive n) = int n"
| "micros (NonPositive n) = - int n"

lemma positive_micros: "positive i \<Longrightarrow> 0 \<le> micros i"
  by (cases i) simp_all

definition addTime :: "Timestamp \<Rightarrow> interval \<Rightarrow> Timestamp" where
  "addTime timestamp seconds = Timestamp (microSecondsSinceEpoch timestamp + micros seconds)"

definition Timestamp_toString :: "Timestamp \<Rightarrow> string" where
  "Timestamp_toString t =
     (let seconds = microSecondsSinceEpoch t sdiv kMicroSecondsPerSecond;
          microseconds = microSecondsSinceEpoch t smod kMicroSecondsPerSecond
      in take 31 (show_int seconds @ ''.'' @ pad0 6 microseconds))"

text \<open>\<open>gmtime_r\<close> of the C library is a parameter.\<close>

definition toFormattedString :: "(int \<Rightarrow> tm) \<Rightarrow> bool \<Rightarrow> Timestamp \<Rightarrow> string" where
  "toFormattedString gmtime_r showMicroseconds t =
     (let tm_time = gmtime_r (microSecondsSinceEpoch t sdiv kMicroSecondsPerSecond);
          text = pad 4 (tm_year tm_time + 1900) @ pad0 2 (tm_mon tm_time + 1) @ pad0 2 (tm_mday tm_time) @ '' ''
            @ pad0 2 (tm_hour tm_time) @ '':'' @ pad0 2 (tm_min tm_time) @ '':'' @ pad0 2 (tm_sec tm_time)
      in take 63 (if showMicroseconds
           then text @ ''.'' @ pad0 6 (microSecondsSinceEpoch t smod kMicroSecondsPerSecond) else text))"

lemma Timestamp_less_iff [simp]: "Timestamp a < Timestamp b \<longleftrightarrow> a < b"
  by (simp add: less_Timestamp_def)

lemma Timestamp_le_iff [simp]: "Timestamp a \<le> Timestamp b \<longleftrightarrow> a \<le> b"
  by (simp add: less_eq_Timestamp_def not_less)

section \<open>The Gregorian calendar\<close>

definition leap :: "int \<Rightarrow> bool" where
  "leap y \<longleftrightarrow> y mod 4 = 0 \<and> y mod 100 \<noteq> 0 \<or> y mod 400 = 0"

definition days_in_month :: "int \<Rightarrow> int \<Rightarrow> int" where
  "days_in_month y m = (if m = 2 then (if leap y then 29 else 28) else if m \<in> {4, 6, 9, 11} then 30 else 31)"

definition valid_date :: "YearMonthDay \<Rightarrow> bool" where
  "valid_date x \<longleftrightarrow> - 4800 < year x \<and> 1 \<le> month x \<and> month x \<le> 12 \<and> 1 \<le> day x \<and> day x \<le> days_in_month (year x) (month x)"

text \<open>The day after a date.\<close>

definition next_day :: "YearMonthDay \<Rightarrow> YearMonthDay" where
  "next_day x =
     (if day x < days_in_month (year x) (month x) then x\<lparr>day := day x + 1\<rparr>
      else if month x < 12 then x\<lparr>month := month x + 1, day := 1\<rparr>
      else x\<lparr>year := year x + 1, month := 1, day := 1\<rparr>)"

lemma sdiv_nonneg [simp]: "0 \<le> a \<Longrightarrow> 0 < b \<Longrightarrow> a sdiv b = a div b" for a b :: int
  by (cases "a = 0") (simp_all add: signed_divide_int_def sgn_if)

lemma smod_nonneg [simp]: "0 \<le> a \<Longrightarrow> 0 < b \<Longrightarrow> a smod b = a mod b" for a b :: int
  by (cases "a = 0") (simp_all add: signed_modulo_int_def sgn_if minus_div_mult_eq_mod)

lemma split_400: "Y = 400 * (Y div 400) + 100 * (Y div 100 mod 4) + 4 * (Y mod 100 div 4) + Y mod 4" for Y :: int
proof -
  have "Y div 100 = 4 * (Y div 400) + Y div 100 mod 4"
    using mult_div_mod_eq [of 4 "Y div 100"] by (simp add: zdiv_zmult2_eq [symmetric])
  moreover have "Y mod 100 mod 4 = Y mod 4" by (rule mod_mod_cancel) simp
  ultimately show ?thesis
    using mult_div_mod_eq [of 100 Y] mult_div_mod_eq [of 4 "Y mod 100"] by linarith
qed

text \<open>Days counted from 1 March of the year -4800: \<open>Y\<close> years and \<open>M\<close> months later, and \<open>e\<close> days into that year.\<close>

definition year_start :: "int \<Rightarrow> int" where
  "year_start Y = 365 * Y + Y div 4 - Y div 100 + Y div 400"

lemma div_eqI: "k * q \<le> x \<Longrightarrow> x < k * (q + 1) \<Longrightarrow> 0 < k \<Longrightarrow> x div k = q" for x k q :: int
  by (rule int_div_pos_eq [of _ _ _ "x - k * q"]) (auto simp: algebra_simps)

text \<open>The century and the year within it, from the days since the start.\<close>

lemma split_year:
  assumes "0 \<le> Y" "0 \<le> e" "e \<le> 365" "e = 365 \<Longrightarrow> leap (Y + 1)"
  defines "a \<equiv> year_start Y + e"
  defines "b \<equiv> (4 * a + 3) div 146097"
  defines "c \<equiv> a - (b * 146097) div 4"
  defines "d \<equiv> (4 * c + 3) div 1461"
  shows "b * 100 + d = Y \<and> c - (1461 * d) div 4 = e \<and> 0 \<le> a \<and> 0 \<le> c \<and> 0 \<le> b \<and> 0 \<le> d"
proof -
  define q k r s where "q = Y div 400" and "k = Y div 100 mod 4" and "r = Y mod 100 div 4" and "s = Y mod 4"
  have Y: "Y = 400 * q + 100 * k + 4 * r + s"
    unfolding q_def k_def r_def s_def by (rule split_400)
  have "Y mod 100 < 100" by simp
  then have bounds: "0 \<le> q" "0 \<le> k" "k < 4" "0 \<le> r" "r < 25" "0 \<le> s" "s < 4"
    using assms(1) by (simp_all add: q_def k_def r_def s_def pos_imp_zdiv_nonneg_iff div_less_iff_less_mult)
  have parts: "Y div 4 = 100 * q + 25 * k + r" "Y div 100 = 4 * q + k" "Y div 400 = q"
    using bounds by (auto simp: Y intro!: div_eqI)
  have a: "a = 146097 * q + 36524 * k + 1461 * r + 365 * s + e"
    using Y unfolding a_def year_start_def parts by linarith
  have big: "e = 365 \<Longrightarrow> s = 3 \<and> (r = 24 \<longrightarrow> k = 3)"
  proof
    assume "e = 365"
    then have "leap (Y + 1)" using assms(4) by blast
    then have 4: "(Y + 1) mod 4 = 0" and 400: "(Y + 1) mod 100 = 0 \<longrightarrow> (Y + 1) mod 400 = 0"
      using mod_mod_cancel [of 4 400 "Y + 1"] by (auto simp: leap_def)
    have "Y + 1 = s + 1 + 4 * (100 * q + 25 * k + r)" using Y by simp
    then have "(s + 1) mod 4 = 0" using 4 by (metis mod_mult_self2)
    then show s: "s = 3" using bounds by (cases "s = 0 \<or> s = 1 \<or> s = 2") auto
    show "r = 24 \<longrightarrow> k = 3"
    proof
      assume "r = 24"
      then have "Y + 1 = 100 * (k + 1) + 400 * q" and "Y + 1 = 100 * (4 * q + k + 1)" using Y s by simp_all
      then have "100 * (k + 1) mod 400 = 0" using 400 by (metis mod_mult_self1_is_0 mod_mult_self2)
      then show "k = 3" using bounds by (cases "k = 0 \<or> k = 1 \<or> k = 2") auto
    qed
  qed
  have b: "b = 4 * q + k"
    unfolding b_def using a bounds assms(2,3) big by (intro div_eqI) (cases "e = 365"; force)+
  have "b * 146097 div 4 = 146097 * q + 36524 * k + k div 4"
  proof -
    have "b * 146097 = 4 * (146097 * q + 36524 * k) + k" by (simp add: b)
    then show ?thesis using bounds by (intro div_eqI) auto
  qed
  then have c: "c = 1461 * r + 365 * s + e" using a bounds by (simp add: c_def)
  have d: "d = 4 * r + s"
    unfolding d_def using c bounds assms(2,3) big by (intro div_eqI) (cases "e = 365"; force)+
  have "1461 * d div 4 = 1461 * r + 365 * s"
    using bounds by (intro div_eqI) (auto simp: d)
  then show ?thesis using a b c d Y bounds assms(2) by simp
qed

text \<open>The months counted from March: the first day of each and its length.\<close>

definition month_start :: "int \<Rightarrow> int" where
  "month_start M = (153 * M + 2) div 5"

lemma months_of_year:
  assumes "P (1::int) \<and> P 2 \<and> P 3 \<and> P 4 \<and> P 5 \<and> P 6 \<and> P 7 \<and> P 8 \<and> P 9 \<and> P 10 \<and> P 11 \<and> P 12" "1 \<le> m" "m \<le> 12"
  shows "P m"
proof -
  have "m = 1 \<or> m = 2 \<or> m = 3 \<or> m = 4 \<or> m = 5 \<or> m = 6 \<or> m = 7 \<or> m = 8 \<or> m = 9 \<or> m = 10 \<or> m = 11 \<or> m = 12"
    using assms(2,3) by presburger
  then show ?thesis by (elim disjE) (simp_all add: assms(1))
qed

lemma month_shift:
  assumes "1 \<le> m" "m \<le> 12" "1 \<le> d" "d \<le> days_in_month y m"
  defines "a \<equiv> (14 - m) div 12"
  defines "M \<equiv> m + 12 * a - 3"
  defines "e \<equiv> d - 1 + month_start M"
  shows "0 \<le> M \<and> 0 \<le> e \<and> e \<le> 365 \<and> (e = 365 \<longrightarrow> leap y \<and> a = 1)
    \<and> (5 * e + 2) div 153 = M \<and> M div 10 = a \<and> M + 3 - 12 * a = m \<and> 0 \<le> a \<and> a \<le> 1"
proof -
  have "\<forall>d. 1 \<le> d \<longrightarrow> d \<le> days_in_month y m \<longrightarrow>
      (let a = (14 - m) div 12; M = m + 12 * a - 3; e = d - 1 + month_start M in
       0 \<le> M \<and> 0 \<le> e \<and> e \<le> 365 \<and> (e = 365 \<longrightarrow> leap y \<and> a = 1)
       \<and> (5 * e + 2) div 153 = M \<and> M div 10 = a \<and> M + 3 - 12 * a = m \<and> 0 \<le> a \<and> a \<le> 1)"
    by (rule months_of_year [of "\<lambda>m. _ m" m, OF _ assms(1,2)])
       (auto simp: days_in_month_def month_start_def Let_def split: if_splits intro!: div_eqI)
  then show ?thesis using assms(3,4) by (simp add: a_def M_def e_def Let_def)
qed

text \<open>The day number in these terms.\<close>

lemma julian_parts:
  assumes "- 4800 < y" "1 \<le> m" "m \<le> 12" "1 \<le> d"
  shows "getJulianDayNumber y m d + 32044 =
    year_start (y + 4800 - (14 - m) div 12) + (d - 1 + month_start (m + 12 * ((14 - m) div 12) - 3))"
    and "0 \<le> y + 4800 - (14 - m) div 12"
proof -
  define a where "a = (14 - m) div 12"
  have a: "0 \<le> a" "a \<le> 1" "0 \<le> m + 12 * a - 3"
    using assms(2,3) unfolding a_def by presburger+
  show y: "0 \<le> y + 4800 - (14 - m) div 12" using a assms(1) by (simp add: a_def)
  have "(14 - m) sdiv 12 = (14 - m) div 12" using assms by simp
  then show "getJulianDayNumber y m d + 32044 =
    year_start (y + 4800 - (14 - m) div 12) + (d - 1 + month_start (m + 12 * ((14 - m) div 12) - 3))"
    using y a by (simp add: getJulianDayNumber_def year_start_def month_start_def Let_def a_def)
qed

lemma year_start_nonneg: "0 \<le> Y \<Longrightarrow> 0 \<le> year_start Y"
  using zdiv_mono2 [of Y 4 100] by (simp add: year_start_def pos_imp_zdiv_nonneg_iff)

lemma year_start_bound: "0 \<le> Y \<Longrightarrow> Y \<le> 1100000 \<Longrightarrow> year_start Y \<le> 403000000"
  by (simp add: year_start_def)

lemma leap_4800: "leap (4800 + y) = leap y"
  using mod_mult_self2 [of y 4 1200] mod_mult_self2 [of y 100 48] mod_mult_self2 [of y 400 12]
  by (simp add: leap_def add.commute)

lemma julian_roundtrip:
  assumes "valid_date x"
  shows "getYearMonthDay (getJulianDayNumber (year x) (month x) (day x)) = x"
proof -
  have v: "- 4800 < year x" "1 \<le> month x" "month x \<le> 12" "1 \<le> day x" "day x \<le> days_in_month (year x) (month x)"
    using assms by (auto simp: valid_date_def)
  define a where "a = (14 - month x) div 12"
  define Y where "Y = year x + 4800 - a"
  define M where "M = month x + 12 * a - 3"
  define e where "e = day x - 1 + month_start M"
  note ms = month_shift [OF v(2-5), folded a_def, folded M_def, folded e_def]
  have J: "getJulianDayNumber (year x) (month x) (day x) + 32044 = year_start Y + e" and Y0: "0 \<le> Y"
    using julian_parts [OF v(1-4)] by (simp_all add: a_def M_def Y_def e_def)
  have e0: "0 \<le> e" "e \<le> 365" using ms by blast+
  have "leap (Y + 1)" if "e = 365" using ms that by (auto simp: Y_def leap_4800)
  note sp = split_year [OF Y0 e0 this]
  define A where "A = year_start Y + e"
  define b where "b = (4 * A + 3) div 146097"
  define c where "c = A - (b * 146097) div 4"
  define d where "d = (4 * c + 3) div 1461"
  have *: "b * 100 + d = Y" "c - (1461 * d) div 4 = e" "0 \<le> A" "0 \<le> c" "0 \<le> b" "0 \<le> d" "0 \<le> e" "0 \<le> M"
    using sp [folded A_def, folded b_def, folded c_def, folded d_def] ms by blast+
  have "M div 10 = a" "(5 * e + 2) div 153 = M" using ms by blast+
  then have steps: "(4 * A + 3) sdiv 146097 = b" "A - (b * 146097) sdiv 4 = c" "(4 * c + 3) sdiv 1461 = d"
    "c - (1461 * d) sdiv 4 = e" "(5 * e + 2) sdiv 153 = M" "M sdiv 10 = a" "(153 * M + 2) sdiv 5 = month_start M"
    using *(3-8) by (simp_all only: b_def [symmetric] c_def [symmetric] d_def [symmetric] *(2) month_start_def sdiv_nonneg
      add_nonneg_nonneg mult_nonneg_nonneg zero_le_numeral zero_less_numeral)
  have "getYearMonthDay (getJulianDayNumber (year x) (month x) (day x)) =
      \<lparr>year = b * 100 + d - 4800 + a, month = M + 3 - 12 * a, day = e - month_start M + 1\<rparr>"
    by (simp only: getYearMonthDay_def J A_def [symmetric] Let_def steps)
  also have "\<dots> = x"
    using *(1) ms by (simp add: Y_def e_def)
  finally show ?thesis .
qed

text \<open>Consecutive days have consecutive numbers.\<close>

lemma year_start_Suc: "year_start (Y + 1) = year_start Y + (if leap (Y + 1) then 366 else 365)"
proof -
  have step: "(Y + 1) div k = Y div k + (if (Y + 1) mod k = 0 then 1 else 0)" if "0 < k" for k :: int
  proof (cases "(Y + 1) mod k = 0")
    case True
    then show ?thesis
      using that mult_div_mod_eq [of k "Y + 1"] div_eqI [of k "(Y + 1) div k - 1" Y] by (simp add: algebra_simps)
  next
    case False
    then have "1 \<le> (Y + 1) mod k" "(Y + 1) mod k < k" using that pos_mod_sign [of k "Y + 1"] pos_mod_bound [of k "Y + 1"] by linarith+
    then have "k * ((Y + 1) div k) \<le> Y" "Y < k * ((Y + 1) div k) + k"
      using mult_div_mod_eq [of k "Y + 1"] by linarith+
    then have "Y div k = (Y + 1) div k" using that by (intro div_eqI) (simp_all add: distrib_left)
    then show ?thesis using False by simp
  qed
  have "(Y + 1) mod 400 = 0 \<Longrightarrow> (Y + 1) mod 100 = 0" "(Y + 1) mod 100 = 0 \<Longrightarrow> (Y + 1) mod 4 = 0"
    using mod_mod_cancel [of 100 400 "Y + 1"] mod_mod_cancel [of 4 100 "Y + 1"] by auto
  then show ?thesis by (auto simp: year_start_def leap_def step)
qed

lemma julian_month_turn:
  assumes "- 4800 < y" "1 \<le> m" "m < 12"
  shows "getJulianDayNumber y (m + 1) 1 = getJulianDayNumber y m (days_in_month y m) + 1"
proof -
  have next_year: "year_start (y + 4800) = year_start (y + 4799) + (if leap y then 366 else 365)"
    using year_start_Suc [of "y + 4799"] leap_4800 [of y] by (simp add: add.commute)
  have dim: "days_in_month y m \<ge> 28" by (simp add: days_in_month_def)
  define turn where "turn k \<longleftrightarrow> k < 12 \<longrightarrow>
      year_start (y + 4800 - (14 - (k + 1)) div 12) + month_start (k + 1 + 12 * ((14 - (k + 1)) div 12) - 3)
      = year_start (y + 4800 - (14 - k) div 12) + days_in_month y k + month_start (k + 12 * ((14 - k) div 12) - 3)" for k
  have "turn m"
    by (rule months_of_year [OF _ assms(2) less_imp_le [OF assms(3)]])
       (simp add: turn_def month_start_def days_in_month_def next_year, simp add: add.commute)
  then show ?thesis
    using julian_parts(1) [of y m "days_in_month y m"] julian_parts(1) [of y "m + 1" 1] assms dim
    unfolding turn_def by linarith
qed

lemma julian_next_day:
  assumes "valid_date x"
  shows "valid_date (next_day x)"
    and "getJulianDayNumber (year (next_day x)) (month (next_day x)) (day (next_day x)) = getJulianDayNumber (year x) (month x) (day x) + 1"
proof -
  have v: "- 4800 < year x" "1 \<le> month x" "month x \<le> 12" using assms by (auto simp: valid_date_def)
  show n: "valid_date (next_day x)"
    using assms by (auto simp: valid_date_def next_day_def days_in_month_def)
  have last: "\<not> day x < days_in_month (year x) (month x) \<Longrightarrow> day x = days_in_month (year x) (month x)"
    using assms by (simp add: valid_date_def)
  have december: "getJulianDayNumber (year x + 1) 1 1 = getJulianDayNumber (year x) 12 31 + 1"
    using julian_parts [of "year x" 12 31] julian_parts [of "year x + 1" 1 1] v by (simp add: month_start_def add.commute)
  show "getJulianDayNumber (year (next_day x)) (month (next_day x)) (day (next_day x)) = getJulianDayNumber (year x) (month x) (day x) + 1"
  proof (cases "day x < days_in_month (year x) (month x)")
    case True
    then show ?thesis by (simp add: next_day_def getJulianDayNumber_def Let_def)
  next
    case False
    show ?thesis
    proof (cases "month x < 12")
      case True
      then show ?thesis using False v last [OF False] julian_month_turn [of "year x" "month x"] by (simp add: next_day_def)
    next
      case ge: False
      then have "month x = 12" using v by simp
      then show ?thesis using False last [OF False] december by (simp add: next_day_def days_in_month_def)
    qed
  qed
qed

text \<open>
  For every date of the Gregorian calendar after the year -4800 and up to the year 1000000, \<open>getYearMonthDay\<close> returns the
  date whose day number \<open>getJulianDayNumber\<close> computed, the largest intermediate value fits a 32-bit \<open>int\<close>, the day after it has the
  next number, and its week day is one more modulo 7 (0 for Sunday: 1 January 1970 is a Thursday, 4).
\<close>

theorem julian_day_numbers:
  assumes "valid_date x" "year x \<le> 1000000"
  shows "yearMonthDay (new_Date (year x) (month x) (day x)) = x
    \<and> 0 \<le> julianDayNumber (new_Date (year x) (month x) (day x)) + 32044
    \<and> 4 * (julianDayNumber (new_Date (year x) (month x) (day x)) + 32044) + 3 < 2 ^ 31
    \<and> julianDayNumber (new_Date (year (next_day x)) (month (next_day x)) (day (next_day x))) = julianDayNumber (new_Date (year x) (month x) (day x)) + 1
    \<and> (0 \<le> julianDayNumber (new_Date (year x) (month x) (day x)) \<longrightarrow>
         weekDay (new_Date (year (next_day x)) (month (next_day x)) (day (next_day x))) = (weekDay (new_Date (year x) (month x) (day x)) + 1) mod 7)
    \<and> weekDay (new_Date 1970 1 1) = 4"
proof -
  have v: "- 4800 < year x" "1 \<le> month x" "month x \<le> 12" "1 \<le> day x" "day x \<le> days_in_month (year x) (month x)"
    using assms(1) by (auto simp: valid_date_def)
  note ms = month_shift [OF v(2-5)] and jp = julian_parts [OF v(1-4)]
  have "year_start (year x + 4800 - (14 - month x) div 12) \<le> 403000000"
    using v ms assms(2) by (intro year_start_bound) linarith+
  moreover have "0 \<le> year_start (year x + 4800 - (14 - month x) div 12)"
    using v ms by (intro year_start_nonneg) linarith
  ultimately have "0 \<le> getJulianDayNumber (year x) (month x) (day x) + 32044"
    and "getJulianDayNumber (year x) (month x) (day x) + 32044 \<le> 403000365"
    using jp(1) ms by simp_all
  moreover have "weekDay (new_Date 1970 1 1) = 4" by code_simp
  ultimately show ?thesis
    using julian_roundtrip [OF assms(1)] julian_next_day(2) [OF assms(1)]
    by (auto simp: yearMonthDay_def new_Date_def weekDay_def kDaysPerWeek_def mod_simps ac_simps)
qed

theorem julian_day_numbers_witness:
  "valid_date \<lparr>year = 2024, month = 2, day = 29\<rparr> \<and> yearMonthDay (new_Date 2024 2 29) = \<lparr>year = 2024, month = 2, day = 29\<rparr>
   \<and> julianDayNumber (new_Date 2024 3 1) = julianDayNumber (new_Date 2024 2 29) + 1"
proof -
  have "valid_date \<lparr>year = 2024, month = 2, day = 29\<rparr>" by (simp add: valid_date_def days_in_month_def leap_def)
  with julian_day_numbers [OF this] show ?thesis by (simp add: next_day_def days_in_month_def leap_def)
qed

end
