(* ===== verification/Timers.thy ===== *)
theory Timers
  imports Calendar "HOL-Library.Product_Lexorder"
begin

text \<open>
  \<open>net/Timer.h\<close>, \<open>net/Timer.cc\<close>, \<open>net/TimerId.h\<close>, \<open>net/TimerQueue.h\<close>, \<open>net/TimerQueue.cc\<close>: the timers of an event loop.
  Timers are objects at addresses (\<open>heap\<close>, with \<open>new\<close> and \<open>delete\<close>); \<open>timers\<close> is the set of entries in the order of their
  expiration and \<open>activeTimers\<close> the set of the same timers by address and sequence number. A callback is the list of
  the calls it makes on the queue: a timer it adds (whose callback may add others) or an identifier it cancels.
  \<open>ran\<close> records the timers whose callback was called.

  The allocator (\<open>alloc\<close>, which may fail) and the clock (\<open>clock\<close>, the reading of each successive call of \<open>Timestamp::now\<close>)
  are parameters. Microseconds and sequence numbers are unbounded integers: \<open>int64_t\<close> reaches the year 294247.
  \<open>timerfd\<close> is the time at which the one-shot timer of the kernel fires, if it is armed.
  The functors that other threads hand to the loop (\<open>runInLoop\<close> of \<open>net/EventLoop.cc\<close> out of the loop thread) wait in \<open>pending\<close>.
\<close>

section \<open>Timers\<close>

type_synonym TimerId = "nat \<times> int"

datatype timer_action =
    AddTimer "timer_action list" Timestamp interval
  | CancelTimer TimerId

record Timer =
  callback :: "timer_action list"
  expiration :: Timestamp
  interval_of :: interval
  repeat :: bool
  sequence :: int

definition restart :: "Timestamp \<Rightarrow> Timer \<Rightarrow> Timer" where
  "restart now t =
     (if repeat t then t\<lparr>expiration := addTime now (interval_of t)\<rparr>
      else t\<lparr>expiration := Timestamp_invalid\<rparr>)"

section \<open>The queue\<close>

datatype timer_functor = AddTimerInLoop nat | CancelInLoop TimerId

record TimerQueue =
  heap :: "nat \<rightharpoonup> Timer"
  numCreated :: int
  timers :: "(Timestamp \<times> nat) list"
  activeTimers :: "(nat \<times> int) list"
  callingExpiredTimers :: bool
  cancelingTimers :: "(nat \<times> int) list"
  timerfd :: "int option"
  readings :: nat
  pending :: "timer_functor list"
  ran :: "TimerId list"

definition UINTPTR_MAX :: nat where
  "UINTPTR_MAX = 2 ^ 64 - 1"

definition new_TimerQueue :: TimerQueue where
  "new_TimerQueue = \<lparr>heap = Map.empty, numCreated = 0, timers = [], activeTimers = [], callingExpiredTimers = False,
     cancelingTimers = [], timerfd = None, readings = 0, pending = [], ran = []\<rparr>"

definition timer_at :: "TimerQueue \<Rightarrow> nat \<Rightarrow> Timer res" where
  "timer_at q p = (case heap q p of None \<Rightarrow> Inl UndefinedBehaviour | Some t \<Rightarrow> Inr t)"

definition new_Timer ::
    "((nat \<rightharpoonup> Timer) \<Rightarrow> nat option) \<Rightarrow> timer_action list \<Rightarrow> Timestamp \<Rightarrow> interval \<Rightarrow> TimerQueue \<Rightarrow> (nat \<times> TimerQueue) res" where
  "new_Timer alloc cb when interval q = (case alloc (heap q) of
       None \<Rightarrow> Inl BadAlloc
     | Some p \<Rightarrow> Inr (p, q\<lparr>heap := (heap q)(p \<mapsto> \<lparr>callback = cb, expiration = when, interval_of = interval,
           repeat = positive interval, sequence = numCreated q + 1\<rparr>), numCreated := numCreated q + 1\<rparr>))"

definition delete_Timer :: "nat \<Rightarrow> TimerQueue \<Rightarrow> TimerQueue res" where
  "delete_Timer p q = bindE (timer_at q p) (\<lambda>_. Inr (q\<lparr>heap := (heap q)(p := None)\<rparr>))"

record timespec =
  tv_sec :: int
  tv_nsec :: int

definition howMuchTimeFromNow :: "Timestamp \<Rightarrow> Timestamp \<Rightarrow> timespec" where
  "howMuchTimeFromNow now when =
     (let microseconds = microSecondsSinceEpoch when - microSecondsSinceEpoch now;
          microseconds = (if microseconds < 100 then 100 else microseconds)
      in \<lparr>tv_sec = microseconds sdiv kMicroSecondsPerSecond,
          tv_nsec = (microseconds smod kMicroSecondsPerSecond) * 1000\<rparr>)"

definition readTimerfd :: "TimerQueue \<Rightarrow> TimerQueue" where
  "readTimerfd q = q\<lparr>timerfd := None\<rparr>"

definition resetTimerfd :: "(nat \<Rightarrow> Timestamp) \<Rightarrow> Timestamp \<Rightarrow> TimerQueue \<Rightarrow> TimerQueue" where
  "resetTimerfd clock expir q =
     (let now = clock (readings q);
          it_value = howMuchTimeFromNow now expir
      in q\<lparr>readings := readings q + 1,
           timerfd := Some (microSecondsSinceEpoch now + tv_sec it_value * kMicroSecondsPerSecond + tv_nsec it_value sdiv 1000)\<rparr>)"

text \<open>\<open>TimerQueue::insert\<close>.\<close>

definition insert_Timer :: "nat \<Rightarrow> TimerQueue \<Rightarrow> (bool \<times> TimerQueue) res" where
  "insert_Timer timer q =
     bindE (assertE (length (timers q) = length (activeTimers q))) (\<lambda>_.
     bindE (timer_at q timer) (\<lambda>t.
       let earliestChanged = (timers q = [] \<or> expiration t < fst (hd (timers q)));
           (timers', added) = set_insert (expiration t, timer) (timers q);
           (active', added') = set_insert (timer, sequence t) (activeTimers q)
       in bindE (assertE added) (\<lambda>_.
          bindE (assertE added') (\<lambda>_.
          bindE (assertE (length timers' = length active')) (\<lambda>_.
            Inr (earliestChanged, q\<lparr>timers := timers', activeTimers := active'\<rparr>))))))"

definition addTimerInLoop :: "(nat \<Rightarrow> Timestamp) \<Rightarrow> nat \<Rightarrow> TimerQueue \<Rightarrow> TimerQueue res" where
  "addTimerInLoop clock timer q =
     bindE (insert_Timer timer q) (\<lambda>(earliestChanged, q').
     bindE (timer_at q' timer) (\<lambda>t.
       Inr (if earliestChanged then resetTimerfd clock (expiration t) q' else q')))"

definition cancelInLoop :: "TimerId \<Rightarrow> TimerQueue \<Rightarrow> TimerQueue res" where
  "cancelInLoop timer q =
     bindE (assertE (length (timers q) = length (activeTimers q))) (\<lambda>_.
     bindE (if timer \<in> set (activeTimers q)
            then bindE (timer_at q (fst timer)) (\<lambda>t.
                 let (timers', n) = set_erase (expiration t, fst timer) (timers q)
                 in bindE (assertE (n = 1)) (\<lambda>_.
                    bindE (delete_Timer (fst timer) (q\<lparr>timers := timers'\<rparr>)) (\<lambda>q'.
                      Inr (q'\<lparr>activeTimers := fst (set_erase timer (activeTimers q'))\<rparr>))))
            else if callingExpiredTimers q
            then Inr (q\<lparr>cancelingTimers := fst (set_insert timer (cancelingTimers q))\<rparr>)
            else Inr q) (\<lambda>q'.
     bindE (assertE (length (timers q') = length (activeTimers q'))) (\<lambda>_. Inr q')))"

text \<open>In the loop thread \<open>runInLoop\<close> runs the functor at once, else the loop runs it later.\<close>

definition addTimer ::
    "((nat \<rightharpoonup> Timer) \<Rightarrow> nat option) \<Rightarrow> (nat \<Rightarrow> Timestamp) \<Rightarrow> bool \<Rightarrow> timer_action list \<Rightarrow> Timestamp \<Rightarrow> interval \<Rightarrow> TimerQueue \<Rightarrow>
     (TimerId \<times> TimerQueue) res" where
  "addTimer alloc clock inLoopThread cb when interval q =
     bindE (new_Timer alloc cb when interval q) (\<lambda>(timer, q').
     bindE (timer_at q' timer) (\<lambda>t.
       if inLoopThread then bindE (addTimerInLoop clock timer q') (\<lambda>q''. Inr ((timer, sequence t), q''))
       else Inr ((timer, sequence t), q'\<lparr>pending := pending q' @ [AddTimerInLoop timer]\<rparr>)))"

definition cancel :: "bool \<Rightarrow> TimerId \<Rightarrow> TimerQueue \<Rightarrow> TimerQueue res" where
  "cancel inLoopThread timerId q =
     (if inLoopThread then cancelInLoop timerId q else Inr (q\<lparr>pending := pending q @ [CancelInLoop timerId]\<rparr>))"

fun run_actions ::
    "((nat \<rightharpoonup> Timer) \<Rightarrow> nat option) \<Rightarrow> (nat \<Rightarrow> Timestamp) \<Rightarrow> timer_action list \<Rightarrow> TimerQueue \<Rightarrow> TimerQueue res" where
  "run_actions alloc clock [] q = Inr q"
| "run_actions alloc clock (AddTimer cb when interval # acts) q =
     bindE (addTimer alloc clock True cb when interval q) (\<lambda>(_, q'). run_actions alloc clock acts q')"
| "run_actions alloc clock (CancelTimer timerId # acts) q =
     bindE (cancel True timerId q) (\<lambda>q'. run_actions alloc clock acts q')"

fun erase_active :: "(Timestamp \<times> nat) list \<Rightarrow> TimerQueue \<Rightarrow> TimerQueue res" where
  "erase_active [] q = Inr q"
| "erase_active (it # expired) q =
     bindE (timer_at q (snd it)) (\<lambda>t.
     let (active', n) = set_erase (snd it, sequence t) (activeTimers q)
     in bindE (assertE (n = 1)) (\<lambda>_. erase_active expired (q\<lparr>activeTimers := active'\<rparr>)))"

definition getExpired :: "Timestamp \<Rightarrow> TimerQueue \<Rightarrow> ((Timestamp \<times> nat) list \<times> TimerQueue) res" where
  "getExpired now q =
     bindE (assertE (length (timers q) = length (activeTimers q))) (\<lambda>_.
     let sentry = (now, UINTPTR_MAX);
         rest = lower_bound sentry (timers q);
         expired = below_bound sentry (timers q)
     in bindE (assertE (rest = [] \<or> now < fst (hd rest))) (\<lambda>_.
        bindE (erase_active expired (q\<lparr>timers := rest\<rparr>)) (\<lambda>q'.
        bindE (assertE (length (timers q') = length (activeTimers q'))) (\<lambda>_. Inr (expired, q')))))"

fun run_expired ::
    "((nat \<rightharpoonup> Timer) \<Rightarrow> nat option) \<Rightarrow> (nat \<Rightarrow> Timestamp) \<Rightarrow> (Timestamp \<times> nat) list \<Rightarrow> TimerQueue \<Rightarrow> TimerQueue res" where
  "run_expired alloc clock [] q = Inr q"
| "run_expired alloc clock (it # expired) q =
     bindE (timer_at q (snd it)) (\<lambda>t.
     bindE (run_actions alloc clock (callback t) (q\<lparr>ran := ran q @ [(snd it, sequence t)]\<rparr>)) (\<lambda>q'.
       run_expired alloc clock expired q'))"

fun reset_expired :: "Timestamp \<Rightarrow> (Timestamp \<times> nat) list \<Rightarrow> TimerQueue \<Rightarrow> TimerQueue res" where
  "reset_expired now [] q = Inr q"
| "reset_expired now (it # expired) q =
     bindE (timer_at q (snd it)) (\<lambda>t.
     bindE (if repeat t \<and> (snd it, sequence t) \<notin> set (cancelingTimers q)
            then bindE (insert_Timer (snd it) (q\<lparr>heap := (heap q)(snd it \<mapsto> restart now t)\<rparr>)) (\<lambda>(_, q'). Inr q')
            else delete_Timer (snd it) q) (\<lambda>q'.
       reset_expired now expired q'))"

definition reset :: "(nat \<Rightarrow> Timestamp) \<Rightarrow> (Timestamp \<times> nat) list \<Rightarrow> Timestamp \<Rightarrow> TimerQueue \<Rightarrow> TimerQueue res" where
  "reset clock expired now q =
     bindE (reset_expired now expired q) (\<lambda>q'.
     bindE (if timers q' \<noteq> [] then bindE (timer_at q' (snd (hd (timers q')))) (\<lambda>t. Inr (expiration t))
            else Inr Timestamp_invalid) (\<lambda>nextExpire.
       Inr (if Timestamp_valid nextExpire then resetTimerfd clock nextExpire q' else q')))"

definition handleRead :: "((nat \<rightharpoonup> Timer) \<Rightarrow> nat option) \<Rightarrow> (nat \<Rightarrow> Timestamp) \<Rightarrow> TimerQueue \<Rightarrow> TimerQueue res" where
  "handleRead alloc clock q =
     (let now = clock (readings q);
          q1 = readTimerfd (q\<lparr>readings := readings q + 1\<rparr>)
      in bindE (getExpired now q1) (\<lambda>(expired, q2).
         bindE (run_expired alloc clock expired (q2\<lparr>callingExpiredTimers := True, cancelingTimers := []\<rparr>)) (\<lambda>q3.
           reset clock expired now (q3\<lparr>callingExpiredTimers := False\<rparr>))))"

text \<open>The loop takes the waiting functors and runs them in order (\<open>EventLoop::doPendingFunctors\<close>).\<close>

fun run_functors :: "(nat \<Rightarrow> Timestamp) \<Rightarrow> timer_functor list \<Rightarrow> TimerQueue \<Rightarrow> TimerQueue res" where
  "run_functors clock [] q = Inr q"
| "run_functors clock (AddTimerInLoop timer # fs) q =
     bindE (addTimerInLoop clock timer q) (\<lambda>q'. run_functors clock fs q')"
| "run_functors clock (CancelInLoop timerId # fs) q =
     bindE (cancelInLoop timerId q) (\<lambda>q'. run_functors clock fs q')"

definition run_pending :: "(nat \<Rightarrow> Timestamp) \<Rightarrow> TimerQueue \<Rightarrow> TimerQueue res" where
  "run_pending clock q = run_functors clock (pending q) (q\<lparr>pending := []\<rparr>)"

section \<open>The invariant of the queue\<close>

text \<open>
  The timers that other threads have created and the loop has not yet inserted, and the invariant: the two sets
  are ordered and name the same timers, the entries carry the expiration and sequence number of the object, and every
  object of the heap is either in the queue, or one of the loose timers \<open>L\<close> (those that \<open>handleRead\<close> has taken out), or waits to be inserted.
\<close>

definition adds :: "timer_functor list \<Rightarrow> nat list" where
  "adds fs = concat (map (\<lambda>f. case f of AddTimerInLoop p \<Rightarrow> [p] | CancelInLoop _ \<Rightarrow> []) fs)"

lemma adds_simps [simp]:
  "adds [] = []" "adds (AddTimerInLoop p # fs) = p # adds fs" "adds (CancelInLoop i # fs) = adds fs"
  "adds (fs @ gs) = adds fs @ adds gs"
  by (simp_all add: adds_def)

definition ids :: "TimerQueue \<Rightarrow> (Timestamp \<times> nat) list \<Rightarrow> TimerId list" where
  "ids q es = map (\<lambda>(w, p). (p, sequence (the (heap q p)))) es"

definition queue_inv :: "nat list \<Rightarrow> TimerQueue \<Rightarrow> bool" where
  "queue_inv L q \<longleftrightarrow>
     sorted_wrt (<) (timers q) \<and> sorted_wrt (<) (activeTimers q)
   \<and> distinct (map snd (timers q) @ L @ adds (pending q))
   \<and> dom (heap q) = set (map snd (timers q) @ L @ adds (pending q))
   \<and> (\<forall>(w, p) \<in> set (timers q). expiration (the (heap q p)) = w)
   \<and> set (activeTimers q) = set (ids q (timers q))
   \<and> (\<forall>p \<in> dom (heap q). p < UINTPTR_MAX)
   \<and> (\<forall>p t. heap q p = Some t \<longrightarrow> repeat t = positive (interval_of t))"

definition allocator :: "((nat \<rightharpoonup> Timer) \<Rightarrow> nat option) \<Rightarrow> bool" where
  "allocator alloc \<longleftrightarrow> (\<forall>h p. alloc h = Some p \<longrightarrow> h p = None \<and> p < UINTPTR_MAX)"

lemma queue_inv_new [simp]: "queue_inv [] new_TimerQueue"
  by (simp add: queue_inv_def new_TimerQueue_def ids_def)

lemma ids_distinct: "distinct (map snd es) \<Longrightarrow> distinct (ids q es)"
  by (induction es) (force simp: ids_def)+

lemma set_distinct_length: "set xs = set ys \<Longrightarrow> distinct xs \<Longrightarrow> distinct ys \<Longrightarrow> length xs = length ys"
  by (metis distinct_card)

lemma queue_inv_lengths: "queue_inv L q \<Longrightarrow> length (activeTimers q) = length (timers q)"
  using set_distinct_length [of "activeTimers q" "ids q (timers q)"] ids_distinct [of "timers q" q]
  by (auto simp: queue_inv_def strict_sorted_iff ids_def)

lemma queue_inv_at:
  assumes "queue_inv L q" "p \<in> set L \<or> p \<in> snd ` set (timers q) \<or> p \<in> set (adds (pending q))"
  obtains t where "heap q p = Some t" "timer_at q p = Inr t"
proof -
  have "p \<in> dom (heap q)" using assms by (auto simp: queue_inv_def)
  then show thesis using that by (auto simp: timer_at_def)
qed

lemma queue_inv_dom:
  assumes "queue_inv L q"
  shows "distinct (map snd (timers q) @ L @ adds (pending q))" "dom (heap q) = set (map snd (timers q) @ L @ adds (pending q))"
    "\<And>p. p \<in> dom (heap q) \<Longrightarrow> p < UINTPTR_MAX" "\<And>w p. (w, p) \<in> set (timers q) \<Longrightarrow> p \<in> dom (heap q)"
    "\<And>p t. heap q p = Some t \<Longrightarrow> repeat t = positive (interval_of t)"
proof -
  show "distinct (map snd (timers q) @ L @ adds (pending q))" "dom (heap q) = set (map snd (timers q) @ L @ adds (pending q))"
    "\<And>p. p \<in> dom (heap q) \<Longrightarrow> p < UINTPTR_MAX" "\<And>p t. heap q p = Some t \<Longrightarrow> repeat t = positive (interval_of t)"
    using assms by (simp_all add: queue_inv_def)
  then show "\<And>w p. (w, p) \<in> set (timers q) \<Longrightarrow> p \<in> dom (heap q)" by (simp add: rev_image_eqI)
qed

lemma queue_inv_entry:
  "queue_inv L q \<Longrightarrow> (w, p) \<in> set (timers q) \<Longrightarrow> \<exists>t. heap q p = Some t \<and> expiration t = w \<and> (p, sequence t) \<in> set (activeTimers q)"
proof -
  assume i: "queue_inv L q" and e: "(w, p) \<in> set (timers q)"
  then have "p \<in> dom (heap q)" by (rule queue_inv_dom(4))
  moreover have "(p, sequence (the (heap q p))) \<in> set (activeTimers q)"
    using i e by (auto simp: queue_inv_def ids_def image_iff intro!: bexI [OF _ e])
  moreover have "expiration (the (heap q p)) = w" using i e by (auto simp: queue_inv_def)
  ultimately show ?thesis by auto
qed

lemma queue_inv_active:
  "queue_inv L q \<Longrightarrow> (p, n) \<in> set (activeTimers q) \<Longrightarrow>
     \<exists>t. heap q p = Some t \<and> sequence t = n \<and> (expiration t, p) \<in> set (timers q)"
proof -
  assume i: "queue_inv L q" and "(p, n) \<in> set (activeTimers q)"
  then obtain w where w: "(w, p) \<in> set (timers q)" "n = sequence (the (heap q p))"
    by (auto simp: queue_inv_def ids_def)
  with queue_inv_entry [OF i w(1)] show ?thesis by auto
qed

lemma queue_inv_loose: "queue_inv (p # L) q \<Longrightarrow> (w, p) \<notin> set (timers q) \<and> p \<notin> set L \<and> p \<notin> set (adds (pending q))"
  by (auto simp: queue_inv_def dest: in_set_zipE) (metis image_eqI snd_conv)

text \<open>Fields the invariant does not depend on.\<close>

lemma queue_inv_fields [simp]:
  "queue_inv L (q\<lparr>ran := a\<rparr>) = queue_inv L q" "queue_inv L (q\<lparr>readings := b\<rparr>) = queue_inv L q"
  "queue_inv L (q\<lparr>timerfd := c\<rparr>) = queue_inv L q" "queue_inv L (q\<lparr>callingExpiredTimers := d\<rparr>) = queue_inv L q"
  "queue_inv L (q\<lparr>cancelingTimers := e\<rparr>) = queue_inv L q"
  by (simp_all add: queue_inv_def ids_def)

lemma ids_cong: "(\<And>w p. (w, p) \<in> set es \<Longrightarrow> heap q' p = heap q p) \<Longrightarrow> ids q' es = ids q es"
  by (auto simp: ids_def)

lemma queue_inv_heap_cong:
  assumes "queue_inv L q" "\<And>w p. (w, p) \<in> set (timers q) \<Longrightarrow> h p = heap q p"
    and "distinct (map snd (timers q) @ L' @ adds (pending q))"
    and "dom h = set (map snd (timers q) @ L' @ adds (pending q))" "\<And>p. p \<in> dom h \<Longrightarrow> p < UINTPTR_MAX"
    and "\<And>p t. h p = Some t \<Longrightarrow> repeat t = positive (interval_of t)"
  shows "queue_inv L' (q\<lparr>heap := h\<rparr>)"
proof -
  have "ids (q\<lparr>heap := h\<rparr>) (timers q) = ids q (timers q)"
    using assms(2) by (intro ids_cong) simp
  moreover have "\<forall>(w, p) \<in> set (timers q). expiration (the (h p)) = w"
    using assms(1,2) by (auto simp: queue_inv_def)
  ultimately show ?thesis using assms by (simp add: queue_inv_def)
qed

lemma queue_inv_numCreated [simp]: "queue_inv L (q\<lparr>numCreated := n\<rparr>) = queue_inv L q"
  by (simp add: queue_inv_def ids_def)

lemma queue_inv_new_Timer:
  assumes i: "queue_inv L q" and p: "heap q p = None" "p < UINTPTR_MAX" and r: "repeat t = positive (interval_of t)"
  shows "queue_inv (p # L) (q\<lparr>heap := (heap q)(p \<mapsto> t)\<rparr>)"
proof -
  have "p \<notin> set (map snd (timers q) @ L @ adds (pending q))"
    using queue_inv_dom(2) [OF i] p(1) by (metis domIff)
  then show ?thesis
    using queue_inv_dom [OF i] p r by (intro queue_inv_heap_cong [OF i]) (auto simp: domIff split: if_splits)
qed

lemma queue_inv_update:
  assumes i: "queue_inv (p # L) q" and r: "repeat t = positive (interval_of t)"
  shows "queue_inv (p # L) (q\<lparr>heap := (heap q)(p \<mapsto> t)\<rparr>)"
  using queue_inv_dom [OF i] queue_inv_loose [OF i] r
  by (intro queue_inv_heap_cong [OF i]) (auto split: if_splits)

lemma queue_inv_delete:
  assumes i: "queue_inv (p # L) q"
  shows "queue_inv L (q\<lparr>heap := (heap q)(p := None)\<rparr>)"
  using queue_inv_dom [OF i] queue_inv_loose [OF i]
  by (intro queue_inv_heap_cong [OF i]) (auto split: if_splits)

lemma queue_inv_pend:
  "queue_inv (p # L) q \<Longrightarrow> queue_inv L (q\<lparr>pending := pending q @ [AddTimerInLoop p]\<rparr>)"
  "queue_inv L (q\<lparr>pending := pending q @ [CancelInLoop i]\<rparr>) = queue_inv L q"
  by (auto simp: queue_inv_def ids_def)

lemma queue_inv_take_pending: "queue_inv [] q \<Longrightarrow> queue_inv (adds (pending q)) (q\<lparr>pending := []\<rparr>)"
  by (simp add: queue_inv_def ids_def)

lemma distinct_map_insort: "distinct (map f (insort x xs)) \<longleftrightarrow> f x \<notin> f ` set xs \<and> distinct (map f xs)"
  by (induction xs) (auto simp: set_insort_key)

lemma queue_inv_insert:
  assumes i: "queue_inv (p # L) q" and t: "heap q p = Some t"
  shows "queue_inv L (q\<lparr>timers := insort (expiration t, p) (timers q), activeTimers := insort (p, sequence t) (activeTimers q)\<rparr>)"
    and "insert_Timer p q = Inr (timers q = [] \<or> expiration t < fst (hd (timers q)),
      q\<lparr>timers := insort (expiration t, p) (timers q), activeTimers := insort (p, sequence t) (activeTimers q)\<rparr>)"
proof -
  have new: "(expiration t, p) \<notin> set (timers q)" "(p, sequence t) \<notin> set (activeTimers q)"
    using queue_inv_loose [OF i] queue_inv_active [OF i] by blast+
  have d: "distinct (map snd (insort (expiration t, p) (timers q)) @ L @ adds (pending q))"
    using queue_inv_dom(1) [OF i] by (auto simp: set_insort_key distinct_map_insort)
  show "queue_inv L (q\<lparr>timers := insort (expiration t, p) (timers q), activeTimers := insort (p, sequence t) (activeTimers q)\<rparr>)"
    using i d t new by (simp add: queue_inv_def set_insort_key ids_def)
  show "insert_Timer p q = Inr (timers q = [] \<or> expiration t < fst (hd (timers q)),
      q\<lparr>timers := insort (expiration t, p) (timers q), activeTimers := insort (p, sequence t) (activeTimers q)\<rparr>)"
    using new t queue_inv_lengths [OF i] by (simp add: insert_Timer_def timer_at_def set_insert_def Let_def)
qed

lemma queue_inv_erase:
  assumes i: "queue_inv L q" and e: "(w, p) \<in> set (timers q)" and t: "heap q p = Some t"
  shows "queue_inv (p # L) (q\<lparr>timers := filter (\<lambda>y. y \<noteq> (w, p)) (timers q),
    activeTimers := filter (\<lambda>y. y \<noteq> (p, sequence t)) (activeTimers q)\<rparr>)"
proof -
  let ?ts = "filter (\<lambda>y. y \<noteq> (w, p)) (timers q)"
  have unique: "v = w" if "(v, p) \<in> set (timers q)" for v
    using queue_inv_entry [OF i that] queue_inv_entry [OF i e] by auto
  have "set ?ts = set (timers q) - {(w, p)}" by auto
  then have "insert (w, p) (set ?ts) = set (timers q)" using e by auto
  then have snds: "insert p (snd ` set ?ts) = snd ` set (timers q)" "p \<notin> snd ` set ?ts"
    by (metis image_insert snd_conv) (auto dest: unique)
  have d: "distinct (map snd ?ts)"
    using queue_inv_dom(1) [OF i] by (simp add: distinct_map_filter)
  have a: "set (filter (\<lambda>y. y \<noteq> (p, sequence t)) (activeTimers q)) = set (ids q ?ts)"
    using i t unique by (auto simp: queue_inv_def ids_def)
  have "sorted_wrt (<) ?ts" "sorted_wrt (<) (filter (\<lambda>y. y \<noteq> (p, sequence t)) (activeTimers q))"
    using i by (simp_all add: queue_inv_def sorted_wrt_filter)
  moreover have "distinct (map snd ?ts @ (p # L) @ adds (pending q))"
    using queue_inv_dom(1) [OF i] d snds by (simp flip: snds(1))
  moreover have "dom (heap q) = set (map snd ?ts @ (p # L) @ adds (pending q))"
    using queue_inv_dom(2) [OF i] by (simp flip: snds(1))
  moreover have "\<forall>(w, p) \<in> set ?ts. expiration (the (heap q p)) = w"
    using i by (auto simp: queue_inv_def)
  moreover have "ids (q\<lparr>timers := ?ts, activeTimers := filter (\<lambda>y. y \<noteq> (p, sequence t)) (activeTimers q)\<rparr>) ?ts = ids q ?ts"
    by (rule ids_cong) simp
  ultimately show ?thesis
    using a queue_inv_dom(3,5) [OF i] unfolding queue_inv_def by simp
qed

section \<open>The kernel timer\<close>

text \<open>
  While there are timers the kernel timer is armed, for no later than the earliest expiration or 100 microseconds after
  the clock (\<open>armed\<close>). Between the two halves of \<open>handleRead\<close> this may fail for timers that expire after the epoch
  only (\<open>rearmed\<close>): for these \<open>reset\<close> arms it again.
\<close>

definition monotone_clock :: "(nat \<Rightarrow> Timestamp) \<Rightarrow> bool" where
  "monotone_clock clock \<longleftrightarrow> (\<forall>n. 0 < microSecondsSinceEpoch (clock n))
     \<and> (\<forall>m n. m \<le> n \<longrightarrow> microSecondsSinceEpoch (clock m) \<le> microSecondsSinceEpoch (clock n))"

definition armed :: "(nat \<Rightarrow> Timestamp) \<Rightarrow> TimerQueue \<Rightarrow> bool" where
  "armed clock q \<longleftrightarrow> timers q = [] \<or> (\<exists>s. timerfd q = Some s
     \<and> s \<le> max (microSecondsSinceEpoch (fst (hd (timers q)))) (microSecondsSinceEpoch (clock (readings q)) + 100))"

definition rearmed :: "(nat \<Rightarrow> Timestamp) \<Rightarrow> TimerQueue \<Rightarrow> bool" where
  "rearmed clock q \<longleftrightarrow> armed clock q \<or> Timestamp_valid (fst (hd (timers q)))"

definition safe_step :: "(nat \<Rightarrow> Timestamp) \<Rightarrow> nat list \<Rightarrow> TimerQueue \<Rightarrow> TimerQueue \<Rightarrow> bool" where
  "safe_step clock L q q' \<longleftrightarrow> queue_inv L q' \<and> (\<forall>p \<in> set L. heap q' p = heap q p) \<and> ran q' = ran q \<and> pending q' = pending q
     \<and> callingExpiredTimers q' = callingExpiredTimers q
     \<and> (armed clock q \<longrightarrow> armed clock q') \<and> (rearmed clock q \<longrightarrow> rearmed clock q')"

lemma safe_step_refl: "queue_inv L q \<Longrightarrow> safe_step clock L q q"
  by (simp add: safe_step_def)

lemma safe_step_trans: "safe_step clock L q q' \<Longrightarrow> safe_step clock L q' q'' \<Longrightarrow> safe_step clock L q q''"
  by (simp add: safe_step_def)

lemma resetTimerfd_eq:
  "resetTimerfd clock e q = q\<lparr>readings := readings q + 1,
     timerfd := Some (max (microSecondsSinceEpoch (clock (readings q)) + 100) (microSecondsSinceEpoch e))\<rparr>"
proof -
  have split: "x sdiv kMicroSecondsPerSecond * kMicroSecondsPerSecond + (x smod kMicroSecondsPerSecond * 1000) sdiv 1000 = x" if "0 \<le> x" for x
    using that by (simp add: kMicroSecondsPerSecond_def)
  show ?thesis
    by (simp add: resetTimerfd_def howMuchTimeFromNow_def Let_def split add.assoc)
qed

lemma armed_reset:
  assumes "monotone_clock clock" "timers q \<noteq> []" "fst (hd (timers q)) = e"
  shows "armed clock (resetTimerfd clock e q)"
proof -
  have "microSecondsSinceEpoch (clock (readings q)) \<le> microSecondsSinceEpoch (clock (readings q + 1))"
    using assms(1) by (simp add: monotone_clock_def)
  with assms show ?thesis by (auto simp: armed_def resetTimerfd_eq)
qed

lemma queue_inv_resetTimerfd [simp]: "queue_inv L (resetTimerfd clock e q) = queue_inv L q"
  by (simp add: resetTimerfd_eq queue_inv_def ids_def)

lemma fst_hd_insort:
  "ts = [] \<or> w < fst (hd ts) \<Longrightarrow> fst (hd (insort (w, p) ts)) = w"
  "ts \<noteq> [] \<Longrightarrow> \<not> w < fst (hd ts) \<Longrightarrow> fst (hd (insort (w, p) ts)) = fst (hd ts)"
  by (cases ts; auto simp: less_eq_prod_def not_less)+

lemma armed_later:
  assumes "armed clock q" "timers q' \<noteq> [] \<Longrightarrow> timers q \<noteq> [] \<and> fst (hd (timers q)) \<le> fst (hd (timers q'))"
    and "timerfd q' = timerfd q" "readings q' = readings q"
  shows "armed clock q'"
proof (cases "timers q' = []")
  case False
  then show ?thesis using assms by (fastforce simp: armed_def less_eq_Timestamp_def)
qed (simp add: armed_def)

lemma rearmed_later:
  assumes "rearmed clock q" "timers q' \<noteq> [] \<Longrightarrow> timers q \<noteq> [] \<and> fst (hd (timers q)) \<le> fst (hd (timers q'))"
    and "timerfd q' = timerfd q" "readings q' = readings q"
  shows "rearmed clock q'"
proof (cases "timers q' = [] \<or> armed clock q")
  case True
  then show ?thesis using armed_later [of clock q q'] assms by (auto simp: rearmed_def armed_def)
next
  case False
  then show ?thesis using assms by (auto simp: rearmed_def Timestamp_valid_def less_eq_Timestamp_def)
qed

section \<open>The operations keep the invariant\<close>

lemma addTimerInLoop_ok:
  assumes c: "monotone_clock clock" and i: "queue_inv (p # L) q"
  shows "\<exists>q'. addTimerInLoop clock p q = Inr q' \<and> safe_step clock L q q'"
proof -
  obtain t where t: "heap q p = Some t" using queue_inv_at [OF i] by (metis list.set_intros(1))
  let ?q = "q\<lparr>timers := insort (expiration t, p) (timers q), activeTimers := insort (p, sequence t) (activeTimers q)\<rparr>"
  let ?first = "timers q = [] \<or> expiration t < fst (hd (timers q))"
  have "addTimerInLoop clock p q = Inr (if ?first then resetTimerfd clock (expiration t) ?q else ?q)"
    using queue_inv_insert(2) [OF i t] t by (simp add: addTimerInLoop_def timer_at_def)
  moreover have "safe_step clock L q (if ?first then resetTimerfd clock (expiration t) ?q else ?q)"
  proof (cases ?first)
    case True
    then have "armed clock (resetTimerfd clock (expiration t) ?q)"
      using fst_hd_insort(1) by (intro armed_reset [OF c]) (auto simp: insort_not_Nil)
    with True queue_inv_insert(1) [OF i t] show ?thesis
      by (simp add: safe_step_def rearmed_def) (simp add: resetTimerfd_eq)
  next
    case False
    then have "fst (hd (timers ?q)) = fst (hd (timers q))" using fst_hd_insort(2) by auto
    then have "armed clock q \<Longrightarrow> armed clock ?q" "rearmed clock q \<Longrightarrow> rearmed clock ?q"
      using False by (auto intro!: armed_later [of clock q] rearmed_later [of clock q])
    with False queue_inv_insert(1) [OF i t] show ?thesis by (simp add: safe_step_def)
  qed
  ultimately show ?thesis by blast
qed

lemma cancelInLoop_ok:
  assumes i: "queue_inv L q"
  shows "\<exists>q'. cancelInLoop timer q = Inr q' \<and> safe_step clock L q q'"
proof (cases "timer \<in> set (activeTimers q)")
  case True
  obtain p n where pn: "timer = (p, n)" by (cases timer)
  with True queue_inv_active [OF i] obtain t
    where t: "heap q p = Some t" "sequence t = n" "(expiration t, p) \<in> set (timers q)" by blast
  let ?e = "(expiration t, p)"
  let ?q = "q\<lparr>timers := filter (\<lambda>y. y \<noteq> ?e) (timers q), activeTimers := filter (\<lambda>y. y \<noteq> (p, sequence t)) (activeTimers q)\<rparr>"
  let ?q' = "?q\<lparr>heap := (heap ?q)(p := None)\<rparr>"
  have i': "queue_inv L ?q'" using queue_inv_delete [OF queue_inv_erase [OF i t(3) t(1)]] .
  have eq: "cancelInLoop timer q = Inr ?q'"
    using True pn t queue_inv_lengths [OF i] queue_inv_lengths [OF i']
    by (simp add: cancelInLoop_def timer_at_def set_erase_def delete_Timer_def Let_def)
  have "p \<notin> set L" using queue_inv_loose [OF queue_inv_erase [OF i t(3) t(1)]] by blast
  have later: "timers ?q' \<noteq> [] \<Longrightarrow> timers q \<noteq> [] \<and> fst (hd (timers q)) \<le> fst (hd (timers ?q'))"
  proof -
    assume "timers ?q' \<noteq> []"
    then have "hd (timers ?q') \<in> set (timers ?q')" by (rule hd_in_set)
    then have "hd (timers ?q') \<in> set (timers q)" by simp
    moreover have "sorted (timers q)" using i by (simp add: queue_inv_def strict_sorted_iff)
    ultimately have "hd (timers q) \<le> hd (timers ?q')" "timers q \<noteq> []" by (cases "timers q"; auto)+
    then show ?thesis by (auto simp: less_eq_prod_def)
  qed
  have "armed clock q \<longrightarrow> armed clock ?q'" "rearmed clock q \<longrightarrow> rearmed clock ?q'"
    using armed_later [of clock q ?q', OF _ later] rearmed_later [of clock q ?q', OF _ later] by simp_all
  then have "safe_step clock L q ?q'"
    using i' \<open>p \<notin> set L\<close> by (auto simp: safe_step_def)
  with eq show ?thesis by blast
next
  case False
  then show ?thesis
    using i queue_inv_lengths [OF i] by (auto simp: cancelInLoop_def safe_step_def armed_def rearmed_def)
qed

lemma addTimer_ok:
  assumes a: "allocator alloc" and c: "monotone_clock clock" and i: "queue_inv L q"
  shows "addTimer alloc clock True cb when iv q = Inl BadAlloc
    \<or> (\<exists>i q'. addTimer alloc clock True cb when iv q = Inr (i, q') \<and> safe_step clock L q q')"
proof (cases "alloc (heap q)")
  case None
  then show ?thesis by (simp add: addTimer_def new_Timer_def)
next
  case (Some p)
  let ?t = "\<lparr>callback = cb, expiration = when, interval_of = iv, repeat = positive iv, sequence = numCreated q + 1\<rparr>"
  let ?q = "q\<lparr>heap := (heap q)(p \<mapsto> ?t), numCreated := numCreated q + 1\<rparr>"
  have p: "heap q p = None" "p < UINTPTR_MAX" using a Some by (auto simp: allocator_def)
  have i1: "queue_inv (p # L) ?q" using queue_inv_new_Timer [OF i p, of ?t] by simp
  then obtain q' where q': "addTimerInLoop clock p ?q = Inr q'" "safe_step clock L ?q q'"
    using addTimerInLoop_ok [OF c] by blast
  have "p \<notin> set L" using queue_inv_loose [OF i1] by simp
  then have "safe_step clock L q q'" using q'(2) by (auto simp: safe_step_def armed_def rearmed_def)
  moreover have "addTimer alloc clock True cb when iv q = Inr ((p, numCreated q + 1), q')"
    using Some q'(1) by (simp add: addTimer_def new_Timer_def timer_at_def)
  ultimately show ?thesis by blast
qed

lemma addTimer_other_thread:
  assumes a: "allocator alloc" and i: "queue_inv [] q" and m: "armed clock q"
  shows "addTimer alloc clock False cb when iv q = Inl BadAlloc
    \<or> (\<exists>i q'. addTimer alloc clock False cb when iv q = Inr (i, q') \<and> queue_inv [] q' \<and> armed clock q')"
proof (cases "alloc (heap q)")
  case None
  then show ?thesis by (simp add: addTimer_def new_Timer_def)
next
  case (Some p)
  have p: "heap q p = None" "p < UINTPTR_MAX" using a Some by (auto simp: allocator_def)
  let ?t = "\<lparr>callback = cb, expiration = when, interval_of = iv, repeat = positive iv, sequence = numCreated q + 1\<rparr>"
  have i1: "queue_inv [p] (q\<lparr>heap := (heap q)(p \<mapsto> ?t)\<rparr>)" using queue_inv_new_Timer [OF i p, of ?t] by simp
  show ?thesis
    using Some m queue_inv_pend(1) [OF iffD2 [OF queue_inv_numCreated i1]]
    by (simp add: addTimer_def new_Timer_def timer_at_def armed_def)
qed

lemma timer_actions_ok:
  assumes a: "allocator alloc" and c: "monotone_clock clock"
  shows "queue_inv L q \<Longrightarrow> run_actions alloc clock acts q = Inl BadAlloc
    \<or> (\<exists>q'. run_actions alloc clock acts q = Inr q' \<and> safe_step clock L q q')"
proof (induction acts arbitrary: q)
  case Nil
  then show ?case by (simp add: safe_step_refl)
next
  case (Cons act acts)
  have next_: "run_actions alloc clock acts q1 = Inl BadAlloc
      \<or> (\<exists>q'. run_actions alloc clock acts q1 = Inr q' \<and> safe_step clock L q q')" if "safe_step clock L q q1" for q1
    using that Cons.IH [of q1] safe_step_trans by (auto simp: safe_step_def)
  show ?case
  proof (cases act)
    case (AddTimer cb at iv)
    from addTimer_ok [OF a c Cons.prems, of cb at iv] show ?thesis
    proof (elim disjE exE conjE)
      fix i q1 assume "addTimer alloc clock True cb at iv q = Inr (i, q1)" "safe_step clock L q q1"
      then show ?thesis using next_ [of q1] AddTimer by simp
    qed (simp add: AddTimer)
  next
    case (CancelTimer i)
    from cancelInLoop_ok [OF Cons.prems, of i clock]
    obtain q1 where "cancelInLoop i q = Inr q1" "safe_step clock L q q1" by blast
    then show ?thesis using next_ [of q1] CancelTimer by (simp add: cancel_def)
  qed
qed

section \<open>Expiry\<close>

lemma before_sentry: "p < UINTPTR_MAX \<Longrightarrow> ((w, p) < (now, UINTPTR_MAX)) \<longleftrightarrow> w \<le> now" for now :: Timestamp
  by (auto simp: less_prod_def' dest: less_imp_le)

lemma erase_active_eq:
  "distinct (map snd es) \<Longrightarrow> (\<And>w p. (w, p) \<in> set es \<Longrightarrow> p \<in> dom (heap q)) \<Longrightarrow> set (ids q es) \<subseteq> set (activeTimers q) \<Longrightarrow>
   erase_active es q = Inr (q\<lparr>activeTimers := filter (\<lambda>y. y \<notin> set (ids q es)) (activeTimers q)\<rparr>)"
proof (induction es arbitrary: q)
  case (Cons e es)
  obtain w p where e: "e = (w, p)" by (cases e)
  obtain t where t: "heap q p = Some t" using Cons.prems(2) [of w p] e by auto
  let ?q = "q\<lparr>activeTimers := filter (\<lambda>y. y \<noteq> (p, sequence t)) (activeTimers q)\<rparr>"
  have ids: "ids ?q es = ids q es" by (rule ids_cong) simp
  have "(p, sequence t) \<notin> set (ids q es)" using Cons.prems(1) e by (force simp: ids_def)
  moreover have "set (ids q es) \<subseteq> set (activeTimers q)" using Cons.prems(3) by (simp add: ids_def)
  ultimately have "set (ids ?q es) \<subseteq> set (activeTimers ?q)" unfolding ids by auto
  moreover have "\<And>w p. (w, p) \<in> set es \<Longrightarrow> p \<in> dom (heap ?q)" using Cons.prems(2) by auto
  ultimately have "erase_active es ?q = Inr (?q\<lparr>activeTimers := filter (\<lambda>y. y \<notin> set (ids ?q es)) (activeTimers ?q)\<rparr>)"
    using Cons.prems(1) by (intro Cons.IH) simp_all
  then show ?case
    using Cons.prems(3) e t unfolding ids by (simp add: timer_at_def set_erase_def ids_def conj_commute)
qed (simp add: ids_def)

lemma getExpired_ok:
  fixes now :: Timestamp
  assumes i: "queue_inv [] q"
  defines "expired \<equiv> filter (\<lambda>(w, p). w \<le> now) (timers q)"
  shows "\<exists>q'. getExpired now q = Inr (expired, q') \<and> queue_inv (map snd expired) q'
    \<and> heap q' = heap q \<and> ran q' = ran q \<and> pending q' = pending q \<and> readings q' = readings q
    \<and> timers q' = filter (\<lambda>(w, p). \<not> w \<le> now) (timers q)"
proof -
  let ?live = "filter (\<lambda>(w, p). \<not> w \<le> now) (timers q)"
  let ?q = "q\<lparr>timers := ?live\<rparr>"
  let ?q' = "?q\<lparr>activeTimers := filter (\<lambda>y. y \<notin> set (ids q expired)) (activeTimers q)\<rparr>"
  have s: "sorted_wrt (<) (timers q)" using i by (simp add: queue_inv_def)
  have "p < UINTPTR_MAX" if "(w, p) \<in> set (timers q)" for w p
    using queue_inv_dom(3,4) [OF i] that by blast
  then have below: "below_bound (now, UINTPTR_MAX) (timers q) = expired"
    and above: "lower_bound (now, UINTPTR_MAX) (timers q) = ?live"
    unfolding below_bound_filter [OF s] lower_bound_filter [OF s] expired_def
    by (auto simp: before_sentry intro!: filter_cong)
  have parts: "timers q = expired @ ?live" using bounds_split [of "(now, UINTPTR_MAX)" "timers q"] below above by simp
  have d: "distinct (map snd (timers q) @ adds (pending q))" using queue_inv_dom(1) [OF i] by simp
  have sub: "set (ids q expired) \<subseteq> set (activeTimers q)" "\<And>w p. (w, p) \<in> set expired \<Longrightarrow> p \<in> dom (heap q)"
    using i queue_inv_dom(4) [OF i] by (auto simp: queue_inv_def ids_def expired_def)
  have q1: "ids ?q expired = ids q expired" by (rule ids_cong) simp
  have erased: "erase_active expired ?q = Inr ?q'"
    using erase_active_eq [of expired ?q] d sub parts q1 by (simp add: distinct_map_filter expired_def)
  have active: "set (activeTimers ?q') = set (ids q ?live)"
  proof -
    have "set (activeTimers q) = set (ids q expired) \<union> set (ids q ?live)"
      using i arg_cong [OF parts, of "\<lambda>ts. set (ids q ts)"] by (simp add: queue_inv_def ids_def)
    moreover have "set (ids q expired) \<inter> set (ids q ?live) = {}"
      using d by (force simp: ids_def expired_def distinct_map inj_on_def)
    ultimately show ?thesis by auto
  qed
  have "map snd (timers q) = map snd expired @ map snd ?live" using arg_cong [OF parts, of "map snd"] by simp
  then have "distinct (map snd ?live @ map snd expired @ adds (pending q))"
    and "dom (heap q) = set (map snd ?live @ map snd expired @ adds (pending q))"
    using d queue_inv_dom(2) [OF i] by auto
  moreover have "\<forall>(w, p) \<in> set ?live. expiration (the (heap q p)) = w"
    using i by (auto simp: queue_inv_def)
  moreover have "ids ?q' ?live = ids q ?live" by (rule ids_cong) simp
  moreover have "sorted_wrt (<) ?live" "sorted_wrt (<) (activeTimers ?q')"
    using i by (simp_all add: queue_inv_def sorted_wrt_filter)
  ultimately have inv: "queue_inv (map snd expired) ?q'"
    using active queue_inv_dom(3,5) [OF i] unfolding queue_inv_def by simp
  have "hd ?live \<in> set ?live" if "?live \<noteq> []" using that by (rule hd_in_set)
  then have "?live = [] \<or> now < fst (hd ?live)" by (force simp: not_le)
  then have "getExpired now q = Inr (expired, ?q')"
    using queue_inv_lengths [OF i] queue_inv_lengths [OF inv] erased
    by (simp add: getExpired_def Let_def below above)
  with inv show ?thesis by auto
qed

lemma run_expired_ok:
  assumes a: "allocator alloc" and c: "monotone_clock clock"
  shows "queue_inv L q \<Longrightarrow> snd ` set es \<subseteq> set L \<Longrightarrow> rearmed clock q \<Longrightarrow>
    run_expired alloc clock es q = Inl BadAlloc
    \<or> (\<exists>q'. run_expired alloc clock es q = Inr q' \<and> queue_inv L q' \<and> rearmed clock q' \<and> (\<forall>p \<in> set L. heap q' p = heap q p)
        \<and> ran q' = ran q @ ids q es \<and> pending q' = pending q)"
proof (induction es arbitrary: q)
  case Nil
  then show ?case by (simp add: ids_def)
next
  case (Cons e es)
  obtain w p where e: "e = (w, p)" by (cases e)
  with Cons.prems have pL: "p \<in> set L" by auto
  then obtain t where t: "heap q p = Some t" using queue_inv_at [OF Cons.prems(1)] by blast
  let ?q = "q\<lparr>ran := ran q @ [(p, sequence t)]\<rparr>"
  have r: "rearmed clock ?q" using Cons.prems(3) by (simp add: rearmed_def armed_def)
  have "run_actions alloc clock (callback t) ?q = Inl BadAlloc
      \<or> (\<exists>q1. run_actions alloc clock (callback t) ?q = Inr q1 \<and> safe_step clock L ?q q1)"
    using timer_actions_ok [OF a c, of L ?q] Cons.prems(1) by simp
  then show ?case
  proof (elim disjE exE conjE)
    fix q1 assume q1: "run_actions alloc clock (callback t) ?q = Inr q1" "safe_step clock L ?q q1"
    then have f: "queue_inv L q1" "rearmed clock q1" "\<And>p. p \<in> set L \<Longrightarrow> heap q1 p = heap q p"
      "ran q1 = ran q @ [(p, sequence t)]" "pending q1 = pending q"
      using r by (auto simp: safe_step_def)
    have "ids q1 es = ids q es" using f(3) Cons.prems(2) by (intro ids_cong) force
    then show ?thesis
      using Cons.IH [OF f(1) _ f(2)] Cons.prems(2) q1(1) f e t by (auto simp: timer_at_def ids_def)
  qed (use e t in \<open>simp add: timer_at_def\<close>)
qed

text \<open>What becomes of a timer that expired: it runs again if it repeats and no callback cancelled it, else it is deleted.\<close>

definition settled :: "Timestamp \<Rightarrow> TimerQueue \<Rightarrow> TimerId list \<Rightarrow> TimerQueue \<Rightarrow> nat \<Rightarrow> bool" where
  "settled now q canceled q' p \<longleftrightarrow> (case heap q p of None \<Rightarrow> False | Some t \<Rightarrow>
     if repeat t \<and> (p, sequence t) \<notin> set canceled
     then heap q' p = Some (restart now t) \<and> (addTime now (interval_of t), p) \<in> set (timers q')
     else heap q' p = None)"

lemma reset_expired_step:
  assumes i: "queue_inv (p # L) q" and r: "rearmed clock q" and now: "Timestamp_valid now" and t: "heap q p = Some t"
  shows "\<exists>q1. queue_inv L q1 \<and> rearmed clock q1 \<and> settled now q (cancelingTimers q) q1 p
    \<and> (\<forall>p'. p' \<noteq> p \<longrightarrow> heap q1 p' = heap q p') \<and> set (timers q) \<subseteq> set (timers q1) \<and> ran q1 = ran q \<and> pending q1 = pending q
    \<and> cancelingTimers q1 = cancelingTimers q
    \<and> (\<forall>es. reset_expired now ((w, p) # es) q = reset_expired now es q1)"
proof (cases "repeat t \<and> (p, sequence t) \<notin> set (cancelingTimers q)")
  case True
  let ?q = "q\<lparr>heap := (heap q)(p \<mapsto> restart now t)\<rparr>"
  have rp: "repeat (restart now t) = positive (interval_of (restart now t))" "positive (interval_of t)"
    using queue_inv_dom(5) [OF i t] True by (auto simp: restart_def)
  have i': "queue_inv (p # L) ?q" by (rule queue_inv_update [OF i rp(1)])
  have rt: "expiration (restart now t) = addTime now (interval_of t)" "sequence (restart now t) = sequence t"
    using True by (simp_all add: restart_def)
  note ins = queue_inv_insert [OF i', of "restart now t"]
  let ?q1 = "?q\<lparr>timers := insort (expiration (restart now t), p) (timers ?q),
    activeTimers := insort (p, sequence (restart now t)) (activeTimers ?q)\<rparr>"
  have valid: "Timestamp_valid (addTime now (interval_of t))"
    using now positive_micros [OF rp(2)] by (simp add: Timestamp_valid_def addTime_def)
  have "rearmed clock ?q1"
  proof (cases "timers q = [] \<or> expiration (restart now t) < fst (hd (timers q))")
    case True
    then have "fst (hd (timers ?q1)) = addTime now (interval_of t)"
      using fst_hd_insort(1) [of "timers q" "expiration (restart now t)" p] rt by simp
    then show ?thesis using valid by (simp add: rearmed_def)
  next
    case False
    then show ?thesis
      using fst_hd_insort(2) [of "timers q" "expiration (restart now t)" p] by (intro rearmed_later [OF r]) auto
  qed
  then show ?thesis using ins True t rt by (intro exI [of _ ?q1]) (auto simp: settled_def timer_at_def set_insort_key)
next
  case False
  let ?q1 = "q\<lparr>heap := (heap q)(p := None)\<rparr>"
  have "rearmed clock ?q1" using r by (simp add: rearmed_def armed_def)
  then show ?thesis
    using queue_inv_delete [OF i] False t
    by (intro exI [of _ ?q1]) (auto simp: settled_def timer_at_def delete_Timer_def)
qed

lemma settled_cong: "heap q1 p = heap q p \<Longrightarrow> settled now q1 c q' p = settled now q c q' p"
  by (simp add: settled_def)

lemma reset_expired_ok:
  assumes "Timestamp_valid now"
  shows "queue_inv (map snd es) q \<Longrightarrow> rearmed clock q \<Longrightarrow>
    \<exists>q'. reset_expired now es q = Inr q' \<and> queue_inv [] q' \<and> rearmed clock q' \<and> (\<forall>p. p \<notin> snd ` set es \<longrightarrow> heap q' p = heap q p)
      \<and> (\<forall>p \<in> snd ` set es. settled now q (cancelingTimers q) q' p) \<and> set (timers q) \<subseteq> set (timers q')
      \<and> ran q' = ran q \<and> pending q' = pending q \<and> cancelingTimers q' = cancelingTimers q"
proof (induction es arbitrary: q)
  case (Cons e es)
  obtain w p where e: "e = (w, p)" by (cases e)
  have i: "queue_inv (p # map snd es) q" using Cons.prems(1) e by simp
  then obtain t where t: "heap q p = Some t" using queue_inv_at [OF i] by (metis list.set_intros(1))
  have pn: "p \<notin> snd ` set es" using queue_inv_loose [OF i] by simp
  obtain q1 where q1: "queue_inv (map snd es) q1" "rearmed clock q1" "settled now q (cancelingTimers q) q1 p"
      "\<And>p'. p' \<noteq> p \<Longrightarrow> heap q1 p' = heap q p'" "set (timers q) \<subseteq> set (timers q1)" "ran q1 = ran q" "pending q1 = pending q"
      "cancelingTimers q1 = cancelingTimers q" "\<And>es. reset_expired now ((w, p) # es) q = reset_expired now es q1"
    using reset_expired_step [OF i Cons.prems(2) assms t, of w] by blast
  obtain q' where q': "reset_expired now es q1 = Inr q'" "queue_inv [] q'" "rearmed clock q'"
      "\<And>p. p \<notin> snd ` set es \<Longrightarrow> heap q' p = heap q1 p" "\<And>p. p \<in> snd ` set es \<Longrightarrow> settled now q1 (cancelingTimers q1) q' p"
      "set (timers q1) \<subseteq> set (timers q')" "ran q' = ran q1" "pending q' = pending q1" "cancelingTimers q' = cancelingTimers q1"
    using Cons.IH [OF q1(1,2)] by blast
  have "settled now q (cancelingTimers q) q' p"
    using q1(3) q'(4) [OF pn] q'(6) by (auto simp: settled_def split: option.splits if_splits)
  moreover have "settled now q (cancelingTimers q) q' p'" if "p' \<in> snd ` set es" for p'
  proof -
    have "p' \<noteq> p" using pn that by metis
    then show ?thesis using q'(5) [OF that] q1(4) [of p'] q1(8) settled_cong by metis
  qed
  ultimately show ?case
    using q1 q' e by (intro exI [of _ q']) auto
qed simp

lemma reset_ok:
  assumes now: "Timestamp_valid now" and c: "monotone_clock clock" and i: "queue_inv (map snd es) q" and r: "rearmed clock q"
  shows "\<exists>q'. reset clock es now q = Inr q' \<and> queue_inv [] q' \<and> armed clock q'
      \<and> (\<forall>p \<in> snd ` set es. settled now q (cancelingTimers q) q' p)
      \<and> ran q' = ran q \<and> pending q' = pending q \<and> cancelingTimers q' = cancelingTimers q"
proof -
  obtain q1 where q1: "reset_expired now es q = Inr q1" "queue_inv [] q1" "rearmed clock q1"
      "\<And>p. p \<in> snd ` set es \<Longrightarrow> settled now q (cancelingTimers q) q1 p"
      "ran q1 = ran q" "pending q1 = pending q" "cancelingTimers q1 = cancelingTimers q"
    using reset_expired_ok [OF now i r] by blast
  let ?next = "if timers q1 = [] then Timestamp_invalid else fst (hd (timers q1))"
  let ?q' = "if Timestamp_valid ?next then resetTimerfd clock ?next q1 else q1"
  have "timers q1 \<noteq> [] \<Longrightarrow> (fst (hd (timers q1)), snd (hd (timers q1))) \<in> set (timers q1)" by simp
  then have "timers q1 \<noteq> [] \<Longrightarrow> \<exists>t. heap q1 (snd (hd (timers q1))) = Some t \<and> expiration t = fst (hd (timers q1))"
    using queue_inv_entry [OF q1(2)] by blast
  then have "reset clock es now q = Inr ?q'"
    using q1(1) by (auto simp: reset_def timer_at_def)
  moreover have "armed clock ?q'"
  proof (cases "timers q1 = []")
    case True
    then show ?thesis by (simp add: armed_def Timestamp_valid_def Timestamp_invalid_def)
  next
    case False
    then show ?thesis using armed_reset [OF c, of q1] q1(3) by (auto simp: rearmed_def)
  qed
  moreover have "heap ?q' = heap q1 \<and> timers ?q' = timers q1 \<and> ran ?q' = ran q1 \<and> pending ?q' = pending q1 \<and> cancelingTimers ?q' = cancelingTimers q1"
    by (simp add: resetTimerfd_eq)
  then have "settled now q (cancelingTimers q) ?q' p = settled now q (cancelingTimers q) q1 p" for p
    unfolding settled_def by metis
  ultimately show ?thesis
    using q1 by (intro exI [of _ ?q']) (auto simp: resetTimerfd_eq)
qed

lemma timer_handleRead_ok:
  assumes a: "allocator alloc" and c: "monotone_clock clock" and i: "queue_inv [] q"
  defines "now \<equiv> clock (readings q)"
  defines "expired \<equiv> filter (\<lambda>(w, p). w \<le> now) (timers q)"
  shows "handleRead alloc clock q = Inl BadAlloc
    \<or> (\<exists>q'. handleRead alloc clock q = Inr q' \<and> queue_inv [] q' \<and> armed clock q' \<and> pending q' = pending q
        \<and> ran q' = ran q @ ids q expired \<and> (\<forall>p \<in> snd ` set expired. settled now q (cancelingTimers q') q' p))"
proof -
  let ?q1 = "readTimerfd (q\<lparr>readings := readings q + 1\<rparr>)"
  have now: "Timestamp_valid now" using c by (simp add: now_def Timestamp_valid_def monotone_clock_def)
  have f1: "queue_inv [] ?q1" "timers ?q1 = timers q" "heap ?q1 = heap q" "ran ?q1 = ran q" "pending ?q1 = pending q"
    using i by (simp_all add: readTimerfd_def)
  obtain q2 where q2: "getExpired now ?q1 = Inr (expired, q2)" "queue_inv (map snd expired) q2" "heap q2 = heap q" "ran q2 = ran q"
      "pending q2 = pending q" "timers q2 = filter (\<lambda>(w, p). \<not> w \<le> now) (timers q)"
    using getExpired_ok [OF f1(1), of now] f1 by (auto simp: expired_def)
  let ?q2 = "q2\<lparr>callingExpiredTimers := True, cancelingTimers := []\<rparr>"
  have "rearmed clock ?q2"
  proof (cases "timers q2 = []")
    case False
    then have "hd (timers q2) \<in> set (timers q2)" by (rule hd_in_set)
    then have "now < fst (hd (timers q2))" unfolding q2(6) by (force simp: not_le)
    then show ?thesis using now by (auto simp: rearmed_def Timestamp_valid_def less_Timestamp_def)
  qed (simp add: rearmed_def armed_def)
  then have "run_expired alloc clock expired ?q2 = Inl BadAlloc
    \<or> (\<exists>q3. run_expired alloc clock expired ?q2 = Inr q3 \<and> queue_inv (map snd expired) q3 \<and> rearmed clock q3
      \<and> (\<forall>p \<in> set (map snd expired). heap q3 p = heap ?q2 p) \<and> ran q3 = ran ?q2 @ ids ?q2 expired \<and> pending q3 = pending ?q2)"
    using run_expired_ok [OF a c, of "map snd expired" ?q2 expired] q2(2) by simp
  then show ?thesis
  proof (elim disjE exE conjE)
    fix q3 assume q3: "run_expired alloc clock expired ?q2 = Inr q3" "queue_inv (map snd expired) q3" "rearmed clock q3"
      "\<forall>p \<in> set (map snd expired). heap q3 p = heap ?q2 p" "ran q3 = ran ?q2 @ ids ?q2 expired" "pending q3 = pending ?q2"
    let ?q3 = "q3\<lparr>callingExpiredTimers := False\<rparr>"
    have i3: "queue_inv (map snd expired) ?q3" and r3: "rearmed clock ?q3"
      using q3(2,3) by (simp_all add: rearmed_def armed_def)
    obtain q' where q': "reset clock expired now ?q3 = Inr q'" "queue_inv [] q'" "armed clock q'"
      "\<And>p. p \<in> snd ` set expired \<Longrightarrow> settled now ?q3 (cancelingTimers ?q3) q' p" "ran q' = ran ?q3" "pending q' = pending ?q3"
      "cancelingTimers q' = cancelingTimers ?q3"
      using reset_ok [OF now c i3 r3] by blast
    have "ids ?q2 expired = ids q expired" using q2(3) by (intro ids_cong) simp
    moreover have "settled now q (cancelingTimers q') q' p" if "p \<in> snd ` set expired" for p
    proof -
      have "heap ?q3 p = heap q p" using q3(4) q2(3) that by auto
      then show ?thesis using q'(4) [OF that] q'(7) settled_cong by metis
    qed
    moreover have "handleRead alloc clock q = Inr q'"
      using q2(1) q3(1) q'(1) by (simp add: handleRead_def now_def [symmetric] Let_def)
    ultimately show ?thesis using q' q3 q2 by simp
  qed (use q2(1) in \<open>simp add: handleRead_def now_def [symmetric] Let_def\<close>)
qed

lemma timer_functors_ok:
  assumes c: "monotone_clock clock"
  shows "queue_inv (adds fs) q \<Longrightarrow> armed clock q \<Longrightarrow>
    \<exists>q'. run_functors clock fs q = Inr q' \<and> queue_inv [] q' \<and> armed clock q' \<and> ran q' = ran q"
proof (induction fs arbitrary: q)
  case (Cons f fs)
  have "\<exists>q1. safe_step clock (adds fs) q q1 \<and> run_functors clock (f # fs) q = run_functors clock fs q1"
  proof (cases f)
    case (AddTimerInLoop p)
    then show ?thesis using addTimerInLoop_ok [OF c, of p "adds fs" q] Cons.prems(1) by auto
  next
    case (CancelInLoop i)
    then show ?thesis using cancelInLoop_ok [of "adds fs" q i clock] Cons.prems(1) by auto
  qed
  then obtain q1 where q1: "safe_step clock (adds fs) q q1" "run_functors clock (f # fs) q = run_functors clock fs q1" by blast
  then have "queue_inv (adds fs) q1" "armed clock q1" "ran q1 = ran q" using Cons.prems(2) by (auto simp: safe_step_def)
  then show ?case using Cons.IH [of q1] q1(2) by auto
qed simp

section \<open>Runs of the queue\<close>

datatype timer_op =
    OpAdd bool "timer_action list" Timestamp interval
  | OpCancel bool TimerId
  | OpHandleRead
  | OpRunPending

fun timer_step :: "((nat \<rightharpoonup> Timer) \<Rightarrow> nat option) \<Rightarrow> (nat \<Rightarrow> Timestamp) \<Rightarrow> timer_op \<Rightarrow> TimerQueue \<Rightarrow> TimerQueue res" where
  "timer_step alloc clock (OpAdd inLoopThread cb when interval) q =
     bindE (addTimer alloc clock inLoopThread cb when interval q) (\<lambda>(_, q'). Inr q')"
| "timer_step alloc clock (OpCancel inLoopThread timerId) q = cancel inLoopThread timerId q"
| "timer_step alloc clock OpHandleRead q = handleRead alloc clock q"
| "timer_step alloc clock OpRunPending q = run_pending clock q"

fun timer_run :: "((nat \<rightharpoonup> Timer) \<Rightarrow> nat option) \<Rightarrow> (nat \<Rightarrow> Timestamp) \<Rightarrow> timer_op list \<Rightarrow> TimerQueue \<Rightarrow> TimerQueue res" where
  "timer_run alloc clock [] q = Inr q"
| "timer_run alloc clock (op # ops) q = bindE (timer_step alloc clock op q) (timer_run alloc clock ops)"

lemma timer_step_ok:
  assumes a: "allocator alloc" and c: "monotone_clock clock" and i: "queue_inv [] q" and m: "armed clock q"
  shows "timer_step alloc clock op q = Inl BadAlloc
    \<or> (\<exists>q'. timer_step alloc clock op q = Inr q' \<and> queue_inv [] q' \<and> armed clock q')"
proof (cases op)
  case (OpAdd inLoop cb at iv)
  have "addTimer alloc clock inLoop cb at iv q = Inl BadAlloc
    \<or> (\<exists>i q'. addTimer alloc clock inLoop cb at iv q = Inr (i, q') \<and> queue_inv [] q' \<and> armed clock q')"
    using addTimer_ok [OF a c i, of cb at iv] addTimer_other_thread [OF a i m, of cb at iv] m
    by (cases inLoop) (auto simp: safe_step_def)
  then show ?thesis using OpAdd by auto
next
  case (OpCancel inLoop timerId)
  have "\<exists>q'. cancelInLoop timerId q = Inr q' \<and> safe_step clock [] q q'" by (rule cancelInLoop_ok [OF i])
  then show ?thesis
    using OpCancel i m queue_inv_pend(2) [of "[]" q timerId]
    by (cases inLoop) (auto simp: cancel_def safe_step_def armed_def)
next
  case OpHandleRead
  then show ?thesis using timer_handleRead_ok [OF a c i] by auto
next
  case OpRunPending
  have "armed clock (q\<lparr>pending := []\<rparr>)" using m by (simp add: armed_def)
  with timer_functors_ok [OF c queue_inv_take_pending [OF i]] show ?thesis
    using OpRunPending by (auto simp: run_pending_def)
qed

lemma timer_run_ok:
  assumes a: "allocator alloc" and c: "monotone_clock clock"
  shows "queue_inv [] q \<Longrightarrow> armed clock q \<Longrightarrow> timer_run alloc clock ops q = Inl BadAlloc
    \<or> (\<exists>q'. timer_run alloc clock ops q = Inr q' \<and> queue_inv [] q' \<and> armed clock q')"
proof (induction ops arbitrary: q)
  case (Cons op ops)
  from timer_step_ok [OF a c Cons.prems, of op] show ?case
  proof (elim disjE exE conjE)
    fix q' assume "timer_step alloc clock op q = Inr q'" "queue_inv [] q'" "armed clock q'"
    then show ?thesis using Cons.IH [of q'] by simp
  qed simp
qed simp

lemma sorted_map_fst: "sorted ts \<Longrightarrow> sorted (map fst ts)" for ts :: "(Timestamp \<times> nat) list"
  by (induction ts) (force simp: less_eq_prod_def)+

lemma armed_new [simp]: "armed clock new_TimerQueue"
  by (simp add: armed_def new_TimerQueue_def)


text \<open>An allocator that takes the first free of four addresses, and a clock.\<close>

definition demo_alloc :: "(nat \<rightharpoonup> Timer) \<Rightarrow> nat option" where
  "demo_alloc h = find (\<lambda>p. h p = None) [1, 2, 3, 4]"

definition demo_clock :: "nat \<Rightarrow> Timestamp" where
  "demo_clock n = Timestamp (1000 + 10 * int n)"

lemma demo_params: "allocator demo_alloc" "monotone_clock demo_clock"
  by (auto simp: allocator_def demo_alloc_def UINTPTR_MAX_def monotone_clock_def demo_clock_def split: if_splits)

lemmas timer_eval = new_TimerQueue_def addTimer_def new_Timer_def timer_at_def addTimerInLoop_def insert_Timer_def set_insert_def
  cancel_def cancelInLoop_def set_erase_def delete_Timer_def resetTimerfd_eq handleRead_def readTimerfd_def getExpired_def
  lower_bound_def below_bound_def reset_def restart_def addTime_def run_pending_def Timestamp_valid_def Timestamp_invalid_def
  demo_alloc_def demo_clock_def UINTPTR_MAX_def less_prod_def' less_eq_prod_def Let_def ids_def




end
