(* ===== verification/Channels.thy ===== *)
theory Channels
  imports Prelude
begin

text \<open>
  \<open>net/Channel.h\<close>, \<open>net/Channel.cc\<close>: the events of a descriptor. \<open>events\<close> is the set of events its owner wants, as the bits that
  \<open>poll\<close> uses, \<open>revents\<close> those that the poller reported; both are C \<open>int\<close>s of 32 bits. The callbacks of the owner are
  state transformers, given to \<open>handleEvent\<close>; \<open>None\<close> is a callback that is not set.
\<close>

unbundle bit_operations_syntax

definition POLLIN :: "32 word" where "POLLIN = 1"
definition POLLPRI :: "32 word" where "POLLPRI = 2"
definition POLLOUT :: "32 word" where "POLLOUT = 4"
definition POLLERR :: "32 word" where "POLLERR = 8"
definition POLLHUP :: "32 word" where "POLLHUP = 16"
definition POLLNVAL :: "32 word" where "POLLNVAL = 32"
definition POLLRDHUP :: "32 word" where "POLLRDHUP = 8192"

lemmas poll_bits = POLLIN_def POLLPRI_def POLLOUT_def POLLERR_def POLLHUP_def POLLNVAL_def POLLRDHUP_def

definition kNoneEvent :: "32 word" where
  "kNoneEvent = 0"

definition kReadEvent :: "32 word" where
  "kReadEvent = POLLIN OR POLLPRI"

definition kWriteEvent :: "32 word" where
  "kWriteEvent = POLLOUT"

record Channel =
  fd :: int
  events :: "32 word"
  revents :: "32 word"
  index :: int
  logHup :: bool
  tied :: bool
  eventHandling :: bool
  addedToLoop :: bool

definition new_Channel :: "int \<Rightarrow> Channel" where
  "new_Channel fdArg = \<lparr>fd = fdArg, events = 0, revents = 0, index = - 1, logHup = True, tied = False,
     eventHandling = False, addedToLoop = False\<rparr>"

definition isNoneEvent :: "Channel \<Rightarrow> bool" where
  "isNoneEvent c \<longleftrightarrow> events c = kNoneEvent"

definition isWriting :: "Channel \<Rightarrow> bool" where
  "isWriting c \<longleftrightarrow> events c AND kWriteEvent \<noteq> 0"

definition isReading :: "Channel \<Rightarrow> bool" where
  "isReading c \<longleftrightarrow> events c AND kReadEvent \<noteq> 0"

text \<open>\<open>update\<close> hands the channel to its loop, which registers it with the poller (theory \<open>Pollers\<close>).\<close>

definition update_Channel :: "Channel \<Rightarrow> Channel" where
  "update_Channel c = c\<lparr>addedToLoop := True\<rparr>"

definition enableReading :: "Channel \<Rightarrow> Channel" where
  "enableReading c = update_Channel (c\<lparr>events := events c OR kReadEvent\<rparr>)"

definition disableReading :: "Channel \<Rightarrow> Channel" where
  "disableReading c = update_Channel (c\<lparr>events := events c AND NOT kReadEvent\<rparr>)"

definition enableWriting :: "Channel \<Rightarrow> Channel" where
  "enableWriting c = update_Channel (c\<lparr>events := events c OR kWriteEvent\<rparr>)"

definition disableWriting :: "Channel \<Rightarrow> Channel" where
  "disableWriting c = update_Channel (c\<lparr>events := events c AND NOT kWriteEvent\<rparr>)"

definition disableAll :: "Channel \<Rightarrow> Channel" where
  "disableAll c = update_Channel (c\<lparr>events := kNoneEvent\<rparr>)"

definition tie :: "Channel \<Rightarrow> Channel" where
  "tie c = c\<lparr>tied := True\<rparr>"

definition remove_Channel :: "Channel \<Rightarrow> Channel res" where
  "remove_Channel c = bindE (assertE (isNoneEvent c)) (\<lambda>_. Inr (c\<lparr>addedToLoop := False\<rparr>))"

text \<open>The callbacks a report of the poller leads to, in the order \<open>handleEventWithGuard\<close> calls them.\<close>

datatype event_callback = CloseCallback | ErrorCallback | ReadCallback | WriteCallback

definition event_callbacks :: "32 word \<Rightarrow> event_callback list" where
  "event_callbacks r =
     (if r AND POLLHUP \<noteq> 0 \<and> r AND POLLIN = 0 then [CloseCallback] else [])
   @ (if r AND (POLLERR OR POLLNVAL) \<noteq> 0 then [ErrorCallback] else [])
   @ (if r AND (POLLIN OR POLLPRI OR POLLRDHUP) \<noteq> 0 then [ReadCallback] else [])
   @ (if r AND POLLOUT \<noteq> 0 then [WriteCallback] else [])"

fun run_callbacks :: "(event_callback \<Rightarrow> ('s \<Rightarrow> 's res) option) \<Rightarrow> event_callback list \<Rightarrow> 's \<Rightarrow> 's res" where
  "run_callbacks cbs [] s = Inr s"
| "run_callbacks cbs (k # ks) s = bindE (case cbs k of None \<Rightarrow> Inr s | Some f \<Rightarrow> f s) (run_callbacks cbs ks)"

text \<open>
  The channel is a part of the state \<open>s\<close> that the callbacks change: \<open>get\<close> and \<open>put\<close>. \<open>guard\<close> is whether the owner the
  channel is tied to still exists.
\<close>

definition handleEventWithGuard ::
    "('s \<Rightarrow> Channel) \<Rightarrow> (Channel \<Rightarrow> 's \<Rightarrow> 's) \<Rightarrow> (event_callback \<Rightarrow> ('s \<Rightarrow> 's res) option) \<Rightarrow> 's \<Rightarrow> 's res" where
  "handleEventWithGuard get put cbs s =
     bindE (run_callbacks cbs (event_callbacks (revents (get s))) (put ((get s)\<lparr>eventHandling := True\<rparr>) s)) (\<lambda>s'.
       Inr (put ((get s')\<lparr>eventHandling := False\<rparr>) s'))"

definition handleEvent ::
    "('s \<Rightarrow> Channel) \<Rightarrow> (Channel \<Rightarrow> 's \<Rightarrow> 's) \<Rightarrow> (event_callback \<Rightarrow> ('s \<Rightarrow> 's res) option) \<Rightarrow> bool \<Rightarrow> 's \<Rightarrow> 's res" where
  "handleEvent get put cbs guard s =
     (if tied (get s) then (if guard then handleEventWithGuard get put cbs s else Inr s)
      else handleEventWithGuard get put cbs s)"

text \<open>The text of a set of events.\<close>

definition eventsToString :: "int \<Rightarrow> 32 word \<Rightarrow> string" where
  "eventsToString fdArg ev = show_int fdArg @ '': ''
     @ (if ev AND POLLIN \<noteq> 0 then ''IN '' else [])
     @ (if ev AND POLLPRI \<noteq> 0 then ''PRI '' else [])
     @ (if ev AND POLLOUT \<noteq> 0 then ''OUT '' else [])
     @ (if ev AND POLLHUP \<noteq> 0 then ''HUP '' else [])
     @ (if ev AND POLLRDHUP \<noteq> 0 then ''RDHUP '' else [])
     @ (if ev AND POLLERR \<noteq> 0 then ''ERR '' else [])
     @ (if ev AND POLLNVAL \<noteq> 0 then ''NVAL '' else [])"

section \<open>Laws of the event sets\<close>

named_theorems channel_simps \<open>what the operations do to the events of a channel\<close>

lemma and_power_iff: "w AND (2 ^ n) \<noteq> 0 \<longleftrightarrow> bit w n" for w :: "'a::len word"
  by (simp add: and_exp_eq_0_iff_not_bit)

lemma poll_bit_iff:
  "w AND POLLIN \<noteq> 0 \<longleftrightarrow> bit w 0" "w AND POLLPRI \<noteq> 0 \<longleftrightarrow> bit w 1" "w AND POLLOUT \<noteq> 0 \<longleftrightarrow> bit w 2"
  "w AND POLLERR \<noteq> 0 \<longleftrightarrow> bit w 3" "w AND POLLHUP \<noteq> 0 \<longleftrightarrow> bit w 4" "w AND POLLNVAL \<noteq> 0 \<longleftrightarrow> bit w 5"
  "w AND POLLRDHUP \<noteq> 0 \<longleftrightarrow> bit w 13"
  using and_power_iff [of w 0] and_power_iff [of w 1] and_power_iff [of w 2] and_power_iff [of w 3]
    and_power_iff [of w 4] and_power_iff [of w 5] and_power_iff [of w 13]
  by (simp_all add: poll_bits)

lemma and_or_zero: "w AND (a OR b) \<noteq> 0 \<longleftrightarrow> w AND a \<noteq> 0 \<or> w AND b \<noteq> 0" for w :: "'a::len word"
  by (simp add: bit.conj_disj_distrib or_eq_0_iff)

lemma writing_bit: "isWriting c \<longleftrightarrow> bit (events c) 2"
  by (simp add: isWriting_def kWriteEvent_def poll_bit_iff)

lemma reading_bit: "isReading c \<longleftrightarrow> bit (events c) 0 \<or> bit (events c) 1"
  by (simp add: isReading_def kReadEvent_def and_or_zero poll_bit_iff)

lemma poll_bits_bit:
  "bit kWriteEvent n \<longleftrightarrow> n = 2" "bit kReadEvent n \<longleftrightarrow> n = 0 \<or> n = 1"
proof -
  have w: "kWriteEvent = 2 ^ 2" "kReadEvent = 2 ^ 0 OR 2 ^ 1"
    by (simp_all add: kWriteEvent_def kReadEvent_def poll_bits)
  show "bit kWriteEvent n \<longleftrightarrow> n = 2" "bit kReadEvent n \<longleftrightarrow> n = 0 \<or> n = 1"
    unfolding w bit_or_iff bit_exp_iff by auto
qed

lemma channel_update_simps [channel_simps]:
  "events (update_Channel c) = events c" "addedToLoop (update_Channel c)" "tied (update_Channel c) = tied c"
  by (simp_all add: update_Channel_def)

lemma events_after [channel_simps]:
  "isWriting (enableWriting c)" "isReading (enableWriting c) = isReading c"
  "\<not> isWriting (disableWriting c)" "isReading (disableWriting c) = isReading c"
  "isReading (enableReading c)" "isWriting (enableReading c) = isWriting c"
  "\<not> isReading (disableReading c)" "isWriting (disableReading c) = isWriting c"
  "\<not> isWriting (disableAll c)" "\<not> isReading (disableAll c)" "isNoneEvent (disableAll c)"
  by (simp_all add: writing_bit reading_bit enableWriting_def disableWriting_def enableReading_def disableReading_def disableAll_def
      channel_update_simps bit_simps poll_bits_bit isNoneEvent_def kNoneEvent_def)

lemma added_after [channel_simps]:
  "addedToLoop (enableWriting c)" "addedToLoop (disableWriting c)" "addedToLoop (enableReading c)" "addedToLoop (disableReading c)"
  "addedToLoop (disableAll c)"
  by (simp_all add: enableWriting_def disableWriting_def enableReading_def disableReading_def disableAll_def update_Channel_def)

lemma none_event [channel_simps]: "isNoneEvent c \<Longrightarrow> \<not> isWriting c" "isNoneEvent c \<Longrightarrow> \<not> isReading c"
  by (simp_all add: isNoneEvent_def kNoneEvent_def isWriting_def isReading_def)

end
