(* ===== verification/Connection.thy ===== *)
theory Connection
  imports Net_Buffer Channels
begin

text \<open>
  \<open>net/TcpConnection.h\<close>, \<open>net/TcpConnection.cc\<close>: a connection, its state machine and its output buffer. The operations run in the
  thread of its loop; calls from other threads put functors in the queue of the loop (\<open>pending\<close>), which \<open>run_pending\<close> runs in order, as
  \<open>EventLoop::doPendingFunctors\<close> does.

  The socket is modelled by what the connection sees of it: \<open>sent\<close> is what \<open>write\<close> has accepted, \<open>shut\<close> whether
  \<open>shutdown(SHUT_WR)\<close> was called, after which \<open>write\<close> fails with \<open>EPIPE\<close>. The outcome of the successive calls of \<open>write\<close> and \<open>readv\<close> are
  parameters: \<open>wr n\<close> is an \<open>errno\<close> or the number of characters that the \<open>n\<close>-th \<open>write\<close> accepts (at most those offered), \<open>rd n\<close> an
  \<open>errno\<close> or the characters that the \<open>n\<close>-th \<open>readv\<close> delivers.

  The callbacks of the user are functions from the state of the connection to the calls they make on it. The close callback is the
  one \<open>TcpServer\<close> installs, which makes the loop run \<open>connectDestroyed\<close>. \<open>taken\<close> records the messages that \<open>sendInLoop\<close>
  took over, \<open>upDown\<close> the value of \<open>connected()\<close> at each call of the connection callback and \<open>closed\<close> the calls of the close callback.
\<close>

datatype StateE = kDisconnected | kConnecting | kConnected | kDisconnecting

datatype conn_functor =
    SendInLoop string
  | ShutdownInLoop
  | ForceCloseInLoop
  | StartReadInLoop
  | StopReadInLoop
  | WriteComplete
  | HighWaterMark nat
  | ConnectDestroyed

record TcpConnection =
  state :: StateE
  reading :: bool
  channel :: Channel
  writeCompleteCallback :: bool
  highWaterMarkCallback :: bool
  highWaterMark :: nat
  inputBuffer :: buffer
  outputBuffer :: buffer
  sent :: string
  shut :: bool
  writes :: nat
  reads :: nat
  pending :: "conn_functor list"
  taken :: "string list"
  upDown :: "bool list"
  closed :: nat

definition new_TcpConnection :: "int \<Rightarrow> TcpConnection" where
  "new_TcpConnection sockfd =
     \<lparr>state = kConnecting, reading = True, channel = new_Channel sockfd,
      writeCompleteCallback = False, highWaterMarkCallback = False, highWaterMark = 64 * 1024 * 1024,
      inputBuffer = new_Buffer kInitialSize, outputBuffer = new_Buffer kInitialSize,
      sent = [], shut = False, writes = 0, reads = 0, pending = [], taken = [], upDown = [], closed = 0\<rparr>"

definition connected :: "TcpConnection \<Rightarrow> bool" where
  "connected c \<longleftrightarrow> state c = kConnected"

definition stateToString :: "TcpConnection \<Rightarrow> string" where
  "stateToString c = (case state c of kDisconnected \<Rightarrow> ''kDisconnected'' | kConnecting \<Rightarrow> ''kConnecting''
     | kConnected \<Rightarrow> ''kConnected'' | kDisconnecting \<Rightarrow> ''kDisconnecting'')"

definition EWOULDBLOCK :: int where "EWOULDBLOCK = 11"
definition EPIPE :: int where "EPIPE = 32"
definition ECONNRESET :: int where "ECONNRESET = 104"

text \<open>\<open>sockets::write\<close> and \<open>Socket::shutdownWrite\<close>; \<open>loop_->queueInLoop\<close>.\<close>

definition sockets_write :: "(nat \<Rightarrow> int + nat) \<Rightarrow> string \<Rightarrow> TcpConnection \<Rightarrow> (int + nat) \<times> TcpConnection" where
  "sockets_write wr data c =
     (if shut c then (Inl EPIPE, c\<lparr>writes := writes c + 1\<rparr>)
      else case wr (writes c) of
        Inl e \<Rightarrow> (Inl e, c\<lparr>writes := writes c + 1\<rparr>)
      | Inr n \<Rightarrow> (Inr (min n (length data)), c\<lparr>writes := writes c + 1, sent := sent c @ take n data\<rparr>))"

definition shutdownWrite :: "TcpConnection \<Rightarrow> TcpConnection" where
  "shutdownWrite c = c\<lparr>shut := True\<rparr>"

definition queueInLoop :: "conn_functor \<Rightarrow> TcpConnection \<Rightarrow> TcpConnection" where
  "queueInLoop f c = c\<lparr>pending := pending c @ [f]\<rparr>"

section \<open>Sending\<close>

text \<open>What \<open>sendInLoop\<close> does with the part of the message that \<open>write\<close> has not accepted.\<close>

definition queue_rest :: "string \<Rightarrow> TcpConnection \<Rightarrow> TcpConnection res" where
  "queue_rest rest c =
     (if rest = [] then Inr c
      else let oldLen = readableBytes (outputBuffer c);
               remaining = length rest;
               c1 = (if oldLen + remaining \<ge> highWaterMark c \<and> oldLen < highWaterMark c \<and> highWaterMarkCallback c
                     then queueInLoop (HighWaterMark (oldLen + remaining)) c else c)
           in bindE (append_Buffer rest (outputBuffer c1)) (\<lambda>b.
              let c2 = c1\<lparr>outputBuffer := b\<rparr>
              in Inr (if \<not> isWriting (channel c2) then c2\<lparr>channel := enableWriting (channel c2)\<rparr> else c2)))"

definition sendInLoop :: "(nat \<Rightarrow> int + nat) \<Rightarrow> string \<Rightarrow> TcpConnection \<Rightarrow> TcpConnection res" where
  "sendInLoop wr data c =
     (if state c = kDisconnected then Inr c
      else if \<not> isWriting (channel c) \<and> readableBytes (outputBuffer c) = 0
      then (case sockets_write wr data c of
              (Inr nwrote, c1) \<Rightarrow>
                let remaining = length data - nwrote;
                    c2 = (if remaining = 0 \<and> writeCompleteCallback c1 then queueInLoop WriteComplete c1 else c1)
                in queue_rest (drop nwrote data) (c2\<lparr>taken := taken c2 @ [data]\<rparr>)
            | (Inl errno, c1) \<Rightarrow>
                if errno \<noteq> EWOULDBLOCK \<and> (errno = EPIPE \<or> errno = ECONNRESET) then Inr c1
                else queue_rest data (c1\<lparr>taken := taken c1 @ [data]\<rparr>))
      else queue_rest data (c\<lparr>taken := taken c @ [data]\<rparr>))"

definition send :: "(nat \<Rightarrow> int + nat) \<Rightarrow> bool \<Rightarrow> string \<Rightarrow> TcpConnection \<Rightarrow> TcpConnection res" where
  "send wr inLoopThread message c =
     (if state c = kConnected
      then if inLoopThread then sendInLoop wr message c else Inr (queueInLoop (SendInLoop message) c)
      else Inr c)"

text \<open>\<open>send(Buffer*)\<close>: the buffer of the caller is emptied when its content was taken or queued.\<close>

definition send_Buffer :: "(nat \<Rightarrow> int + nat) \<Rightarrow> bool \<Rightarrow> buffer \<Rightarrow> TcpConnection \<Rightarrow> (buffer \<times> TcpConnection) res" where
  "send_Buffer wr inLoopThread b c =
     (if state c = kConnected
      then if inLoopThread
        then bindE (sendInLoop wr (toStringPiece b) c) (\<lambda>c'. Inr (retrieveAll b, c'))
        else bindE (retrieveAllAsString b) (\<lambda>(message, b'). Inr (b', queueInLoop (SendInLoop message) c))
      else Inr (b, c))"

section \<open>Closing\<close>

definition shutdownInLoop :: "TcpConnection \<Rightarrow> TcpConnection" where
  "shutdownInLoop c = (if \<not> isWriting (channel c) then shutdownWrite c else c)"

definition shutdown :: "bool \<Rightarrow> TcpConnection \<Rightarrow> TcpConnection" where
  "shutdown inLoopThread c =
     (if state c = kConnected
      then let c' = c\<lparr>state := kDisconnecting\<rparr>
           in if inLoopThread then shutdownInLoop c' else queueInLoop ShutdownInLoop c'
      else c)"

definition forceClose :: "TcpConnection \<Rightarrow> TcpConnection" where
  "forceClose c =
     (if state c = kConnected \<or> state c = kDisconnecting
      then queueInLoop ForceCloseInLoop (c\<lparr>state := kDisconnecting\<rparr>) else c)"

text \<open>The delayed variant first only changes the state; the timer then calls \<open>forceClose\<close>.\<close>

definition forceCloseWithDelay :: "TcpConnection \<Rightarrow> TcpConnection" where
  "forceCloseWithDelay c =
     (if state c = kConnected \<or> state c = kDisconnecting then c\<lparr>state := kDisconnecting\<rparr> else c)"

definition startReadInLoop :: "TcpConnection \<Rightarrow> TcpConnection" where
  "startReadInLoop c =
     (if \<not> reading c \<or> \<not> isReading (channel c) then c\<lparr>channel := enableReading (channel c), reading := True\<rparr> else c)"

definition stopReadInLoop :: "TcpConnection \<Rightarrow> TcpConnection" where
  "stopReadInLoop c =
     (if reading c \<or> isReading (channel c) then c\<lparr>channel := disableReading (channel c), reading := False\<rparr> else c)"

definition startRead :: "bool \<Rightarrow> TcpConnection \<Rightarrow> TcpConnection" where
  "startRead inLoopThread c = (if inLoopThread then startReadInLoop c else queueInLoop StartReadInLoop c)"

definition stopRead :: "bool \<Rightarrow> TcpConnection \<Rightarrow> TcpConnection" where
  "stopRead inLoopThread c = (if inLoopThread then stopReadInLoop c else queueInLoop StopReadInLoop c)"

section \<open>Callbacks of the user\<close>

datatype conn_action =
    ASend string
  | AShutdown
  | AForceClose
  | AForceCloseWithDelay
  | AStartRead
  | AStopRead
  | ARetrieve nat

record conn_callbacks =
  onConnection :: "TcpConnection \<Rightarrow> conn_action list"
  onMessage :: "TcpConnection \<Rightarrow> conn_action list"

text \<open>
  A call in the loop thread. A caller starts and stops reading only on a connection that is up, and retrieves from the
  input buffer no more than it holds.
\<close>

fun run_action :: "(nat \<Rightarrow> int + nat) \<Rightarrow> conn_action \<Rightarrow> TcpConnection \<Rightarrow> TcpConnection res" where
  "run_action wr (ASend message) c = send wr True message c"
| "run_action wr AShutdown c = Inr (shutdown True c)"
| "run_action wr AForceClose c = Inr (forceClose c)"
| "run_action wr AForceCloseWithDelay c = Inr (forceCloseWithDelay c)"
| "run_action wr AStartRead c = Inr (if connected c then startRead True c else c)"
| "run_action wr AStopRead c = Inr (if connected c then stopRead True c else c)"
| "run_action wr (ARetrieve n) c =
     bindE (retrieve (min n (readableBytes (inputBuffer c))) (inputBuffer c)) (\<lambda>b. Inr (c\<lparr>inputBuffer := b\<rparr>))"

fun run_actions :: "(nat \<Rightarrow> int + nat) \<Rightarrow> conn_action list \<Rightarrow> TcpConnection \<Rightarrow> TcpConnection res" where
  "run_actions wr [] c = Inr c"
| "run_actions wr (a # as) c = bindE (run_action wr a c) (run_actions wr as)"

definition connectionCallback :: "conn_callbacks \<Rightarrow> (nat \<Rightarrow> int + nat) \<Rightarrow> TcpConnection \<Rightarrow> TcpConnection res" where
  "connectionCallback cbs wr c =
     (let c' = c\<lparr>upDown := upDown c @ [connected c]\<rparr> in run_actions wr (onConnection cbs c') c')"

definition messageCallback :: "conn_callbacks \<Rightarrow> (nat \<Rightarrow> int + nat) \<Rightarrow> TcpConnection \<Rightarrow> TcpConnection res" where
  "messageCallback cbs wr c = run_actions wr (onMessage cbs c) c"

text \<open>\<open>TcpServer::removeConnectionInLoop\<close>, as far as it concerns the connection.\<close>

definition closeCallback :: "TcpConnection \<Rightarrow> TcpConnection" where
  "closeCallback c = queueInLoop ConnectDestroyed (c\<lparr>closed := closed c + 1\<rparr>)"

section \<open>Events\<close>

definition connectEstablished :: "conn_callbacks \<Rightarrow> (nat \<Rightarrow> int + nat) \<Rightarrow> TcpConnection \<Rightarrow> TcpConnection res" where
  "connectEstablished cbs wr c =
     bindE (assertE (state c = kConnecting)) (\<lambda>_.
       connectionCallback cbs wr (c\<lparr>state := kConnected, channel := enableReading (tie (channel c))\<rparr>))"

definition connectDestroyed :: "conn_callbacks \<Rightarrow> (nat \<Rightarrow> int + nat) \<Rightarrow> TcpConnection \<Rightarrow> TcpConnection res" where
  "connectDestroyed cbs wr c =
     bindE (if state c = kConnected
            then connectionCallback cbs wr (c\<lparr>state := kDisconnected, channel := disableAll (channel c)\<rparr>)
            else Inr c) (\<lambda>c'.
     bindE (remove_Channel (channel c')) (\<lambda>ch. Inr (c'\<lparr>channel := ch\<rparr>)))"

definition handleClose :: "conn_callbacks \<Rightarrow> (nat \<Rightarrow> int + nat) \<Rightarrow> TcpConnection \<Rightarrow> TcpConnection res" where
  "handleClose cbs wr c =
     bindE (assertE (state c = kConnected \<or> state c = kDisconnecting)) (\<lambda>_.
     bindE (connectionCallback cbs wr (c\<lparr>state := kDisconnected, channel := disableAll (channel c)\<rparr>)) (\<lambda>c'.
       Inr (closeCallback c')))"

text \<open>\<open>handleError\<close> reads the error of the socket and writes it to the log.\<close>

definition handleError :: "TcpConnection \<Rightarrow> TcpConnection" where
  "handleError c = c"

definition handleRead :: "conn_callbacks \<Rightarrow> (nat \<Rightarrow> int + nat) \<Rightarrow> (nat \<Rightarrow> int + string) \<Rightarrow> TcpConnection \<Rightarrow> TcpConnection res" where
  "handleRead cbs wr rd c =
     bindE (readFd (map_sum id (take (readv_capacity (inputBuffer c))) (rd (reads c))) (inputBuffer c)) (\<lambda>(n, savedErrno, b).
     let c' = c\<lparr>reads := reads c + 1, inputBuffer := b\<rparr>
     in if n > 0 then messageCallback cbs wr c'
        else if n = 0 then handleClose cbs wr c'
        else Inr (handleError c'))"

definition handleWrite :: "(nat \<Rightarrow> int + nat) \<Rightarrow> TcpConnection \<Rightarrow> TcpConnection res" where
  "handleWrite wr c =
     (if isWriting (channel c)
      then (case sockets_write wr (toStringPiece (outputBuffer c)) c of
              (Inl errno, c1) \<Rightarrow> Inr c1
            | (Inr n, c1) \<Rightarrow>
                if n > 0
                then bindE (retrieve n (outputBuffer c1)) (\<lambda>b.
                     let c2 = c1\<lparr>outputBuffer := b\<rparr>
                     in if readableBytes (outputBuffer c2) = 0
                        then let c3 = c2\<lparr>channel := disableWriting (channel c2)\<rparr>;
                                 c4 = (if writeCompleteCallback c3 then queueInLoop WriteComplete c3 else c3)
                             in Inr (if state c4 = kDisconnecting then shutdownInLoop c4 else c4)
                        else Inr c2)
                else Inr c1)
      else Inr c)"

definition forceCloseInLoop :: "conn_callbacks \<Rightarrow> (nat \<Rightarrow> int + nat) \<Rightarrow> TcpConnection \<Rightarrow> TcpConnection res" where
  "forceCloseInLoop cbs wr c =
     (if state c = kConnected \<or> state c = kDisconnecting then handleClose cbs wr c else Inr c)"

definition conn_event_callbacks ::
    "conn_callbacks \<Rightarrow> (nat \<Rightarrow> int + nat) \<Rightarrow> (nat \<Rightarrow> int + string) \<Rightarrow> event_callback \<Rightarrow> (TcpConnection \<Rightarrow> TcpConnection res) option" where
  "conn_event_callbacks cbs wr rd k = Some (case k of
       ReadCallback \<Rightarrow> handleRead cbs wr rd
     | WriteCallback \<Rightarrow> handleWrite wr
     | CloseCallback \<Rightarrow> handleClose cbs wr
     | ErrorCallback \<Rightarrow> (\<lambda>c. Inr (handleError c)))"

fun run_functor :: "conn_callbacks \<Rightarrow> (nat \<Rightarrow> int + nat) \<Rightarrow> conn_functor \<Rightarrow> TcpConnection \<Rightarrow> TcpConnection res" where
  "run_functor cbs wr (SendInLoop message) c = sendInLoop wr message c"
| "run_functor cbs wr ShutdownInLoop c = Inr (shutdownInLoop c)"
| "run_functor cbs wr ForceCloseInLoop c = forceCloseInLoop cbs wr c"
| "run_functor cbs wr StartReadInLoop c = Inr (startReadInLoop c)"
| "run_functor cbs wr StopReadInLoop c = Inr (stopReadInLoop c)"
| "run_functor cbs wr WriteComplete c = Inr c"
| "run_functor cbs wr (HighWaterMark n) c = Inr c"
| "run_functor cbs wr ConnectDestroyed c = connectDestroyed cbs wr c"

fun run_functors :: "conn_callbacks \<Rightarrow> (nat \<Rightarrow> int + nat) \<Rightarrow> conn_functor list \<Rightarrow> TcpConnection \<Rightarrow> TcpConnection res" where
  "run_functors cbs wr [] c = Inr c"
| "run_functors cbs wr (f # fs) c = bindE (run_functor cbs wr f c) (run_functors cbs wr fs)"

section \<open>Invariant of the buffers\<close>

text \<open>
  Everything \<open>sendInLoop\<close> took over has been written or is in the output buffer, in order; while the connection is up, the
  channel waits for the socket to become writable exactly while the buffer is not empty, and the write
  direction is shut down only when it is empty.
\<close>

definition core :: "TcpConnection \<Rightarrow> bool" where
  "core c \<longleftrightarrow> buffer_inv (inputBuffer c) \<and> buffer_inv (outputBuffer c)
     \<and> concat (taken c) = sent c @ toStringPiece (outputBuffer c)
     \<and> (state c \<noteq> kDisconnected \<longrightarrow> (isWriting (channel c) \<longleftrightarrow> toStringPiece (outputBuffer c) \<noteq> [])
          \<and> (shut c \<longrightarrow> toStringPiece (outputBuffer c) = [] \<and> state c = kDisconnecting))
     \<and> \<not> bit (events (channel c)) 13 \<and> (bit (events (channel c)) 0 \<longleftrightarrow> bit (events (channel c)) 1)"

definition quiet :: "conn_functor \<Rightarrow> bool" where
  "quiet f \<longleftrightarrow> f \<noteq> ConnectDestroyed \<and> f \<noteq> ShutdownInLoop \<and> f \<noteq> StartReadInLoop \<and> f \<noteq> StopReadInLoop"

definition frame :: "TcpConnection \<Rightarrow> TcpConnection \<Rightarrow> bool" where
  "frame c c' \<longleftrightarrow> upDown c' = upDown c \<and> closed c' = closed c
     \<and> (\<exists>fs. pending c' = pending c @ fs \<and> list_all quiet fs \<and> (state c = kConnecting \<longrightarrow> fs = []))
     \<and> (addedToLoop (channel c) \<longrightarrow> addedToLoop (channel c'))
     \<and> (state c' = state c \<or> state c = kConnected \<and> state c' = kDisconnecting)
     \<and> (state c = kDisconnected \<or> state c = kConnecting \<longrightarrow> channel c' = channel c)"

lemma frame_refl [simp]: "frame c c"
  by (simp add: frame_def)

lemma frame_trans:
  assumes 1: "frame c c'" and 2: "frame c' c''"
  shows "frame c c''"
proof -
  obtain fs where fs: "pending c' = pending c @ fs" "list_all quiet fs" "state c = kConnecting \<Longrightarrow> fs = []"
    using 1 by (auto simp: frame_def)
  obtain fs' where fs': "pending c'' = pending c' @ fs'" "list_all quiet fs'" "state c' = kConnecting \<Longrightarrow> fs' = []"
    using 2 by (auto simp: frame_def)
  have "state c' = state c \<or> state c = kConnected \<and> state c' = kDisconnecting"
    "state c'' = state c' \<or> state c' = kConnected \<and> state c'' = kDisconnecting"
    using 1 2 by (auto simp: frame_def)
  then have st: "state c'' = state c \<or> state c = kConnected \<and> state c'' = kDisconnecting"
    "state c = kConnecting \<Longrightarrow> state c' = kConnecting" "state c = kDisconnected \<Longrightarrow> state c' = kDisconnected" by auto
  have "pending c'' = pending c @ (fs @ fs')" "list_all quiet (fs @ fs')" "state c = kConnecting \<longrightarrow> fs @ fs' = []"
    using fs fs' st by simp_all
  then show ?thesis using 1 2 st unfolding frame_def by auto
qed

lemma frame_queue: "quiet f \<Longrightarrow> state c \<noteq> kConnecting \<Longrightarrow> frame c (queueInLoop f c)"
  by (simp add: frame_def queueInLoop_def)

lemma core_fields [simp]:
  "core (c\<lparr>upDown := u\<rparr>) = core c" "core (c\<lparr>closed := n\<rparr>) = core c" "core (c\<lparr>pending := fs\<rparr>) = core c"
  "core (c\<lparr>reads := r\<rparr>) = core c" "core (c\<lparr>writes := w\<rparr>) = core c" "core (c\<lparr>reading := b\<rparr>) = core c"
  "core (queueInLoop f c) = core c"
  by (simp_all add: core_def queueInLoop_def)

lemma read_bits:
  "bit (events (enableReading ch)) n \<longleftrightarrow> n = 0 \<or> n = 1 \<or> bit (events ch) n"
  "bit (events (disableReading ch)) n \<longleftrightarrow> n \<noteq> 0 \<and> n \<noteq> 1 \<and> bit (events ch) n"
  "bit (events (enableWriting ch)) n \<longleftrightarrow> n = 2 \<or> bit (events ch) n"
  "bit (events (disableWriting ch)) n \<longleftrightarrow> n \<noteq> 2 \<and> bit (events ch) n"
  "\<not> bit (events (disableAll ch)) n"
  "events (tie ch) = events ch" "isWriting (tie ch) = isWriting ch" "isReading (tie ch) = isReading ch"
  by (auto simp: enableReading_def disableReading_def enableWriting_def disableWriting_def disableAll_def channel_simps
      bit_simps poll_bits_bit kNoneEvent_def tie_def isWriting_def isReading_def
      dest: bit_imp_le_length)

lemma queue_rest_ok:
  assumes "buffer_inv (inputBuffer c)" "buffer_inv (outputBuffer c)" "concat (taken c) = (sent c @ toStringPiece (outputBuffer c)) @ rest"
    and "state c = kConnected \<or> state c = kDisconnecting" "isWriting (channel c) \<longleftrightarrow> toStringPiece (outputBuffer c) \<noteq> []"
    and "shut c \<Longrightarrow> toStringPiece (outputBuffer c) = [] \<and> state c = kDisconnecting \<and> rest = []"
    and "\<not> bit (events (channel c)) 13" "bit (events (channel c)) 0 \<longleftrightarrow> bit (events (channel c)) 1"
  shows "\<exists>c'. queue_rest rest c = Inr c' \<and> core c' \<and> frame c c' \<and> state c' = state c"
proof (cases "rest = []")
  case True
  with assms show ?thesis by (auto simp: queue_rest_def core_def)
next
  case False
  define c1 where "c1 = (if readableBytes (outputBuffer c) + length rest \<ge> highWaterMark c \<and> readableBytes (outputBuffer c) < highWaterMark c
      \<and> highWaterMarkCallback c then queueInLoop (HighWaterMark (readableBytes (outputBuffer c) + length rest)) c else c)"
  have f1: "frame c c1" "inputBuffer c1 = inputBuffer c" "outputBuffer c1 = outputBuffer c" "taken c1 = taken c" "sent c1 = sent c"
    "state c1 = state c" "channel c1 = channel c" "shut c1 = shut c"
    using assms(4) by (auto simp: c1_def queueInLoop_def frame_def quiet_def)
  obtain b where b: "append_Buffer rest (outputBuffer c) = Inr b" "buffer_inv b" "toStringPiece b = toStringPiece (outputBuffer c) @ rest"
    using append_Buffer_spec [OF assms(2)] by blast
  let ?c2 = "c1\<lparr>outputBuffer := b\<rparr>"
  let ?c' = "if \<not> isWriting (channel ?c2) then ?c2\<lparr>channel := enableWriting (channel ?c2)\<rparr> else ?c2"
  have "queue_rest rest c = Inr ?c'"
    using False b(1) f1(3) by (simp add: queue_rest_def Let_def c1_def [symmetric])
  moreover have "core ?c'"
    using assms b f1 False by (auto simp: core_def read_bits channel_simps)
  moreover have "frame c1 ?c'"
    using assms(4) f1 by (auto simp: frame_def channel_simps)
  ultimately show ?thesis using frame_trans [OF f1(1)] f1(6) by auto
qed

lemma sendInLoop_ok:
  assumes "core c" "state c \<noteq> kConnecting"
  shows "\<exists>c'. sendInLoop wr data c = Inr c' \<and> core c' \<and> frame c c' \<and> state c' = state c"
proof -
  consider (down) "state c = kDisconnected"
    | (direct) "state c = kConnected \<or> state c = kDisconnecting" "\<not> isWriting (channel c)" "readableBytes (outputBuffer c) = 0"
    | (buffered) "state c = kConnected \<or> state c = kDisconnecting" "isWriting (channel c) \<or> readableBytes (outputBuffer c) \<noteq> 0"
    using assms(2) by (cases "state c") auto
  then show ?thesis
  proof cases
    case down
    then show ?thesis using assms by (simp add: sendInLoop_def)
  next
    case direct
    have empty: "toStringPiece (outputBuffer c) = []" using assms(1) direct(3) contents_empty by (auto simp: core_def)
    show ?thesis
    proof (cases "sockets_write wr data c")
      case (Pair r c1)
      have same: "frame c c1" "state c1 = state c" using Pair by (auto simp: sockets_write_def frame_def split: if_splits sum.splits)
      show ?thesis
      proof (cases r)
        case (Inl e)
        then have c1: "c1 = c\<lparr>writes := writes c + 1\<rparr>" "shut c \<Longrightarrow> e = EPIPE"
          using Pair by (auto simp: sockets_write_def split: if_splits sum.splits)
        let ?c = "c1\<lparr>taken := taken c1 @ [data]\<rparr>"
        show ?thesis
        proof (cases "e \<noteq> EWOULDBLOCK \<and> (e = EPIPE \<or> e = ECONNRESET)")
          case True
          then show ?thesis using direct Pair Inl same c1 assms(1) by (simp add: sendInLoop_def)
        next
          case False
          then have "\<not> shut c" using c1(2) by (auto simp: EPIPE_def EWOULDBLOCK_def)
          then have "\<exists>c'. queue_rest data ?c = Inr c' \<and> core c' \<and> frame ?c c' \<and> state c' = state ?c"
            using assms(1) direct empty c1(1) by (intro queue_rest_ok) (auto simp: core_def)
          then show ?thesis using direct Pair Inl False c1(1) by (auto simp: sendInLoop_def frame_def)
        qed
      next
        case (Inr n)
        then obtain k where k: "wr (writes c) = Inr k" "n = min k (length data)" "\<not> shut c"
            "c1 = c\<lparr>writes := writes c + 1, sent := sent c @ take k data\<rparr>"
          using Pair by (auto simp: sockets_write_def split: if_splits sum.splits)
        let ?c2 = "if length data - n = 0 \<and> writeCompleteCallback c1 then queueInLoop WriteComplete c1 else c1"
        let ?c = "?c2\<lparr>taken := taken ?c2 @ [data]\<rparr>"
        have "take k data @ drop n data = data" using k(2) by (simp add: min_def)
        then have "\<exists>c'. queue_rest (drop n data) ?c = Inr c' \<and> core c' \<and> frame ?c c' \<and> state c' = state ?c"
          using assms(1) direct empty k by (intro queue_rest_ok) (auto simp: core_def queueInLoop_def)
        moreover have "frame c ?c" "state ?c = state c"
          using direct(1) k(4) by (auto simp: frame_def queueInLoop_def quiet_def)
        moreover have "sendInLoop wr data c = queue_rest (drop n data) ?c"
          using direct Pair Inr by (auto simp: sendInLoop_def Let_def)
        ultimately show ?thesis using frame_trans by (metis (no_types, lifting))
      qed
    qed
  next
    case buffered
    let ?c = "c\<lparr>taken := taken c @ [data]\<rparr>"
    have "\<exists>c'. queue_rest data ?c = Inr c' \<and> core c' \<and> frame ?c c' \<and> state c' = state ?c"
      using assms(1) buffered contents_empty [of "outputBuffer c"] by (intro queue_rest_ok) (auto simp: core_def)
    then show ?thesis using buffered by (auto simp: sendInLoop_def frame_def)
  qed
qed

lemma core_shutdownInLoop: "core c \<Longrightarrow> state c = kDisconnecting \<Longrightarrow> core (shutdownInLoop c)"
  by (simp add: core_def shutdownInLoop_def shutdownWrite_def)

lemma run_action_ok:
  assumes c: "core c"
  shows "\<exists>c'. run_action wr a c = Inr c' \<and> core c' \<and> frame c c'"
proof (cases a)
  case (ASend m)
  then show ?thesis using c sendInLoop_ok [OF c, of wr m] by (auto simp: send_def)
next
  case AShutdown
  have "core (shutdownInLoop (c\<lparr>state := kDisconnecting\<rparr>))" if "state c = kConnected"
    using c that by (intro core_shutdownInLoop) (auto simp: core_def)
  then show ?thesis
    using AShutdown c by (auto simp: shutdown_def Let_def frame_def shutdownInLoop_def shutdownWrite_def)
next
  case AForceClose
  then show ?thesis using c by (auto simp: forceClose_def frame_def queueInLoop_def core_def quiet_def)
next
  case AForceCloseWithDelay
  then show ?thesis using c by (auto simp: forceCloseWithDelay_def frame_def core_def)
next
  case AStartRead
  then show ?thesis
    using c by (auto simp: startRead_def startReadInLoop_def connected_def frame_def core_def read_bits channel_simps)
next
  case AStopRead
  then show ?thesis
    using c by (auto simp: stopRead_def stopReadInLoop_def connected_def frame_def core_def read_bits channel_simps)
next
  case (ARetrieve n)
  have "buffer_inv (inputBuffer c)" using c by (simp add: core_def)
  then obtain b where "retrieve (min n (readableBytes (inputBuffer c))) (inputBuffer c) = Inr b" "buffer_inv b"
    using retrieve_spec [of "inputBuffer c" "min n (readableBytes (inputBuffer c))"] by auto
  then show ?thesis using ARetrieve c by (auto simp: core_def frame_def)
qed

lemma run_actions_ok: "core c \<Longrightarrow> \<exists>c'. run_actions wr as c = Inr c' \<and> core c' \<and> frame c c'"
proof (induction as arbitrary: c)
  case (Cons a as)
  obtain c1 where c1: "run_action wr a c = Inr c1" "core c1" "frame c c1" using run_action_ok [OF Cons.prems] by blast
  obtain c' where "run_actions wr as c1 = Inr c'" "core c'" "frame c1 c'" using Cons.IH [OF c1(2)] by blast
  then show ?case using c1 frame_trans by auto
qed simp

lemma connectionCallback_ok:
  assumes "core c"
  shows "\<exists>c'. connectionCallback cbs wr c = Inr c' \<and> core c' \<and> frame (c\<lparr>upDown := upDown c @ [connected c]\<rparr>) c'"
  using run_actions_ok [of "c\<lparr>upDown := upDown c @ [connected c]\<rparr>" wr] assms by (auto simp: connectionCallback_def Let_def)

section \<open>The life of a connection\<close>

text \<open>
  The callbacks by state, with the functors \<open>fs\<close> that the loop has taken from the queue and not yet run: the user
  hears once that the connection is up and once that it is down, the server once that it is closed, and
  \<open>connectDestroyed\<close> runs once after that.
\<close>

definition destroys :: "conn_functor list \<Rightarrow> nat" where
  "destroys fs = length (filter (\<lambda>f. f = ConnectDestroyed) fs)"

text \<open>A request to shut down waits only when the state has changed already.\<close>

definition expected :: "StateE \<Rightarrow> conn_functor \<Rightarrow> bool" where
  "expected s f \<longleftrightarrow> f = ConnectDestroyed \<or> f = ShutdownInLoop \<and> s \<noteq> kConnected \<or> quiet f"

definition life :: "conn_functor list \<Rightarrow> TcpConnection \<Rightarrow> bool" where
  "life fs c \<longleftrightarrow> list_all (expected (state c)) (fs @ pending c)
     \<and> (case state c of
         kConnecting \<Rightarrow> upDown c = [] \<and> closed c = 0 \<and> isNoneEvent (channel c) \<and> \<not> addedToLoop (channel c) \<and> fs @ pending c = []
       | kDisconnected \<Rightarrow> upDown c = [True, False] \<and> closed c = 1 \<and> isNoneEvent (channel c)
           \<and> destroys (fs @ pending c) = (if addedToLoop (channel c) then 1 else 0)
       | _ \<Rightarrow> upDown c = [True] \<and> closed c = 0 \<and> addedToLoop (channel c) \<and> destroys (fs @ pending c) = 0)"

definition conn_inv :: "conn_functor list \<Rightarrow> TcpConnection \<Rightarrow> bool" where
  "conn_inv fs c \<longleftrightarrow> core c \<and> life fs c"

lemma destroys_simps [simp]:
  "destroys [] = 0" "destroys (ConnectDestroyed # fs) = Suc (destroys fs)" "destroys (fs @ gs) = destroys fs + destroys gs"
  by (simp_all add: destroys_def)

lemma destroys_quiet [simp]: "list_all quiet fs \<Longrightarrow> destroys fs = 0" "quiet f \<Longrightarrow> destroys (f # fs) = destroys fs"
  by (induction fs) (auto simp: destroys_def quiet_def)

lemma list_all_quiet: "list_all quiet fs \<Longrightarrow> list_all (expected s) fs"
  by (simp add: list_all_iff expected_def)

lemma expected_later: "list_all (expected s) fs \<Longrightarrow> s' = s \<or> s' \<noteq> kConnected \<Longrightarrow> list_all (expected s') fs"
  by (auto simp: list_all_iff expected_def)

lemma life_frame:
  assumes l: "life fs c" and f: "frame c c'"
  shows "life fs c'"
proof -
  obtain gs where gs: "pending c' = pending c @ gs" "list_all quiet gs" "state c = kConnecting \<Longrightarrow> gs = []"
    using f by (auto simp: frame_def)
  have st: "state c' = state c \<or> state c = kConnected \<and> state c' = kDisconnecting" using f by (auto simp: frame_def)
  have same: "upDown c' = upDown c" "closed c' = closed c" "addedToLoop (channel c) \<longrightarrow> addedToLoop (channel c')"
    "state c = kDisconnected \<or> state c = kConnecting \<longrightarrow> channel c' = channel c"
    using f by (auto simp: frame_def)
  have "list_all (expected (state c')) (fs @ pending c)"
    using l expected_later [of "state c" "fs @ pending c" "state c'"] st by (auto simp: life_def)
  then have "list_all (expected (state c')) (fs @ pending c')"
    using gs list_all_quiet by simp
  then show ?thesis
    using l gs st same by (cases "state c") (auto simp: life_def)
qed

lemma conn_inv_frame: "conn_inv fs c \<Longrightarrow> frame c c' \<Longrightarrow> core c' \<Longrightarrow> conn_inv fs c'"
  using life_frame by (auto simp: conn_inv_def)

lemma handleClose_ok:
  assumes i: "conn_inv fs c" and up: "state c = kConnected \<or> state c = kDisconnecting"
  shows "\<exists>c'. handleClose cbs wr c = Inr c' \<and> conn_inv fs c' \<and> state c' = kDisconnected"
proof -
  let ?c = "c\<lparr>state := kDisconnected, channel := disableAll (channel c)\<rparr>"
  have "core ?c" using i by (auto simp: conn_inv_def core_def read_bits)
  then obtain c1 where c1: "connectionCallback cbs wr ?c = Inr c1" "core c1" "frame (?c\<lparr>upDown := upDown ?c @ [connected ?c]\<rparr>) c1"
    using connectionCallback_ok by blast
  then obtain gs where gs: "pending c1 = pending c @ gs" "list_all quiet gs" by (auto simp: frame_def)
  have f: "state c1 = kDisconnected" "channel c1 = disableAll (channel c)" "upDown c1 = upDown c @ [False]" "closed c1 = closed c"
    using c1(3) by (auto simp: frame_def connected_def)
  have "upDown c = [True]" "closed c = 0" "destroys (fs @ pending c) = 0" "list_all (expected kDisconnected) (fs @ pending c)"
    using i up expected_later [of "state c" "fs @ pending c" kDisconnected] by (auto simp: conn_inv_def life_def)
  then have "life fs (closeCallback c1)"
    using f gs list_all_quiet by (simp add: life_def closeCallback_def queueInLoop_def channel_simps expected_def [of _ ConnectDestroyed])
  then show ?thesis
    using c1 up f by (simp add: handleClose_def conn_inv_def closeCallback_def) (simp add: queueInLoop_def)
qed

lemma handleRead_ok:
  assumes i: "conn_inv fs c" and up: "state c = kConnected \<or> state c = kDisconnecting"
  shows "\<exists>c'. handleRead cbs wr rd c = Inr c' \<and> conn_inv fs c'"
proof -
  let ?rv = "map_sum id (take (readv_capacity (inputBuffer c))) (rd (reads c))"
  have b: "buffer_inv (inputBuffer c)" using i by (simp add: conn_inv_def core_def)
  obtain n e b where n: "readFd ?rv (inputBuffer c) = Inr (n, e, b)" "buffer_inv b"
  proof (cases "rd (reads c)")
    case (Inl e)
    then show thesis using that b by (simp add: readFd_def)
  next
    case (Inr got)
    then show thesis using that readFd_extends [OF b, of "take (readv_capacity (inputBuffer c)) got"] by auto
  qed
  let ?c = "c\<lparr>reads := reads c + 1, inputBuffer := b\<rparr>"
  have "core ?c" "frame c ?c" "state ?c = state c"
    using i n(2) by (auto simp: conn_inv_def core_def frame_def)
  then have i': "conn_inv fs ?c" using conn_inv_frame [OF i] by blast
  have "\<exists>c'. messageCallback cbs wr ?c = Inr c' \<and> conn_inv fs c'"
    unfolding messageCallback_def using run_actions_ok [OF \<open>core ?c\<close>] conn_inv_frame [OF i'] by blast
  moreover have "\<exists>c'. handleClose cbs wr ?c = Inr c' \<and> conn_inv fs c'"
    using handleClose_ok [OF i'] up by auto
  ultimately show ?thesis
    using n(1) i' by (simp add: handleRead_def handleError_def Let_def)
qed

text \<open>One write event: \<open>n\<close> characters of the output are accepted, or none.\<close>

lemma handleWrite_eq:
  fixes wr :: "nat \<Rightarrow> int + nat"
  assumes c: "core c" and w: "isWriting (channel c)" and up: "state c = kConnected \<or> state c = kDisconnecting"
  defines "k \<equiv> (case wr (writes c) of Inl e \<Rightarrow> 0 | Inr k \<Rightarrow> k)"
  shows "\<exists>c'. handleWrite wr c = Inr c' \<and> core c' \<and> frame c c' \<and> state c' = state c \<and> writes c' = writes c + 1
    \<and> taken c' = taken c \<and> toStringPiece (outputBuffer c') = drop k (toStringPiece (outputBuffer c))
    \<and> (state c = kDisconnecting \<and> toStringPiece (outputBuffer c') = [] \<longrightarrow> shut c')"
proof -
  let ?out = "toStringPiece (outputBuffer c)"
  have ne: "?out \<noteq> []" and ns: "\<not> shut c" and b: "buffer_inv (outputBuffer c)"
    using c w up by (auto simp: core_def)
  define c1 where "c1 = c\<lparr>writes := writes c + 1, sent := sent c @ take k ?out\<rparr>"
  have c1: "sockets_write wr ?out c = (case wr (writes c) of Inl e \<Rightarrow> (Inl e, c\<lparr>writes := writes c + 1\<rparr>) | Inr k \<Rightarrow> (Inr (min k (length ?out)), c1))"
    using ns by (auto simp: sockets_write_def c1_def k_def split: sum.splits)
  show ?thesis
  proof (cases "k = 0")
    case True
    then have "handleWrite wr c = Inr (c\<lparr>writes := writes c + 1\<rparr>)"
      using w c1 by (auto simp: handleWrite_def c1_def k_def split: sum.splits)
    then show ?thesis using True c ne by (auto simp: frame_def)
  next
    case False
    then have wk: "wr (writes c) = Inr k" by (auto simp: k_def split: sum.splits)
    let ?n = "min k (length ?out)"
    obtain b' where b': "retrieve ?n (outputBuffer c) = Inr b'" "buffer_inv b'" "toStringPiece b' = drop ?n ?out"
      using retrieve_spec [OF b, of ?n] b by auto
    have d: "drop ?n ?out = drop k ?out" by (simp add: min_def)
    let ?c2 = "c1\<lparr>outputBuffer := b'\<rparr>"
    let ?c3 = "?c2\<lparr>channel := disableWriting (channel ?c2)\<rparr>"
    let ?c4 = "if writeCompleteCallback ?c3 then queueInLoop WriteComplete ?c3 else ?c3"
    let ?c5 = "if state ?c4 = kDisconnecting then shutdownInLoop ?c4 else ?c4"
    have stream: "concat (taken c) = sent c1 @ toStringPiece b'"
      using c b'(3) by (simp add: core_def c1_def min_def)
    have eq: "handleWrite wr c = Inr (if readableBytes b' = 0 then ?c5 else ?c2)"
      using w c1 wk False ne b'(1) by (simp add: handleWrite_def Let_def c1_def)
    show ?thesis
    proof (cases "readableBytes b' = 0")
      case True
      then have e: "toStringPiece b' = []" using contents_empty [OF b'(2)] by simp
      have "core ?c4" using c e stream b'(2) ns by (auto simp: core_def c1_def queueInLoop_def read_bits channel_simps)
      then have "core ?c5" using core_shutdownInLoop by auto
      moreover have "frame c ?c5"
        using w up by (auto simp: frame_def c1_def queueInLoop_def quiet_def shutdownInLoop_def shutdownWrite_def channel_simps)
      moreover have "shut ?c5" if "state c = kDisconnecting"
        using that by (auto simp: c1_def queueInLoop_def shutdownInLoop_def shutdownWrite_def channel_simps)
      ultimately show ?thesis
        using eq True e d b'(3) by (auto simp: c1_def queueInLoop_def shutdownInLoop_def shutdownWrite_def)
    next
      case False
      then have e: "toStringPiece b' \<noteq> []" using contents_empty [OF b'(2)] by simp
      then have "core ?c2" using c stream b'(2) ns ne by (auto simp: core_def c1_def)
      then show ?thesis using eq False e d b'(3) by (auto simp: c1_def frame_def)
    qed
  qed
qed

lemma handleWrite_ok:
  assumes i: "conn_inv fs c"
  shows "\<exists>c'. handleWrite wr c = Inr c' \<and> conn_inv fs c'"
proof (cases "isWriting (channel c)")
  case True
  then have "state c = kConnected \<or> state c = kDisconnecting"
    using i none_event by (cases "state c") (auto simp: conn_inv_def life_def)
  then show ?thesis
    using handleWrite_eq [of c wr] True i conn_inv_frame [OF i] by (auto simp: conn_inv_def)
next
  case False
  then show ?thesis using i by (simp add: handleWrite_def)
qed

end
