(* ===== verification/Connection_Props.thy ===== *)
theory Connection_Props
  imports Connection
begin

text \<open>
  Runs of a connection: reports of the poller, functors of the loop, calls of the user in the loop thread and from
  other threads, in any order. The properties: no assertion fails and no byte is lost or reordered, the output is flushed before the
  write direction is shut down, and the two orders of events that do break an assertion.
\<close>

section \<open>Functors and events keep the invariant\<close>

lemma destroys_other [simp]: "f \<noteq> ConnectDestroyed \<Longrightarrow> destroys (f # fs) = destroys fs"
  by (simp add: destroys_def)

lemma conn_inv_tail: "conn_inv (f # fs) c \<Longrightarrow> f \<noteq> ConnectDestroyed \<Longrightarrow> conn_inv fs c \<and> state c \<noteq> kConnecting"
  by (cases "state c") (auto simp: conn_inv_def life_def)

lemma run_functor_ok:
  assumes i: "conn_inv (f # fs) c"
  shows "\<exists>c'. run_functor cbs wr f c = Inr c' \<and> conn_inv fs c'"
proof (cases "f = ConnectDestroyed")
  case True
  then have "state c = kDisconnected" "isNoneEvent (channel c)"
    using i by (cases "state c"; auto simp: conn_inv_def life_def)+
  then have "run_functor cbs wr f c = Inr (c\<lparr>channel := (channel c)\<lparr>addedToLoop := False\<rparr>\<rparr>)"
    using True by (simp add: connectDestroyed_def remove_Channel_def)
  moreover have "conn_inv fs (c\<lparr>channel := (channel c)\<lparr>addedToLoop := False\<rparr>\<rparr>)"
    using i True \<open>state c = kDisconnected\<close>
    by (auto simp: conn_inv_def life_def core_def isNoneEvent_def split: if_splits)
  ultimately show ?thesis by blast
next
  case False
  then have q: "quiet f \<or> f = ShutdownInLoop \<and> state c \<noteq> kConnected" using i by (auto simp: conn_inv_def life_def expected_def)
  note i' = conn_inv_tail [OF i False]
  have core: "core c" using i' by (simp add: conn_inv_def)
  show ?thesis
  proof (cases f)
    case (SendInLoop m)
    then show ?thesis using sendInLoop_ok [OF core, of wr m] i' conn_inv_frame by auto
  next
    case ShutdownInLoop
    then have "state c = kDisconnecting \<or> state c = kDisconnected" using q i' by (cases "state c") (auto simp: quiet_def)
    then have "core (shutdownInLoop c)" "frame c (shutdownInLoop c)"
      using core core_shutdownInLoop [OF core] by (auto simp: core_def shutdownInLoop_def shutdownWrite_def frame_def)
    then show ?thesis using ShutdownInLoop conn_inv_frame i' by auto
  next
    case ForceCloseInLoop
    then show ?thesis using handleClose_ok [of fs c cbs wr] i' by (auto simp: forceCloseInLoop_def)
  qed (use q i' in \<open>auto simp: quiet_def\<close>)
qed

lemma run_functors_ok: "conn_inv fs c \<Longrightarrow> \<exists>c'. run_functors cbs wr fs c = Inr c' \<and> conn_inv [] c'"
proof (induction fs arbitrary: c)
  case (Cons f fs)
  then show ?case using run_functor_ok [OF Cons.prems, of cbs wr] by auto
qed simp

lemma conn_inv_channel_fields [simp]:
  "conn_inv fs (c\<lparr>channel := (channel c)\<lparr>revents := r\<rparr>\<rparr>) = conn_inv fs c"
  "conn_inv fs (c\<lparr>channel := (channel c)\<lparr>eventHandling := e\<rparr>\<rparr>) = conn_inv fs c"
  by (simp_all add: conn_inv_def core_def life_def isNoneEvent_def isWriting_def split: StateE.splits)

text \<open>
  A report of the poller. It reports only events that are wanted, and errors and hang-ups always; a channel that wants
  nothing is not registered (theory \<open>Pollers\<close>).
\<close>

definition deliver_event ::
    "conn_callbacks \<Rightarrow> (nat \<Rightarrow> int + nat) \<Rightarrow> (nat \<Rightarrow> int + string) \<Rightarrow> 32 word \<Rightarrow> TcpConnection \<Rightarrow> TcpConnection res" where
  "deliver_event cbs wr rd r c =
     (if addedToLoop (channel c) \<and> \<not> isNoneEvent (channel c)
      then handleEvent channel (\<lambda>ch c. c\<lparr>channel := ch\<rparr>) (conn_event_callbacks cbs wr rd) True
             (c\<lparr>channel := (channel c)\<lparr>revents := r AND (events (channel c) OR (POLLERR OR (POLLHUP OR POLLNVAL)))\<rparr>\<rparr>)
      else Inr c)"

text \<open>
  What TCP sockets report: a hang-up (both directions are closed) comes with the end of file, which is readable, so it is
  not reported together with urgent data alone.
\<close>

definition tcp_report :: "32 word \<Rightarrow> bool" where
  "tcp_report r \<longleftrightarrow> \<not> (r AND POLLHUP \<noteq> 0 \<and> r AND POLLIN = 0 \<and> r AND POLLPRI \<noteq> 0)"

lemma run_callbacks_append: "run_callbacks cbs (ks @ ls) s = bindE (run_callbacks cbs ks s) (run_callbacks cbs ls)"
proof (induction ks arbitrary: s)
  case (Cons k ks)
  then have "run_callbacks cbs (ks @ ls) = (\<lambda>s. bindE (run_callbacks cbs ks s) (run_callbacks cbs ls))" by (rule ext)
  then show ?case by (simp add: bindE_assoc)
qed simp

lemma error_write_ok:
  assumes "set ks \<subseteq> {ErrorCallback, WriteCallback}"
  shows "conn_inv fs c \<Longrightarrow> \<exists>c'. run_callbacks (conn_event_callbacks cbs wr rd) ks c = Inr c' \<and> conn_inv fs c'"
  using assms
proof (induction ks arbitrary: c)
  case (Cons k ks)
  then have "\<exists>c1. the (conn_event_callbacks cbs wr rd k) c = Inr c1 \<and> conn_inv fs c1"
    using handleWrite_ok [OF Cons.prems(1), of wr] by (auto simp: conn_event_callbacks_def handleError_def)
  then show ?case using Cons.IH Cons.prems(2) by (auto simp: conn_event_callbacks_def)
qed simp

lemma poll_in_zero: "w AND POLLIN = 0 \<longleftrightarrow> \<not> bit w 0"
  using poll_bit_iff(1) [of w] by blast

lemma event_callbacks_bits:
  "event_callbacks r =
     (if bit r 4 \<and> \<not> bit r 0 then [CloseCallback] else []) @ (if bit r 3 \<or> bit r 5 then [ErrorCallback] else [])
   @ (if bit r 0 \<or> bit r 1 \<or> bit r 13 then [ReadCallback] else []) @ (if bit r 2 then [WriteCallback] else [])"
  unfolding event_callbacks_def and_or_zero poll_in_zero poll_bit_iff by simp

lemma error_bits: "bit (POLLERR OR (POLLHUP OR POLLNVAL)) n \<longleftrightarrow> n = 3 \<or> n = 4 \<or> n = 5"
proof -
  have w: "POLLERR = 2 ^ 3" "POLLHUP = 2 ^ 4" "POLLNVAL = 2 ^ 5" by (simp_all add: poll_bits)
  show ?thesis unfolding w bit_or_iff bit_exp_iff by auto
qed

lemma event_callbacks_shape:
  assumes "tcp_report r" "\<not> bit e 13" "bit e 0 \<longleftrightarrow> bit e 1"
  defines "r' \<equiv> r AND (e OR (POLLERR OR (POLLHUP OR POLLNVAL)))"
  obtains (close) es where "event_callbacks r' = CloseCallback # es" "set es \<subseteq> {ErrorCallback, WriteCallback}"
    | (read) es vs where "event_callbacks r' = es @ ReadCallback # vs" "set es \<subseteq> {ErrorCallback}" "set vs \<subseteq> {WriteCallback}"
    | (other) "set (event_callbacks r') \<subseteq> {ErrorCallback, WriteCallback}"
proof -
  have b: "bit r' n \<longleftrightarrow> bit r n \<and> (bit e n \<or> n = 3 \<or> n = 4 \<or> n = 5)" for n
    unfolding r'_def bit_and_iff using error_bits [of n] by (auto simp: bit_or_iff)
  have "\<not> (bit r 4 \<and> \<not> bit r 0 \<and> bit r 1)"
    using assms(1) unfolding tcp_report_def poll_in_zero poll_bit_iff .
  then have no_read: "bit r' 4 \<and> \<not> bit r' 0 \<Longrightarrow> \<not> (bit r' 0 \<or> bit r' 1 \<or> bit r' 13)"
    using assms(2,3) b by auto
  let ?es = "if bit r' 3 \<or> bit r' 5 then [ErrorCallback] else []"
  let ?ws = "if bit r' 2 then [WriteCallback] else []"
  have sets: "set ?es \<subseteq> {ErrorCallback}" "set ?ws \<subseteq> {WriteCallback}" "set (?es @ ?ws) \<subseteq> {ErrorCallback, WriteCallback}"
    by auto
  show thesis
  proof (cases "bit r' 4 \<and> \<not> bit r' 0")
    case True
    then have "event_callbacks r' = CloseCallback # (?es @ ?ws)"
      using no_read by (simp add: event_callbacks_bits)
    then show thesis using sets(3) by (rule close)
  next
    case False
    show thesis
    proof (cases "bit r' 0 \<or> bit r' 1 \<or> bit r' 13")
      case True
      with False have "event_callbacks r' = ?es @ ReadCallback # ?ws" by (simp add: event_callbacks_bits)
      then show thesis using sets(1,2) by (rule read)
    next
      case no: False
      with False have "event_callbacks r' = ?es @ ?ws" by (simp add: event_callbacks_bits)
      then show thesis using sets(3) other by simp
    qed
  qed
qed

lemma error_keeps_state:
  "set es \<subseteq> {ErrorCallback} \<Longrightarrow> run_callbacks (conn_event_callbacks cbs wr rd) es c = Inr c"
  by (induction es) (auto simp: conn_event_callbacks_def handleError_def)

lemma deliver_event_ok:
  assumes i: "conn_inv [] c" and r: "tcp_report r"
  shows "\<exists>c'. deliver_event cbs wr rd r c = Inr c' \<and> conn_inv [] c'"
proof (cases "addedToLoop (channel c) \<and> \<not> isNoneEvent (channel c)")
  case True
  then have up: "state c = kConnected \<or> state c = kDisconnecting"
    using i by (cases "state c") (auto simp: conn_inv_def life_def)
  let ?cb = "conn_event_callbacks cbs wr rd"
  let ?r = "r AND (events (channel c) OR (POLLERR OR (POLLHUP OR POLLNVAL)))"
  define c1 where "c1 = c\<lparr>channel := (channel c)\<lparr>revents := ?r, eventHandling := True\<rparr>\<rparr>"
  have i1: "conn_inv [] c1" "state c1 = state c"
    using i conn_inv_channel_fields(2) [of "[]" True "c\<lparr>channel := (channel c)\<lparr>revents := ?r\<rparr>\<rparr>"] by (simp_all add: c1_def)
  have bits: "\<not> bit (events (channel c)) 13" "bit (events (channel c)) 0 \<longleftrightarrow> bit (events (channel c)) 1"
    using i by (simp_all add: conn_inv_def core_def)
  have "\<exists>c2. run_callbacks ?cb (event_callbacks ?r) c1 = Inr c2 \<and> conn_inv [] c2"
  proof (rule event_callbacks_shape [OF r bits])
    fix es assume "event_callbacks ?r = CloseCallback # es" "set es \<subseteq> {ErrorCallback, WriteCallback}"
    moreover obtain c2 where "handleClose cbs wr c1 = Inr c2" "conn_inv [] c2" using handleClose_ok [OF i1(1)] up i1(2) by auto
    ultimately show ?thesis
      using error_write_ok [of es "[]" c2] by (auto simp: conn_event_callbacks_def)
  next
    fix es vs assume es: "event_callbacks ?r = es @ ReadCallback # vs" "set es \<subseteq> {ErrorCallback}" "set vs \<subseteq> {WriteCallback}"
    moreover obtain c2 where "handleRead cbs wr rd c1 = Inr c2" "conn_inv [] c2" using handleRead_ok [OF i1(1), of cbs wr rd] up i1(2) by auto
    moreover have "\<exists>c3. run_callbacks ?cb vs c2 = Inr c3 \<and> conn_inv [] c3"
      using error_write_ok [of vs "[]" c2] es(3) calculation(5) by blast
    ultimately show ?thesis
      by (auto simp: run_callbacks_append error_keeps_state) (simp add: conn_event_callbacks_def)
  next
    assume "set (event_callbacks ?r) \<subseteq> {ErrorCallback, WriteCallback}"
    then show ?thesis using error_write_ok i1(1) by blast
  qed
  then obtain c2 where c2: "run_callbacks ?cb (event_callbacks ?r) c1 = Inr c2" "conn_inv [] c2" by blast
  have "deliver_event cbs wr rd r c = Inr (c2\<lparr>channel := (channel c2)\<lparr>eventHandling := False\<rparr>\<rparr>)"
    using True c2(1) by (simp add: deliver_event_def handleEvent_def handleEventWithGuard_def c1_def)
  then show ?thesis using c2(2) by simp
next
  case False
  then have "deliver_event cbs wr rd r c = Inr c" unfolding deliver_event_def by (rule if_not_P)
  then show ?thesis using i by simp
qed

section \<open>Runs\<close>

datatype conn_op =
    OpEstablish
  | OpEvent "32 word"
  | OpRunPending
  | OpCall conn_action
  | OpSendOther string
  | OpShutdownOther
  | OpForceClose

fun conn_step ::
    "conn_callbacks \<Rightarrow> (nat \<Rightarrow> int + nat) \<Rightarrow> (nat \<Rightarrow> int + string) \<Rightarrow> conn_op \<Rightarrow> TcpConnection \<Rightarrow> TcpConnection res" where
  "conn_step cbs wr rd OpEstablish c = (if state c = kConnecting then connectEstablished cbs wr c else Inr c)"
| "conn_step cbs wr rd (OpEvent r) c = deliver_event cbs wr rd r c"
| "conn_step cbs wr rd OpRunPending c = run_functors cbs wr (pending c) (c\<lparr>pending := []\<rparr>)"
| "conn_step cbs wr rd (OpCall a) c = run_action wr a c"
| "conn_step cbs wr rd (OpSendOther message) c = send wr False message c"
| "conn_step cbs wr rd OpShutdownOther c = Inr (shutdown False c)"
| "conn_step cbs wr rd OpForceClose c = Inr (forceClose c)"

fun conn_run ::
    "conn_callbacks \<Rightarrow> (nat \<Rightarrow> int + nat) \<Rightarrow> (nat \<Rightarrow> int + string) \<Rightarrow> conn_op list \<Rightarrow> TcpConnection \<Rightarrow> TcpConnection res" where
  "conn_run cbs wr rd [] c = Inr c"
| "conn_run cbs wr rd (op # ops) c = bindE (conn_step cbs wr rd op c) (conn_run cbs wr rd ops)"

lemma conn_run_append: "conn_run cbs wr rd (ops @ ops') c = bindE (conn_run cbs wr rd ops c) (conn_run cbs wr rd ops')"
proof (induction ops arbitrary: c)
  case (Cons op ops)
  then have "conn_run cbs wr rd (ops @ ops') = (\<lambda>c. bindE (conn_run cbs wr rd ops c) (conn_run cbs wr rd ops'))" by (rule ext)
  then show ?case by (simp add: bindE_assoc)
qed simp

definition tcp_reports :: "conn_op list \<Rightarrow> bool" where
  "tcp_reports ops \<longleftrightarrow> (\<forall>op \<in> set ops. case op of OpEvent r \<Rightarrow> tcp_report r | _ \<Rightarrow> True)"

lemma conn_inv_new: "conn_inv [] (new_TcpConnection sockfd)"
  by (simp add: conn_inv_def core_def life_def new_TcpConnection_def new_Channel_def isNoneEvent_def kNoneEvent_def isWriting_def)

lemma establish_ok:
  assumes i: "conn_inv [] c" and s: "state c = kConnecting"
  shows "\<exists>c'. connectEstablished cbs wr c = Inr c' \<and> conn_inv [] c'"
proof -
  let ?c = "c\<lparr>state := kConnected, channel := enableReading (tie (channel c))\<rparr>"
  have "core ?c" using i s by (auto simp: conn_inv_def core_def read_bits channel_simps)
  then obtain c' where c': "connectionCallback cbs wr ?c = Inr c'" "core c'" "frame (?c\<lparr>upDown := upDown ?c @ [connected ?c]\<rparr>) c'"
    using connectionCallback_ok by blast
  have "life [] (?c\<lparr>upDown := upDown ?c @ [connected ?c]\<rparr>)"
    using i s by (simp add: conn_inv_def life_def connected_def channel_simps)
  then show ?thesis using c' s life_frame by (auto simp: connectEstablished_def conn_inv_def)
qed

lemma conn_step_ok:
  assumes i: "conn_inv [] c" and r: "\<And>r. op = OpEvent r \<Longrightarrow> tcp_report r"
  shows "\<exists>c'. conn_step cbs wr rd op c = Inr c' \<and> conn_inv [] c'"
proof (cases op)
  case OpEstablish
  then show ?thesis using establish_ok [OF i] i by auto
next
  case (OpEvent e)
  then show ?thesis using deliver_event_ok [OF i r] by auto
next
  case OpRunPending
  have "conn_inv (pending c) (c\<lparr>pending := []\<rparr>)" using i by (cases "state c") (auto simp: conn_inv_def life_def)
  then show ?thesis using OpRunPending run_functors_ok by auto
next
  case (OpCall a)
  then show ?thesis using run_action_ok [of c wr a] conn_inv_frame [OF i] i by (auto simp: conn_inv_def)
next
  case (OpSendOther m)
  then show ?thesis
    using i conn_inv_frame [OF i frame_queue [of "SendInLoop m" c]] by (auto simp: send_def conn_inv_def quiet_def)
next
  case OpShutdownOther
  have "conn_inv [] (queueInLoop ShutdownInLoop (c\<lparr>state := kDisconnecting\<rparr>))" if "state c = kConnected"
    using i that expected_later [of kConnected "pending c" kDisconnecting]
    by (auto simp: conn_inv_def core_def life_def queueInLoop_def expected_def [of _ ShutdownInLoop])
  then show ?thesis using OpShutdownOther i by (simp add: shutdown_def Let_def)
next
  case OpForceClose
  then show ?thesis using run_action_ok [of c wr AForceClose] conn_inv_frame [OF i] i by (auto simp: conn_inv_def)
qed

lemma conn_run_ok:
  "conn_inv [] c \<Longrightarrow> tcp_reports ops \<Longrightarrow> \<exists>c'. conn_run cbs wr rd ops c = Inr c' \<and> conn_inv [] c'"
proof (induction ops arbitrary: c)
  case (Cons op ops)
  then obtain c1 where "conn_step cbs wr rd op c = Inr c1" "conn_inv [] c1"
    using conn_step_ok [OF Cons.prems(1), of op cbs wr rd] by (auto simp: tcp_reports_def split: conn_op.splits)
  then show ?case using Cons.IH [of c1] Cons.prems(2) by (auto simp: tcp_reports_def)
qed simp


text \<open>A peer that reads four characters at a time, sends one message and closes.\<close>

definition demo_wr :: "nat \<Rightarrow> int + nat" where
  "demo_wr n = Inr 4"

definition demo_rd :: "nat \<Rightarrow> int + string" where
  "demo_rd n = (if n = 0 then Inr ''ping'' else Inr [])"

definition demo_callbacks :: conn_callbacks where
  "demo_callbacks = \<lparr>onConnection = (\<lambda>c. if connected c then [ASend ''welcome''] else []),
     onMessage = (\<lambda>c. [ARetrieve 4, ASend ''pong'', AShutdown])\<rparr>"

definition demo_ops :: "conn_op list" where
  "demo_ops = [OpEstablish, OpEvent 1, OpEvent 4, OpEvent 4, OpEvent 1, OpRunPending]"


section \<open>Flushing\<close>

fun write_events :: "(nat \<Rightarrow> int + nat) \<Rightarrow> nat \<Rightarrow> TcpConnection \<Rightarrow> TcpConnection res" where
  "write_events wr 0 c = Inr c"
| "write_events wr (Suc n) c = bindE (handleWrite wr c) (write_events wr n)"

lemma flush_output:
  assumes progress: "\<And>n. \<exists>k. wr n = Inr (Suc k)"
  shows "core c \<Longrightarrow> state c = kDisconnecting \<Longrightarrow> (toStringPiece (outputBuffer c) = [] \<Longrightarrow> shut c) \<Longrightarrow>
    length (toStringPiece (outputBuffer c)) \<le> n \<Longrightarrow>
    \<exists>c'. write_events wr n c = Inr c' \<and> sent c' = concat (taken c) \<and> shut c' \<and> state c' = kDisconnecting"
proof (induction n arbitrary: c)
  case 0
  then have "toStringPiece (outputBuffer c) = []" by simp
  with 0 show ?case by (simp add: core_def)
next
  case (Suc n)
  let ?out = "toStringPiece (outputBuffer c)"
  show ?case
  proof (cases "?out = []")
    case True
    then have "handleWrite wr c = Inr c" using Suc.prems(1,2) by (simp add: core_def handleWrite_def)
    then show ?thesis using Suc.IH [of c] Suc.prems True by simp
  next
    case False
    obtain k where k: "wr (writes c) = Inr (Suc k)" using progress by blast
    have "isWriting (channel c)" using False Suc.prems(1,2) by (simp add: core_def)
    then obtain c1 where c1: "handleWrite wr c = Inr c1" "core c1" "state c1 = kDisconnecting" "taken c1 = taken c"
        "toStringPiece (outputBuffer c1) = drop (Suc k) ?out" "toStringPiece (outputBuffer c1) = [] \<Longrightarrow> shut c1"
      using handleWrite_eq [of c wr] Suc.prems(1,2) k by auto
    then have "length (toStringPiece (outputBuffer c1)) \<le> n" using Suc.prems(4) by simp
    then show ?thesis using Suc.IH [OF c1(2,3,6)] c1 by simp
  qed
qed

text \<open>
  C35. \<open>shutdown\<close> is graceful: as long as the socket accepts at least one character of each \<open>write\<close>, a connection that is shut down
  has, after at most as many write events as there are characters in its output buffer, handed every message it took over to
  the socket, and only then shut down the write direction.
\<close>

theorem shutdown_flushes:
  assumes "tcp_reports ops" "conn_run cbs wr rd ops (new_TcpConnection sockfd) = Inr c" "state c = kConnected"
    and "\<And>n. \<exists>k. wr n = Inr (Suc k)" "length (toStringPiece (outputBuffer c)) \<le> n"
  shows "\<exists>c'. write_events wr n (shutdown True c) = Inr c' \<and> sent c' = concat (taken c) \<and> shut c' \<and> state c' = kDisconnecting"
proof -
  have "core c" using conn_run_ok [OF conn_inv_new assms(1), of cbs wr rd sockfd] assms(2) by (simp add: conn_inv_def)
  let ?c = "shutdown True c"
  have "core ?c" using run_action_ok [OF \<open>core c\<close>, of wr AShutdown] by simp
  have "state ?c = kDisconnecting" "taken ?c = taken c" "outputBuffer ?c = outputBuffer c"
    using assms(3) by (simp_all add: shutdown_def shutdownInLoop_def shutdownWrite_def Let_def)
  moreover have "shut ?c" if "toStringPiece (outputBuffer ?c) = []"
    using that assms(3) \<open>core c\<close> by (simp add: shutdown_def shutdownInLoop_def shutdownWrite_def Let_def core_def split: if_splits)
  ultimately show ?thesis using flush_output [OF assms(4) \<open>core ?c\<close>, of n] assms(5) by simp
qed

text \<open>A greeting of seven characters leaves three in the output buffer; they follow before the write direction is shut down.\<close>

lemma demo_established:
  "\<exists>c. conn_run demo_callbacks demo_wr demo_rd [OpEstablish] (new_TcpConnection 7) = Inr c \<and> state c = kConnected
     \<and> taken c = [''welcome''] \<and> toStringPiece (outputBuffer c) = ''ome'' \<and> isReading (channel c)"
proof -
  obtain b where "append_Buffer ''ome'' (new_Buffer kInitialSize) = Inr b" "toStringPiece b = ''ome''"
    using append_Buffer_spec [of "new_Buffer kInitialSize" "''ome''"] by auto
  moreover have "\<not> isWriting (enableReading (tie (new_Channel 7)))"
    by (simp add: channel_simps read_bits) (simp add: new_Channel_def isWriting_def)
  ultimately show ?thesis
    by (simp add: connectEstablished_def connectionCallback_def new_TcpConnection_def demo_callbacks_def connected_def send_def
        sendInLoop_def sockets_write_def demo_wr_def queue_rest_def Let_def channel_simps read_bits)
qed

theorem shutdown_flushes_witness:
  "\<exists>c c'. conn_run demo_callbacks demo_wr demo_rd [OpEstablish] (new_TcpConnection 7) = Inr c
     \<and> write_events demo_wr 3 (shutdown True c) = Inr c' \<and> sent c' = ''welcome'' \<and> shut c'"
proof -
  obtain c where c: "conn_run demo_callbacks demo_wr demo_rd [OpEstablish] (new_TcpConnection 7) = Inr c" "state c = kConnected"
    "taken c = [''welcome'']" "toStringPiece (outputBuffer c) = ''ome''"
    using demo_established by blast
  have "tcp_reports [OpEstablish]" by (simp add: tcp_reports_def)
  moreover have "\<And>n. \<exists>k. demo_wr n = Inr (Suc k)" by (simp add: demo_wr_def eval_nat_numeral)
  ultimately show ?thesis using shutdown_flushes [of "[OpEstablish]", OF _ c(1,2), of 3] c by auto
qed

text \<open>
  C36. Two orders of events break an assertion. When another thread asks to start reading and the connection is closed before the loop runs
  the functor, the functor enables reading on the closed channel and \<open>connectDestroyed\<close> fails on \<open>isNoneEvent\<close>. When \<open>TcpServer\<close> is
  destroyed while a connection is being shut down, \<open>connectDestroyed\<close> finds it in \<open>kDisconnecting\<close>, leaves its channel
  enabled and fails in the same place.
\<close>

theorem teardown_orders_fail:
  assumes "tcp_reports ops" "conn_run cbs wr rd ops (new_TcpConnection sockfd) = Inr c"
  shows "(state c = kDisconnected \<longrightarrow> run_functors cbs wr [StartReadInLoop, ConnectDestroyed] c = Inl AssertionFailure)
    \<and> (state c = kDisconnecting \<and> isReading (channel c) \<longrightarrow> connectDestroyed cbs wr c = Inl AssertionFailure)"
proof -
  have i: "conn_inv [] c" using conn_run_ok [OF conn_inv_new assms(1), of cbs wr rd sockfd] assms(2) by simp
  have reading: "connectDestroyed cbs wr d = Inl AssertionFailure" if "isReading (channel d)" "state d \<noteq> kConnected" for d
  proof -
    have "\<not> isNoneEvent (channel d)" using that none_event(2) by blast
    then show ?thesis using that by (simp add: connectDestroyed_def remove_Channel_def)
  qed
  have "\<not> isReading (channel c)" if "state c = kDisconnected"
    using i that none_event by (auto simp: conn_inv_def life_def)
  then show ?thesis using reading by (auto simp: startReadInLoop_def channel_simps)
qed

theorem teardown_orders_fail_witness:
  "\<exists>c. conn_run demo_callbacks demo_wr demo_rd [OpEstablish, OpCall AShutdown] (new_TcpConnection 7) = Inr c
     \<and> connectDestroyed demo_callbacks demo_wr c = Inl AssertionFailure"
proof -
  obtain c where c: "conn_run demo_callbacks demo_wr demo_rd [OpEstablish, OpCall AShutdown] (new_TcpConnection 7) = Inr c"
    "state c = kDisconnecting" "isReading (channel c)"
  proof -
    obtain c0 where "conn_run demo_callbacks demo_wr demo_rd [OpEstablish] (new_TcpConnection 7) = Inr c0" "state c0 = kConnected"
      "isReading (channel c0)" using demo_established by blast
    then show thesis
      using that [of "shutdown True c0"] conn_run_append [of demo_callbacks demo_wr demo_rd "[OpEstablish]" "[OpCall AShutdown]" "new_TcpConnection 7"]
      by (simp add: shutdown_def shutdownInLoop_def shutdownWrite_def Let_def del: conn_run.simps(2) conn_step.simps(1)) (simp add: shutdown_def shutdownInLoop_def shutdownWrite_def Let_def)
  qed
  have "tcp_reports [OpEstablish, OpCall AShutdown]" by (simp add: tcp_reports_def)
  with teardown_orders_fail [OF this c(1)] c show ?thesis by blast
qed

end
