(* ===== verification/Pollers.thy ===== *)
theory Pollers
  imports Channels
begin

text \<open>
  \<open>net/Poller.h\<close>, \<open>net/Poller.cc\<close>, \<open>net/poller/EPollPoller.cc\<close>, \<open>net/poller/PollPoller.cc\<close>: the two implementations of the interface between an
  event loop and the kernel. Channels are objects at addresses (\<open>chan\<close>), \<open>channels\<close> is \<open>channels_\<close>, the registered channels by descriptor.
  \<open>kernel\<close> is the interest list of the epoll instance; \<open>pollfds\<close> is the array that is passed to \<open>poll\<close>. A fatal entry of the log
  (\<open>LOG_SYSFATAL\<close>) is the fault \<open>Aborted\<close>.

  The locale \<open>poller\<close> is the contract of the abstract class: what the kernel watches after \<open>updateChannel\<close> and \<open>removeChannel\<close>.
  Both classes are shown to keep it.
\<close>

section \<open>EPollPoller\<close>

definition kNew :: int where "kNew = - 1"
definition kAdded :: int where "kAdded = 1"
definition kDeleted :: int where "kDeleted = 2"

definition kInitEventListSize :: nat where
  "kInitEventListSize = 16"

datatype epoll_op = EPOLL_CTL_ADD | EPOLL_CTL_MOD | EPOLL_CTL_DEL

record EPollPoller =
  chan :: "nat \<Rightarrow> Channel"
  channels :: "int \<rightharpoonup> nat"
  kernel :: "int \<rightharpoonup> nat \<times> 32 word"
  eventListSize :: nat

definition operationToString :: "epoll_op \<Rightarrow> string" where
  "operationToString op = (case op of EPOLL_CTL_ADD \<Rightarrow> ''ADD'' | EPOLL_CTL_DEL \<Rightarrow> ''DEL'' | EPOLL_CTL_MOD \<Rightarrow> ''MOD'')"

text \<open>\<open>update\<close>: \<open>epoll_ctl\<close> fails when the descriptor is there already (ADD) or is missing (MOD, DEL).\<close>

definition EPollPoller_update :: "epoll_op \<Rightarrow> nat \<Rightarrow> EPollPoller \<Rightarrow> EPollPoller res" where
  "EPollPoller_update operation ch p =
     (let c = chan p ch; event = (ch, events c)
      in case operation of
           EPOLL_CTL_ADD \<Rightarrow> if kernel p (fd c) = None then Inr (p\<lparr>kernel := (kernel p)(fd c \<mapsto> event)\<rparr>) else Inl Aborted
         | EPOLL_CTL_MOD \<Rightarrow> if kernel p (fd c) \<noteq> None then Inr (p\<lparr>kernel := (kernel p)(fd c \<mapsto> event)\<rparr>) else Inl Aborted
         | EPOLL_CTL_DEL \<Rightarrow> Inr (p\<lparr>kernel := (kernel p)(fd c := None)\<rparr>))"

definition EPollPoller_set_index :: "nat \<Rightarrow> int \<Rightarrow> EPollPoller \<Rightarrow> EPollPoller" where
  "EPollPoller_set_index ch idx p = p\<lparr>chan := (chan p)(ch := (chan p ch)\<lparr>index := idx\<rparr>)\<rparr>"

definition EPollPoller_updateChannel :: "nat \<Rightarrow> EPollPoller \<Rightarrow> EPollPoller res" where
  "EPollPoller_updateChannel ch p =
     (let c = chan p ch
      in if index c = kNew \<or> index c = kDeleted
         then bindE (if index c = kNew
                     then bindE (assertE (channels p (fd c) = None)) (\<lambda>_. Inr (p\<lparr>channels := (channels p)(fd c \<mapsto> ch)\<rparr>))
                     else bindE (assertE (channels p (fd c) \<noteq> None)) (\<lambda>_.
                          bindE (assertE (channels p (fd c) = Some ch)) (\<lambda>_. Inr p))) (\<lambda>p1.
              EPollPoller_update EPOLL_CTL_ADD ch (EPollPoller_set_index ch kAdded p1))
         else bindE (assertE (channels p (fd c) \<noteq> None)) (\<lambda>_.
              bindE (assertE (channels p (fd c) = Some ch)) (\<lambda>_.
              bindE (assertE (index c = kAdded)) (\<lambda>_.
              if isNoneEvent c
              then bindE (EPollPoller_update EPOLL_CTL_DEL ch p) (\<lambda>p1. Inr (EPollPoller_set_index ch kDeleted p1))
              else EPollPoller_update EPOLL_CTL_MOD ch p))))"

definition EPollPoller_removeChannel :: "nat \<Rightarrow> EPollPoller \<Rightarrow> EPollPoller res" where
  "EPollPoller_removeChannel ch p =
     (let c = chan p ch
      in bindE (assertE (channels p (fd c) \<noteq> None)) (\<lambda>_.
         bindE (assertE (channels p (fd c) = Some ch)) (\<lambda>_.
         bindE (assertE (isNoneEvent c)) (\<lambda>_.
         bindE (assertE (index c = kAdded \<or> index c = kDeleted)) (\<lambda>_.
         let p1 = p\<lparr>channels := (channels p)(fd c := None)\<rparr>
         in bindE (if index c = kAdded then EPollPoller_update EPOLL_CTL_DEL ch p1 else Inr p1) (\<lambda>p2.
            Inr (EPollPoller_set_index ch kNew p2)))))))"

definition EPollPoller_hasChannel :: "nat \<Rightarrow> EPollPoller \<Rightarrow> bool" where
  "EPollPoller_hasChannel ch p \<longleftrightarrow> channels p (fd (chan p ch)) = Some ch"

text \<open>The entries that \<open>epoll_wait\<close> filled in: the address of the channel and the events.\<close>

fun EPollPoller_fillActiveChannels :: "(nat \<times> 32 word) list \<Rightarrow> EPollPoller \<Rightarrow> (nat list \<times> EPollPoller) res" where
  "EPollPoller_fillActiveChannels [] p = Inr ([], p)"
| "EPollPoller_fillActiveChannels ((ch, evs) # es) p =
     bindE (assertE (channels p (fd (chan p ch)) \<noteq> None)) (\<lambda>_.
     bindE (assertE (channels p (fd (chan p ch)) = Some ch)) (\<lambda>_.
     bindE (EPollPoller_fillActiveChannels es (p\<lparr>chan := (chan p)(ch := (chan p ch)\<lparr>revents := evs\<rparr>)\<rparr>)) (\<lambda>(active, p').
     Inr (ch # active, p'))))"

definition EPollPoller_poll :: "(nat \<times> 32 word) list option \<Rightarrow> EPollPoller \<Rightarrow> (nat list \<times> EPollPoller) res" where
  "EPollPoller_poll ready p = (case ready of
       None \<Rightarrow> Inr ([], p)
     | Some es \<Rightarrow>
         if es = [] then Inr ([], p)
         else bindE (assertE (length es \<le> eventListSize p)) (\<lambda>_.
              bindE (EPollPoller_fillActiveChannels es p) (\<lambda>(active, p').
              Inr (active, if length es = eventListSize p' then p'\<lparr>eventListSize := eventListSize p' * 2\<rparr> else p'))))"

section \<open>PollPoller\<close>

record pollfd =
  pfd_fd :: int
  pfd_events :: "16 word"
  pfd_revents :: "16 word"

record PollPoller =
  pp_chan :: "nat \<Rightarrow> Channel"
  pp_channels :: "int \<rightharpoonup> nat"
  pollfds :: "pollfd list"

definition PollPoller_updateChannel :: "nat \<Rightarrow> PollPoller \<Rightarrow> PollPoller res" where
  "PollPoller_updateChannel ch p =
     (let c = pp_chan p ch
      in if index c < 0
         then bindE (assertE (pp_channels p (fd c) = None)) (\<lambda>_.
              let pollfds' = pollfds p @ [\<lparr>pfd_fd = fd c, pfd_events = ucast (events c), pfd_revents = 0\<rparr>];
                  idx = int (length pollfds') - 1
              in Inr (p\<lparr>pollfds := pollfds', pp_chan := (pp_chan p)(ch := c\<lparr>index := idx\<rparr>),
                        pp_channels := (pp_channels p)(fd c \<mapsto> ch)\<rparr>))
         else bindE (assertE (pp_channels p (fd c) \<noteq> None)) (\<lambda>_.
              bindE (assertE (pp_channels p (fd c) = Some ch)) (\<lambda>_.
              let idx = index c
              in bindE (assertE (0 \<le> idx \<and> idx < int (length (pollfds p)))) (\<lambda>_.
                 let pfd = pollfds p ! nat idx
                 in bindE (assertE (pfd_fd pfd = fd c \<or> pfd_fd pfd = - fd c - 1)) (\<lambda>_.
                    Inr (p\<lparr>pollfds := (pollfds p)[nat idx :=
                          pfd\<lparr>pfd_fd := (if isNoneEvent c then - fd c - 1 else fd c), pfd_events := ucast (events c), pfd_revents := 0\<rparr>]\<rparr>))))))"

definition PollPoller_removeChannel :: "nat \<Rightarrow> PollPoller \<Rightarrow> PollPoller res" where
  "PollPoller_removeChannel ch p =
     (let c = pp_chan p ch
      in bindE (assertE (pp_channels p (fd c) \<noteq> None)) (\<lambda>_.
         bindE (assertE (pp_channels p (fd c) = Some ch)) (\<lambda>_.
         bindE (assertE (isNoneEvent c)) (\<lambda>_.
         let idx = index c
         in bindE (assertE (0 \<le> idx \<and> idx < int (length (pollfds p)))) (\<lambda>_.
            let pfd = pollfds p ! nat idx
            in bindE (assertE (pfd_fd pfd = - fd c - 1 \<and> pfd_events pfd = ucast (events c))) (\<lambda>_.
               let p1 = p\<lparr>pp_channels := (pp_channels p)(fd c := None)\<rparr>
               in if nat idx = length (pollfds p) - 1
                  then Inr (p1\<lparr>pollfds := butlast (pollfds p)\<rparr>)
                  else let tail = last (pollfds p);
                           channelAtEnd = (if pfd_fd tail < 0 then - pfd_fd tail - 1 else pfd_fd tail)
                       in case pp_channels p1 channelAtEnd of
                            None \<Rightarrow> Inl NullDereference
                          | Some moved \<Rightarrow> Inr (p1\<lparr>pollfds := butlast ((pollfds p)[nat idx := tail]),
                              pp_chan := (pp_chan p)(moved := (pp_chan p moved)\<lparr>index := idx\<rparr>)\<rparr>)))))))"

fun PollPoller_fillActiveChannels :: "nat \<Rightarrow> pollfd list \<Rightarrow> PollPoller \<Rightarrow> (nat list \<times> PollPoller) res" where
  "PollPoller_fillActiveChannels numEvents [] p = Inr ([], p)"
| "PollPoller_fillActiveChannels numEvents (pfd # pfds) p =
     (if numEvents = 0 then Inr ([], p)
      else if 0 < sint (pfd_revents pfd)
      then (case pp_channels p (pfd_fd pfd) of
              None \<Rightarrow> Inl AssertionFailure
            | Some ch \<Rightarrow>
                bindE (assertE (fd (pp_chan p ch) = pfd_fd pfd)) (\<lambda>_.
                bindE (PollPoller_fillActiveChannels (numEvents - 1) pfds
                  (p\<lparr>pp_chan := (pp_chan p)(ch := (pp_chan p ch)\<lparr>revents := ucast (pfd_revents pfd)\<rparr>)\<rparr>)) (\<lambda>(active, p').
                Inr (ch # active, p'))))
      else PollPoller_fillActiveChannels numEvents pfds p)"

section \<open>The contract of a poller\<close>

text \<open>
  The owner of a channel changes its events and then calls \<open>update\<close>. The events that owners ask for are those of
  \<open>kReadEvent\<close> and \<open>kWriteEvent\<close>.
\<close>

definition EPollPoller_watch :: "nat \<Rightarrow> 32 word \<Rightarrow> EPollPoller \<Rightarrow> EPollPoller res" where
  "EPollPoller_watch ch e p = EPollPoller_updateChannel ch (p\<lparr>chan := (chan p)(ch := (chan p ch)\<lparr>events := e\<rparr>)\<rparr>)"

definition PollPoller_watch :: "nat \<Rightarrow> 32 word \<Rightarrow> PollPoller \<Rightarrow> PollPoller res" where
  "PollPoller_watch ch e p = PollPoller_updateChannel ch (p\<lparr>pp_chan := (pp_chan p)(ch := (pp_chan p ch)\<lparr>events := e\<rparr>)\<rparr>)"

definition wanted :: "32 word \<Rightarrow> bool" where
  "wanted e \<longleftrightarrow> e AND (kReadEvent OR kWriteEvent) = e"

text \<open>
  The abstract state: what the kernel watches, by descriptor, the channels that are registered, and those that were never
  registered. A channel may be registered once, with some event, on a descriptor no other channel has; its events may
  change, but it is not silenced twice; it is removed when it is silent.
\<close>

record watchlist =
  watched :: "int \<rightharpoonup> nat \<times> 32 word"
  members :: "nat set"
  unused :: "nat set"

datatype poller_op = Watch nat "32 word" | Remove nat

fun allowed :: "(nat \<Rightarrow> int) \<Rightarrow> poller_op \<Rightarrow> watchlist \<Rightarrow> bool" where
  "allowed fd_of (Watch ch e) w \<longleftrightarrow> wanted e \<and>
     (if ch \<in> members w then e = 0 \<longrightarrow> watched w (fd_of ch) \<noteq> None
      else ch \<in> unused w \<and> e \<noteq> 0 \<and> 0 \<le> fd_of ch \<and> (\<forall>ch' \<in> members w. fd_of ch' \<noteq> fd_of ch))"
| "allowed fd_of (Remove ch) w \<longleftrightarrow> ch \<in> members w \<and> watched w (fd_of ch) = None"

fun watch_step :: "(nat \<Rightarrow> int) \<Rightarrow> poller_op \<Rightarrow> watchlist \<Rightarrow> watchlist" where
  "watch_step fd_of (Watch ch e) w =
     w\<lparr>watched := (watched w)(fd_of ch := if e = 0 then None else Some (ch, e)), members := insert ch (members w), unused := unused w - {ch}\<rparr>"
| "watch_step fd_of (Remove ch) w = w\<lparr>members := members w - {ch}\<rparr>"

fun allowed_all :: "(nat \<Rightarrow> int) \<Rightarrow> poller_op list \<Rightarrow> watchlist \<Rightarrow> bool" where
  "allowed_all fd_of [] w \<longleftrightarrow> True"
| "allowed_all fd_of (op # ops) w \<longleftrightarrow> allowed fd_of op w \<and> allowed_all fd_of ops (watch_step fd_of op w)"

definition watch_run :: "(nat \<Rightarrow> int) \<Rightarrow> poller_op list \<Rightarrow> watchlist \<Rightarrow> watchlist" where
  "watch_run fd_of ops w = fold (watch_step fd_of) ops w"

fun poller_step :: "(nat \<Rightarrow> 32 word \<Rightarrow> 's \<Rightarrow> 's res) \<Rightarrow> (nat \<Rightarrow> 's \<Rightarrow> 's res) \<Rightarrow> poller_op \<Rightarrow> 's \<Rightarrow> 's res" where
  "poller_step watch remove (Watch ch e) s = watch ch e s"
| "poller_step watch remove (Remove ch) s = remove ch s"

fun poller_run :: "(nat \<Rightarrow> 32 word \<Rightarrow> 's \<Rightarrow> 's res) \<Rightarrow> (nat \<Rightarrow> 's \<Rightarrow> 's res) \<Rightarrow> poller_op list \<Rightarrow> 's \<Rightarrow> 's res" where
  "poller_run watch remove [] s = Inr s"
| "poller_run watch remove (op # ops) s = bindE (poller_step watch remove op s) (poller_run watch remove ops)"

locale poller =
  fixes refines :: "(nat \<Rightarrow> int) \<Rightarrow> 's \<Rightarrow> watchlist \<Rightarrow> bool"
    and watch :: "nat \<Rightarrow> 32 word \<Rightarrow> 's \<Rightarrow> 's res"
    and remove :: "nat \<Rightarrow> 's \<Rightarrow> 's res"
  assumes watch_law: "refines fd_of s w \<Longrightarrow> allowed fd_of (Watch ch e) w \<Longrightarrow>
      \<exists>s'. watch ch e s = Inr s' \<and> refines fd_of s' (watch_step fd_of (Watch ch e) w)"
    and remove_law: "refines fd_of s w \<Longrightarrow> allowed fd_of (Remove ch) w \<Longrightarrow>
      \<exists>s'. remove ch s = Inr s' \<and> refines fd_of s' (watch_step fd_of (Remove ch) w)"
begin

lemma step_refines:
  "refines fd_of s w \<Longrightarrow> allowed fd_of op w \<Longrightarrow> \<exists>s'. poller_step watch remove op s = Inr s' \<and> refines fd_of s' (watch_step fd_of op w)"
  using watch_law remove_law by (cases op) auto

lemma run_refines:
  "refines fd_of s w \<Longrightarrow> allowed_all fd_of ops w \<Longrightarrow>
    \<exists>s'. poller_run watch remove ops s = Inr s' \<and> refines fd_of s' (watch_run fd_of ops w)"
proof (induction ops arbitrary: s w)
  case (Cons op ops)
  then obtain s1 where "poller_step watch remove op s = Inr s1" "refines fd_of s1 (watch_step fd_of op w)"
    using step_refines by (metis allowed_all.simps(2))
  then show ?case using Cons by (auto simp: watch_run_def)
qed (simp add: watch_run_def)

end

section \<open>EPollPoller keeps the contract\<close>

definition epoll_refines :: "(nat \<Rightarrow> int) \<Rightarrow> EPollPoller \<Rightarrow> watchlist \<Rightarrow> bool" where
  "epoll_refines fd_of p w \<longleftrightarrow>
     (\<forall>ch. fd (chan p ch) = fd_of ch)
   \<and> (\<forall>ch. if ch \<in> members w then channels p (fd_of ch) = Some ch
             \<and> (if events (chan p ch) = 0 then index (chan p ch) = kDeleted \<and> kernel p (fd_of ch) = None
                else index (chan p ch) = kAdded \<and> kernel p (fd_of ch) = Some (ch, events (chan p ch)))
           else index (chan p ch) = kNew)
   \<and> (\<forall>f ch. channels p f = Some ch \<longrightarrow> ch \<in> members w \<and> fd_of ch = f)
   \<and> (\<forall>f. channels p f = None \<longrightarrow> kernel p f = None)
   \<and> kernel p = watched w \<and> members w \<inter> unused w = {}"

lemmas epoll_ops = EPollPoller_watch_def EPollPoller_updateChannel_def EPollPoller_removeChannel_def EPollPoller_update_def
  EPollPoller_set_index_def Let_def isNoneEvent_def kNoneEvent_def

lemma index_values [simp]: "kNew \<noteq> kAdded" "kNew \<noteq> kDeleted" "kAdded \<noteq> kDeleted" "kAdded \<noteq> kNew" "kDeleted \<noteq> kNew" "kDeleted \<noteq> kAdded"
  by (simp_all add: kNew_def kAdded_def kDeleted_def)

text \<open>The state after an operation on \<open>ch\<close> refines the new watch list when everything about the other channels is as before.\<close>

lemma epoll_refinesI:
  assumes r: "epoll_refines fd_of p w"
    and "\<And>c. c \<noteq> ch \<Longrightarrow> chan p' c = chan p c" "fd (chan p' ch) = fd_of ch"
    and "\<And>c. c \<noteq> ch \<Longrightarrow> c \<in> members w' \<longleftrightarrow> c \<in> members w"
    and ch: "if ch \<in> members w' then channels p' = (channels p)(fd_of ch \<mapsto> ch) else channels p' = (channels p)(fd_of ch := None)"
    and k: "if ch \<in> members w' \<and> events (chan p' ch) \<noteq> 0
      then index (chan p' ch) = kAdded \<and> kernel p' = (kernel p)(fd_of ch \<mapsto> (ch, events (chan p' ch)))
      else index (chan p' ch) = (if ch \<in> members w' then kDeleted else kNew) \<and> kernel p' = (kernel p)(fd_of ch := None)"
    and free: "\<And>c. c \<in> members w \<Longrightarrow> c \<noteq> ch \<Longrightarrow> fd_of c \<noteq> fd_of ch"
    and "kernel p' = watched w'" "members w' \<inter> unused w' = {}"
  shows "epoll_refines fd_of p' w'"
proof -
  have "fd (chan p' c) = fd_of c" for c using assms(1-3) by (cases "c = ch") (auto simp: epoll_refines_def)
  moreover have "if c \<in> members w' then channels p' (fd_of c) = Some c
             \<and> (if events (chan p' c) = 0 then index (chan p' c) = kDeleted \<and> kernel p' (fd_of c) = None
                else index (chan p' c) = kAdded \<and> kernel p' (fd_of c) = Some (c, events (chan p' c)))
           else index (chan p' c) = kNew" for c
  proof (cases "c = ch")
    case True
    then show ?thesis using ch k by (auto split: if_splits)
  next
    case False
    have old: "if c \<in> members w then channels p (fd_of c) = Some c
             \<and> (if events (chan p c) = 0 then index (chan p c) = kDeleted \<and> kernel p (fd_of c) = None
                else index (chan p c) = kAdded \<and> kernel p (fd_of c) = Some (c, events (chan p c)))
           else index (chan p c) = kNew" using r unfolding epoll_refines_def by blast
    have same: "channels p' f = channels p f" "kernel p' f = kernel p f" if "f \<noteq> fd_of ch" for f
      using ch k that by (auto split: if_splits)
    show ?thesis
    proof (cases "c \<in> members w")
      case True
      then show ?thesis using old same [OF free [OF True False]] assms(2,4) [OF False] by simp
    next
      case no: False
      then show ?thesis using old assms(2,4) [OF False] by simp
    qed
  qed
  moreover have "c \<in> members w' \<and> fd_of c = f" if "channels p' f = Some c" for f c
  proof (cases "f = fd_of ch")
    case True
    then show ?thesis using that ch by (auto split: if_splits)
  next
    case False
    then have "channels p f = Some c" using that ch by (auto split: if_splits)
    then have "c \<in> members w" "fd_of c = f" using r unfolding epoll_refines_def by blast+
    then show ?thesis using assms(4) [of c] False by auto
  qed
  moreover have "kernel p' f = None" if "channels p' f = None" for f
  proof (cases "f = fd_of ch")
    case True
    then show ?thesis using that ch k by (auto split: if_splits)
  next
    case False
    then have "channels p f = None" using that ch by (auto split: if_splits)
    then have "kernel p f = None" using r unfolding epoll_refines_def by blast
    then show ?thesis using False k by (auto split: if_splits)
  qed
  ultimately show ?thesis using assms(8,9) unfolding epoll_refines_def by blast
qed

lemma epoll_members_fd:
  assumes "epoll_refines fd_of p w" "c \<in> members w" "ch \<in> members w" "c \<noteq> ch"
  shows "fd_of c \<noteq> fd_of ch"
proof -
  have "channels p (fd_of c) = Some c" "channels p (fd_of ch) = Some ch" using assms(1-3) unfolding epoll_refines_def by metis+
  then show ?thesis using assms(4) by auto
qed

interpretation epoll: poller epoll_refines EPollPoller_watch EPollPoller_removeChannel
proof
  fix fd_of p w ch e
  assume r: "epoll_refines fd_of p w" and a: "allowed fd_of (Watch ch e) w"
  let ?w = "watch_step fd_of (Watch ch e) w"
  have fd: "fd (chan p ch) = fd_of ch" and ker: "kernel p = watched w" and dis: "members w \<inter> unused w = {}"
    using r unfolding epoll_refines_def by blast+
  have free: "fd_of c \<noteq> fd_of ch" if "c \<in> members w" "c \<noteq> ch" for c
    using a that epoll_members_fd [OF r, of c ch] by (cases "ch \<in> members w") auto
  show "\<exists>p'. EPollPoller_watch ch e p = Inr p' \<and> epoll_refines fd_of p' ?w"
  proof (cases "ch \<in> members w")
    case new: False
    then have idx: "index (chan p ch) = kNew" using r unfolding epoll_refines_def by metis
    have none: "channels p (fd_of ch) = None" "kernel p (fd_of ch) = None"
    proof -
      show "channels p (fd_of ch) = None"
      proof (rule ccontr)
        assume "channels p (fd_of ch) \<noteq> None"
        then obtain c where "channels p (fd_of ch) = Some c" by blast
        then have "c \<in> members w" "fd_of c = fd_of ch" using r unfolding epoll_refines_def by blast+
        then show False using a new by auto
      qed
      then show "kernel p (fd_of ch) = None" using r unfolding epoll_refines_def by blast
    qed
    let ?p = "p\<lparr>chan := (chan p)(ch := (chan p ch)\<lparr>events := e, index := kAdded\<rparr>), channels := (channels p)(fd_of ch \<mapsto> ch),
      kernel := (kernel p)(fd_of ch \<mapsto> (ch, e))\<rparr>"
    have "EPollPoller_watch ch e p = Inr ?p" using idx none fd by (simp add: epoll_ops)
    moreover have "epoll_refines fd_of ?p ?w"
      using a new fd free ker dis by (intro epoll_refinesI [OF r]) auto
    ultimately show ?thesis by blast
  next
    case old: True
    then have reg: "channels p (fd_of ch) = Some ch" and st: "if events (chan p ch) = 0 then index (chan p ch) = kDeleted \<and> kernel p (fd_of ch) = None
        else index (chan p ch) = kAdded \<and> kernel p (fd_of ch) = Some (ch, events (chan p ch))"
      using r unfolding epoll_refines_def by metis+
    let ?p = "p\<lparr>chan := (chan p)(ch := (chan p ch)\<lparr>events := e, index := (if e = 0 then kDeleted else kAdded)\<rparr>),
      kernel := (kernel p)(fd_of ch := if e = 0 then None else Some (ch, e))\<rparr>"
    have ne: "e = 0 \<Longrightarrow> events (chan p ch) \<noteq> 0" using a old st ker by auto
    have "EPollPoller_watch ch e p = Inr ?p"
    proof (cases "events (chan p ch) = 0 \<or> e = 0")
      case True
      then show ?thesis using reg st ne fd by (auto simp: epoll_ops)
    next
      case False
      then have "index (chan p ch) = kAdded" using st by simp
      then have same: "chan p ch\<lparr>events := e\<rparr> = chan p ch\<lparr>events := e, index := kAdded\<rparr>" by (cases "chan p ch") simp
      have "EPollPoller_watch ch e p = Inr (p\<lparr>chan := (chan p)(ch := (chan p ch)\<lparr>events := e\<rparr>), kernel := (kernel p)(fd_of ch \<mapsto> (ch, e))\<rparr>)"
        using False reg st fd by (simp add: epoll_ops)
      then show ?thesis using False by (simp flip: same)
    qed
    moreover have "epoll_refines fd_of ?p ?w"
      using old fd free ker dis reg by (intro epoll_refinesI [OF r]) auto
    ultimately show ?thesis by blast
  qed
next
  fix fd_of p w ch
  assume r: "epoll_refines fd_of p w" and a: "allowed fd_of (Remove ch) w"
  have fd: "fd (chan p ch) = fd_of ch" and ker: "kernel p = watched w" and dis: "members w \<inter> unused w = {}"
    using r unfolding epoll_refines_def by blast+
  have reg: "channels p (fd_of ch) = Some ch" and st: "events (chan p ch) = 0" "index (chan p ch) = kDeleted" "kernel p (fd_of ch) = None"
    using r a unfolding epoll_refines_def by (metis allowed.simps(2) option.distinct(1))+
  let ?p = "p\<lparr>chan := (chan p)(ch := (chan p ch)\<lparr>index := kNew\<rparr>), channels := (channels p)(fd_of ch := None)\<rparr>"
  have "EPollPoller_removeChannel ch p = Inr ?p" using reg st fd by (simp add: epoll_ops)
  moreover have "epoll_refines fd_of ?p (watch_step fd_of (Remove ch) w)"
    using a fd st ker dis epoll_members_fd [OF r, of _ ch] by (intro epoll_refinesI [OF r]) auto
  ultimately show "\<exists>p'. EPollPoller_removeChannel ch p = Inr p' \<and> epoll_refines fd_of p' (watch_step fd_of (Remove ch) w)" by blast
qed

section \<open>PollPoller keeps the contract\<close>

text \<open>
  The array of \<open>poll\<close> holds one entry for each registered channel, in some order \<open>cs\<close>; the index of a channel is its place, and a
  silent channel has the complement of its descriptor there, which \<open>poll\<close> ignores.
\<close>

definition entry_of :: "pollfd \<Rightarrow> Channel \<Rightarrow> bool" where
  "entry_of pfd c \<longleftrightarrow> pfd_fd pfd = (if events c = 0 then - fd c - 1 else fd c) \<and> pfd_events pfd = ucast (events c)"

definition in_order :: "PollPoller \<Rightarrow> nat list \<Rightarrow> bool" where
  "in_order p cs \<longleftrightarrow> length cs = length (pollfds p)
     \<and> (\<forall>i < length cs. index (pp_chan p (cs ! i)) = int i \<and> entry_of (pollfds p ! i) (pp_chan p (cs ! i)))"

definition poll_refines :: "(nat \<Rightarrow> int) \<Rightarrow> PollPoller \<Rightarrow> watchlist \<Rightarrow> bool" where
  "poll_refines fd_of p w \<longleftrightarrow>
     (\<forall>ch. fd (pp_chan p ch) = fd_of ch)
   \<and> (\<forall>ch \<in> unused w. index (pp_chan p ch) < 0)
   \<and> (\<forall>f ch. pp_channels p f = Some ch \<longleftrightarrow> ch \<in> members w \<and> fd_of ch = f)
   \<and> (\<forall>ch \<in> members w. 0 \<le> fd_of ch \<and> wanted (events (pp_chan p ch)))
   \<and> (\<exists>cs. distinct cs \<and> set cs = members w \<and> in_order p cs)
   \<and> (\<forall>f. watched w f = (case pp_channels p f of None \<Rightarrow> None
        | Some ch \<Rightarrow> if events (pp_chan p ch) = 0 then None else Some (ch, events (pp_chan p ch))))
   \<and> members w \<inter> unused w = {}"

lemma poll_refinesD:
  assumes "poll_refines fd_of p w"
  shows "fd (pp_chan p ch) = fd_of ch" "ch \<in> unused w \<Longrightarrow> index (pp_chan p ch) < 0"
    "pp_channels p f = Some ch \<longleftrightarrow> ch \<in> members w \<and> fd_of ch = f"
    "ch \<in> members w \<Longrightarrow> 0 \<le> fd_of ch" "ch \<in> members w \<Longrightarrow> wanted (events (pp_chan p ch))"
    "\<exists>cs. distinct cs \<and> set cs = members w \<and> in_order p cs"
    "watched w f = (case pp_channels p f of None \<Rightarrow> None
        | Some ch \<Rightarrow> if events (pp_chan p ch) = 0 then None else Some (ch, events (pp_chan p ch)))"
    "members w \<inter> unused w = {}"
  using assms unfolding poll_refines_def by blast+

lemma poll_members_fd: "poll_refines fd_of p w \<Longrightarrow> c \<in> members w \<Longrightarrow> ch \<in> members w \<Longrightarrow> fd_of c = fd_of ch \<Longrightarrow> c = ch"
  using poll_refinesD(3) [of fd_of p w "fd_of c"] by (metis option.inject)

lemma poll_refinesI:
  assumes r: "poll_refines fd_of p w"
    and other: "\<And>c. c \<noteq> ch \<Longrightarrow> fd (pp_chan p' c) = fd (pp_chan p c) \<and> events (pp_chan p' c) = events (pp_chan p c)"
    and fresh: "\<And>c. c \<in> unused w' \<Longrightarrow> c \<in> unused w \<and> index (pp_chan p' c) = index (pp_chan p c)"
    and fd: "fd (pp_chan p' ch) = fd_of ch"
    and mem: "\<And>c. c \<noteq> ch \<Longrightarrow> c \<in> members w' \<longleftrightarrow> c \<in> members w"
    and reg: "pp_channels p' = (pp_channels p)(fd_of ch := if ch \<in> members w' then Some ch else None)"
    and ch: "ch \<in> members w' \<Longrightarrow> 0 \<le> fd_of ch \<and> wanted (events (pp_chan p' ch))"
    and cs: "distinct cs" "set cs = members w'" "in_order p' cs"
    and w': "watched w' = (watched w)(fd_of ch := if ch \<in> members w' \<and> events (pp_chan p' ch) \<noteq> 0 then Some (ch, events (pp_chan p' ch)) else None)"
    and free: "\<And>c. c \<in> members w \<Longrightarrow> c \<noteq> ch \<Longrightarrow> fd_of c \<noteq> fd_of ch"
    and dis: "members w' \<inter> unused w' = {}"
  shows "poll_refines fd_of p' w'"
proof -
  have "fd (pp_chan p' c) = fd_of c" for c using other [of c] fd poll_refinesD(1) [OF r] by (cases "c = ch") auto
  moreover have "pp_channels p' f = Some c \<longleftrightarrow> c \<in> members w' \<and> fd_of c = f" for f c
    using reg mem [of c] free [of c] poll_refinesD(3) [OF r, of f c] by (cases "c = ch"; cases "f = fd_of ch") auto
  moreover have "0 \<le> fd_of c \<and> wanted (events (pp_chan p' c))" if "c \<in> members w'" for c
    using that ch mem [of c] other [of c] poll_refinesD(4,5) [OF r, of c] by (cases "c = ch") auto
  moreover have "watched w' f = (case pp_channels p' f of None \<Rightarrow> None
        | Some c \<Rightarrow> if events (pp_chan p' c) = 0 then None else Some (c, events (pp_chan p' c)))" for f
  proof (cases "f = fd_of ch")
    case True
    then show ?thesis using w' reg by simp
  next
    case False
    then have same: "pp_channels p' f = pp_channels p f" "watched w' f = watched w f" using w' reg by simp_all
    have "c \<noteq> ch" if "pp_channels p f = Some c" for c
      using that False poll_refinesD(3) [OF r, of f c] by auto
    then show ?thesis
      using same other poll_refinesD(7) [OF r, of f] by (cases "pp_channels p f") auto
  qed
  moreover have "index (pp_chan p' c) < 0" if "c \<in> unused w'" for c
    using fresh [OF that] poll_refinesD(2) [OF r, of c] by simp
  ultimately show ?thesis using cs dis unfolding poll_refines_def by blast
qed

lemma swap_with_last:
  assumes "distinct cs" "i < length cs - 1"
  shows "distinct (butlast (cs[i := last cs]))" "set (butlast (cs[i := last cs])) = set cs - {cs ! i}"
    "\<And>j. j < length cs - 1 \<Longrightarrow> butlast (cs[i := last cs]) ! j = (if j = i then last cs else cs ! j)"
proof -
  have "cs \<noteq> []" using assms(2) by auto
  then obtain xs y where cs: "cs = xs @ [y]" by (metis append_butlast_last_id)
  then have i: "i < length xs" and x: "distinct xs" "y \<notin> set xs" using assms by auto
  have eq: "butlast (cs[i := last cs]) = xs[i := y]" using cs i by (simp add: list_update_append)
  show "distinct (butlast (cs[i := last cs]))" unfolding eq using x by (intro distinct_list_update) auto
  show "set (butlast (cs[i := last cs])) = set cs - {cs ! i}"
    unfolding eq set_update_distinct [OF x(1) i] using cs i x by (auto simp: nth_append)
  show "butlast (cs[i := last cs]) ! j = (if j = i then last cs else cs ! j)" if "j < length cs - 1" for j
    unfolding eq using that cs by (simp add: nth_append)
qed

lemmas poll_ops = PollPoller_watch_def PollPoller_updateChannel_def PollPoller_removeChannel_def Let_def isNoneEvent_def kNoneEvent_def

lemma poll_watch_new:
  assumes r: "poll_refines fd_of p w" and a: "allowed fd_of (Watch ch e) w" and new: "ch \<notin> members w"
  shows "\<exists>p'. PollPoller_watch ch e p = Inr p' \<and> poll_refines fd_of p' (watch_step fd_of (Watch ch e) w)"
proof -
  have al: "ch \<in> unused w" "e \<noteq> 0" "0 \<le> fd_of ch" "\<And>c. c \<in> members w \<Longrightarrow> fd_of c \<noteq> fd_of ch" "wanted e"
    using a new by auto
  have none: "pp_channels p (fd_of ch) = None"
    using poll_refinesD(3) [OF r, of "fd_of ch"] al(4) by (metis not_None_eq)
  note fd = poll_refinesD(1) [OF r] and idx = poll_refinesD(2) [OF r al(1)]
  obtain cs where cs: "distinct cs" "set cs = members w" "in_order p cs" using poll_refinesD(6) [OF r] by blast
  let ?c = "(pp_chan p ch)\<lparr>events := e, index := int (length (pollfds p))\<rparr>"
  let ?p = "p\<lparr>pollfds := pollfds p @ [\<lparr>pfd_fd = fd_of ch, pfd_events = ucast e, pfd_revents = 0\<rparr>],
    pp_chan := (pp_chan p)(ch := ?c), pp_channels := (pp_channels p)(fd_of ch \<mapsto> ch)\<rparr>"
  have "PollPoller_watch ch e p = Inr ?p" using none idx fd by (simp add: poll_ops)
  moreover have "in_order ?p (cs @ [ch])"
  proof -
    have "cs ! i \<noteq> ch" if "i < length cs" for i using that cs(2) new nth_mem by metis
    then show ?thesis using cs(3) al(2) fd by (auto simp: in_order_def nth_append entry_of_def less_Suc_eq)
  qed
  then have "poll_refines fd_of ?p (watch_step fd_of (Watch ch e) w)"
    using al fd new cs poll_refinesD(8) [OF r] by (intro poll_refinesI [OF r, where cs = "cs @ [ch]"]) auto
  ultimately show ?thesis by blast
qed

lemma poll_watch_old:
  assumes r: "poll_refines fd_of p w" and a: "allowed fd_of (Watch ch e) w" and old: "ch \<in> members w"
  shows "\<exists>p'. PollPoller_watch ch e p = Inr p' \<and> poll_refines fd_of p' (watch_step fd_of (Watch ch e) w)"
proof -
  note fd = poll_refinesD(1) [OF r]
  have reg: "pp_channels p (fd_of ch) = Some ch" using poll_refinesD(3) [OF r] old by simp
  obtain cs where cs: "distinct cs" "set cs = members w" "in_order p cs" using poll_refinesD(6) [OF r] by blast
  then obtain i where i: "i < length cs" "cs ! i = ch" using old by (metis in_set_conv_nth)
  have at: "index (pp_chan p ch) = int i" "i < length (pollfds p)" "entry_of (pollfds p ! i) (pp_chan p ch)"
    using cs(3) i by (auto simp: in_order_def)
  let ?pfd = "(pollfds p ! i)\<lparr>pfd_fd := (if e = 0 then - fd_of ch - 1 else fd_of ch), pfd_events := ucast e, pfd_revents := 0\<rparr>"
  let ?p = "p\<lparr>pp_chan := (pp_chan p)(ch := (pp_chan p ch)\<lparr>events := e\<rparr>), pollfds := (pollfds p)[i := ?pfd]\<rparr>"
  have "pfd_fd (pollfds p ! i) = fd_of ch \<or> pfd_fd (pollfds p ! i) = - fd_of ch - 1"
    using at(3) fd by (auto simp: entry_of_def)
  then have "PollPoller_watch ch e p = Inr ?p" using reg at fd by (simp add: poll_ops)
  moreover have "in_order ?p cs"
  proof -
    have "cs ! j = ch \<longleftrightarrow> j = i" if "j < length cs" for j using that i cs(1) nth_eq_iff_index_eq by blast
    then show ?thesis using cs(3) i at fd by (auto simp: in_order_def entry_of_def nth_list_update)
  qed
  moreover have "wanted e" "0 \<le> fd_of ch" using a old poll_refinesD(4) [OF r old] by auto
  moreover have "fd_of c \<noteq> fd_of ch" if "c \<in> members w" "c \<noteq> ch" for c using poll_members_fd [OF r that(1) old] that(2) by blast
  ultimately have "poll_refines fd_of ?p (watch_step fd_of (Watch ch e) w)"
    using fd old cs reg poll_refinesD(8) [OF r] by (intro poll_refinesI [OF r, where cs = cs]) auto
  then show ?thesis using \<open>PollPoller_watch ch e p = Inr ?p\<close> by blast
qed

lemma poll_remove:
  assumes r: "poll_refines fd_of p w" and a: "allowed fd_of (Remove ch) w"
  shows "\<exists>p'. PollPoller_removeChannel ch p = Inr p' \<and> poll_refines fd_of p' (watch_step fd_of (Remove ch) w)"
proof -
  have old: "ch \<in> members w" and silent: "watched w (fd_of ch) = None" using a by auto
  note fd = poll_refinesD(1) [OF r]
  have reg: "pp_channels p (fd_of ch) = Some ch" using poll_refinesD(3) [OF r] old by simp
  then have ev: "events (pp_chan p ch) = 0" using poll_refinesD(7) [OF r, of "fd_of ch"] silent by (auto split: if_splits)
  obtain cs where cs: "distinct cs" "set cs = members w" "in_order p cs" using poll_refinesD(6) [OF r] by blast
  then obtain i where i: "i < length cs" "cs ! i = ch" using old by (metis in_set_conv_nth)
  have at: "index (pp_chan p ch) = int i" "i < length (pollfds p)" "entry_of (pollfds p ! i) (pp_chan p ch)" "length cs = length (pollfds p)"
    using cs(3) i by (auto simp: in_order_def)
  have free: "fd_of c \<noteq> fd_of ch" if "c \<in> members w" "c \<noteq> ch" for c using poll_members_fd [OF r that(1) old] that(2) by blast
  let ?w = "watch_step fd_of (Remove ch) w"
  let ?p1 = "p\<lparr>pp_channels := (pp_channels p)(fd_of ch := None)\<rparr>"
  show ?thesis
  proof (cases "i = length (pollfds p) - 1")
    case True
    let ?p = "?p1\<lparr>pollfds := butlast (pollfds p)\<rparr>"
    have "length (pollfds p) - Suc 0 = i" using True by simp
    then have "PollPoller_removeChannel ch p = Inr ?p" using reg at fd ev by (simp add: poll_ops entry_of_def)
    moreover have ne: "cs \<noteq> []" using i by auto
    then have "last cs = ch" using True i(2) at(4) last_conv_nth [OF ne] by simp
    then have snoc: "butlast cs @ [ch] = cs" using append_butlast_last_id [OF ne] by simp
    then have "distinct (butlast cs @ [ch])" "set (butlast cs @ [ch]) = members w" using cs(1,2) by simp_all
    then have "distinct (butlast cs)" "set (butlast cs) = members w - {ch}" by auto
    moreover have "in_order ?p (butlast cs)"
      using cs(3) by (auto simp: in_order_def nth_butlast)
    ultimately have "poll_refines fd_of ?p ?w"
      using fd old silent free poll_refinesD(8) [OF r] ev by (intro poll_refinesI [OF r, where cs = "butlast cs"]) auto
    then show ?thesis using \<open>PollPoller_removeChannel ch p = Inr ?p\<close> by blast
  next
    case False
    then have i': "i < length cs - 1" using i at(4) by simp
    let ?moved = "last cs" and ?tail = "last (pollfds p)"
    have ne: "cs \<noteq> []" "pollfds p \<noteq> []" using i at by auto
    have last: "?moved = cs ! (length cs - 1)" "?tail = pollfds p ! (length cs - 1)" using ne at(4) by (simp_all add: last_conv_nth)
    have "?moved \<in> set cs" using ne(1) by (rule last_in_set)
    moreover have "cs ! (length cs - 1) \<noteq> cs ! i"
      using i(1) i' nth_eq_iff_index_eq [OF cs(1), of "length cs - 1" i] by linarith
    ultimately have mv: "?moved \<in> members w" "?moved \<noteq> ch" using cs(2) i(2) last(1) by simp_all
    have "entry_of ?tail (pp_chan p ?moved)" using cs(3) last i by (auto simp: in_order_def)
    then have dec: "(if pfd_fd ?tail < 0 then - pfd_fd ?tail - 1 else pfd_fd ?tail) = fd_of ?moved"
      using fd poll_refinesD(4) [OF r mv(1)] by (auto simp: entry_of_def)
    have found: "pp_channels p (fd_of ?moved) = Some ?moved" "fd_of ?moved \<noteq> fd_of ch"
      using poll_refinesD(3) [OF r, of "fd_of ?moved" ?moved] mv free by auto
    let ?cs = "butlast (cs[i := ?moved])"
    let ?p = "?p1\<lparr>pollfds := butlast ((pollfds p)[i := ?tail]), pp_chan := (pp_chan p)(?moved := (pp_chan p ?moved)\<lparr>index := int i\<rparr>)\<rparr>"
    have "PollPoller_removeChannel ch p = Inr ?p" using False reg at fd ev dec found by (simp add: poll_ops entry_of_def)
    moreover have "in_order ?p ?cs"
    proof -
      have "index (pp_chan ?p (?cs ! j)) = int j \<and> entry_of (pollfds ?p ! j) (pp_chan ?p (?cs ! j))" if j: "j < length cs - 1" for j
      proof (cases "j = i")
        case True
        then show ?thesis
          using swap_with_last(3) [OF cs(1) i' j] j at(4) \<open>entry_of ?tail (pp_chan p ?moved)\<close> i
          by (simp add: nth_butlast entry_of_def)
      next
        case no: False
        have "cs ! j \<noteq> ?moved" using last(1) j nth_eq_iff_index_eq [OF cs(1), of j "length cs - 1"] by simp
        then show ?thesis
          using swap_with_last(3) [OF cs(1) i' j] j at(4) no cs(3) by (simp add: nth_butlast in_order_def)
      qed
      then show ?thesis using at(4) by (simp add: in_order_def)
    qed
    moreover have "index (pp_chan ?p c) = index (pp_chan p c)" if "c \<in> unused w" for c
      using that mv poll_refinesD(8) [OF r] by auto
    ultimately have "poll_refines fd_of ?p ?w"
      using fd old silent free poll_refinesD(8) [OF r] ev mv swap_with_last(1,2) [OF cs(1) i'] cs(2) i(2)
      by (intro poll_refinesI [OF r, where ch = ch and cs = ?cs]) auto
    then show ?thesis using \<open>PollPoller_removeChannel ch p = Inr ?p\<close> by blast
  qed
qed

interpretation poll: poller poll_refines PollPoller_watch PollPoller_removeChannel
  by standard (use poll_watch_new poll_watch_old poll_remove in blast)+

text \<open>What the kernel watches: the entries of the array whose descriptor is not negative.\<close>

definition poll_watches :: "PollPoller \<Rightarrow> int \<Rightarrow> 32 word \<Rightarrow> bool" where
  "poll_watches p f e \<longleftrightarrow> 0 \<le> f \<and> (\<exists>pfd \<in> set (pollfds p). pfd_fd pfd = f \<and> ucast (pfd_events pfd) = e)"

lemma wanted_short:
  assumes "wanted e"
  shows "ucast (ucast e :: 16 word) = e"
proof (rule bit_eqI)
  fix n
  have "bit e n \<Longrightarrow> n = 0 \<or> n = 1 \<or> n = 2"
    using assms poll_bits_bit [of n] unfolding wanted_def by (metis bit_and_iff bit_or_iff)
  then show "bit (ucast (ucast e :: 16 word) :: 32 word) n \<longleftrightarrow> bit e n"
    by (auto simp: bit_ucast_iff)
qed

lemma poll_watches_iff:
  assumes r: "poll_refines fd_of p w"
  shows "poll_watches p f e \<longleftrightarrow> (\<exists>ch. watched w f = Some (ch, e))"
proof -
  obtain cs where cs: "distinct cs" "set cs = members w" "in_order p cs" using poll_refinesD(6) [OF r] by blast
  note fd = poll_refinesD(1) [OF r]
  show ?thesis
  proof
    assume "poll_watches p f e"
    then obtain i where i: "i < length (pollfds p)" "pfd_fd (pollfds p ! i) = f" "ucast (pfd_events (pollfds p ! i)) = e" "0 \<le> f"
      by (auto simp: poll_watches_def in_set_conv_nth)
    let ?ch = "cs ! i"
    have c: "entry_of (pollfds p ! i) (pp_chan p ?ch)" "?ch \<in> members w"
      using cs i(1) by (auto simp: in_order_def)
    then have "events (pp_chan p ?ch) \<noteq> 0" "fd_of ?ch = f" "e = events (pp_chan p ?ch)"
      using i fd poll_refinesD(4,5) [OF r c(2)] wanted_short by (auto simp: entry_of_def split: if_splits)
    moreover have "pp_channels p (fd_of ?ch) = Some ?ch" using poll_refinesD(3) [OF r] c(2) by simp
    ultimately show "\<exists>ch. watched w f = Some (ch, e)" using poll_refinesD(7) [OF r, of f] by simp
  next
    assume "\<exists>ch. watched w f = Some (ch, e)"
    then obtain ch where ch: "pp_channels p f = Some ch" "e = events (pp_chan p ch)" "e \<noteq> 0"
      using poll_refinesD(7) [OF r, of f] by (auto split: option.splits if_splits)
    then have m: "ch \<in> members w" "fd_of ch = f" using poll_refinesD(3) [OF r] by auto
    then obtain i where i: "i < length cs" "cs ! i = ch" using cs(2) by (metis in_set_conv_nth)
    then have "entry_of (pollfds p ! i) (pp_chan p ch)" "pollfds p ! i \<in> set (pollfds p)" using cs(3) by (auto simp: in_order_def)
    moreover have "0 \<le> f" "ucast (ucast e :: 16 word) = e"
      using poll_refinesD(4,5) [OF r m(1)] wanted_short ch(2) m(2) by auto
    ultimately show "poll_watches p f e"
      using ch(2,3) m(2) fd [of ch] unfolding poll_watches_def entry_of_def by (intro conjI bexI [of _ "pollfds p ! i"]) auto
  qed
qed

section \<open>Both watch the same\<close>

definition new_EPollPoller :: "(nat \<Rightarrow> int) \<Rightarrow> EPollPoller" where
  "new_EPollPoller fd_of = \<lparr>chan = (\<lambda>ch. new_Channel (fd_of ch)), channels = Map.empty, kernel = Map.empty, eventListSize = kInitEventListSize\<rparr>"

definition new_PollPoller :: "(nat \<Rightarrow> int) \<Rightarrow> PollPoller" where
  "new_PollPoller fd_of = \<lparr>pp_chan = (\<lambda>ch. new_Channel (fd_of ch)), pp_channels = Map.empty, pollfds = []\<rparr>"

definition no_channels :: watchlist where
  "no_channels = \<lparr>watched = Map.empty, members = {}, unused = UNIV\<rparr>"

lemma new_pollers_refine: "epoll_refines fd_of (new_EPollPoller fd_of) no_channels" "poll_refines fd_of (new_PollPoller fd_of) no_channels"
  by (simp_all add: epoll_refines_def new_EPollPoller_def no_channels_def new_Channel_def kNew_def poll_refines_def new_PollPoller_def in_order_def)



end
