(* ===== verification/Http.thy ===== *)
theory Http
  imports Net_Buffer Calendar
begin

text \<open>
  \<open>net/http\<close>: \<open>HttpRequest.h\<close>, \<open>HttpContext.h\<close>, \<open>HttpContext.cc\<close>, \<open>HttpResponse.h\<close>, \<open>HttpResponse.cc\<close> and the message callback of \<open>HttpServer.cc\<close>. A range of
  characters \<open>[start, end)\<close> is a string. The loop of \<open>parseRequest\<close> has no branch for a context that has all of a request
  and an empty one for \<open>kExpectBody\<close>: it is a partial function, and \<open>None\<close> says that it does not return.

  \<open>http_lines\<close> is the same parser on the readable characters. It always returns, and reading more characters continues where it
  stopped; the loop is shown to implement it.
\<close>

section \<open>Requests\<close>

datatype Method = kInvalid | kGet | kPost | kHead | kPut | kDelete

datatype Version = kUnknown | kHttp10 | kHttp11

record HttpRequest =
  "method" :: Method
  version :: Version
  path :: string
  query :: string
  receiveTime :: Timestamp
  headers :: "(string \<times> string) list"

definition new_HttpRequest :: HttpRequest where
  "new_HttpRequest = \<lparr>method = kInvalid, version = kUnknown, path = [], query = [], receiveTime = Timestamp 0, headers = []\<rparr>"

definition method_of :: "string \<Rightarrow> Method" where
  "method_of m =
     (if m = ''GET'' then kGet else if m = ''POST'' then kPost else if m = ''HEAD'' then kHead
      else if m = ''PUT'' then kPut else if m = ''DELETE'' then kDelete else kInvalid)"

definition setMethod :: "string \<Rightarrow> HttpRequest \<Rightarrow> (bool \<times> HttpRequest) res" where
  "setMethod m r =
     bindE (assertE (method r = kInvalid)) (\<lambda>_. Inr (method_of m \<noteq> kInvalid, r\<lparr>method := method_of m\<rparr>))"

definition methodString :: "HttpRequest \<Rightarrow> string" where
  "methodString r = (case method r of kGet \<Rightarrow> ''GET'' | kPost \<Rightarrow> ''POST'' | kHead \<Rightarrow> ''HEAD'' | kPut \<Rightarrow> ''PUT''
     | kDelete \<Rightarrow> ''DELETE'' | kInvalid \<Rightarrow> ''UNKNOWN'')"

text \<open>White space is removed on both sides of the value.\<close>

definition addHeader :: "string \<Rightarrow> nat \<Rightarrow> HttpRequest \<Rightarrow> HttpRequest" where
  "addHeader line colon r =
     (let field = take colon line;
          value = rev (dropWhile is_space (rev (dropWhile is_space (drop (colon + 1) line))))
      in r\<lparr>headers := map_put field value (headers r)\<rparr>)"

definition getHeader :: "string \<Rightarrow> HttpRequest \<Rightarrow> string" where
  "getHeader field r = (case map_of (headers r) field of None \<Rightarrow> [] | Some v \<Rightarrow> v)"

section \<open>The parser\<close>

datatype HttpRequestParseState = kExpectRequestLine | kExpectHeaders | kExpectBody | kGotAll

record HttpContext =
  state :: HttpRequestParseState
  request :: HttpRequest

definition new_HttpContext :: HttpContext where
  "new_HttpContext = \<lparr>state = kExpectRequestLine, request = new_HttpRequest\<rparr>"

definition gotAll :: "HttpContext \<Rightarrow> bool" where
  "gotAll c \<longleftrightarrow> state c = kGotAll"

definition reset_HttpContext :: "HttpContext \<Rightarrow> HttpContext" where
  "reset_HttpContext c = c\<lparr>state := kExpectRequestLine, request := new_HttpRequest\<rparr>"

definition processRequestLine :: "string \<Rightarrow> HttpRequest \<Rightarrow> (bool \<times> HttpRequest) res" where
  "processRequestLine line r =
     (case memchr (CHR '' '') line of
        None \<Rightarrow> Inr (False, r)
      | Some i \<Rightarrow>
          bindE (setMethod (take i line) r) (\<lambda>(known, r1).
            if \<not> known then Inr (False, r1)
            else let tail = drop (i + 1) line
                 in case memchr (CHR '' '') tail of
                      None \<Rightarrow> Inr (False, r1)
                    | Some j \<Rightarrow>
                        let target = take j tail;
                            r2 = (case memchr (CHR ''?'') target of
                                    Some q \<Rightarrow> r1\<lparr>path := take q target, query := drop q target\<rparr>
                                  | None \<Rightarrow> r1\<lparr>path := target\<rparr>);
                            proto = drop (j + 1) tail
                        in if length proto = 8 \<and> take 7 proto = ''HTTP/1.''
                           then if last proto = CHR ''1'' then Inr (True, r2\<lparr>version := kHttp11\<rparr>)
                                else if last proto = CHR ''0'' then Inr (True, r2\<lparr>version := kHttp10\<rparr>)
                                else Inr (False, r2)
                           else Inr (False, r2)))"

definition line_upto :: "nat \<Rightarrow> buffer \<Rightarrow> string" where
  "line_upto crlf b = take (crlf - readerIndex b) (toStringPiece b)"

partial_function (option) parseRequest :: "buffer \<Rightarrow> Timestamp \<Rightarrow> HttpContext \<Rightarrow> (bool \<times> buffer \<times> HttpContext) res option" where
  "parseRequest b t c =
     (case state c of
        kExpectRequestLine \<Rightarrow>
          (case findCRLF b of
             None \<Rightarrow> Some (Inr (True, b, c))
           | Some crlf \<Rightarrow>
               (case processRequestLine (line_upto crlf b) (request c) of
                  Inl e \<Rightarrow> Some (Inl e)
                | Inr (ok, r) \<Rightarrow>
                    if ok
                    then (case retrieveUntil (crlf + 2) b of
                            Inl e \<Rightarrow> Some (Inl e)
                          | Inr b' \<Rightarrow> parseRequest b' t (c\<lparr>request := r\<lparr>receiveTime := t\<rparr>, state := kExpectHeaders\<rparr>))
                    else Some (Inr (False, b, c\<lparr>request := r\<rparr>))))
      | kExpectHeaders \<Rightarrow>
          (case findCRLF b of
             None \<Rightarrow> Some (Inr (True, b, c))
           | Some crlf \<Rightarrow>
               (case memchr (CHR '':'') (line_upto crlf b) of
                  Some colon \<Rightarrow>
                    (case retrieveUntil (crlf + 2) b of
                       Inl e \<Rightarrow> Some (Inl e)
                     | Inr b' \<Rightarrow> parseRequest b' t (c\<lparr>request := addHeader (line_upto crlf b) colon (request c)\<rparr>))
                | None \<Rightarrow>
                    (case retrieveUntil (crlf + 2) b of
                       Inl e \<Rightarrow> Some (Inl e)
                     | Inr b' \<Rightarrow> Some (Inr (True, b', c\<lparr>state := kGotAll\<rparr>)))))
      | kExpectBody \<Rightarrow> parseRequest b t c
      | kGotAll \<Rightarrow> parseRequest b t c)"

section \<open>Responses\<close>

record HttpResponse =
  resp_headers :: "(string \<times> string) list"
  statusCode :: int
  statusMessage :: string
  closeConnection :: bool
  body :: string

definition new_HttpResponse :: "bool \<Rightarrow> HttpResponse" where
  "new_HttpResponse close = \<lparr>resp_headers = [], statusCode = 0, statusMessage = [], closeConnection = close, body = []\<rparr>"

definition resp_addHeader :: "string \<Rightarrow> string \<Rightarrow> HttpResponse \<Rightarrow> HttpResponse" where
  "resp_addHeader key value r = r\<lparr>resp_headers := map_put key value (resp_headers r)\<rparr>"

definition setContentType :: "string \<Rightarrow> HttpResponse \<Rightarrow> HttpResponse" where
  "setContentType contentType r = resp_addHeader ''Content-Type'' contentType r"

definition CRLF :: string where
  "CRLF = [CHR 0x0D, CHR 0x0A]"

text \<open>What is appended, in order. The two formatted lines go through an array of 32 characters.\<close>

definition response_pieces :: "HttpResponse \<Rightarrow> string list" where
  "response_pieces r =
     [take 31 (''HTTP/1.1 '' @ show_int (statusCode r) @ '' ''), statusMessage r, CRLF]
   @ (if closeConnection r then [''Connection: close'' @ CRLF]
      else [take 31 (''Content-Length: '' @ show_nat (length (body r)) @ CRLF), ''Connection: Keep-Alive'' @ CRLF])
   @ concat (map (\<lambda>(k, v). [k, '': '', v, CRLF]) (resp_headers r)) @ [CRLF, body r]"

definition appendToBuffer :: "HttpResponse \<Rightarrow> buffer \<Rightarrow> buffer res" where
  "appendToBuffer r output = fold (\<lambda>piece out. bindE out (append_Buffer piece)) (response_pieces r) (Inr output)"

section \<open>The server\<close>

text \<open>What the callbacks of the server do on the connection.\<close>

datatype http_action = HttpSend string | HttpShutdown

definition defaultHttpCallback :: "HttpRequest \<Rightarrow> HttpResponse \<Rightarrow> HttpResponse" where
  "defaultHttpCallback req resp = resp\<lparr>statusCode := 404, statusMessage := ''Not Found'', closeConnection := True\<rparr>"

definition onRequest :: "(HttpRequest \<Rightarrow> HttpResponse \<Rightarrow> HttpResponse) \<Rightarrow> HttpRequest \<Rightarrow> http_action list res" where
  "onRequest httpCallback req =
     (let connection = getHeader ''Connection'' req;
          close = (connection = ''close'' \<or> version req = kHttp10 \<and> connection \<noteq> ''Keep-Alive'');
          response = httpCallback req (new_HttpResponse close)
      in bindE (appendToBuffer response (new_Buffer kInitialSize)) (\<lambda>buf.
         Inr (HttpSend (toStringPiece buf) # (if closeConnection response then [HttpShutdown] else []))))"

definition onMessage ::
    "(HttpRequest \<Rightarrow> HttpResponse \<Rightarrow> HttpResponse) \<Rightarrow> buffer \<Rightarrow> Timestamp \<Rightarrow> HttpContext \<Rightarrow> (http_action list \<times> buffer \<times> HttpContext) res option" where
  "onMessage httpCallback b t c =
     (case parseRequest b t c of
        None \<Rightarrow> None
      | Some (Inl e) \<Rightarrow> Some (Inl e)
      | Some (Inr (ok, b', c')) \<Rightarrow>
          let bad = (if ok then [] else [HttpSend (''HTTP/1.1 400 Bad Request'' @ CRLF @ CRLF), HttpShutdown])
          in if gotAll c'
             then Some (bindE (onRequest httpCallback (request c')) (\<lambda>acts. Inr (bad @ acts, b', reset_HttpContext c')))
             else Some (Inr (bad, b', c')))"

text \<open>The answer to a request: one text, and the end of the connection when the response says so.\<close>

definition http_reply :: "(HttpRequest \<Rightarrow> HttpResponse \<Rightarrow> HttpResponse) \<Rightarrow> HttpRequest \<Rightarrow> http_action list" where
  "http_reply httpCallback req =
     (let response = httpCallback req (new_HttpResponse (getHeader ''Connection'' req = ''close''
            \<or> version req = kHttp10 \<and> getHeader ''Connection'' req \<noteq> ''Keep-Alive''))
      in HttpSend (concat (response_pieces response)) # (if closeConnection response then [HttpShutdown] else []))"

lemma append_all:
  "buffer_inv b \<Longrightarrow> \<exists>b'. fold (\<lambda>piece out. bindE out (append_Buffer piece)) ps (Inr b) = Inr b'
     \<and> buffer_inv b' \<and> toStringPiece b' = toStringPiece b @ concat ps"
proof (induction ps arbitrary: b)
  case (Cons p ps)
  obtain b1 where b1: "append_Buffer p b = Inr b1" "buffer_inv b1" "toStringPiece b1 = toStringPiece b @ p"
    using append_Buffer_spec [OF Cons.prems] by blast
  with Cons.IH [OF b1(2)] show ?case by auto
qed simp

lemma onRequest_reply: "onRequest httpCallback req = Inr (http_reply httpCallback req)"
  using append_all [OF buffer_inv_new]
  by (fastforce simp: onRequest_def http_reply_def appendToBuffer_def Let_def fault_simps)

section \<open>The parser on the readable characters\<close>

lemma search2_bound: "search2 x y s = Some i \<Longrightarrow> i + 2 \<le> length s"
  by (simp add: search2_Some_iff)

text \<open>
  The parser read as a function on strings: a line is split off at each line end, and the characters that do not
  make up a line are left over.
\<close>

function http_lines :: "string \<Rightarrow> Timestamp \<Rightarrow> HttpContext \<Rightarrow> (bool \<times> string \<times> HttpContext) res" where
  "http_lines s t c =
     (case search2 (CHR 0x0D) (CHR 0x0A) s of
        None \<Rightarrow> Inr (True, s, c)
      | Some i \<Rightarrow>
          (case state c of
             kExpectRequestLine \<Rightarrow>
               (case processRequestLine (take i s) (request c) of
                  Inl e \<Rightarrow> Inl e
                | Inr (ok, r) \<Rightarrow>
                    if ok then http_lines (drop (i + 2) s) t (c\<lparr>request := r\<lparr>receiveTime := t\<rparr>, state := kExpectHeaders\<rparr>)
                    else Inr (False, s, c\<lparr>request := r\<rparr>))
           | kExpectHeaders \<Rightarrow>
               (case memchr (CHR '':'') (take i s) of
                  Some colon \<Rightarrow> http_lines (drop (i + 2) s) t (c\<lparr>request := addHeader (take i s) colon (request c)\<rparr>)
                | None \<Rightarrow> Inr (True, drop (i + 2) s, c\<lparr>state := kGotAll\<rparr>))
           | _ \<Rightarrow> Inr (True, s, c)))"
  by pat_completeness auto
termination
  by (relation "measure (\<lambda>(s, _). length s)") (auto dest: search2_bound)

declare http_lines.simps [simp del]

definition expects_line :: "HttpContext \<Rightarrow> bool" where
  "expects_line c \<longleftrightarrow> state c = kExpectRequestLine \<or> state c = kExpectHeaders"

lemma line_retrieved:
  assumes "buffer_inv b" "search2 (CHR 0x0D) (CHR 0x0A) (toStringPiece b) = Some i"
  obtains b' where "retrieveUntil (readerIndex b + i + 2) b = Inr b'" "buffer_inv b'"
    "toStringPiece b' = drop (i + 2) (toStringPiece b)"
proof -
  have le: "i + 2 \<le> readableBytes b"
    using search2_bound [OF assms(2)] assms(1) by simp
  then have "readerIndex b + i + 2 \<le> writerIndex b"
    by (simp add: readableBytes_def)
  with retrieve_spec [OF assms(1) le] that show thesis
    by (auto simp: retrieveUntil_def)
qed

text \<open>The loop returns when a line is expected, and it does to the buffer what \<open>http_lines\<close> does to the characters.\<close>

lemma parseRequest_lines:
  assumes "buffer_inv b" "expects_line c"
  shows "case http_lines (toStringPiece b) t c of
      Inl e \<Rightarrow> parseRequest b t c = Some (Inl e)
    | Inr (ok, s, c') \<Rightarrow> \<exists>b'. parseRequest b t c = Some (Inr (ok, b', c')) \<and> buffer_inv b' \<and> toStringPiece b' = s"
  using assms
proof (induction "toStringPiece b" t c arbitrary: b rule: http_lines.induct)
  case (1 t c)
  let ?s = "toStringPiece b"
  note unfolds = parseRequest.simps [of b t c] http_lines.simps [of ?s t c] findCRLF_def range_from_contents line_upto_def
  show ?case
  proof (cases "search2 (CHR 0x0D) (CHR 0x0A) ?s")
    case None
    with 1 show ?thesis by (auto simp: unfolds expects_line_def)
  next
    case (Some i)
    obtain b' where b': "retrieveUntil (readerIndex b + i + 2) b = Inr b'" "buffer_inv b'"
      "toStringPiece b' = drop (i + 2) ?s"
      using line_retrieved [OF "1.prems"(1) Some] by blast
    have ret: "retrieveUntil (Suc (Suc (readerIndex b + i))) b = Inr b'"
      using b'(1) by simp
    show ?thesis
    proof (cases "state c")
      case kExpectRequestLine
      with Some ret b' "1.hyps"(1) [OF Some kExpectRequestLine _ refl _ b'(3) [symmetric] b'(2)] "1.prems" show ?thesis
        by (auto simp: unfolds expects_line_def split: sum.splits prod.splits)
    next
      case kExpectHeaders
      with Some ret b' "1.hyps"(2) [OF Some kExpectHeaders _ b'(3) [symmetric] b'(2)] "1.prems" show ?thesis
        by (auto simp: unfolds expects_line_def split: option.splits sum.splits prod.splits)
    qed (use "1.prems" in \<open>auto simp: expects_line_def\<close>)
  qed
qed

text \<open>
  Stopped for want of a line end, the parser goes on when more characters follow; a result that is final stays what it is.
\<close>

lemma search2_append: "search2 x y s = Some i \<Longrightarrow> search2 x y (s @ u) = Some i"
  by (auto simp: search2_Some_iff nth_append)

lemma http_lines_more:
  assumes "expects_line c"
  shows "case http_lines s t c of
      Inl e \<Rightarrow> http_lines (s @ u) t c = Inl e
    | Inr (ok, s', c') \<Rightarrow>
        if ok \<and> \<not> gotAll c' then expects_line c' \<and> http_lines (s @ u) t c = http_lines (s' @ u) t c'
        else http_lines (s @ u) t c = Inr (ok, s' @ u, c')"
  using assms
proof (induction s t c rule: http_lines.induct)
  case (1 s t c)
  show ?case
  proof (cases "search2 (CHR 0x0D) (CHR 0x0A) s")
    case None
    with 1 show ?thesis
      by (auto simp: http_lines.simps [of s] expects_line_def gotAll_def)
  next
    case (Some i)
    note more = Some search2_append [OF Some, of u] search2_bound [OF Some]
    show ?thesis
    proof (cases "state c")
      case kExpectRequestLine
      with more "1.IH"(1) [OF Some kExpectRequestLine _ refl] show ?thesis
        by (auto simp: http_lines.simps [of s] http_lines.simps [of "s @ u"] expects_line_def gotAll_def
            split: sum.splits prod.splits)
    next
      case kExpectHeaders
      with more "1.IH"(2) [OF Some kExpectHeaders] show ?thesis
        by (auto simp: http_lines.simps [of s] http_lines.simps [of "s @ u"] expects_line_def gotAll_def
            split: option.splits sum.splits prod.splits)
    qed (use "1.prems" in \<open>auto simp: expects_line_def\<close>)
  qed
qed

lemma http_lines_time: "state c = kExpectHeaders \<Longrightarrow> http_lines s t c = http_lines s t' c"
proof (induction s t c rule: http_lines.induct)
  case (1 s t c)
  then show ?case
    by (auto simp: http_lines.simps [of s] split: option.splits)
qed

lemma headers_no_request_line:
  "state c = kExpectHeaders \<Longrightarrow> http_lines s t c = Inr (ok, s', c') \<Longrightarrow> state c' \<noteq> kExpectRequestLine"
proof (induction s t c rule: http_lines.induct)
  case (1 s t c)
  then show ?case by (auto simp: http_lines.simps [of s] split: option.splits)
qed

lemma http_lines_waits:
  assumes "http_lines s t c = Inr (True, s', c')" "state c' = kExpectRequestLine"
  shows "s' = s \<and> c' = c"
proof (cases "state c")
  case kExpectRequestLine
  have no: "http_lines u t (c\<lparr>request := r, state := kExpectHeaders\<rparr>) \<noteq> Inr (True, s', c')" for u r
  proof
    assume "http_lines u t (c\<lparr>request := r, state := kExpectHeaders\<rparr>) = Inr (True, s', c')"
    from headers_no_request_line [OF _ this] assms(2) show False by simp
  qed
  with assms kExpectRequestLine show ?thesis
    by (auto simp: http_lines.simps [of s] split: option.splits sum.splits if_splits)
next
  case kExpectHeaders
  with headers_no_request_line assms show ?thesis by blast
qed (use assms in \<open>auto simp: http_lines.simps [of s] split: option.splits\<close>)

section \<open>Requests in pieces\<close>

text \<open>
  The message callback is called each time the connection has read something: a piece is appended to the input buffer
  and \<open>onMessage\<close> runs on all that is there.
\<close>

fun receive_pieces ::
    "(HttpRequest \<Rightarrow> HttpResponse \<Rightarrow> HttpResponse) \<Rightarrow> (string \<times> Timestamp) list \<Rightarrow> buffer \<Rightarrow> HttpContext
     \<Rightarrow> (http_action list \<times> buffer \<times> HttpContext) res option" where
  "receive_pieces cb [] b c = Some (Inr ([], b, c))"
| "receive_pieces cb ((p, t) # ps) b c =
     (case append_Buffer p b of
        Inl e \<Rightarrow> Some (Inl e)
      | Inr b1 \<Rightarrow>
          (case onMessage cb b1 t c of
             None \<Rightarrow> None
           | Some (Inl e) \<Rightarrow> Some (Inl e)
           | Some (Inr (acts, b2, c2)) \<Rightarrow>
               map_option (map_sum id (\<lambda>(acts', b', c'). (acts @ acts', b', c'))) (receive_pieces cb ps b2 c2)))"

lemma onMessage_lines:
  assumes "buffer_inv b" "expects_line c" "http_lines (toStringPiece b) t c = Inr (True, s, c')"
  shows "\<exists>b'. buffer_inv b' \<and> toStringPiece b' = s \<and>
    onMessage cb b t c = Some (Inr (if gotAll c' then (http_reply cb (request c'), b', reset_HttpContext c') else ([], b', c')))"
  using parseRequest_lines [OF assms(1,2), of t] assms(3)
  by (auto simp: onMessage_def onRequest_reply Let_def)

text \<open>
  When the characters of all the pieces are a request in full, whatever the time it is received at, and the last piece is not
  empty, the pieces before it only move the parser on.
\<close>

lemma pieces_parse:
  assumes "buffer_inv b" "expects_line c" "ps \<noteq> []" "fst (last ps) \<noteq> []"
    and "\<And>t. http_lines (toStringPiece b @ concat (map fst ps)) t c = Inr (True, [], C t)" "\<And>t. gotAll (C t)"
  shows "\<exists>t b'. t \<in> snd ` set ps \<and> buffer_inv b' \<and> toStringPiece b' = []
    \<and> receive_pieces cb ps b c = Some (Inr (http_reply cb (request (C t)), b', reset_HttpContext (C t)))
    \<and> (\<exists>b1 c1. receive_pieces cb (butlast ps) b c = Some (Inr ([], b1, c1)))"
  using assms
proof (induction ps arbitrary: b c C)
  case (Cons pt ps)
  obtain p t where pt: "pt = (p, t)" by fastforce
  obtain b1 where b1: "append_Buffer p b = Inr b1" "buffer_inv b1" "toStringPiece b1 = toStringPiece b @ p"
    using append_Buffer_spec [OF Cons.prems(1)] by blast
  show ?case
  proof (cases "ps = []")
    case True
    with Cons.prems b1 pt have "http_lines (toStringPiece b1) t c = Inr (True, [], C t)" by simp
    with onMessage_lines [OF b1(2) Cons.prems(2) this, of cb] True pt b1(1) Cons.prems(6) show ?thesis
      by auto
  next
    case False
    let ?u = "concat (map fst ps)"
    have "?u \<noteq> []" using False Cons.prems(4) by (auto simp: last_in_set)
    moreover have whole: "http_lines (toStringPiece b1 @ ?u) t c = Inr (True, [], C t)"
      using Cons.prems(5) b1(3) pt by simp
    moreover note more = http_lines_more [OF Cons.prems(2), of "toStringPiece b1" ?u t]
    ultimately obtain s' c' where part: "http_lines (toStringPiece b1) t c = Inr (True, s', c')" "\<not> gotAll c'"
      by (auto split: sum.splits if_splits)
    with more whole have c': "expects_line c'" "http_lines (s' @ ?u) t c' = Inr (True, [], C t)" by auto
    obtain b2 where b2: "buffer_inv b2" "toStringPiece b2 = s'" "onMessage cb b1 t c = Some (Inr ([], b2, c'))"
      using onMessage_lines [OF b1(2) Cons.prems(2) part(1), of cb] part(2) by auto
    have step: "receive_pieces cb (pt # us) b c = receive_pieces cb us b2 c'" for us
      using b1(1) b2(3) pt by (simp add: sum.map_id0 option.map_id)
    have last: "fst (last ps) \<noteq> []" using Cons.prems(4) False by simp
    show ?thesis
    proof (cases "state c' = kExpectRequestLine")
      case True
      with http_lines_waits [OF part(1)] have "s' = toStringPiece b1" "c' = c" by auto
      with Cons.IH [OF b2(1) Cons.prems(2) False last, of C] Cons.prems(5,6) b1(3) b2(2) pt step False show ?thesis
        by auto
    next
      case False
      with c'(1) have "state c' = kExpectHeaders" by (simp add: expects_line_def)
      with http_lines_time c'(2) b2(2) have "\<And>t'. http_lines (toStringPiece b2 @ ?u) t' c' = Inr (True, [], C t)" by metis
      with Cons.IH [OF b2(1) c'(1) \<open>ps \<noteq> []\<close> last, of "\<lambda>_. C t"] Cons.prems(6) pt step \<open>ps \<noteq> []\<close> show ?thesis by auto
    qed
  qed
qed simp

section \<open>The text of a request\<close>

definition version_text :: "Version \<Rightarrow> string" where
  "version_text v = (case v of kHttp10 \<Rightarrow> ''HTTP/1.0'' | _ \<Rightarrow> ''HTTP/1.1'')"

definition header_lines :: "(string \<times> string) list \<Rightarrow> string" where
  "header_lines hs = concat (map (\<lambda>(k, v). k @ '': '' @ v @ CRLF) hs)"

definition print_request :: "HttpRequest \<Rightarrow> string" where
  "print_request q =
     methodString q @ '' '' @ path q @ query q @ '' '' @ version_text (version q) @ CRLF @ header_lines (headers q) @ CRLF"

text \<open>
  A request that has a text: the method and the version are known, no piece of it has a carriage return, the path ends at
  the question mark and neither path nor query has a blank, a header name has no colon and a value no white space at its ends.
\<close>

definition trimmed :: "string \<Rightarrow> bool" where
  "trimmed v \<longleftrightarrow> v = [] \<or> \<not> is_space (hd v) \<and> \<not> is_space (last v)"

definition header_ok :: "string \<times> string \<Rightarrow> bool" where
  "header_ok h \<longleftrightarrow> CHR '':'' \<notin> set (fst h) \<and> CHR 0x0D \<notin> set (fst h) \<union> set (snd h) \<and> trimmed (snd h)"

definition wf_request :: "HttpRequest \<Rightarrow> bool" where
  "wf_request q \<longleftrightarrow> method q \<noteq> kInvalid \<and> version q \<noteq> kUnknown
     \<and> CHR 0x0D \<notin> set (path q) \<union> set (query q) \<and> CHR '' '' \<notin> set (path q) \<union> set (query q) \<and> CHR ''?'' \<notin> set (path q)
     \<and> (query q \<noteq> [] \<longrightarrow> hd (query q) = CHR ''?'') \<and> map_ordered (headers q) \<and> list_all header_ok (headers q)"

lemma memchr_None [simp]: "x \<notin> set s \<Longrightarrow> memchr x s = None"
  by (induction s) auto

lemma memchr_append [simp]: "x \<notin> set s \<Longrightarrow> memchr x (s @ x # u) = Some (length s)"
  by (induction s) auto

lemma search2_line:
  assumes "x \<notin> set s" "x \<noteq> y"
  shows "search2 x y (s @ x # y # u) = Some (length s)"
  using assms(1)
proof (induction s)
  case (Cons a s)
  then show ?case using assms(2) by (cases s) auto
qed simp

lemma search2_CRLF [simp]: "CHR 0x0D \<notin> set s \<Longrightarrow> search2 (CHR 0x0D) (CHR 0x0A) (s @ CRLF @ u) = Some (length s)"
  by (simp add: CRLF_def search2_line)

lemma http_lines_line:
  assumes "CHR 0x0D \<notin> set line"
  shows "http_lines (line @ CRLF @ rest) t c =
    (case state c of
       kExpectRequestLine \<Rightarrow>
         (case processRequestLine line (request c) of
            Inl e \<Rightarrow> Inl e
          | Inr (ok, r) \<Rightarrow>
              if ok then http_lines rest t (c\<lparr>request := r\<lparr>receiveTime := t\<rparr>, state := kExpectHeaders\<rparr>)
              else Inr (False, line @ CRLF @ rest, c\<lparr>request := r\<rparr>))
     | kExpectHeaders \<Rightarrow>
         (case memchr (CHR '':'') line of
            Some colon \<Rightarrow> http_lines rest t (c\<lparr>request := addHeader line colon (request c)\<rparr>)
          | None \<Rightarrow> Inr (True, rest, c\<lparr>state := kGotAll\<rparr>))
     | _ \<Rightarrow> Inr (True, line @ CRLF @ rest, c))"
proof -
  have "drop (length line + 2) (line @ CRLF @ rest) = rest" "take (length line) (line @ CRLF @ rest) = line"
    by (simp_all add: CRLF_def)
  then show ?thesis
    by (simp only: http_lines.simps [of "line @ CRLF @ rest"] search2_CRLF [OF assms] option.case)
qed

lemma dropWhile_trimmed: "trimmed v \<Longrightarrow> dropWhile is_space v = v \<and> dropWhile is_space (rev v) = rev v"
  by (auto simp: trimmed_def dropWhile_eq_self_iff hd_rev)

lemma addHeader_printed:
  "trimmed v \<Longrightarrow> addHeader (k @ '': '' @ v) (length k) r = r\<lparr>headers := map_put k v (headers r)\<rparr>"
  by (simp add: addHeader_def Let_def dropWhile_trimmed is_space_def)

lemma map_put_last: "\<forall>x \<in> set m. fst x < k \<Longrightarrow> map_put k v m = m @ [(k, v)]"
  by (induction m) auto

lemma methodString_printed:
  "method q \<noteq> kInvalid \<Longrightarrow> method_of (methodString q) = method q \<and> CHR '' '' \<notin> set (methodString q) \<and> CHR 0x0D \<notin> set (methodString q)"
  by (cases "method q") (simp_all add: methodString_def method_of_def)

lemma version_text_printed:
  "length (version_text v) = 8" "take 7 (version_text v) = ''HTTP/1.''" "CHR 0x0D \<notin> set (version_text v)"
  "last (version_text v) = (if v = kHttp10 then CHR ''0'' else CHR ''1'')"
  by (cases v; simp add: version_text_def)+

lemma processRequestLine_parts:
  assumes "CHR '' '' \<notin> set m" "CHR '' '' \<notin> set target" "method r = kInvalid" "method_of m \<noteq> kInvalid"
  shows "processRequestLine (m @ CHR '' '' # target @ CHR '' '' # version_text v) r =
    Inr (True, (case memchr (CHR ''?'') target of
                  Some i \<Rightarrow> r\<lparr>method := method_of m, path := take i target, query := drop i target\<rparr>
                | None \<Rightarrow> r\<lparr>method := method_of m, path := target\<rparr>)\<lparr>version := if v = kHttp10 then kHttp10 else kHttp11\<rparr>)"
  using assms by (simp add: processRequestLine_def setMethod_def Let_def version_text_printed)

lemma processRequestLine_printed:
  assumes "wf_request q" "method r = kInvalid" "query r = []"
  shows "processRequestLine (methodString q @ CHR '' '' # (path q @ query q) @ CHR '' '' # version_text (version q)) r
    = Inr (True, r\<lparr>method := method q, path := path q, query := query q, version := version q\<rparr>)"
proof -
  note wf = assms(1) [unfolded wf_request_def]
  have known: "(if version q = kHttp10 then kHttp10 else kHttp11) = version q"
    using wf by (cases "version q") simp_all
  have blanks: "CHR '' '' \<notin> set (methodString q)" "CHR '' '' \<notin> set (path q @ query q)" "method_of (methodString q) = method q"
    using wf methodString_printed by auto
  have line: "processRequestLine (methodString q @ CHR '' '' # (path q @ query q) @ CHR '' '' # version_text (version q)) r =
    Inr (True, (case memchr (CHR ''?'') (path q @ query q) of
                  Some i \<Rightarrow> r\<lparr>method := method q, path := take i (path q @ query q), query := drop i (path q @ query q)\<rparr>
                | None \<Rightarrow> r\<lparr>method := method q, path := path q @ query q\<rparr>)\<lparr>version := version q\<rparr>)"
    using processRequestLine_parts [OF blanks(1,2) assms(2), of "version q", unfolded blanks(3) known] wf by simp
  show ?thesis
  proof (cases "query q")
    case Nil
    then have "memchr (CHR ''?'') (path q @ query q) = None" using wf by simp
    then show ?thesis unfolding line using Nil assms(3) by (cases r) simp
  next
    case (Cons a u)
    then have "memchr (CHR ''?'') (path q @ query q) = Some (length (path q))" using wf by simp
    then show ?thesis unfolding line by simp
  qed
qed

lemma http_lines_headers:
  assumes "state c = kExpectHeaders" "map_ordered (headers (request c) @ hs)" "list_all header_ok hs"
  shows "http_lines (header_lines hs @ CRLF) t c
    = Inr (True, [], c\<lparr>request := (request c)\<lparr>headers := headers (request c) @ hs\<rparr>, state := kGotAll\<rparr>)"
  using assms
proof (induction hs arbitrary: c)
  case Nil
  then show ?case
    using http_lines_line [of "[]" "[]" t c] by (simp add: header_lines_def)
next
  case (Cons h hs)
  obtain k v where h: "h = (k, v)" by fastforce
  let ?line = "k @ '': '' @ v" and ?rest = "header_lines hs @ CRLF"
  let ?c = "c\<lparr>request := (request c)\<lparr>headers := headers (request c) @ [(k, v)]\<rparr>\<rparr>"
  have shape: "header_lines (h # hs) @ CRLF = ?line @ CRLF @ ?rest"
    by (simp add: header_lines_def h)
  have ok: "header_ok (k, v)" using Cons.prems(3) h by simp
  then have line: "CHR 0x0D \<notin> set ?line" "memchr (CHR '':'') ?line = Some (length k)"
    by (simp_all add: header_ok_def)
  have "\<forall>x \<in> set (headers (request c)). fst x < k"
    using Cons.prems(2) h by (auto simp: map_ordered_def sorted_wrt_append)
  then have "addHeader ?line (length k) (request c) = request ?c"
    using ok addHeader_printed [of v k] by (simp add: header_ok_def map_put_last)
  then have "http_lines (?line @ CRLF @ ?rest) t c = http_lines ?rest t ?c"
    using line(2) Cons.prems(1) by (simp only: http_lines_line [OF line(1)]) simp
  also have "\<dots> = Inr (True, [], ?c\<lparr>request := (request ?c)\<lparr>headers := headers (request ?c) @ hs\<rparr>, state := kGotAll\<rparr>)"
    by (rule Cons.IH) (use Cons.prems h in simp_all)
  finally show ?case by (simp only: shape) (simp add: h)
qed

lemma http_lines_printed:
  assumes "wf_request q"
  shows "http_lines (print_request q) t new_HttpContext = Inr (True, [], \<lparr>state = kGotAll, request = q\<lparr>receiveTime := t\<rparr>\<rparr>)"
proof -
  let ?line = "methodString q @ CHR '' '' # (path q @ query q) @ CHR '' '' # version_text (version q)"
  let ?r = "new_HttpRequest\<lparr>method := method q, path := path q, query := query q, version := version q, receiveTime := t\<rparr>"
  have line: "CHR 0x0D \<notin> set ?line"
    using assms methodString_printed [of q] by (simp add: wf_request_def version_text_printed)
  have "processRequestLine ?line (request new_HttpContext)
      = Inr (True, new_HttpRequest\<lparr>method := method q, path := path q, query := query q, version := version q\<rparr>)"
    using processRequestLine_printed [OF assms, of new_HttpRequest] by (simp add: new_HttpContext_def new_HttpRequest_def)
  then have "http_lines (?line @ CRLF @ header_lines (headers q) @ CRLF) t new_HttpContext
      = http_lines (header_lines (headers q) @ CRLF) t \<lparr>state = kExpectHeaders, request = ?r\<rparr>"
    by (simp only: http_lines_line [OF line]) (simp add: new_HttpContext_def)
  also have "\<dots> = Inr (True, [], \<lparr>state = kGotAll, request = ?r\<lparr>headers := headers q\<rparr>\<rparr>)"
    using assms http_lines_headers [of "\<lparr>state = kExpectHeaders, request = ?r\<rparr>" "headers q" t]
    by (simp add: wf_request_def new_HttpRequest_def)
  also have "?r\<lparr>headers := headers q\<rparr> = q\<lparr>receiveTime := t\<rparr>"
    by (cases q) (simp add: new_HttpRequest_def)
  finally show ?thesis by (simp add: print_request_def)
qed

text \<open>
  C16. A request is understood however the network cuts it: when a connection with a fresh context receives the text of a
  well-formed request in any number of pieces, the last one not empty, the callbacks answer once and only with the last piece, with the response
  that the callback gives for exactly that request (its receive time is that of one of the pieces); they return each time, no assertion fails, the whole text is
  consumed and the context is fresh again.
\<close>

theorem request_in_pieces:
  assumes "wf_request q" "buffer_inv b" "toStringPiece b = []" "ps \<noteq> []" "concat (map fst ps) = print_request q" "fst (last ps) \<noteq> []"
  shows "\<exists>t b'. t \<in> snd ` set ps \<and> buffer_inv b' \<and> toStringPiece b' = []
    \<and> receive_pieces cb ps b new_HttpContext = Some (Inr (http_reply cb (q\<lparr>receiveTime := t\<rparr>), b', new_HttpContext))
    \<and> (\<exists>b1 c1. receive_pieces cb (butlast ps) b new_HttpContext = Some (Inr ([], b1, c1)))"
proof -
  have "expects_line new_HttpContext" by (simp add: expects_line_def new_HttpContext_def)
  from pieces_parse [OF assms(2) this assms(4,6), of "\<lambda>t. \<lparr>state = kGotAll, request = q\<lparr>receiveTime := t\<rparr>\<rparr>" cb]
  show ?thesis
    using http_lines_printed [OF assms(1)] assms(3,5)
    by (simp add: gotAll_def reset_HttpContext_def) (simp add: new_HttpContext_def)
qed

definition sample_request :: HttpRequest where
  "sample_request = \<lparr>method = kPost, version = kHttp10, path = ''/a'', query = ''?b=c'', receiveTime = Timestamp 0,
     headers = [(''A'', ''x y''), (''Host'', [])]\<rparr>"

theorem request_in_pieces_witness:
  "wf_request sample_request \<and> (\<exists>t b'. t \<in> {Timestamp 5, Timestamp 7} \<and> toStringPiece b' = []
    \<and> receive_pieces defaultHttpCallback [(take 20 (print_request sample_request), Timestamp 5), (drop 20 (print_request sample_request), Timestamp 7)]
        (new_Buffer 16) new_HttpContext
      = Some (Inr (http_reply defaultHttpCallback (sample_request\<lparr>receiveTime := t\<rparr>), b', new_HttpContext)))"
proof -
  have wf: "wf_request sample_request" by code_simp
  have "fst (last [(take 20 (print_request sample_request), Timestamp 5), (drop 20 (print_request sample_request), Timestamp 7)]) \<noteq> []"
    by code_simp
  from request_in_pieces [OF wf buffer_inv_new contents_new _ _ this, of defaultHttpCallback 16] wf show ?thesis by auto
qed

section \<open>Requests that are refused\<close>

text \<open>The loop has no way out of a context that holds a request in full.\<close>

lemma parseRequest_never_returns:
  assumes "\<not> expects_line c"
  shows "parseRequest b t c = None"
proof -
  have "expects_line c" if "parseRequest b t c = Some y" for y
    by (rule parseRequest.raw_induct [OF _ that])
      (fastforce simp: expects_line_def split: HttpRequestParseState.splits)
  with assms show ?thesis by fastforce
qed

text \<open>
  C17. What \<open>onMessage\<close> does with a first line that is not a request line: it answers 400 and shuts the connection
  down, and neither the line nor the context is reset. If the method was one it knows, the next characters that arrive fail
  the assertion in \<open>setMethod\<close>.
\<close>

theorem malformed_request_line:
  assumes "buffer_inv b" "toStringPiece b = line @ CRLF @ rest" "CHR 0x0D \<notin> set line"
    and "processRequestLine line new_HttpRequest = Inr (False, r)"
  shows "\<exists>b'. buffer_inv b' \<and> toStringPiece b' = toStringPiece b \<and>
      onMessage cb b t new_HttpContext
        = Some (Inr ([HttpSend (''HTTP/1.1 400 Bad Request'' @ CRLF @ CRLF), HttpShutdown], b', new_HttpContext\<lparr>request := r\<rparr>))
      \<and> (method r \<noteq> kInvalid \<longrightarrow> receive_pieces cb [(p, t')] b' (new_HttpContext\<lparr>request := r\<rparr>) = Some (Inl AssertionFailure))"
proof -
  let ?c = "new_HttpContext\<lparr>request := r\<rparr>"
  have line: "expects_line new_HttpContext" "expects_line ?c"
    by (simp_all add: expects_line_def new_HttpContext_def)
  have "http_lines (toStringPiece b) t new_HttpContext = Inr (False, toStringPiece b, ?c)"
    using http_lines_line [OF assms(3), of rest t new_HttpContext] assms(2,4) by (simp add: new_HttpContext_def)
  then obtain b' where b': "parseRequest b t new_HttpContext = Some (Inr (False, b', ?c))" "buffer_inv b'"
      "toStringPiece b' = toStringPiece b"
    using parseRequest_lines [OF assms(1) line(1), of t] by auto
  moreover from b'(1) have "onMessage cb b t new_HttpContext
      = Some (Inr ([HttpSend (''HTTP/1.1 400 Bad Request'' @ CRLF @ CRLF), HttpShutdown], b', ?c))"
    by (simp add: onMessage_def gotAll_def new_HttpContext_def)
  moreover have "receive_pieces cb [(p, t')] b' ?c = Some (Inl AssertionFailure)" if known: "method r \<noteq> kInvalid"
  proof -
    obtain b1 where b1: "append_Buffer p b' = Inr b1" "buffer_inv b1" "toStringPiece b1 = line @ CRLF @ rest @ p"
      using append_Buffer_spec [OF b'(2)] b'(3) assms(2) by fastforce
    have "processRequestLine line r = Inl AssertionFailure"
      using assms(4) known
      by (auto simp: processRequestLine_def setMethod_def new_HttpRequest_def split: option.splits)
    then have "http_lines (toStringPiece b1) t' ?c = Inl AssertionFailure"
      using http_lines_line [OF assms(3), of "rest @ p" t' ?c] b1(3) by (simp add: new_HttpContext_def)
    with parseRequest_lines [OF b1(2) line(2), of t'] b1(1) show ?thesis
      by (simp add: onMessage_def)
  qed
  ultimately show ?thesis by blast
qed

theorem malformed_request_line_witness:
  "\<exists>b b'. toStringPiece b = ''GET /'' @ CRLF \<and> onMessage defaultHttpCallback b (Timestamp 1) new_HttpContext
     = Some (Inr ([HttpSend (''HTTP/1.1 400 Bad Request'' @ CRLF @ CRLF), HttpShutdown], b',
                  new_HttpContext\<lparr>request := new_HttpRequest\<lparr>method := kGet\<rparr>\<rparr>))
     \<and> receive_pieces defaultHttpCallback [(''x'', Timestamp 2)] b' (new_HttpContext\<lparr>request := new_HttpRequest\<lparr>method := kGet\<rparr>\<rparr>)
       = Some (Inl AssertionFailure)"
proof -
  obtain b where b: "buffer_inv b" "toStringPiece b = ''GET /'' @ CRLF @ []"
    using append_Buffer_spec [OF buffer_inv_new, of "''GET /'' @ CRLF" 16] by auto
  have "processRequestLine ''GET /'' new_HttpRequest = Inr (False, new_HttpRequest\<lparr>method := kGet\<rparr>)"
    by (simp add: processRequestLine_def setMethod_def method_of_def new_HttpRequest_def)
  from malformed_request_line [OF b _ this, of defaultHttpCallback "Timestamp 1" "''x''" "Timestamp 2"] b(2) show ?thesis
    by auto
qed

end
