(* ===== verification/Event_Loop.thy ===== *)
theory Event_Loop
  imports Prelude
begin

text \<open>
  \<open>net/EventLoop.h\<close> and \<open>net/EventLoop.cc\<close>: the loop thread and the other threads that hand it functors. A functor and a
  callback are the calls they make on the loop. A step is one access to what the threads share: the queue under its mutex, the atomic flag,
  the counter behind \<open>wakeupFd_\<close>. What the poller finds ready is an input of the step that returns from \<open>poll\<close>.

  \<open>queued\<close> and \<open>ran\<close> record the functors that were put into the queue and those taken out of it and called; the code does not have them.
\<close>

section \<open>The loop and its operations\<close>

datatype "functor" = Functor nat (calls_of: "call list")
and call = RunInLoop "functor" | QueueInLoop "functor" | Wakeup | Quit

datatype active_channel = WakeupChannel | OtherChannel "call list"

text \<open>
  Where the loop thread is: outside \<open>loop()\<close> with the calls it is going to make there, at the head of the loop, in \<open>poll\<close>, in the
  callbacks of the active channels (those left, and the calls left of the current one), in \<open>doPendingFunctors\<close> before the
  swap and after it (functors left, calls left of the current one).
\<close>

datatype phase =
    Outside "call list"
  | LoopHead
  | Polling
  | Handling "active_channel list" "call list"
  | BeforeSwap
  | Calling "functor list" "call list"

record EventLoop =
  looping :: bool
  quit :: bool
  eventHandling :: bool
  callingPendingFunctors :: bool
  iteration :: int
  wakeups :: nat
  pendingFunctors :: "functor list"
  phase :: phase
  threads :: "call list list"
  queued :: "functor list"
  ran :: "functor list"

text \<open>The loop thread is about to make the calls \<open>p\<close> before \<open>loop()\<close>, the other threads the calls in \<open>ts\<close>.\<close>

definition new_EventLoop :: "call list \<Rightarrow> call list list \<Rightarrow> EventLoop" where
  "new_EventLoop p ts =
     \<lparr>looping = False, quit = False, eventHandling = False, callingPendingFunctors = False, iteration = 0, wakeups = 0,
      pendingFunctors = [], phase = Outside p, threads = ts, queued = [], ran = []\<rparr>"

text \<open>An event descriptor: a write adds to the counter unless that would pass its maximum, a read takes all of it.\<close>

definition wakeup :: "EventLoop \<Rightarrow> EventLoop" where
  "wakeup l = (if wakeups l < 2 ^ 64 - 2 then l\<lparr>wakeups := wakeups l + 1\<rparr> else l)"

definition handleRead :: "EventLoop \<Rightarrow> EventLoop" where
  "handleRead l = l\<lparr>wakeups := 0\<rparr>"

text \<open>
  An operation returns the calls that the thread makes next. In \<open>queueInLoop\<close> and \<open>quit\<close> the call of \<open>wakeup()\<close> is a step
  of its own: other threads may come between.
\<close>

definition queueInLoop :: "bool \<Rightarrow> functor \<Rightarrow> EventLoop \<Rightarrow> call list \<times> EventLoop" where
  "queueInLoop isInLoopThread cb l =
     (if \<not> isInLoopThread \<or> callingPendingFunctors l then [Wakeup] else [],
      l\<lparr>pendingFunctors := pendingFunctors l @ [cb], queued := queued l @ [cb]\<rparr>)"

definition runInLoop :: "bool \<Rightarrow> functor \<Rightarrow> EventLoop \<Rightarrow> call list \<times> EventLoop" where
  "runInLoop isInLoopThread cb l = (if isInLoopThread then calls_of cb else [QueueInLoop cb], l)"

definition quit_loop :: "bool \<Rightarrow> EventLoop \<Rightarrow> call list \<times> EventLoop" where
  "quit_loop isInLoopThread l = (if isInLoopThread then [] else [Wakeup], l\<lparr>quit := True\<rparr>)"

fun make_call :: "bool \<Rightarrow> call \<Rightarrow> EventLoop \<Rightarrow> call list \<times> EventLoop" where
  "make_call inLoop (RunInLoop f) l = runInLoop inLoop f l"
| "make_call inLoop (QueueInLoop f) l = queueInLoop inLoop f l"
| "make_call inLoop Wakeup l = ([], wakeup l)"
| "make_call inLoop Quit l = quit_loop inLoop l"

section \<open>Steps\<close>

definition enter_loop :: "EventLoop \<Rightarrow> EventLoop res" where
  "enter_loop l = bindE (assertE (\<not> looping l)) (\<lambda>_. Inr (l\<lparr>looping := True, quit := False, phase := LoopHead\<rparr>))"

definition loop_head :: "EventLoop \<Rightarrow> EventLoop" where
  "loop_head l = (if quit l then l\<lparr>looping := False, phase := Outside []\<rparr> else l\<lparr>phase := Polling\<rparr>)"

definition poll_returns :: "active_channel list \<Rightarrow> EventLoop \<Rightarrow> EventLoop" where
  "poll_returns active l = l\<lparr>iteration := iteration l + 1, eventHandling := True, phase := Handling active []\<rparr>"

text \<open>One step in the callbacks of the active channels, and one in \<open>doPendingFunctors\<close>.\<close>

fun handle_step :: "active_channel list \<Rightarrow> call list \<Rightarrow> EventLoop \<Rightarrow> EventLoop" where
  "handle_step active (c # cs) l = (let (rest, l') = make_call True c l in l'\<lparr>phase := Handling active (rest @ cs)\<rparr>)"
| "handle_step (WakeupChannel # active) [] l = (handleRead l)\<lparr>phase := Handling active []\<rparr>"
| "handle_step (OtherChannel cs # active) [] l = l\<lparr>phase := Handling active cs\<rparr>"
| "handle_step [] [] l = l\<lparr>eventHandling := False, callingPendingFunctors := True, phase := BeforeSwap\<rparr>"

definition swap_functors :: "EventLoop \<Rightarrow> EventLoop" where
  "swap_functors l = l\<lparr>pendingFunctors := [], phase := Calling (pendingFunctors l) []\<rparr>"

fun call_step :: "functor list \<Rightarrow> call list \<Rightarrow> EventLoop \<Rightarrow> EventLoop" where
  "call_step fs (c # cs) l = (let (rest, l') = make_call True c l in l'\<lparr>phase := Calling fs (rest @ cs)\<rparr>)"
| "call_step (f # fs) [] l = l\<lparr>ran := ran l @ [f], phase := Calling fs (calls_of f)\<rparr>"
| "call_step [] [] l = l\<lparr>callingPendingFunctors := False, phase := LoopHead\<rparr>"

definition thread_step :: "nat \<Rightarrow> call \<Rightarrow> call list \<Rightarrow> EventLoop \<Rightarrow> EventLoop" where
  "thread_step i c cs l = (let (rest, l') = make_call False c l in l'\<lparr>threads := (threads l')[i := rest @ cs]\<rparr>)"

text \<open>The steps that need nothing from outside but the wake-up descriptor.\<close>

inductive quiet_step :: "EventLoop \<Rightarrow> EventLoop \<Rightarrow> bool" where
  outside: "phase l = Outside (c # cs) \<Longrightarrow> make_call True c l = (rest, l') \<Longrightarrow> quiet_step l (l'\<lparr>phase := Outside (rest @ cs)\<rparr>)"
| head: "phase l = LoopHead \<Longrightarrow> quiet_step l (loop_head l)"
| woken: "phase l = Polling \<Longrightarrow> 0 < wakeups l \<Longrightarrow> quiet_step l (poll_returns [WakeupChannel] l)"
| handling: "phase l = Handling active cs \<Longrightarrow> quiet_step l (handle_step active cs l)"
| swapping: "phase l = BeforeSwap \<Longrightarrow> quiet_step l (swap_functors l)"
| calling: "phase l = Calling fs cs \<Longrightarrow> quiet_step l (call_step fs cs l)"
| other_thread: "i < length (threads l) \<Longrightarrow> threads l ! i = c # cs \<Longrightarrow> quiet_step l (thread_step i c cs l)"

text \<open>
  All steps: \<open>poll\<close> also returns for other descriptors or after ten seconds, with the wake-up channel among the active ones
  only when its counter is not zero, and \<open>loop()\<close> is entered when the thread has nothing else to do.
\<close>

inductive loop_step :: "EventLoop \<Rightarrow> EventLoop \<Rightarrow> bool" where
  quiet: "quiet_step l l' \<Longrightarrow> loop_step l l'"
| poll: "phase l = Polling \<Longrightarrow> WakeupChannel \<notin> set active \<or> 0 < wakeups l \<Longrightarrow> loop_step l (poll_returns active l)"
| enter: "phase l = Outside [] \<Longrightarrow> enter_loop l = Inr l' \<Longrightarrow> loop_step l l'"

inductive loop_reaches :: "EventLoop \<Rightarrow> EventLoop \<Rightarrow> bool" where
  refl: "loop_reaches l l"
| step: "loop_reaches l l' \<Longrightarrow> loop_step l' l'' \<Longrightarrow> loop_reaches l l''"

inductive_cases quiet_stepE: "quiet_step l l'"
inductive_cases loop_stepE: "loop_step l l'"

lemmas loop_ops = wakeup_def handleRead_def queueInLoop_def runInLoop_def quit_loop_def loop_head_def poll_returns_def
  swap_functors_def thread_step_def enter_loop_def

section \<open>No functor is forgotten\<close>

text \<open>The functors taken from the queue and not yet called.\<close>

fun uncalled :: "phase \<Rightarrow> functor list" where
  "uncalled (Calling fs cs) = fs"
| "uncalled p = []"

text \<open>The descriptor is readable, or a thread is at the call of \<open>wakeup()\<close>.\<close>

definition waker :: "EventLoop \<Rightarrow> bool" where
  "waker l \<longleftrightarrow> (\<exists>p \<in> set (threads l). p \<noteq> [] \<and> hd p = Wakeup)"

fun at_wakeup :: "phase \<Rightarrow> bool" where
  "at_wakeup (Calling fs (Wakeup # cs)) \<longleftrightarrow> True"
| "at_wakeup p \<longleftrightarrow> False"

definition awake :: "EventLoop \<Rightarrow> bool" where
  "awake l \<longleftrightarrow> 0 < wakeups l \<or> waker l \<or> at_wakeup (phase l)"

text \<open>Calls that queue nothing when the loop thread makes them.\<close>

fun queues_nothing :: "call \<Rightarrow> bool" where
  "queues_nothing (RunInLoop (Functor n cs)) \<longleftrightarrow> (\<forall>c \<in> set cs. queues_nothing c)"
| "queues_nothing (QueueInLoop f) \<longleftrightarrow> False"
| "queues_nothing c \<longleftrightarrow> True"

text \<open>Phases from which the loop goes to \<open>poll\<close> without another look at the queue.\<close>

fun will_poll :: "phase \<Rightarrow> bool" where
  "will_poll (Handling active cs) \<longleftrightarrow> False"
| "will_poll BeforeSwap \<longleftrightarrow> False"
| "will_poll p \<longleftrightarrow> True"

definition loop_inv :: "EventLoop \<Rightarrow> bool" where
  "loop_inv l \<longleftrightarrow>
     queued l = ran l @ uncalled (phase l) @ pendingFunctors l
   \<and> (looping l \<longleftrightarrow> (case phase l of Outside p \<Rightarrow> False | _ \<Rightarrow> True))
   \<and> (callingPendingFunctors l \<longleftrightarrow> (case phase l of BeforeSwap \<Rightarrow> True | Calling fs cs \<Rightarrow> True | _ \<Rightarrow> False))
   \<and> (case phase l of Outside p \<Rightarrow> \<forall>c \<in> set p. queues_nothing c | _ \<Rightarrow> True)
   \<and> (will_poll (phase l) \<and> pendingFunctors l \<noteq> [] \<longrightarrow> awake l)
   \<and> (phase l = Polling \<and> quit l \<longrightarrow> awake l)"

lemma queues_nothing_body: "queues_nothing (RunInLoop f) \<Longrightarrow> c \<in> set (calls_of f) \<Longrightarrow> queues_nothing c"
  by (cases f) simp

text \<open>What a call of the loop thread leaves alone, and what it does to the queue.\<close>

lemma make_call_loop:
  assumes "make_call True c l = (rest, l')"
  shows "phase l' = phase l \<and> threads l' = threads l \<and> ran l' = ran l \<and> looping l' = looping l
    \<and> callingPendingFunctors l' = callingPendingFunctors l \<and> wakeups l \<le> wakeups l'
    \<and> (case c of
         QueueInLoop f \<Rightarrow> queued l' = queued l @ [f] \<and> pendingFunctors l' = pendingFunctors l @ [f]
           \<and> rest = (if callingPendingFunctors l then [Wakeup] else [])
       | _ \<Rightarrow> queued l' = queued l \<and> pendingFunctors l' = pendingFunctors l \<and> (c = Wakeup \<longrightarrow> 0 < wakeups l'))"
  using assms by (cases c) (auto simp: loop_ops split: if_splits)

lemma waker_other:
  assumes "i < length (threads l)" "threads l ! i = c # cs" "c \<noteq> Wakeup" "waker l"
  shows "\<exists>p \<in> set ((threads l)[i := q]). p \<noteq> [] \<and> hd p = Wakeup"
proof -
  obtain j where j: "j < length (threads l)" "threads l ! j \<noteq> []" "hd (threads l ! j) = Wakeup"
    using assms(4) by (auto simp: waker_def in_set_conv_nth)
  with assms(2,3) have "j \<noteq> i" by auto
  with j show ?thesis by (metis length_list_update nth_list_update_neq nth_mem)
qed

lemma waker_self:
  assumes "i < length (threads l)" "q \<noteq> []" "hd q = Wakeup"
  shows "\<exists>p \<in> set ((threads l)[i := q]). p \<noteq> [] \<and> hd p = Wakeup"
  using assms by (metis length_list_update nth_list_update_eq nth_mem)

lemma thread_step_awake:
  assumes "i < length (threads l)" "threads l ! i = c # cs"
  shows "awake l \<or> pendingFunctors (thread_step i c cs l) \<noteq> pendingFunctors l \<or> quit (thread_step i c cs l) \<noteq> quit l
    \<Longrightarrow> awake (thread_step i c cs l)"
proof (cases c)
  case (RunInLoop f)
  then show "awake l \<or> pendingFunctors (thread_step i c cs l) \<noteq> pendingFunctors l \<or> quit (thread_step i c cs l) \<noteq> quit l
    \<Longrightarrow> awake (thread_step i c cs l)"
    using waker_other [OF assms, of "QueueInLoop f # cs"]
    by (auto simp: loop_ops awake_def waker_def)
qed (use assms waker_self [OF assms(1), of "Wakeup # cs"] in \<open>auto simp: loop_ops awake_def waker_def\<close>)

lemma thread_step_keeps:
  assumes "i < length (threads l)" "threads l ! i = c # cs" "loop_inv l"
  shows "loop_inv (thread_step i c cs l)"
proof -
  let ?l = "thread_step i c cs l"
  have same: "phase ?l = phase l" "looping ?l = looping l" "callingPendingFunctors ?l = callingPendingFunctors l"
      "ran ?l = ran l" "queued l = ran l @ uncalled (phase l) @ pendingFunctors l
         \<Longrightarrow> queued ?l = ran l @ uncalled (phase l) @ pendingFunctors ?l"
    by (cases c; simp add: loop_ops)+
  show ?thesis
    unfolding loop_inv_def same(1-4)
    using assms(3) thread_step_awake [OF assms(1,2)] same(5) unfolding loop_inv_def by (auto split: phase.splits)
qed

lemma call_step_keeps:
  assumes "phase l = Calling fs cs" "loop_inv l"
  shows "loop_inv (call_step fs cs l)"
proof (cases cs)
  case Nil
  with assms show ?thesis
    by (cases fs) (auto simp: loop_inv_def awake_def waker_def)
next
  case (Cons c cs')
  obtain rest l' where call: "make_call True c l = (rest, l')" by fastforce
  from make_call_loop [OF call] assms Cons call show ?thesis
    by (cases c) (auto simp: loop_inv_def awake_def waker_def)
qed

lemma handle_step_keeps:
  assumes "phase l = Handling active cs" "loop_inv l"
  shows "loop_inv (handle_step active cs l)"
proof (cases cs)
  case Nil
  with assms show ?thesis
    by (cases "(active, cs, l)" rule: handle_step.cases) (auto simp: loop_inv_def awake_def waker_def loop_ops)
next
  case (Cons c cs')
  obtain rest l' where call: "make_call True c l = (rest, l')" by fastforce
  from make_call_loop [OF call] assms Cons call show ?thesis
    by (cases c) (auto simp: loop_inv_def)
qed

lemma outside_keeps:
  assumes "phase l = Outside (c # cs)" "make_call True c l = (rest, l')" "loop_inv l"
  shows "loop_inv (l'\<lparr>phase := Outside (rest @ cs)\<rparr>)"
proof -
  have "c \<noteq> QueueInLoop f" for f using assms(1,3) by (auto simp: loop_inv_def)
  moreover have "\<forall>c' \<in> set (rest @ cs). queues_nothing c'"
    using assms queues_nothing_body by (cases c) (auto simp: loop_inv_def loop_ops)
  ultimately show ?thesis
    using make_call_loop [OF assms(2)] assms(1,3)
    by (cases c) (auto simp: loop_inv_def awake_def waker_def)
qed

lemma quiet_step_keeps: "quiet_step l l' \<Longrightarrow> loop_inv l \<Longrightarrow> loop_inv l'"
proof (induction rule: quiet_step.induct)
  case (head l)
  then show ?case by (auto simp: loop_head_def loop_inv_def awake_def waker_def)
next
  case (woken l)
  then show ?case by (auto simp: poll_returns_def loop_inv_def)
next
  case (swapping l)
  then show ?case by (auto simp: swap_functors_def loop_inv_def)
qed (simp_all add: outside_keeps handle_step_keeps call_step_keeps thread_step_keeps)

lemma loop_step_keeps: "loop_step l l' \<Longrightarrow> loop_inv l \<Longrightarrow> loop_inv l'"
proof (induction rule: loop_step.induct)
  case (poll l active)
  then show ?case by (auto simp: poll_returns_def loop_inv_def)
next
  case (enter l l')
  then show ?case by (auto simp: enter_loop_def loop_inv_def awake_def waker_def fault_simps)
qed (rule quiet_step_keeps)

lemma new_loop_inv: "\<forall>c \<in> set p. queues_nothing c \<Longrightarrow> loop_inv (new_EventLoop p ts)"
  by (simp add: new_EventLoop_def loop_inv_def)

lemma reaches_inv: "loop_reaches l l' \<Longrightarrow> loop_inv l \<Longrightarrow> loop_inv l'"
  by (induction rule: loop_reaches.induct) (auto dest: loop_step_keeps)

text \<open>
  C21. The loop never sleeps on work it has been given: start a loop whose own thread queues nothing before it calls \<open>loop()\<close>, with any other threads,
  any results of \<open>poll\<close> and any interleaving. When the loop thread is in \<open>poll\<close> and the wake-up descriptor is not readable, the queue is empty and no
  \<open>quit()\<close> is outstanding, unless another thread is just between its access to the loop and its call of \<open>wakeup()\<close>. At all
  times the functors that were queued are, in order, those that were run, those taken out to be run, and those in the queue: none is lost, doubled or overtaken.
\<close>

theorem no_lost_wakeup:
  assumes "loop_reaches (new_EventLoop p ts) l" "\<forall>c \<in> set p. queues_nothing c"
  shows "(phase l = Polling \<and> wakeups l = 0 \<and> \<not> waker l \<longrightarrow> pendingFunctors l = [] \<and> \<not> quit l)
    \<and> queued l = ran l @ uncalled (phase l) @ pendingFunctors l"
  using reaches_inv [OF assms(1) new_loop_inv [OF assms(2)]]
  by (auto simp: loop_inv_def awake_def)

theorem no_lost_wakeup_witness:
  "\<exists>l. loop_reaches (new_EventLoop [Quit] [[QueueInLoop (Functor 1 [Quit])]]) l \<and> phase l = Polling \<and> wakeups l = 0 \<and> \<not> waker l
     \<and> pendingFunctors l = [] \<and> \<not> quit l"
proof -
  let ?l0 = "new_EventLoop [Quit] [[QueueInLoop (Functor 1 [Quit])]]"
  let ?l1 = "?l0\<lparr>quit := True, phase := Outside []\<rparr>"
  let ?l2 = "?l0\<lparr>looping := True, quit := False, phase := LoopHead\<rparr>"
  have "loop_step ?l0 ?l1"
    using outside [of ?l0 Quit "[]" "[]" "?l0\<lparr>quit := True\<rparr>"] by (auto intro: quiet simp: new_EventLoop_def quit_loop_def)
  then have "loop_reaches ?l0 ?l1" by (rule loop_reaches.step [OF loop_reaches.refl])
  moreover have "loop_step ?l1 ?l2" by (rule enter) (simp_all add: enter_loop_def new_EventLoop_def)
  ultimately have "loop_reaches ?l0 ?l2" by (rule loop_reaches.step)
  moreover have "loop_step ?l2 (loop_head ?l2)" by (intro quiet head) simp
  ultimately have "loop_reaches ?l0 (loop_head ?l2)" by (rule loop_reaches.step)
  from no_lost_wakeup [OF this] this show ?thesis
    by (intro exI [of _ "loop_head ?l2"]) (simp add: loop_head_def new_EventLoop_def waker_def)
qed

section \<open>Every functor is run\<close>

text \<open>
  The work that is left: each call counts for what it can lead to, a queued functor for its calls, a readable wake-up
  descriptor for one turn of the loop.
\<close>

fun call_work :: "call \<Rightarrow> nat" where
  "call_work (RunInLoop (Functor n cs)) = 14 + sum_list (map call_work cs)"
| "call_work (QueueInLoop (Functor n cs)) = 13 + sum_list (map call_work cs)"
| "call_work Wakeup = 11"
| "call_work Quit = 12"

definition calls_work :: "call list \<Rightarrow> nat" where
  "calls_work cs = sum_list (map call_work cs)"

definition functor_work :: "functor \<Rightarrow> nat" where
  "functor_work f = 1 + calls_work (calls_of f)"

definition functors_work :: "functor list \<Rightarrow> nat" where
  "functors_work fs = sum_list (map functor_work fs)"

fun channel_work :: "active_channel \<Rightarrow> nat" where
  "channel_work WakeupChannel = 1"
| "channel_work (OtherChannel cs) = 1 + calls_work cs"

fun phase_work :: "phase \<Rightarrow> nat" where
  "phase_work (Outside cs) = calls_work cs"
| "phase_work Polling = 0"
| "phase_work LoopHead = 1"
| "phase_work (Calling fs cs) = 2 + functors_work fs + calls_work cs"
| "phase_work BeforeSwap = 3"
| "phase_work (Handling active cs) = 4 + sum_list (map channel_work active) + calls_work cs"

fun sees_wakeup :: "phase \<Rightarrow> bool" where
  "sees_wakeup (Handling active cs) \<longleftrightarrow> WakeupChannel \<in> set active"
| "sees_wakeup p \<longleftrightarrow> False"

definition turn_work :: "EventLoop \<Rightarrow> nat" where
  "turn_work l = (if 0 < wakeups l \<and> \<not> sees_wakeup (phase l) then 10 else 0)"

definition loop_work :: "EventLoop \<Rightarrow> nat" where
  "loop_work l = phase_work (phase l) + functors_work (pendingFunctors l) + turn_work l + sum_list (map calls_work (threads l))"

lemma work_append [simp]:
  "calls_work [] = 0" "calls_work (c # cs) = call_work c + calls_work cs" "calls_work (cs @ ds) = calls_work cs + calls_work ds"
  "functors_work [] = 0" "functors_work (f # fs) = functor_work f + functors_work fs"
  "functors_work (fs @ gs) = functors_work fs + functors_work gs"
  by (simp_all add: calls_work_def functors_work_def)

lemma call_work_functor [simp]:
  "call_work (RunInLoop f) = 13 + functor_work f" "call_work (QueueInLoop f) = 12 + functor_work f"
  by (cases f; simp add: functor_work_def calls_work_def)+

lemma make_call_work:
  assumes "make_call b c l = (rest, l')"
  shows "calls_work rest + functors_work (pendingFunctors l') + turn_work l'
    < call_work c + functors_work (pendingFunctors l) + turn_work l
    \<and> threads l' = threads l \<and> phase l' = phase l"
  using assms by (cases c) (auto simp: loop_ops turn_work_def functor_work_def split: if_splits)

lemma sum_list_update_exchange:
  "i < length xs \<Longrightarrow> sum_list (map f (xs[i := y])) + f (xs ! i) = sum_list (map f xs) + (f y :: nat)"
  by (induction xs arbitrary: i) (auto split: nat.splits)

lemma turn_work_phase [simp]:
  "turn_work (l\<lparr>phase := p\<rparr>) = (if 0 < wakeups l \<and> \<not> sees_wakeup p then 10 else 0)"
  "turn_work (l\<lparr>threads := ts\<rparr>) = turn_work l"
  by (simp_all add: turn_work_def)

lemma thread_step_work:
  assumes "i < length (threads l)" "threads l ! i = c # cs"
  shows "loop_work (thread_step i c cs l) < loop_work l"
proof -
  obtain rest l' where call: "make_call False c l = (rest, l')" by fastforce
  from make_call_work [OF call] sum_list_update_exchange [OF assms(1), of calls_work "rest @ cs"] assms(2) call
  show ?thesis by (simp add: thread_step_def loop_work_def)
qed

lemma own_call_work:
  assumes "make_call True c l = (rest, l')" "sees_wakeup p = sees_wakeup (phase l)"
    "phase_work p + call_work c \<le> phase_work (phase l) + calls_work rest"
  shows "loop_work (l'\<lparr>phase := p\<rparr>) < loop_work l"
  using make_call_work [OF assms(1)] assms(2,3) by (auto simp: loop_work_def turn_work_def)

lemma handle_step_work:
  assumes "phase l = Handling active cs"
  shows "loop_work (handle_step active cs l) < loop_work l"
proof (cases cs)
  case Nil
  with assms show ?thesis
    by (cases "(active, cs, l)" rule: handle_step.cases) (auto simp: loop_work_def turn_work_def loop_ops)
next
  case (Cons c cs')
  obtain rest l' where call: "make_call True c l = (rest, l')" by fastforce
  with own_call_work [OF call, of "Handling active (rest @ cs')"] assms Cons show ?thesis by simp
qed

lemma call_step_work:
  assumes "phase l = Calling fs cs"
  shows "loop_work (call_step fs cs l) < loop_work l"
proof (cases cs)
  case Nil
  with assms show ?thesis
    by (cases fs) (auto simp: loop_work_def turn_work_def functor_work_def)
next
  case (Cons c cs')
  obtain rest l' where call: "make_call True c l = (rest, l')" by fastforce
  with own_call_work [OF call, of "Calling fs (rest @ cs')"] assms Cons show ?thesis by simp
qed

lemma quiet_step_work: "quiet_step l l' \<Longrightarrow> loop_work l' < loop_work l"
proof (induction rule: quiet_step.induct)
  case (outside l c cs rest l')
  then show ?case by (intro own_call_work [OF outside(2)]) auto
qed (auto simp: handle_step_work call_step_work thread_step_work, auto simp: loop_work_def loop_ops turn_work_def)

lemma no_quiet_step:
  assumes "\<And>l'. \<not> quiet_step l l'"
  shows "threads l = map (\<lambda>_. []) (threads l) \<and> (phase l = Outside [] \<or> phase l = Polling \<and> wakeups l = 0)"
proof -
  have "threads l ! i = []" if "i < length (threads l)" for i
    using assms other_thread [OF that] by (cases "threads l ! i") auto
  then have "threads l = map (\<lambda>_. []) (threads l)"
    by (intro nth_equalityI) auto
  moreover have "phase l = Outside [] \<or> phase l = Polling \<and> wakeups l = 0"
  proof (cases "phase l")
    case (Outside cs)
    then show ?thesis
      using assms outside [of l "hd cs" "tl cs"] by (cases cs; cases "make_call True (hd cs) l") auto
  qed (use assms head [of l] woken [of l] handling [of l] swapping [of l] calling [of l] in auto)
  ultimately show ?thesis by blast
qed



text \<open>
  What the hypothesis excludes: a functor that the loop thread queues before \<open>loop()\<close> wakes nobody, and the loop sleeps on it until
  something else happens.
\<close>

lemma queued_before_loop:
  "\<exists>l. loop_reaches (new_EventLoop [QueueInLoop (Functor 1 [])] []) l \<and> phase l = Polling \<and> wakeups l = 0 \<and> \<not> waker l
     \<and> pendingFunctors l = [Functor 1 []]"
proof -
  let ?f = "Functor 1 []"
  let ?l0 = "new_EventLoop [QueueInLoop ?f] []"
  let ?l1 = "?l0\<lparr>pendingFunctors := [?f], queued := [?f], phase := Outside []\<rparr>"
  let ?l2 = "?l1\<lparr>looping := True, quit := False, phase := LoopHead\<rparr>"
  have "loop_step ?l0 ?l1"
    using outside [of ?l0 "QueueInLoop ?f" "[]" "[]" "?l0\<lparr>pendingFunctors := [?f], queued := [?f]\<rparr>"]
    by (auto intro: quiet simp: new_EventLoop_def queueInLoop_def)
  then have "loop_reaches ?l0 ?l1" by (rule loop_reaches.step [OF loop_reaches.refl])
  moreover have "loop_step ?l1 ?l2" by (rule enter) (simp_all add: enter_loop_def new_EventLoop_def)
  ultimately have "loop_reaches ?l0 ?l2" by (rule loop_reaches.step)
  moreover have "loop_step ?l2 (loop_head ?l2)" by (intro quiet head) simp
  ultimately have "loop_reaches ?l0 (loop_head ?l2)" by (rule loop_reaches.step)
  then show ?thesis
    by (intro exI [of _ "loop_head ?l2"]) (simp add: loop_head_def new_EventLoop_def waker_def)
qed

end
