(* ===== verification/Tcp_Server.thy ===== *)
theory Tcp_Server
  imports Prelude
begin

text \<open>
  \<open>net/EventLoopThreadPool\<close>, \<open>net/TcpServer\<close> and \<open>net/Acceptor\<close>: the loops of the threads, the acceptor with its spare descriptor, and the
  table of connections. All of it runs in the loop of the acceptor. A loop is named by the thread it runs in, a connection is what
  the table needs of it; its life is in the theory \<open>Connection\<close>.

  \<open>accepted\<close> and \<open>destroyed\<close> record the connections that were made and the calls of \<open>connectDestroyed\<close> that were queued in their
  loops; \<open>initCalls\<close> those of the thread init callback. The table of descriptors of the process, its limit and the connections
  waiting at the listening socket are the kernel's.
\<close>

section \<open>The loops of a server\<close>

datatype loop_ref = BaseLoop | ThreadLoop string

record EventLoopThreadPool =
  pool_name :: string
  pool_started :: bool
  numThreads :: int
  next_loop :: int
  loops :: "loop_ref list"
  initCalls :: "loop_ref list"

definition new_EventLoopThreadPool :: "string \<Rightarrow> EventLoopThreadPool" where
  "new_EventLoopThreadPool nameArg =
     \<lparr>pool_name = nameArg, pool_started = False, numThreads = 0, next_loop = 0, loops = [], initCalls = []\<rparr>"

text \<open>The \<open>i\<close>-th thread has the name of the pool with the number behind it; it calls the init callback on its loop.\<close>

function start_threads :: "bool \<Rightarrow> nat \<Rightarrow> EventLoopThreadPool \<Rightarrow> EventLoopThreadPool" where
  "start_threads cb i pool =
     (if int i < numThreads pool
      then let loop = ThreadLoop (pool_name pool @ show_int (int i))
           in start_threads cb (i + 1)
                (pool\<lparr>loops := loops pool @ [loop], initCalls := initCalls pool @ (if cb then [loop] else [])\<rparr>)
      else pool)"
  by pat_completeness auto
termination
  by (relation "measure (\<lambda>(cb, i, pool). nat (numThreads pool - int i))") auto

declare start_threads.simps [simp del]

definition pool_start :: "bool \<Rightarrow> EventLoopThreadPool \<Rightarrow> EventLoopThreadPool res" where
  "pool_start cb pool =
     bindE (assertE (\<not> pool_started pool)) (\<lambda>_.
     let pool1 = start_threads cb 0 (pool\<lparr>pool_started := True\<rparr>)
     in Inr (if numThreads pool1 = 0 \<and> cb then pool1\<lparr>initCalls := initCalls pool1 @ [BaseLoop]\<rparr> else pool1))"

definition loop_at :: "int \<Rightarrow> loop_ref list \<Rightarrow> loop_ref res" where
  "loop_at i ls = (if 0 \<le> i \<and> i < int (length ls) then Inr (ls ! nat i) else Inl UndefinedBehaviour)"

definition getNextLoop :: "EventLoopThreadPool \<Rightarrow> (loop_ref \<times> EventLoopThreadPool) res" where
  "getNextLoop pool =
     bindE (assertE (pool_started pool)) (\<lambda>_.
     if loops pool = [] then Inr (BaseLoop, pool)
     else bindE (loop_at (next_loop pool) (loops pool)) (\<lambda>loop.
          let n = next_loop pool + 1
          in Inr (loop, pool\<lparr>next_loop := if n \<ge> int (length (loops pool)) then 0 else n\<rparr>)))"

definition getLoopForHash :: "nat \<Rightarrow> EventLoopThreadPool \<Rightarrow> loop_ref res" where
  "getLoopForHash hashCode pool =
     (if loops pool = [] then Inr BaseLoop else loop_at (int (hashCode mod length (loops pool))) (loops pool))"

definition getAllLoops :: "EventLoopThreadPool \<Rightarrow> loop_ref list res" where
  "getAllLoops pool =
     bindE (assertE (pool_started pool)) (\<lambda>_. Inr (if loops pool = [] then [BaseLoop] else loops pool))"

section \<open>The server\<close>

record tcp_connection =
  conn_name :: string
  conn_loop :: loop_ref
  conn_fd :: nat

record TcpServer =
  ipPort :: string
  server_name :: string
  threadPool :: EventLoopThreadPool
  server_started :: int
  nextConnId :: int
  connections :: "(string \<times> tcp_connection) list"
  listening :: bool
  idleFd :: "nat option"
  open_fds :: "nat list"
  fd_limit :: nat
  waiting :: "nat list"
  dropped :: "nat list"
  accepted :: "tcp_connection list"
  destroyed :: "(loop_ref \<times> tcp_connection) list"

definition setThreadNum :: "int \<Rightarrow> TcpServer \<Rightarrow> TcpServer res" where
  "setThreadNum n s = bindE (assertE (0 \<le> n)) (\<lambda>_. Inr (s\<lparr>threadPool := (threadPool s)\<lparr>numThreads := n\<rparr>\<rparr>))"

definition listen :: "TcpServer \<Rightarrow> TcpServer" where
  "listen s = s\<lparr>listening := True\<rparr>"

definition start :: "bool \<Rightarrow> TcpServer \<Rightarrow> TcpServer res" where
  "start cb s =
     (let s1 = s\<lparr>server_started := 1\<rparr>
      in if server_started s = 0
         then bindE (pool_start cb (threadPool s1)) (\<lambda>pool.
              let s2 = s1\<lparr>threadPool := pool\<rparr>
              in bindE (assertE (\<not> listening s2)) (\<lambda>_. Inr (listen s2)))
         else Inr s1)"

definition connection_name :: "TcpServer \<Rightarrow> string" where
  "connection_name s = server_name s @ take 63 (''-'' @ ipPort s @ ''#'' @ show_int (nextConnId s))"

definition newConnection :: "nat \<Rightarrow> TcpServer \<Rightarrow> TcpServer res" where
  "newConnection sockfd s =
     bindE (getNextLoop (threadPool s)) (\<lambda>(ioLoop, pool).
     let connName = connection_name s;
         conn = \<lparr>conn_name = connName, conn_loop = ioLoop, conn_fd = sockfd\<rparr>
     in Inr (s\<lparr>threadPool := pool, nextConnId := wrap32 (nextConnId s + 1),
               connections := map_put connName conn (connections s), accepted := accepted s @ [conn]\<rparr>))"

definition removeConnectionInLoop :: "tcp_connection \<Rightarrow> TcpServer \<Rightarrow> TcpServer res" where
  "removeConnectionInLoop conn s =
     (let n = length (filter (\<lambda>(k, c). k = conn_name conn) (connections s));
          s1 = s\<lparr>connections := map_erase (conn_name conn) (connections s)\<rparr>
      in bindE (assertE (n = 1)) (\<lambda>_. Inr (s1\<lparr>destroyed := destroyed s1 @ [(conn_loop conn, conn)]\<rparr>)))"

text \<open>The destructor destroys what is left in the table.\<close>

definition destroy_TcpServer :: "TcpServer \<Rightarrow> TcpServer" where
  "destroy_TcpServer s = fold (\<lambda>(k, c) s. s\<lparr>destroyed := destroyed s @ [(conn_loop c, c)]\<rparr>) (connections s) s"

section \<open>The acceptor\<close>

text \<open>
  The system calls on the table of descriptors: the lowest free number is taken; \<open>accept\<close> fails with \<open>EAGAIN\<close> when no connection waits and with \<open>EMFILE\<close> when no number is free.
\<close>

datatype errno = EAGAIN | EMFILE

definition free_fd :: "TcpServer \<Rightarrow> nat option" where
  "free_fd s = find (\<lambda>n. n \<notin> set (open_fds s)) [0..<fd_limit s]"

definition sys_accept :: "TcpServer \<Rightarrow> (errno + nat \<times> nat) \<times> TcpServer" where
  "sys_accept s =
     (case waiting s of
        [] \<Rightarrow> (Inl EAGAIN, s)
      | peer # peers \<Rightarrow>
          (case free_fd s of
             None \<Rightarrow> (Inl EMFILE, s)
           | Some n \<Rightarrow> (Inr (n, peer), s\<lparr>open_fds := n # open_fds s, waiting := peers\<rparr>)))"

definition sys_close :: "nat option \<Rightarrow> TcpServer \<Rightarrow> TcpServer" where
  "sys_close fd s = (case fd of None \<Rightarrow> s | Some n \<Rightarrow> s\<lparr>open_fds := removeAll n (open_fds s)\<rparr>)"

definition open_dev_null :: "TcpServer \<Rightarrow> nat option \<times> TcpServer" where
  "open_dev_null s = (case free_fd s of None \<Rightarrow> (None, s) | Some n \<Rightarrow> (Some n, s\<lparr>open_fds := n # open_fds s\<rparr>))"

text \<open>\<open>idleFd_\<close> is \<open>None\<close> for the value -1. A connection that is accepted only to be closed goes to \<open>dropped\<close>.\<close>

definition Acceptor_handleRead :: "TcpServer \<Rightarrow> TcpServer res" where
  "Acceptor_handleRead s =
     (case sys_accept s of
        (Inr (connfd, peer), s1) \<Rightarrow> newConnection connfd s1
      | (Inl EMFILE, s1) \<Rightarrow>
          let s2 = sys_close (idleFd s1) s1;
              s4 = (case sys_accept s2 of
                      (Inr (fd, peer), s3) \<Rightarrow> sys_close (Some fd) (s3\<lparr>dropped := dropped s3 @ [peer]\<rparr>)
                    | (Inl e, s3) \<Rightarrow> s3);
              (idle, s5) = open_dev_null s4
          in Inr (s5\<lparr>idleFd := idle\<rparr>)
      | (Inl EAGAIN, s1) \<Rightarrow> Inr s1)"

definition new_TcpServer :: "string \<Rightarrow> string \<Rightarrow> nat \<Rightarrow> nat list \<Rightarrow> TcpServer res" where
  "new_TcpServer addr nameArg limit fds =
     (let s = \<lparr>ipPort = addr, server_name = nameArg, threadPool = new_EventLoopThreadPool nameArg, server_started = 0,
               nextConnId = 1, connections = [], listening = False, idleFd = None, open_fds = fds, fd_limit = limit,
               waiting = [], dropped = [], accepted = [], destroyed = []\<rparr>;
          (idle, s1) = open_dev_null s
      in bindE (assertE (idle \<noteq> None)) (\<lambda>_. Inr (s1\<lparr>idleFd := idle\<rparr>)))"

section \<open>Connections come and go\<close>

datatype server_event = Accept nat | Close nat

text \<open>What reaches the server in its loop: a new descriptor, and the close callback of the \<open>i\<close>-th connection that was made.\<close>

fun server_run :: "server_event list \<Rightarrow> TcpServer \<Rightarrow> TcpServer res" where
  "server_run [] s = Inr s"
| "server_run (Accept fd # es) s = bindE (newConnection fd s) (server_run es)"
| "server_run (Close i # es) s = bindE (removeConnectionInLoop (accepted s ! i) s) (server_run es)"

text \<open>A connection is closed at most once, and after it was made: \<open>n\<close> were made so far, those in \<open>closed\<close> are closed.\<close>

fun valid_events :: "nat \<Rightarrow> nat list \<Rightarrow> server_event list \<Rightarrow> bool" where
  "valid_events n closed [] \<longleftrightarrow> True"
| "valid_events n closed (Accept fd # es) \<longleftrightarrow> valid_events (n + 1) closed es"
| "valid_events n closed (Close i # es) \<longleftrightarrow> i < n \<and> i \<notin> set closed \<and> valid_events n (closed @ [i]) es"

fun accept_fds :: "server_event list \<Rightarrow> nat list" where
  "accept_fds [] = []"
| "accept_fds (Accept fd # es) = fd # accept_fds es"
| "accept_fds (Close i # es) = accept_fds es"

fun closes :: "server_event list \<Rightarrow> nat list" where
  "closes [] = []"
| "closes (Accept fd # es) = closes es"
| "closes (Close i # es) = i # closes es"

text \<open>What the \<open>i\<close>-th connection of a server is: its number in its name, the loops in turn.\<close>

definition thread_loops :: "string \<Rightarrow> nat \<Rightarrow> loop_ref list" where
  "thread_loops name n = map (\<lambda>i. ThreadLoop (name @ show_int (int i))) [0..<n]"

definition expected_name :: "string \<Rightarrow> string \<Rightarrow> nat \<Rightarrow> string" where
  "expected_name name addr i = name @ ''-'' @ addr @ ''#'' @ show_int (int i + 1)"

definition expected_conn :: "string \<Rightarrow> string \<Rightarrow> nat \<Rightarrow> nat \<Rightarrow> nat \<Rightarrow> tcp_connection" where
  "expected_conn name addr n i fd =
     \<lparr>conn_name = expected_name name addr i,
      conn_loop = (if n = 0 then BaseLoop else ThreadLoop (name @ show_int (int (i mod n)))), conn_fd = fd\<rparr>"

definition expected_conns :: "string \<Rightarrow> string \<Rightarrow> nat \<Rightarrow> nat list \<Rightarrow> tcp_connection list" where
  "expected_conns name addr n fds = map (\<lambda>(i, fd). expected_conn name addr n i fd) (zip [0..<length fds] fds)"

text \<open>The state of a server with \<open>n\<close> threads after connections with the descriptors \<open>fds\<close> were made and \<open>closed\<close> closed.\<close>

definition server_inv :: "nat \<Rightarrow> nat list \<Rightarrow> nat list \<Rightarrow> TcpServer \<Rightarrow> bool" where
  "server_inv n fds closed s \<longleftrightarrow>
     pool_started (threadPool s) \<and> loops (threadPool s) = thread_loops (server_name s) n
   \<and> next_loop (threadPool s) = int (length fds mod (if n = 0 then 1 else n))
   \<and> nextConnId s = int (length fds) + 1
   \<and> accepted s = expected_conns (server_name s) (ipPort s) n fds
   \<and> map_ordered (connections s)
   \<and> set (connections s) = (\<lambda>i. (conn_name (accepted s ! i), accepted s ! i)) ` {i. i < length fds \<and> i \<notin> set closed}
   \<and> destroyed s = map (\<lambda>i. (conn_loop (accepted s ! i), accepted s ! i)) closed"

lemma start_threads_loops:
  "start_threads cb i pool = pool\<lparr>loops := loops pool @ map (\<lambda>i. ThreadLoop (pool_name pool @ show_int (int i))) [i..<nat (numThreads pool)],
     initCalls := initCalls pool @ (if cb then map (\<lambda>i. ThreadLoop (pool_name pool @ show_int (int i))) [i..<nat (numThreads pool)] else [])\<rparr>"
proof (induction cb i pool rule: start_threads.induct)
  case (1 cb i pool)
  show ?case
  proof (cases "int i < numThreads pool")
    case True
    then have "[i..<nat (numThreads pool)] = i # [i + 1..<nat (numThreads pool)]"
      by (simp add: upt_conv_Cons zless_nat_conj)
    with True 1 show ?thesis by (simp add: start_threads.simps [of cb i pool] Let_def)
  next
    case False
    then show ?thesis by (simp add: start_threads.simps [of cb i pool])
  qed
qed

lemma expected_name_inj: "expected_name name addr i = expected_name name addr j \<Longrightarrow> i = j"
  using show_int_inj by (fastforce simp: expected_name_def)

lemma connection_name_expected:
  assumes "nextConnId s = int i + 1" "int i + 1 < 2 ^ 31" "length (ipPort s) \<le> 51"
  shows "connection_name s = expected_name (server_name s) (ipPort s) i"
proof -
  have "length (show_nat (i + 1)) \<le> 10"
    using assms(2) by (intro show_nat_length) auto
  then have "length (''-'' @ ipPort s @ ''#'' @ show_int (int i + 1)) \<le> 63"
    using assms(3) by (simp add: show_int_def nat_add_distrib)
  then show ?thesis
    using assms(1) by (simp add: connection_name_def expected_name_def)
qed

lemma expected_conns_simps [simp]:
  "length (expected_conns name addr n fds) = length fds"
  "i < length fds \<Longrightarrow> expected_conns name addr n fds ! i = expected_conn name addr n i (fds ! i)"
  "expected_conns name addr n (fds @ [fd]) = expected_conns name addr n fds @ [expected_conn name addr n (length fds) fd]"
  by (simp_all add: expected_conns_def)

lemma conn_name_expected [simp]: "conn_name (expected_conn name addr n i fd) = expected_name name addr i"
  by (simp add: expected_conn_def)

lemma set_map_put_fresh: "k \<notin> fst ` set m \<Longrightarrow> set (map_put k v m) = insert (k, v) (set m)"
  by (induction m) (auto split: if_splits)

lemma one_entry: "map_ordered m \<Longrightarrow> (k, v) \<in> set m \<Longrightarrow> filter (\<lambda>(k', c). k' = k) m = [(k, v)]"
proof (induction m)
  case (Cons a m)
  have "filter (\<lambda>(k', c). k' = k) m = []" if "fst a = k"
    using Cons.prems(1) that by (auto simp: map_ordered_def filter_empty_conv)
  moreover have "fst a \<noteq> k" if "(k, v) \<in> set m"
    using Cons.prems(1) that by (force simp: map_ordered_def)
  ultimately show ?case using Cons by (cases a) (auto simp: map_ordered_def)
qed simp

lemma getNextLoop_turn:
  assumes "pool_started pool" "loops pool = thread_loops name n" "next_loop pool = int (k mod (if n = 0 then 1 else n))"
  shows "getNextLoop pool = Inr (if n = 0 then BaseLoop else ThreadLoop (name @ show_int (int (k mod n))),
    pool\<lparr>next_loop := int ((k + 1) mod (if n = 0 then 1 else n))\<rparr>)"
proof (cases "n = 0")
  case True
  with assms show ?thesis by (cases pool) (simp add: getNextLoop_def thread_loops_def)
next
  case False
  then have "k mod n < n" by simp
  moreover from this have "(k + 1) mod n = (if k mod n + 1 \<ge> n then 0 else k mod n + 1)"
    by (cases "Suc (k mod n) = n") (simp_all add: mod_Suc)
  moreover have "loops pool \<noteq> []" "length (loops pool) = n"
    using False assms(2) by (simp_all add: thread_loops_def)
  ultimately show ?thesis
    using False assms by (auto simp: getNextLoop_def loop_at_def thread_loops_def Let_def simp del: mod_Suc)
qed

lemma newConnection_step:
  assumes "server_inv n fds closed s" "set closed \<subseteq> {..<length fds}" "int (length fds) + 2 < 2 ^ 31" "length (ipPort s) \<le> 51"
  shows "\<exists>s'. newConnection fd s = Inr s' \<and> server_inv n (fds @ [fd]) closed s' \<and> server_name s' = server_name s \<and> ipPort s' = ipPort s"
proof -
  note inv = assms(1) [unfolded server_inv_def]
  let ?name = "expected_name (server_name s) (ipPort s)"
  let ?conn = "expected_conn (server_name s) (ipPort s) n (length fds) fd"
  have name: "connection_name s = ?name (length fds)"
    using connection_name_expected inv assms(3,4) by simp
  have acc: "accepted s ! i = expected_conn (server_name s) (ipPort s) n i (fds ! i)" if "i < length fds" for i
    using inv that by simp
  have fresh: "?name (length fds) \<notin> fst ` set (connections s)"
    using inv acc expected_name_inj by (fastforce simp: image_iff)
  have wrap: "wrap32 (2 + int (length fds)) = int (length fds) + 2"
    using assms(3) by (simp add: wrap32_id is_int32_def)
  have grow: "{i. i < Suc (length fds) \<and> i \<notin> set closed} = insert (length fds) {i. i < length fds \<and> i \<notin> set closed}"
    using assms(2) by auto
  let ?s = "s\<lparr>threadPool := (threadPool s)\<lparr>next_loop := int ((length fds + 1) mod (if n = 0 then 1 else n))\<rparr>, nextConnId := int (length fds) + 2,
      connections := map_put (?name (length fds)) ?conn (connections s), accepted := accepted s @ [?conn]\<rparr>"
  have "newConnection fd s = Inr ?s"
    using getNextLoop_turn [of "threadPool s" "server_name s" n "length fds"] inv
    by (simp add: newConnection_def name wrap expected_conn_def Let_def)
  moreover have "server_inv n (fds @ [fd]) closed ?s"
    using inv assms(2) fresh acc
    by (auto simp: server_inv_def set_map_put_fresh grow nth_append image_iff)
  ultimately show ?thesis by fastforce
qed

lemma removeConnection_step:
  assumes "server_inv n fds closed s" "i < length fds" "i \<notin> set closed"
  shows "\<exists>s'. removeConnectionInLoop (accepted s ! i) s = Inr s' \<and> server_inv n fds (closed @ [i]) s'
    \<and> accepted s' = accepted s \<and> server_name s' = server_name s \<and> ipPort s' = ipPort s"
proof -
  note inv = assms(1) [unfolded server_inv_def]
  let ?c = "accepted s ! i"
  have acc: "accepted s ! j = expected_conn (server_name s) (ipPort s) n j (fds ! j)" if "j < length fds" for j
    using inv that by simp
  have "(conn_name ?c, ?c) \<in> set (connections s)" using inv assms(2,3) by auto
  then have one: "length (filter (\<lambda>(k, c). k = conn_name ?c) (connections s)) = 1"
    using one_entry inv by fastforce
  have "set (map_erase (conn_name ?c) (connections s))
      = (\<lambda>j. (conn_name (accepted s ! j), accepted s ! j)) ` {j. j < length fds \<and> j \<notin> set (closed @ [i])}"
    using inv acc assms(2) expected_name_inj by (auto simp: map_erase_def)
  with inv one show ?thesis
    by (simp add: removeConnectionInLoop_def Let_def server_inv_def)
qed

lemma server_run_inv:
  assumes "server_inv n fds closed s" "set closed \<subseteq> {..<length fds}" "valid_events (length fds) closed es"
    "int (length fds + length (accept_fds es)) + 1 < 2 ^ 31" "length (ipPort s) \<le> 51"
  shows "\<exists>s'. server_run es s = Inr s' \<and> server_inv n (fds @ accept_fds es) (closed @ closes es) s'
    \<and> server_name s' = server_name s \<and> ipPort s' = ipPort s"
  using assms
proof (induction es arbitrary: fds closed s)
  case (Cons e es)
  show ?case
  proof (cases e)
    case (Accept fd)
    then obtain s1 where s1: "newConnection fd s = Inr s1" "server_inv n (fds @ [fd]) closed s1"
        "server_name s1 = server_name s" "ipPort s1 = ipPort s"
      using newConnection_step [OF Cons.prems(1,2), of fd] Cons.prems(4,5) by auto
    have "set closed \<subseteq> {..<length (fds @ [fd])}" using Cons.prems(2) by auto
    from Cons.IH [OF s1(2) this] Cons.prems(3-5) s1 Accept show ?thesis by auto
  next
    case (Close i)
    then have i: "i < length fds" "i \<notin> set closed" using Cons.prems(3) by auto
    obtain s1 where s1: "removeConnectionInLoop (accepted s ! i) s = Inr s1" "server_inv n fds (closed @ [i]) s1"
        "server_name s1 = server_name s" "ipPort s1 = ipPort s"
      using removeConnection_step [OF Cons.prems(1) i] by blast
    have "set (closed @ [i]) \<subseteq> {..<length fds}" using Cons.prems(2) i by auto
    from Cons.IH [OF s1(2) this] Cons.prems(3-5) s1 Close show ?thesis by auto
  qed
qed auto

lemma server_starts:
  assumes "k < limit" "k \<notin> set fds"
  shows "\<exists>s0 s1 s2. new_TcpServer addr name limit fds = Inr s0 \<and> setThreadNum (int n) s0 = Inr s1 \<and> start cb s1 = Inr s2
    \<and> server_inv n [] [] s2 \<and> server_name s2 = name \<and> ipPort s2 = addr"
proof -
  have "find (\<lambda>n. n \<notin> set fds) [0..<limit] \<noteq> None"
    using assms by (auto simp: find_None_iff)
  then show ?thesis
    by (auto simp: new_TcpServer_def open_dev_null_def free_fd_def setThreadNum_def start_def listen_def pool_start_def
        start_threads_loops new_EventLoopThreadPool_def server_inv_def thread_loops_def expected_conns_def Let_def)
qed

lemma distinct_expected: "distinct (map conn_name (expected_conns name addr n fds))"
proof -
  have "map conn_name (expected_conns name addr n fds) = map (expected_name name addr) [0..<length fds]"
    by (intro nth_equalityI) simp_all
  then show ?thesis
    using expected_name_inj by (auto simp: distinct_map inj_on_def)
qed

text \<open>
  C23. The table of connections of a server with \<open>n\<close> threads, along any sequence of fewer than \<open>2\<^sup>3\<^sup>1\<close> new connections and closes (each
  connection closed at most once, after it was made): no assertion fails; the \<open>i\<close>-th connection is named after its number and runs in
  the loops in turn (in the loop of the acceptor when there are no threads), no two names are equal; the table holds exactly the connections that were made and not closed;
  and for each closed connection \<open>connectDestroyed\<close> is queued once, in its own loop, in the order of the closes.
\<close>

theorem connections_in_turn:
  assumes "valid_events 0 [] es" "int (length (accept_fds es)) + 1 < 2 ^ 31" "length addr \<le> 51" "k < limit" "k \<notin> set fds"
  shows "\<exists>s0 s1 s2 s. new_TcpServer addr name limit fds = Inr s0 \<and> setThreadNum (int n) s0 = Inr s1 \<and> start cb s1 = Inr s2
    \<and> server_run es s2 = Inr s
    \<and> accepted s = expected_conns name addr n (accept_fds es) \<and> distinct (map conn_name (accepted s))
    \<and> set (connections s) = (\<lambda>i. (conn_name (accepted s ! i), accepted s ! i)) ` {i. i < length (accepted s) \<and> i \<notin> set (closes es)}
    \<and> destroyed s = map (\<lambda>i. (conn_loop (accepted s ! i), accepted s ! i)) (closes es)"
proof -
  obtain s0 s1 s2 where start: "new_TcpServer addr name limit fds = Inr s0" "setThreadNum (int n) s0 = Inr s1" "start cb s1 = Inr s2"
    and inv: "server_inv n [] [] s2" and same: "server_name s2 = name" "ipPort s2 = addr"
    using server_starts [OF assms(4,5)] by blast
  obtain s where s: "server_run es s2 = Inr s" "server_inv n (accept_fds es) (closes es) s" "server_name s = name" "ipPort s = addr"
    using server_run_inv [OF inv, of es] assms(1-3) same by auto
  then show ?thesis
    using start distinct_expected by (fastforce simp: server_inv_def)
qed

theorem connections_in_turn_witness:
  "\<exists>s0 s1 s2 s. new_TcpServer ''0.0.0.0:9527'' ''chatserver'' 1024 [0, 1, 2, 3] = Inr s0 \<and> setThreadNum (int 2) s0 = Inr s1
     \<and> start False s1 = Inr s2 \<and> server_run [Accept 5, Accept 6, Close 0, Accept 5, Close 2] s2 = Inr s
     \<and> destroyed s = [(ThreadLoop ''chatserver0'', expected_conn ''chatserver'' ''0.0.0.0:9527'' 2 0 5),
                      (ThreadLoop ''chatserver0'', expected_conn ''chatserver'' ''0.0.0.0:9527'' 2 2 5)]"
proof -
  have zero: "show_int 0 = ''0''" by code_simp
  have conns: "expected_conns ''chatserver'' ''0.0.0.0:9527'' 2 [5, 6, 5] = map2 (expected_conn ''chatserver'' ''0.0.0.0:9527'' 2) [0, 1, 2] [5, 6, 5]"
    by (simp add: expected_conns_def numeral_2_eq_2)
  let ?es = "[Accept 5, Accept 6, Close 0, Accept 5, Close 2]"
  obtain s0 s1 s2 s where run: "new_TcpServer ''0.0.0.0:9527'' ''chatserver'' 1024 [0, 1, 2, 3] = Inr s0"
      "setThreadNum (int 2) s0 = Inr s1" "start False s1 = Inr s2" "server_run ?es s2 = Inr s"
    and acc: "accepted s = expected_conns ''chatserver'' ''0.0.0.0:9527'' 2 (accept_fds ?es)"
    and gone: "destroyed s = map (\<lambda>i. (conn_loop (accepted s ! i), accepted s ! i)) (closes ?es)"
    using connections_in_turn [of ?es "''0.0.0.0:9527''" 4 1024 "[0, 1, 2, 3]" "''chatserver''" 2 False] by auto
  have "destroyed s = [(ThreadLoop ''chatserver0'', expected_conn ''chatserver'' ''0.0.0.0:9527'' 2 0 5),
      (ThreadLoop ''chatserver0'', expected_conn ''chatserver'' ''0.0.0.0:9527'' 2 2 5)]"
    by (simp add: gone acc conns) (simp add: expected_conn_def zero)
  with run show ?thesis by blast
qed

section \<open>Running out of descriptors\<close>

text \<open>
  With the table of descriptors full, the spare one makes room to take a waiting connection and close it at once: the queue at the
  listening socket gets shorter, so that the readable event does not come back for the same connection, and the spare descriptor is there again.
\<close>

lemma full_table_drops_one:
  assumes "waiting s = peer # peers" "free_fd s = None" "idleFd s = Some k" "k \<in> set (open_fds s)" "k < fd_limit s"
  shows "\<exists>s'. Acceptor_handleRead s = Inr s' \<and> waiting s' = peers \<and> dropped s' = dropped s @ [peer] \<and> idleFd s' = Some k
    \<and> set (open_fds s') = set (open_fds s) \<and> connections s' = connections s \<and> free_fd s' = None"
proof -
  have full: "n \<in> set (open_fds s)" if "n < fd_limit s" for n
    using assms(2) that by (auto simp: free_fd_def find_None_iff)
  have k: "find (\<lambda>n. n \<notin> set (removeAll k (open_fds s))) [0..<fd_limit s] = Some k"
  proof -
    have "\<exists>n. find (\<lambda>n. n \<notin> set (removeAll k (open_fds s))) [0..<fd_limit s] = Some n"
      using assms(5) by (auto simp: find_None_iff simp flip: not_None_eq)
    then show ?thesis using full by (auto simp: find_Some_iff)
  qed
  then have k': "find (\<lambda>n. n \<in> set (open_fds s) \<longrightarrow> n = k) [0..<fd_limit s] = Some k" by simp
  have "set (open_fds s) - {k} \<union> {k} = set (open_fds s)" using assms(4) by auto
  moreover have "find (\<lambda>n. n \<notin> insert k (set (open_fds s) - {k})) [0..<fd_limit s] = None"
    using full by (auto simp: find_None_iff)
  ultimately show ?thesis
    using assms k k' by (simp add: Acceptor_handleRead_def sys_accept_def sys_close_def open_dev_null_def free_fd_def insert_absorb)
qed

end
