(* ===== verification/Tcp_Client.thy ===== *)
theory Tcp_Client
  imports Channels "HOL-Library.Multiset"
begin

text \<open>
  \<open>net/Connector\<close> and \<open>net/TcpClient\<close>: a connector opens sockets until one is connected, with growing delays between its attempts, and a client keeps the connection and may connect again when it is closed.
  Everything here runs in the thread of the loop; other threads put functors in its queue (\<open>pending\<close>). \<open>timers\<close> holds the delays of the timers that will call \<open>startInLoop\<close>.

  Sockets are numbered in the order they are made. What the kernel answers for a socket is a parameter: the \<open>errno\<close> of \<open>connect\<close> (0 for success), the value of \<open>SO_ERROR\<close> and whether it
  is connected to itself. \<open>closed\<close> and \<open>handed\<close> record the sockets that were closed and those given to the new-connection callback, \<open>retries\<close> counts the retries since the last restart.
\<close>

record net_env =
  connect_errno :: "nat \<Rightarrow> int"
  so_error :: "nat \<Rightarrow> int"
  self_connect :: "nat \<Rightarrow> bool"

section \<open>The connector\<close>

datatype States = kDisconnected | kConnecting | kConnected

datatype connector_functor = StartInLoop | StopInLoop | ResetChannel

record Connector =
  connect_flag :: bool
  state :: States
  channel :: "Channel option"
  retryDelayMs :: int
  pending :: "connector_functor list"
  timers :: "int list"
  sockets :: nat
  closed :: "nat list"
  handed :: "nat list"
  retries :: nat

definition kMaxRetryDelayMs :: int where
  "kMaxRetryDelayMs = 30 * 1000"

definition kInitRetryDelayMs :: int where
  "kInitRetryDelayMs = 500"

definition new_Connector :: Connector where
  "new_Connector = \<lparr>connect_flag = False, state = kDisconnected, channel = None, retryDelayMs = kInitRetryDelayMs,
     pending = [], timers = [], sockets = 0, closed = [], handed = [], retries = 0\<rparr>"

definition queueInLoop :: "connector_functor \<Rightarrow> Connector \<Rightarrow> Connector" where
  "queueInLoop f c = c\<lparr>pending := pending c @ [f]\<rparr>"

definition close_socket :: "nat \<Rightarrow> Connector \<Rightarrow> Connector" where
  "close_socket sockfd c = c\<lparr>closed := closed c @ [sockfd]\<rparr>"

definition retry :: "nat \<Rightarrow> Connector \<Rightarrow> Connector" where
  "retry sockfd c =
     (let c1 = (close_socket sockfd c)\<lparr>state := kDisconnected\<rparr>
      in if connect_flag c1
         then c1\<lparr>timers := timers c1 @ [retryDelayMs c1], retryDelayMs := min (retryDelayMs c1 * 2) kMaxRetryDelayMs, retries := retries c1 + 1\<rparr>
         else c1)"

definition connecting :: "nat \<Rightarrow> Connector \<Rightarrow> Connector res" where
  "connecting sockfd c =
     (let c1 = c\<lparr>state := kConnecting\<rparr>
      in bindE (assertE (channel c1 = None)) (\<lambda>_. Inr (c1\<lparr>channel := Some (enableWriting (new_Channel (int sockfd)))\<rparr>)))"

definition EPERM :: int where "EPERM = 1"
definition EINTR :: int where "EINTR = 4"
definition EBADF :: int where "EBADF = 9"
definition EAGAIN :: int where "EAGAIN = 11"
definition EACCES :: int where "EACCES = 13"
definition EFAULT :: int where "EFAULT = 14"
definition ENOTSOCK :: int where "ENOTSOCK = 88"
definition EAFNOSUPPORT :: int where "EAFNOSUPPORT = 97"
definition EADDRINUSE :: int where "EADDRINUSE = 98"
definition EADDRNOTAVAIL :: int where "EADDRNOTAVAIL = 99"
definition ENETUNREACH :: int where "ENETUNREACH = 101"
definition EISCONN :: int where "EISCONN = 106"
definition ECONNREFUSED :: int where "ECONNREFUSED = 111"
definition EALREADY :: int where "EALREADY = 114"
definition EINPROGRESS :: int where "EINPROGRESS = 115"

definition connect :: "net_env \<Rightarrow> Connector \<Rightarrow> Connector res" where
  "connect net c =
     (let sockfd = sockets c;
          c1 = c\<lparr>sockets := sockets c + 1\<rparr>;
          savedErrno = connect_errno net sockfd
      in if savedErrno \<in> {0, EINPROGRESS, EINTR, EISCONN} then connecting sockfd c1
         else if savedErrno \<in> {EAGAIN, EADDRINUSE, EADDRNOTAVAIL, ECONNREFUSED, ENETUNREACH} then Inr (retry sockfd c1)
         else if savedErrno \<in> {EACCES, EPERM, EAFNOSUPPORT, EALREADY, EBADF, EFAULT, ENOTSOCK} then Inr (close_socket sockfd c1)
         else Inr (close_socket sockfd c1))"

definition startInLoop :: "net_env \<Rightarrow> Connector \<Rightarrow> Connector res" where
  "startInLoop net c =
     bindE (assertE (state c = kDisconnected)) (\<lambda>_. if connect_flag c then connect net c else Inr c)"

definition start :: "net_env \<Rightarrow> bool \<Rightarrow> Connector \<Rightarrow> Connector res" where
  "start net inLoopThread c =
     (let c1 = c\<lparr>connect_flag := True\<rparr> in if inLoopThread then startInLoop net c1 else Inr (queueInLoop StartInLoop c1))"

text \<open>The descriptor of the channel; the channel itself is reset by a functor.\<close>

definition removeAndResetChannel :: "Connector \<Rightarrow> (nat \<times> Connector) res" where
  "removeAndResetChannel c =
     (case channel c of
        None \<Rightarrow> Inl NullDereference
      | Some ch \<Rightarrow> bindE (remove_Channel (disableAll ch)) (\<lambda>ch'.
          Inr (nat (fd ch'), queueInLoop ResetChannel (c\<lparr>channel := Some ch'\<rparr>))))"

definition stopInLoop :: "Connector \<Rightarrow> Connector res" where
  "stopInLoop c =
     (if state c = kConnecting
      then bindE (removeAndResetChannel (c\<lparr>state := kDisconnected\<rparr>)) (\<lambda>(sockfd, c1). Inr (retry sockfd c1))
      else Inr c)"

definition stop :: "Connector \<Rightarrow> Connector" where
  "stop c = queueInLoop StopInLoop (c\<lparr>connect_flag := False\<rparr>)"

definition restart :: "net_env \<Rightarrow> Connector \<Rightarrow> Connector res" where
  "restart net c = startInLoop net (c\<lparr>state := kDisconnected, retryDelayMs := kInitRetryDelayMs, retries := 0, connect_flag := True\<rparr>)"

definition resetChannel :: "Connector \<Rightarrow> Connector" where
  "resetChannel c = c\<lparr>channel := None\<rparr>"

definition handleWrite :: "net_env \<Rightarrow> Connector \<Rightarrow> Connector res" where
  "handleWrite net c =
     (if state c = kConnecting
      then bindE (removeAndResetChannel c) (\<lambda>(sockfd, c1).
           if so_error net sockfd \<noteq> 0 then Inr (retry sockfd c1)
           else if self_connect net sockfd then Inr (retry sockfd c1)
           else let c2 = c1\<lparr>state := kConnected\<rparr>
                in Inr (if connect_flag c2 then c2\<lparr>handed := handed c2 @ [sockfd]\<rparr> else close_socket sockfd c2))
      else bindE (assertE (state c = kDisconnected)) (\<lambda>_. Inr c))"

definition handleError :: "Connector \<Rightarrow> Connector res" where
  "handleError c =
     (if state c = kConnecting then bindE (removeAndResetChannel c) (\<lambda>(sockfd, c1). Inr (retry sockfd c1)) else Inr c)"

text \<open>The callbacks that are set on the channel, what the functors do, and a timer.\<close>

fun connector_callbacks :: "net_env \<Rightarrow> event_callback \<Rightarrow> (Connector \<Rightarrow> Connector res) option" where
  "connector_callbacks net WriteCallback = Some (handleWrite net)"
| "connector_callbacks net ErrorCallback = Some handleError"
| "connector_callbacks net _ = None"

definition channel_event :: "net_env \<Rightarrow> 32 word \<Rightarrow> Connector \<Rightarrow> Connector res" where
  "channel_event net ev c = run_callbacks (connector_callbacks net) (event_callbacks ev) c"

fun run_functor :: "net_env \<Rightarrow> connector_functor \<Rightarrow> Connector \<Rightarrow> Connector res" where
  "run_functor net StartInLoop c = startInLoop net c"
| "run_functor net StopInLoop c = stopInLoop c"
| "run_functor net ResetChannel c = Inr (resetChannel c)"

definition next_functor :: "net_env \<Rightarrow> Connector \<Rightarrow> Connector res" where
  "next_functor net c = (case pending c of [] \<Rightarrow> Inr c | f # fs \<Rightarrow> run_functor net f (c\<lparr>pending := fs\<rparr>))"

definition timer_expires :: "net_env \<Rightarrow> nat \<Rightarrow> Connector \<Rightarrow> Connector res" where
  "timer_expires net i c = startInLoop net (c\<lparr>timers := take i (timers c) @ drop (Suc i) (timers c)\<rparr>)"

section \<open>The client\<close>

record client_connection =
  conn_name :: string
  conn_fd :: nat

record TcpClient =
  connector :: Connector
  client_name :: string
  retry_flag :: bool
  client_connect :: bool
  nextConnId :: int
  connection :: "client_connection option"
  shutdowns :: "client_connection list"
  destroyed :: "client_connection list"
  made :: "client_connection list"

definition new_TcpClient :: "string \<Rightarrow> TcpClient" where
  "new_TcpClient nameArg = \<lparr>connector = new_Connector, client_name = nameArg, retry_flag = False, client_connect = True, nextConnId = 1,
     connection = None, shutdowns = [], destroyed = [], made = []\<rparr>"

definition enableRetry :: "TcpClient \<Rightarrow> TcpClient" where
  "enableRetry t = t\<lparr>retry_flag := True\<rparr>"

definition newConnection :: "(nat \<Rightarrow> string) \<Rightarrow> nat \<Rightarrow> TcpClient \<Rightarrow> TcpClient" where
  "newConnection peer sockfd t =
     (let connName = client_name t @ take 31 ('':'' @ peer sockfd @ ''#'' @ show_int (nextConnId t));
          conn = \<lparr>conn_name = connName, conn_fd = sockfd\<rparr>
      in t\<lparr>nextConnId := wrap32 (nextConnId t + 1), connection := Some conn, made := made t @ [conn]\<rparr>)"

text \<open>An operation of the connector; the new-connection callback is the last thing it may do.\<close>

definition with_connector :: "(nat \<Rightarrow> string) \<Rightarrow> (Connector \<Rightarrow> Connector res) \<Rightarrow> TcpClient \<Rightarrow> TcpClient res" where
  "with_connector peer f t =
     bindE (f (connector t)) (\<lambda>c.
     let t1 = t\<lparr>connector := c\<rparr>
     in Inr (if length (handed c) > length (handed (connector t)) then newConnection peer (last (handed c)) t1 else t1))"

definition client_connect_call :: "(nat \<Rightarrow> string) \<Rightarrow> net_env \<Rightarrow> bool \<Rightarrow> TcpClient \<Rightarrow> TcpClient res" where
  "client_connect_call peer net inLoopThread t = with_connector peer (start net inLoopThread) (t\<lparr>client_connect := True\<rparr>)"

definition disconnect :: "TcpClient \<Rightarrow> TcpClient" where
  "disconnect t = (let t1 = t\<lparr>client_connect := False\<rparr>
     in case connection t1 of None \<Rightarrow> t1 | Some conn \<Rightarrow> t1\<lparr>shutdowns := shutdowns t1 @ [conn]\<rparr>)"

definition client_stop :: "TcpClient \<Rightarrow> TcpClient" where
  "client_stop t = t\<lparr>client_connect := False, connector := stop (connector t)\<rparr>"

definition removeConnection :: "(nat \<Rightarrow> string) \<Rightarrow> net_env \<Rightarrow> client_connection \<Rightarrow> TcpClient \<Rightarrow> TcpClient res" where
  "removeConnection peer net conn t =
     bindE (assertE (connection t = Some conn)) (\<lambda>_.
     let t1 = t\<lparr>connection := None, destroyed := destroyed t @ [conn]\<rparr>
     in if retry_flag t1 \<and> client_connect t1 then with_connector peer (restart net) t1 else Inr t1)"

text \<open>
  The destructor: the connection whose close callback it replaces by one that only destroys the connection, and whether it also closes it, which it does when nobody else holds it.
\<close>

definition destroy_TcpClient :: "bool \<Rightarrow> TcpClient \<Rightarrow> (client_connection \<times> bool) option \<times> TcpClient" where
  "destroy_TcpClient unique t =
     (case connection t of
        Some conn \<Rightarrow> (Some (conn, unique), t)
      | None \<Rightarrow> (None, t\<lparr>connector := stop (connector t)\<rparr>))"

section \<open>What happens to a client\<close>

datatype client_event =
    CallConnect bool
  | CallStop
  | CallDisconnect
  | ChannelEvent "32 word"
  | RunFunctor
  | TimerExpires nat
  | ConnectionClosed

fun client_step :: "(nat \<Rightarrow> string) \<Rightarrow> net_env \<Rightarrow> client_event \<Rightarrow> TcpClient \<Rightarrow> TcpClient res" where
  "client_step peer net (CallConnect inLoopThread) t = client_connect_call peer net inLoopThread t"
| "client_step peer net CallStop t = Inr (client_stop t)"
| "client_step peer net CallDisconnect t = Inr (disconnect t)"
| "client_step peer net (ChannelEvent ev) t = with_connector peer (channel_event net ev) t"
| "client_step peer net RunFunctor t = with_connector peer (next_functor net) t"
| "client_step peer net (TimerExpires i) t = with_connector peer (timer_expires net i) t"
| "client_step peer net ConnectionClosed t = (case connection t of None \<Rightarrow> Inr t | Some conn \<Rightarrow> removeConnection peer net conn t)"

text \<open>
  When these can happen. A client calls \<open>connect\<close> when its connector has nothing under way; the poller reports a channel that is registered; a timer expires and a connection is closed in an iteration after the one
  that removed the channel, when the functor that resets it has been run.
\<close>

definition idle :: "Connector \<Rightarrow> bool" where
  "idle c \<longleftrightarrow> state c = kDisconnected \<and> timers c = [] \<and> StartInLoop \<notin> set (pending c) \<and> channel c = None"

fun legal :: "client_event \<Rightarrow> TcpClient \<Rightarrow> bool" where
  "legal (CallConnect inLoopThread) t \<longleftrightarrow> idle (connector t)"
| "legal CallStop t \<longleftrightarrow> True"
| "legal CallDisconnect t \<longleftrightarrow> True"
| "legal (ChannelEvent ev) t \<longleftrightarrow> (case channel (connector t) of None \<Rightarrow> False | Some ch \<Rightarrow> addedToLoop ch)"
| "legal RunFunctor t \<longleftrightarrow> pending (connector t) \<noteq> []"
| "legal (TimerExpires i) t \<longleftrightarrow> i < length (timers (connector t)) \<and> ResetChannel \<notin> set (pending (connector t))"
| "legal ConnectionClosed t \<longleftrightarrow> connection t \<noteq> None \<and> ResetChannel \<notin> set (pending (connector t))"

fun client_run :: "(nat \<Rightarrow> string) \<Rightarrow> net_env \<Rightarrow> client_event list \<Rightarrow> TcpClient \<Rightarrow> TcpClient res" where
  "client_run peer net [] t = Inr t"
| "client_run peer net (e # es) t = bindE (client_step peer net e t) (client_run peer net es)"

fun legal_run :: "(nat \<Rightarrow> string) \<Rightarrow> net_env \<Rightarrow> client_event list \<Rightarrow> TcpClient \<Rightarrow> bool" where
  "legal_run peer net [] t \<longleftrightarrow> True"
| "legal_run peer net (e # es) t \<longleftrightarrow> legal e t \<and> (case client_step peer net e t of Inr t' \<Rightarrow> legal_run peer net es t' | Inl f \<Rightarrow> True)"

section \<open>The invariant\<close>

text \<open>How many ways there are to a connection at the moment: timers, queued calls of \<open>startInLoop\<close>, and the attempt or connection itself.\<close>

definition attempts :: "Connector \<Rightarrow> nat" where
  "attempts c = length (timers c) + count_list (pending c) StartInLoop + (if state c = kDisconnected then 0 else 1)"

definition channel_ok :: "Connector \<Rightarrow> bool" where
  "channel_ok c \<longleftrightarrow>
     (case channel c of
        None \<Rightarrow> state c \<noteq> kConnecting \<and> ResetChannel \<notin> set (pending c)
      | Some ch \<Rightarrow> addedToLoop ch = (state c = kConnecting) \<and> StartInLoop \<notin> set (pending c)
          \<and> count_list (pending c) ResetChannel = (if state c = kConnecting then 0 else 1))"

text \<open>Every socket that was made is closed, was handed over or is being connected, and exactly one of these.\<close>

definition sockets_ok :: "Connector \<Rightarrow> bool" where
  "sockets_ok c \<longleftrightarrow> mset [0..<sockets c] = mset (closed c) + mset (handed c)
     + (if state c = kConnecting then (case channel c of None \<Rightarrow> {#} | Some ch \<Rightarrow> {#nat (fd ch)#}) else {#})"

definition delays_ok :: "Connector \<Rightarrow> bool" where
  "delays_ok c \<longleftrightarrow> retryDelayMs c = min (500 * 2 ^ retries c) 30000 \<and> (\<forall>d \<in> set (timers c). 500 \<le> d \<and> d \<le> 30000)"

definition connector_inv :: "Connector \<Rightarrow> bool" where
  "connector_inv c \<longleftrightarrow> attempts c \<le> 1 \<and> channel_ok c \<and> sockets_ok c \<and> delays_ok c"

declare mset_upt [simp del]

lemma delay_doubles: "min (min (500 * 2 ^ n) 30000 * 2) 30000 = min (500 * 2 ^ Suc n) (30000 :: int)"
  by (simp add: min_def)

lemma retry_delays: "delays_ok c \<Longrightarrow> delays_ok (retry sockfd c)"
proof -
  assume d: "delays_ok c"
  have "(500 :: int) \<le> 500 * 2 ^ retries c" by simp
  then have "500 \<le> retryDelayMs c" "retryDelayMs c \<le> 30000" using d unfolding delays_ok_def by linarith+
  moreover have "min (retryDelayMs c * 2) 30000 = min (500 * 2 ^ Suc (retries c)) 30000"
    using d delay_doubles [of "retries c"] unfolding delays_ok_def by metis
  ultimately show ?thesis using d
    by (auto simp: delays_ok_def retry_def close_socket_def kMaxRetryDelayMs_def Let_def)
qed

text \<open>An attempt begins when nothing else is under way.\<close>

lemma startInLoop_inv:
  assumes "attempts c = 0" "channel c = None" "channel_ok c" "sockets_ok c" "delays_ok c"
  shows "\<exists>c'. startInLoop net c = Inr c' \<and> connector_inv c' \<and> handed c' = handed c \<and> state c' \<noteq> kConnected"
proof -
  have d: "state c = kDisconnected" "timers c = []" using assms(1) by (auto simp: attempts_def split: if_splits)
  have retried: "connector_inv (retry (sockets c) (c\<lparr>sockets := sockets c + 1\<rparr>))"
  proof -
    have "delays_ok (c\<lparr>sockets := sockets c + 1\<rparr>)" using assms(5) by (simp add: delays_ok_def)
    from retry_delays [OF this] have "delays_ok (retry (sockets c) (c\<lparr>sockets := sockets c + 1\<rparr>))" .
    moreover have "sockets_ok (retry (sockets c) (c\<lparr>sockets := sockets c + 1\<rparr>))"
      using assms(4) d by (simp add: sockets_ok_def retry_def close_socket_def Let_def)
    moreover have "channel_ok (retry (sockets c) (c\<lparr>sockets := sockets c + 1\<rparr>))"
      using assms(2,3) d by (simp add: channel_ok_def retry_def close_socket_def Let_def)
    ultimately show ?thesis using assms(1) d by (simp add: connector_inv_def attempts_def retry_def close_socket_def Let_def)
  qed
  have given_up: "connector_inv (close_socket (sockets c) (c\<lparr>sockets := sockets c + 1\<rparr>))"
    using assms d by (simp add: connector_inv_def attempts_def channel_ok_def sockets_ok_def close_socket_def delays_ok_def)
  have trying: "\<exists>c'. connecting (sockets c) (c\<lparr>sockets := sockets c + 1\<rparr>) = Inr c' \<and> connector_inv c' \<and> handed c' = handed c \<and> state c' = kConnecting"
    using assms d
    by (auto simp: connecting_def connector_inv_def attempts_def channel_ok_def sockets_ok_def delays_ok_def enableWriting_def update_Channel_def new_Channel_def
        count_list_0_iff)
  show ?thesis
  proof (cases "connect_flag c")
    case True
    have "handed (retry (sockets c) (c\<lparr>sockets := sockets c + 1\<rparr>)) = handed c" "state (retry (sockets c) (c\<lparr>sockets := sockets c + 1\<rparr>)) = kDisconnected"
      "handed (close_socket (sockets c) (c\<lparr>sockets := sockets c + 1\<rparr>)) = handed c" "state (close_socket (sockets c) (c\<lparr>sockets := sockets c + 1\<rparr>)) = kDisconnected"
      by (simp_all add: retry_def close_socket_def Let_def d)
    then show ?thesis using True d retried given_up trying by (auto simp: startInLoop_def connect_def Let_def)
  next
    case False
    then show ?thesis using assms d by (simp add: startInLoop_def connector_inv_def)
  qed
qed

text \<open>The channel of an attempt is removed; its socket is then closed or handed over.\<close>

definition removed :: "Channel \<Rightarrow> Connector \<Rightarrow> Connector" where
  "removed ch c = queueInLoop ResetChannel (c\<lparr>channel := Some (ch\<lparr>events := kNoneEvent, addedToLoop := False\<rparr>)\<rparr>)"

lemma remove_eq: "channel c = Some ch \<Longrightarrow> removeAndResetChannel c = Inr (nat (fd ch), removed ch c)"
  by (simp add: removeAndResetChannel_def disableAll_def update_Channel_def remove_Channel_def isNoneEvent_def removed_def)

lemma connecting_facts:
  assumes "connector_inv c" "state c = kConnecting"
  obtains ch where "channel c = Some ch" "mset [0..<sockets c] = mset (closed c) + mset (handed c) + {#nat (fd ch)#}" "timers c = []"
    "StartInLoop \<notin> set (pending c)" "ResetChannel \<notin> set (pending c)"
proof -
  obtain ch where ch: "channel c = Some ch" "ResetChannel \<notin> set (pending c)"
    using assms by (auto simp: connector_inv_def channel_ok_def count_list_0_iff split: option.splits)
  have "attempts c \<le> 1" using assms(1) by (simp add: connector_inv_def)
  then have "timers c = []" "StartInLoop \<notin> set (pending c)" using assms(2) by (auto simp: attempts_def count_list_0_iff [symmetric])
  then show thesis using that [OF ch(1)] assms ch by (simp add: connector_inv_def sockets_ok_def)
qed

lemma retry_inv:
  assumes inv: "connector_inv c" and ch: "channel c = Some ch" "mset [0..<sockets c] = mset (closed c) + mset (handed c) + {#nat (fd ch)#}"
    "timers c = []" "StartInLoop \<notin> set (pending c)" "ResetChannel \<notin> set (pending c)"
  shows "connector_inv (retry (nat (fd ch)) (removed ch c))"
proof -
  let ?c = "removed ch c"
  have "delays_ok ?c" using inv by (simp add: connector_inv_def delays_ok_def removed_def queueInLoop_def)
  then have "delays_ok (retry (nat (fd ch)) ?c)" by (rule retry_delays)
  moreover have "sockets_ok (retry (nat (fd ch)) ?c)"
    using ch(2) by (simp add: sockets_ok_def retry_def close_socket_def removed_def queueInLoop_def Let_def)
  moreover have "channel_ok (retry (nat (fd ch)) ?c)"
    using ch(4,5) by (simp add: channel_ok_def retry_def close_socket_def removed_def queueInLoop_def Let_def count_list_0_iff)
  moreover have "attempts (retry (nat (fd ch)) ?c) \<le> 1"
    using ch(3,4) by (simp add: attempts_def retry_def close_socket_def removed_def queueInLoop_def Let_def count_list_0_iff)
  ultimately show ?thesis by (simp add: connector_inv_def)
qed

lemma retry_simps: "handed (retry n c) = handed c" "state (retry n c) = kDisconnected"
  by (simp_all add: retry_def close_socket_def Let_def)

lemma removed_simps: "handed (removed ch c) = handed c" "state (removed ch c) = state c" "connect_flag (removed ch c) = connect_flag c"
  by (simp_all add: removed_def queueInLoop_def)

lemma handleWrite_inv:
  assumes inv: "connector_inv c" and st: "state c = kConnecting \<or> state c = kDisconnected"
  shows "\<exists>c'. handleWrite net c = Inr c' \<and> connector_inv c' \<and> state c' \<noteq> kConnecting
    \<and> (handed c' = handed c \<or> state c' = kConnected \<and> (\<exists>n. handed c' = handed c @ [n]))"
proof (cases "state c = kConnecting")
  case True
  obtain ch where ch: "channel c = Some ch"
    and m: "mset [0..<sockets c] = mset (closed c) + mset (handed c) + {#nat (fd ch)#}" "timers c = []" "StartInLoop \<notin> set (pending c)" "ResetChannel \<notin> set (pending c)"
    by (rule connecting_facts [OF inv True])
  note rm = remove_eq [OF ch]
  have retried: "connector_inv (retry (nat (fd ch)) (removed ch c))" by (rule retry_inv [OF inv ch m])
  have conn: "connector_inv ((removed ch c)\<lparr>state := kConnected, handed := handed c @ [nat (fd ch)]\<rparr>)"
      "connector_inv (close_socket (nat (fd ch)) ((removed ch c)\<lparr>state := kConnected\<rparr>))"
    using inv m by (simp_all add: connector_inv_def attempts_def channel_ok_def sockets_ok_def delays_ok_def removed_def queueInLoop_def close_socket_def count_list_0_iff)
  show ?thesis
    using True rm retried conn by (auto simp: handleWrite_def retry_simps removed_simps Let_def close_socket_def)
next
  case False
  then show ?thesis using inv st by (simp add: handleWrite_def)
qed

lemma handleError_inv:
  assumes inv: "connector_inv c"
  shows "\<exists>c'. handleError c = Inr c' \<and> connector_inv c' \<and> handed c' = handed c \<and> (state c = kConnecting \<or> state c = kDisconnected \<longrightarrow> state c' = kDisconnected)"
proof (cases "state c = kConnecting")
  case True
  obtain ch where ch: "channel c = Some ch"
    and m: "mset [0..<sockets c] = mset (closed c) + mset (handed c) + {#nat (fd ch)#}" "timers c = []" "StartInLoop \<notin> set (pending c)" "ResetChannel \<notin> set (pending c)"
    by (rule connecting_facts [OF inv True])
  note rm = remove_eq [OF ch]
  then show ?thesis using True rm retry_inv [OF inv ch m] by (simp add: handleError_def retry_simps removed_simps)
qed (use inv in \<open>simp add: handleError_def\<close>)

lemma stopInLoop_inv:
  assumes inv: "connector_inv c"
  shows "\<exists>c'. stopInLoop c = Inr c' \<and> connector_inv c' \<and> handed c' = handed c \<and> (state c' = state c \<or> state c' = kDisconnected \<and> state c = kConnecting)"
proof (cases "state c = kConnecting")
  case True
  obtain ch where ch: "channel c = Some ch"
    and m: "mset [0..<sockets c] = mset (closed c) + mset (handed c) + {#nat (fd ch)#}" "timers c = []" "StartInLoop \<notin> set (pending c)" "ResetChannel \<notin> set (pending c)"
    by (rule connecting_facts [OF inv True])
  have "retry (nat (fd ch)) (removed ch (c\<lparr>state := kDisconnected\<rparr>)) = retry (nat (fd ch)) (removed ch c)"
    by (simp add: retry_def close_socket_def removed_def queueInLoop_def Let_def)
  then show ?thesis using True remove_eq [of "c\<lparr>state := kDisconnected\<rparr>" ch] ch retry_inv [OF inv ch m]
    by (simp add: stopInLoop_def retry_simps removed_simps)
qed (use inv in \<open>simp add: stopInLoop_def\<close>)

lemma channel_event_eq:
  "channel_event net ev c =
     bindE (if ev AND (POLLERR OR POLLNVAL) \<noteq> 0 then handleError c else Inr c) (\<lambda>c1. if ev AND POLLOUT \<noteq> 0 then handleWrite net c1 else Inr c1)"
  by (simp add: channel_event_def event_callbacks_def bindE_def split: sum.split)

text \<open>What an operation may do: nothing to the connections, or make one.\<close>

definition makes :: "Connector \<Rightarrow> Connector \<Rightarrow> bool" where
  "makes c c' \<longleftrightarrow> connector_inv c'
     \<and> (handed c' = handed c \<and> (state c = kConnected \<longrightarrow> state c' = kConnected)
        \<or> state c \<noteq> kConnected \<and> state c' = kConnected \<and> (\<exists>n. handed c' = handed c @ [n]))"

lemma start_makes:
  assumes "connector_inv c" "idle c"
  shows "\<exists>c'. start net b c = Inr c' \<and> makes c c'"
proof (cases b)
  case True
  let ?c = "c\<lparr>connect_flag := True\<rparr>"
  have "attempts ?c = 0" "channel ?c = None" "channel_ok ?c" "sockets_ok ?c" "delays_ok ?c"
    using assms by (auto simp: idle_def connector_inv_def attempts_def channel_ok_def sockets_ok_def delays_ok_def count_list_0_iff)
  from startInLoop_inv [OF this] True assms(2) show ?thesis by (auto simp: start_def makes_def idle_def)
next
  case False
  then show ?thesis
    using assms by (auto simp: start_def queueInLoop_def makes_def idle_def connector_inv_def attempts_def channel_ok_def sockets_ok_def delays_ok_def count_list_0_iff)
qed

lemma stop_makes: "connector_inv c \<Longrightarrow> makes c (stop c)"
  by (auto simp: stop_def queueInLoop_def makes_def connector_inv_def attempts_def channel_ok_def sockets_ok_def delays_ok_def split: option.splits)

lemma event_makes:
  assumes inv: "connector_inv c" and ch: "channel c = Some ch" "addedToLoop ch"
  shows "\<exists>c'. channel_event net ev c = Inr c' \<and> makes c c'"
proof -
  have st: "state c = kConnecting" using inv ch by (simp add: connector_inv_def channel_ok_def)
  obtain c1 where c1: "(if ev AND (POLLERR OR POLLNVAL) \<noteq> 0 then handleError c else Inr c) = Inr c1" "connector_inv c1" "handed c1 = handed c"
      "state c1 = kConnecting \<or> state c1 = kDisconnected"
    using handleError_inv [OF inv] st inv by (cases "ev AND (POLLERR OR POLLNVAL) \<noteq> 0") auto
  moreover obtain c2 where "(if ev AND POLLOUT \<noteq> 0 then handleWrite net c1 else Inr c1) = Inr c2" "connector_inv c2"
      "handed c2 = handed c1 \<or> state c2 = kConnected \<and> (\<exists>n. handed c2 = handed c1 @ [n])"
    using handleWrite_inv [OF c1(2,4), of net] c1(2) by (cases "ev AND POLLOUT \<noteq> 0") auto
  ultimately show ?thesis using st by (auto simp: channel_event_eq makes_def)
qed

lemma functor_makes:
  assumes inv: "connector_inv c" and p: "pending c = f # fs"
  shows "\<exists>c'. next_functor net c = Inr c' \<and> makes c c'"
proof -
  let ?c = "c\<lparr>pending := fs\<rparr>"
  show ?thesis
  proof (cases f)
    case StartInLoop
    then have none: "channel c = None" "state c = kDisconnected" "timers c = []"
      using inv p by (auto simp: connector_inv_def attempts_def channel_ok_def split: option.splits if_splits)
    then have "attempts ?c = 0" "channel ?c = None" "channel_ok ?c" "sockets_ok ?c" "delays_ok ?c"
      using inv p StartInLoop by (auto simp: connector_inv_def attempts_def channel_ok_def sockets_ok_def delays_ok_def)
    from startInLoop_inv [OF this] p StartInLoop none show ?thesis by (auto simp: next_functor_def makes_def)
  next
    case StopInLoop
    then have "connector_inv ?c"
      using inv p by (auto simp: connector_inv_def attempts_def channel_ok_def sockets_ok_def delays_ok_def split: option.splits)
    from stopInLoop_inv [OF this] p StopInLoop show ?thesis by (auto simp: next_functor_def makes_def)
  next
    case ResetChannel
    then have "connector_inv (resetChannel ?c)"
      using inv p by (auto simp: connector_inv_def attempts_def channel_ok_def sockets_ok_def delays_ok_def resetChannel_def count_list_0_iff split: option.splits if_splits)
    then show ?thesis using p ResetChannel by (simp add: next_functor_def makes_def resetChannel_def)
  qed
qed

lemma timer_makes:
  assumes inv: "connector_inv c" and i: "i < length (timers c)" "ResetChannel \<notin> set (pending c)"
  shows "\<exists>c'. timer_expires net i c = Inr c' \<and> makes c c'"
proof -
  let ?c = "c\<lparr>timers := take i (timers c) @ drop (Suc i) (timers c)\<rparr>"
  have one: "length (timers c) = 1" "i = 0" "state c = kDisconnected" "count_list (pending c) StartInLoop = 0"
    using inv i(1) by (auto simp: connector_inv_def attempts_def split: if_splits)
  moreover have "channel c = None" using inv i(2) one(3) by (auto simp: connector_inv_def channel_ok_def count_list_0_iff split: option.splits)
  ultimately have "attempts ?c = 0" "channel ?c = None" "channel_ok ?c" "sockets_ok ?c" "delays_ok ?c"
    using inv by (auto simp: connector_inv_def attempts_def channel_ok_def sockets_ok_def delays_ok_def)
  from startInLoop_inv [OF this, of net] one(3) show ?thesis by (auto simp: timer_expires_def makes_def)
qed

lemma restart_inv:
  assumes inv: "connector_inv c" and c: "state c = kConnected" "ResetChannel \<notin> set (pending c)"
  shows "\<exists>c'. restart net c = Inr c' \<and> connector_inv c' \<and> handed c' = handed c"
proof -
  let ?c = "c\<lparr>state := kDisconnected, retryDelayMs := kInitRetryDelayMs, retries := 0, connect_flag := True\<rparr>"
  have "channel c = None" using inv c by (auto simp: connector_inv_def channel_ok_def count_list_0_iff split: option.splits)
  then have "attempts ?c = 0" "channel ?c = None" "channel_ok ?c" "sockets_ok ?c" "delays_ok ?c"
    using inv c by (auto simp: connector_inv_def attempts_def channel_ok_def sockets_ok_def delays_ok_def kInitRetryDelayMs_def)
  from startInLoop_inv [OF this, of net] show ?thesis by (auto simp: restart_def)
qed

section \<open>The client keeps one connection\<close>

definition client_inv :: "TcpClient \<Rightarrow> bool" where
  "client_inv t \<longleftrightarrow> connector_inv (connector t) \<and> (connection t \<noteq> None \<longrightarrow> state (connector t) = kConnected)
     \<and> made t = destroyed t @ (case connection t of None \<Rightarrow> [] | Some conn \<Rightarrow> [conn]) \<and> map conn_fd (made t) = handed (connector t)"

lemma with_connector_inv:
  assumes inv: "client_inv t" and op: "\<exists>c'. f (connector t) = Inr c' \<and> makes (connector t) c'"
  shows "\<exists>t'. with_connector peer f t = Inr t' \<and> client_inv t'"
proof -
  obtain c' where c': "f (connector t) = Inr c'" "makes (connector t) c'" using op by blast
  consider "handed c' = handed (connector t)" "state (connector t) = kConnected \<longrightarrow> state c' = kConnected"
    | n where "state (connector t) \<noteq> kConnected" "state c' = kConnected" "handed c' = handed (connector t) @ [n]" using c'(2) by (auto simp: makes_def)
  then show ?thesis
  proof cases
    case 1
    then show ?thesis using inv c' by (auto simp: with_connector_def client_inv_def makes_def)
  next
    case 2
    then have "connection t = None" using inv by (auto simp: client_inv_def)
    then show ?thesis using inv c' 2 by (auto simp: with_connector_def client_inv_def makes_def newConnection_def Let_def)
  qed
qed

lemma client_step_inv:
  assumes inv: "client_inv t" and legal: "legal e t"
  shows "\<exists>t'. client_step peer net e t = Inr t' \<and> client_inv t'"
proof -
  have c: "connector_inv (connector t)" using inv by (simp add: client_inv_def)
  show ?thesis
  proof (cases e)
    case (CallConnect b)
    have "client_inv (t\<lparr>client_connect := True\<rparr>)" using inv by (auto simp: client_inv_def split: option.splits)
    from with_connector_inv [OF this, of "start net b" peer] start_makes [OF c, of net b] legal CallConnect show ?thesis
      by (simp add: client_connect_call_def)
  next
    case CallStop
    have "makes (connector t) (stop (connector t))" by (rule stop_makes [OF c])
    moreover have "handed (stop (connector t)) = handed (connector t)" by (simp add: stop_def queueInLoop_def)
    ultimately show ?thesis using inv CallStop by (auto simp: client_stop_def client_inv_def makes_def)
  next
    case CallDisconnect
    then show ?thesis using inv by (auto simp: disconnect_def client_inv_def Let_def split: option.splits)
  next
    case (ChannelEvent ev)
    then show ?thesis using with_connector_inv [OF inv] event_makes [OF c] legal by (simp split: option.splits)
  next
    case RunFunctor
    then obtain f fs where "pending (connector t) = f # fs" using legal by (auto simp: neq_Nil_conv)
    then show ?thesis using RunFunctor with_connector_inv [OF inv] functor_makes [OF c] by simp
  next
    case (TimerExpires i)
    then show ?thesis using with_connector_inv [OF inv] timer_makes [OF c] legal by simp
  next
    case ConnectionClosed
    then obtain conn where conn: "connection t = Some conn" using legal by auto
    let ?t = "t\<lparr>connection := None, destroyed := destroyed t @ [conn]\<rparr>"
    have "state (connector t) = kConnected" "client_inv ?t" using inv conn by (auto simp: client_inv_def)
    moreover have "ResetChannel \<notin> set (pending (connector t))" using legal ConnectionClosed by simp
    ultimately obtain c' where "restart net (connector t) = Inr c'" "connector_inv c'" "handed c' = handed (connector t)"
      using restart_inv [OF c, of net] by blast
    then show ?thesis using ConnectionClosed conn inv \<open>client_inv ?t\<close>
      by (auto simp: removeConnection_def Let_def with_connector_def client_inv_def)
  qed
qed

lemma client_run_inv: "client_inv t \<Longrightarrow> legal_run peer net es t \<Longrightarrow> \<exists>t'. client_run peer net es t = Inr t' \<and> client_inv t'"
proof (induction es arbitrary: t)
  case (Cons e es)
  then obtain t' where "client_step peer net e t = Inr t'" "client_inv t'" using client_step_inv [of t e peer net] by auto
  with Cons show ?case by simp
qed simp

lemma new_client_inv [simp]: "client_inv (new_TcpClient name)"
  by (simp add: client_inv_def new_TcpClient_def new_Connector_def connector_inv_def attempts_def channel_ok_def sockets_ok_def delays_ok_def kInitRetryDelayMs_def)

text \<open>
  C24. A client that connects only when nothing is under way: whatever the kernel answers and in whatever order channel events, timers, functors, closed connections and calls of \<open>stop\<close> and \<open>disconnect\<close> come,
  no assertion fails and no pointer is null; at most one attempt is under way; every socket is closed, handed over or being connected, exactly one of these; the connections are made from the handed
  sockets, and all but the current one were destroyed; the delay between attempts doubles from half a second up to thirty seconds.
\<close>

theorem client_keeps_one_connection:
  assumes "legal_run peer net es (new_TcpClient name)"
  shows "\<exists>t. client_run peer net es (new_TcpClient name) = Inr t
    \<and> attempts (connector t) \<le> 1
    \<and> mset [0..<sockets (connector t)] = mset (closed (connector t)) + mset (handed (connector t))
        + (if state (connector t) = kConnecting then (case channel (connector t) of None \<Rightarrow> {#} | Some ch \<Rightarrow> {#nat (fd ch)#}) else {#})
    \<and> map conn_fd (made t) = handed (connector t)
    \<and> made t = destroyed t @ (case connection t of None \<Rightarrow> [] | Some conn \<Rightarrow> [conn])
    \<and> retryDelayMs (connector t) = min (500 * 2 ^ retries (connector t)) 30000"
  using client_run_inv [OF new_client_inv assms] by (auto simp: client_inv_def connector_inv_def sockets_ok_def delays_ok_def)

definition demo_net :: net_env where
  "demo_net = \<lparr>connect_errno = (\<lambda>n. if n = 0 then ECONNREFUSED else EINPROGRESS), so_error = (\<lambda>n. 0), self_connect = (\<lambda>n. False)\<rparr>"

theorem client_keeps_one_connection_witness:
  "\<exists>t. client_run (\<lambda>n. ''peer'') demo_net [CallConnect True, TimerExpires 0, ChannelEvent 4, RunFunctor, ConnectionClosed] (new_TcpClient ''c'') = Inr t
     \<and> closed (connector t) = [0] \<and> map conn_fd (made t) = [1] \<and> made t = destroyed t @ (case connection t of None \<Rightarrow> [] | Some conn \<Rightarrow> [conn])"
proof -
  let ?es = "[CallConnect True, TimerExpires 0, ChannelEvent 4, RunFunctor, ConnectionClosed]"
  have "legal_run (\<lambda>n. ''peer'') demo_net ?es (new_TcpClient ''c'')" by code_simp
  then obtain t where t: "client_run (\<lambda>n. ''peer'') demo_net ?es (new_TcpClient ''c'') = Inr t" "map conn_fd (made t) = handed (connector t)"
      "made t = destroyed t @ (case connection t of None \<Rightarrow> [] | Some conn \<Rightarrow> [conn])"
    using client_keeps_one_connection [of "\<lambda>n. ''peer''" demo_net ?es "''c''"] by blast
  have "map_sum id (\<lambda>t. (closed (connector t), handed (connector t))) (client_run (\<lambda>n. ''peer'') demo_net ?es (new_TcpClient ''c'')) = Inr ([0], [1])"
    by code_simp
  with t show ?thesis by (simp only: t(1) map_sum.simps) simp
qed

text \<open>
  Connecting again: a client whose connection was closed and that does not retry calls \<open>connect\<close> once more, and the assertion in \<open>startInLoop\<close> fails, because the connector is still in the
  state \<open>kConnected\<close>. And when a refused attempt is stopped and started again, the timer of the first attempt, which \<open>stop\<close> does not cancel, calls \<open>startInLoop\<close> during the second attempt: the same assertion fails.
\<close>

theorem connecting_again_fails:
  "client_run peer \<lparr>connect_errno = (\<lambda>n. 0), so_error = (\<lambda>n. 0), self_connect = (\<lambda>n. False)\<rparr>
     [CallConnect True, ChannelEvent POLLOUT, RunFunctor, ConnectionClosed, CallConnect True] (new_TcpClient name) = Inl AssertionFailure
   \<and> client_run peer demo_net [CallConnect True, CallStop, RunFunctor, CallConnect True, TimerExpires 0] (new_TcpClient name) = Inl AssertionFailure"
proof
  let ?net = "\<lparr>connect_errno = (\<lambda>n. 0), so_error = (\<lambda>n. 0), self_connect = (\<lambda>n. False)\<rparr>"
  have ev: "POLLOUT AND (POLLERR OR POLLNVAL) = 0" "POLLOUT AND POLLOUT \<noteq> 0" by (simp_all add: poll_bits)
  show "client_run peer ?net [CallConnect True, ChannelEvent POLLOUT, RunFunctor, ConnectionClosed, CallConnect True] (new_TcpClient name) = Inl AssertionFailure"
    by (simp add: new_TcpClient_def new_Connector_def client_connect_call_def with_connector_def start_def startInLoop_def connect_def connecting_def
        channel_event_eq ev handleWrite_def removeAndResetChannel_def enableWriting_def disableAll_def update_Channel_def remove_Channel_def isNoneEvent_def new_Channel_def
        queueInLoop_def next_functor_def resetChannel_def newConnection_def removeConnection_def Let_def)
  show "client_run peer demo_net [CallConnect True, CallStop, RunFunctor, CallConnect True, TimerExpires 0] (new_TcpClient name) = Inl AssertionFailure"
    by (simp add: demo_net_def ECONNREFUSED_def EINPROGRESS_def EINTR_def EISCONN_def new_TcpClient_def new_Connector_def client_connect_call_def with_connector_def
        start_def startInLoop_def connect_def connecting_def retry_def close_socket_def client_stop_def stop_def stopInLoop_def timer_expires_def
        queueInLoop_def next_functor_def Let_def)
qed

end
