(* ===== verification/Monitors.thy ===== *)
theory Monitors
  imports Prelude "HOL-Library.Multiset"
begin

text \<open>
  The monitors of \<open>base/\<close>: \<open>Condition\<close>, \<open>BlockingQueue\<close>, \<open>BoundedBlockingQueue\<close> and \<open>CountDownLatch\<close>. A thread that holds the mutex of
  a monitor runs until it returns or waits, so that one step of the model is one critical section; a thread that waits goes through the loop around
  \<open>wait\<close> again when it is woken. \<open>notify\<close> wakes one of the waiting threads, which one is a parameter, and a thread may wake
  spuriously at any time.
\<close>

section \<open>Condition variables\<close>

text \<open>The threads that wait, and those that were woken and do not hold the mutex yet.\<close>

record Condition =
  waiting :: "nat list"
  woken :: "nat list"

definition new_Condition :: Condition where
  "new_Condition = \<lparr>waiting = [], woken = []\<rparr>"

definition cond_wait :: "nat \<Rightarrow> Condition \<Rightarrow> Condition" where
  "cond_wait t c = c\<lparr>waiting := waiting c @ [t]\<rparr>"

definition cond_wake :: "nat \<Rightarrow> Condition \<Rightarrow> Condition" where
  "cond_wake t c = c\<lparr>waiting := remove1 t (waiting c), woken := woken c @ [t]\<rparr>"

definition cond_notify :: "nat \<Rightarrow> Condition \<Rightarrow> Condition" where
  "cond_notify k c = (if waiting c = [] then c else cond_wake (waiting c ! (k mod length (waiting c))) c)"

definition cond_notifyAll :: "Condition \<Rightarrow> Condition" where
  "cond_notifyAll c = c\<lparr>waiting := [], woken := woken c @ waiting c\<rparr>"

text \<open>A thread that was woken gets the mutex.\<close>

definition cond_resume :: "nat \<Rightarrow> Condition \<Rightarrow> Condition" where
  "cond_resume t c = c\<lparr>woken := removeAll t (woken c)\<rparr>"

section \<open>The blocking queues\<close>

record 'a BlockingQueue =
  queue :: "'a list"
  notEmpty :: Condition

definition new_BlockingQueue :: "'a BlockingQueue" where
  "new_BlockingQueue = \<lparr>queue = [], notEmpty = new_Condition\<rparr>"

definition BlockingQueue_put :: "nat \<Rightarrow> 'a \<Rightarrow> 'a BlockingQueue \<Rightarrow> 'a BlockingQueue" where
  "BlockingQueue_put k x q = q\<lparr>queue := queue q @ [x], notEmpty := cond_notify k (notEmpty q)\<rparr>"

text \<open>\<open>None\<close>: the calling thread now waits.\<close>

definition BlockingQueue_take :: "nat \<Rightarrow> 'a BlockingQueue \<Rightarrow> ('a option \<times> 'a BlockingQueue) res" where
  "BlockingQueue_take t q =
     (if queue q = [] then Inr (None, q\<lparr>notEmpty := cond_wait t (notEmpty q)\<rparr>)
      else bindE (assertE (queue q \<noteq> [])) (\<lambda>_. Inr (Some (hd (queue q)), q\<lparr>queue := tl (queue q)\<rparr>)))"

definition BlockingQueue_drain :: "'a BlockingQueue \<Rightarrow> ('a list \<times> 'a BlockingQueue) res" where
  "BlockingQueue_drain q =
     (let q' = q\<lparr>queue := []\<rparr> in bindE (assertE (queue q' = [])) (\<lambda>_. Inr (queue q, q')))"

definition BlockingQueue_size :: "'a BlockingQueue \<Rightarrow> nat" where
  "BlockingQueue_size q = length (queue q)"

record 'a BoundedBlockingQueue =
  ring :: "'a list"
  maxSize :: nat
  ringNotEmpty :: Condition
  ringNotFull :: Condition

definition new_BoundedBlockingQueue :: "nat \<Rightarrow> 'a BoundedBlockingQueue" where
  "new_BoundedBlockingQueue n = \<lparr>ring = [], maxSize = n, ringNotEmpty = new_Condition, ringNotFull = new_Condition\<rparr>"

definition ring_full :: "'a BoundedBlockingQueue \<Rightarrow> bool" where
  "ring_full q \<longleftrightarrow> length (ring q) = maxSize q"

text \<open>\<open>push_back\<close> of a circular buffer that is full overwrites its first element.\<close>

definition ring_push :: "'a \<Rightarrow> 'a BoundedBlockingQueue \<Rightarrow> 'a BoundedBlockingQueue" where
  "ring_push x q = q\<lparr>ring := if ring_full q then (if maxSize q = 0 then [] else tl (ring q) @ [x]) else ring q @ [x]\<rparr>"

definition BoundedBlockingQueue_put ::
    "nat \<Rightarrow> nat \<Rightarrow> 'a \<Rightarrow> 'a BoundedBlockingQueue \<Rightarrow> (bool \<times> 'a BoundedBlockingQueue) res" where
  "BoundedBlockingQueue_put t k x q =
     (if ring_full q then Inr (False, q\<lparr>ringNotFull := cond_wait t (ringNotFull q)\<rparr>)
      else bindE (assertE (\<not> ring_full q)) (\<lambda>_.
           let q' = ring_push x q in Inr (True, q'\<lparr>ringNotEmpty := cond_notify k (ringNotEmpty q')\<rparr>)))"

definition BoundedBlockingQueue_take :: "nat \<Rightarrow> nat \<Rightarrow> 'a BoundedBlockingQueue \<Rightarrow> ('a option \<times> 'a BoundedBlockingQueue) res" where
  "BoundedBlockingQueue_take t k q =
     (if ring q = [] then Inr (None, q\<lparr>ringNotEmpty := cond_wait t (ringNotEmpty q)\<rparr>)
      else bindE (assertE (ring q \<noteq> [])) (\<lambda>_.
           let q' = q\<lparr>ring := tl (ring q)\<rparr> in Inr (Some (hd (ring q)), q'\<lparr>ringNotFull := cond_notify k (ringNotFull q')\<rparr>)))"

section \<open>Threads that exchange items\<close>

datatype 'a call = Put 'a | Take

text \<open>The operations of a queue, as the threads call them: the calling thread, the choice of \<open>notify\<close>; and what a woken thread does first.\<close>

record ('s, 'a) queue_ops =
  op_put :: "nat \<Rightarrow> nat \<Rightarrow> 'a \<Rightarrow> 's \<Rightarrow> (bool \<times> 's) res"
  op_take :: "nat \<Rightarrow> nat \<Rightarrow> 's \<Rightarrow> ('a option \<times> 's) res"
  op_conditions :: "'s \<Rightarrow> Condition list"
  op_resume :: "nat \<Rightarrow> 's \<Rightarrow> 's"
  op_wake :: "nat \<Rightarrow> 's \<Rightarrow> 's"

definition BlockingQueue_ops :: "('a BlockingQueue, 'a) queue_ops" where
  "BlockingQueue_ops = \<lparr>
     op_put = (\<lambda>t k x q. Inr (True, BlockingQueue_put k x q)),
     op_take = (\<lambda>t k q. BlockingQueue_take t q),
     op_conditions = (\<lambda>q. [notEmpty q]),
     op_resume = (\<lambda>t q. q\<lparr>notEmpty := cond_resume t (notEmpty q)\<rparr>),
     op_wake = (\<lambda>t q. q\<lparr>notEmpty := cond_wake t (notEmpty q)\<rparr>)\<rparr>"

definition BoundedBlockingQueue_ops :: "('a BoundedBlockingQueue, 'a) queue_ops" where
  "BoundedBlockingQueue_ops = \<lparr>
     op_put = BoundedBlockingQueue_put,
     op_take = BoundedBlockingQueue_take,
     op_conditions = (\<lambda>q. [ringNotEmpty q, ringNotFull q]),
     op_resume = (\<lambda>t q. q\<lparr>ringNotEmpty := cond_resume t (ringNotEmpty q), ringNotFull := cond_resume t (ringNotFull q)\<rparr>),
     op_wake = (\<lambda>t q. if t \<in> set (waiting (ringNotEmpty q)) then q\<lparr>ringNotEmpty := cond_wake t (ringNotEmpty q)\<rparr>
                        else q\<lparr>ringNotFull := cond_wake t (ringNotFull q)\<rparr>)\<rparr>"

text \<open>The queue, the calls each thread has still to make, and what was put and taken, in order; the code does not have these records.\<close>

record ('s, 'a) exchange =
  shared :: 's
  calls :: "'a call list list"
  put_log :: "'a list"
  out_log :: "'a list"

definition new_exchange :: "'s \<Rightarrow> 'a call list list \<Rightarrow> ('s, 'a) exchange" where
  "new_exchange q cs = \<lparr>shared = q, calls = cs, put_log = [], out_log = []\<rparr>"

definition blocked :: "('s, 'a) queue_ops \<Rightarrow> ('s, 'a) exchange \<Rightarrow> nat set" where
  "blocked ops s = (\<Union>c \<in> set (op_conditions ops (shared s)). set (waiting c))"

text \<open>The thread \<open>i\<close> gets the mutex and goes on with its call \<open>c\<close>; the call stays when the thread waits.\<close>

fun perform :: "('s, 'a) queue_ops \<Rightarrow> nat \<Rightarrow> nat \<Rightarrow> 'a call \<Rightarrow> 'a call list \<Rightarrow> ('s, 'a) exchange \<Rightarrow> ('s, 'a) exchange res" where
  "perform ops i k (Put x) cs s =
     bindE (op_put ops i k x (op_resume ops i (shared s))) (\<lambda>(returned, q).
       Inr (if returned then s\<lparr>shared := q, calls := (calls s)[i := cs], put_log := put_log s @ [x]\<rparr> else s\<lparr>shared := q\<rparr>))"
| "perform ops i k Take cs s =
     bindE (op_take ops i k (op_resume ops i (shared s))) (\<lambda>(result, q).
       Inr (case result of
              Some x \<Rightarrow> s\<lparr>shared := q, calls := (calls s)[i := cs], out_log := out_log s @ [x]\<rparr>
            | None \<Rightarrow> s\<lparr>shared := q\<rparr>))"

inductive work_step :: "('s, 'a) queue_ops \<Rightarrow> ('s, 'a) exchange \<Rightarrow> ('s, 'a) exchange \<Rightarrow> bool" for ops where
  work: "i < length (calls s) \<Longrightarrow> calls s ! i = c # cs \<Longrightarrow> i \<notin> blocked ops s \<Longrightarrow> perform ops i k c cs s = Inr s' \<Longrightarrow> work_step ops s s'"

inductive exchange_step :: "('s, 'a) queue_ops \<Rightarrow> ('s, 'a) exchange \<Rightarrow> ('s, 'a) exchange \<Rightarrow> bool" for ops where
  working: "work_step ops s s' \<Longrightarrow> exchange_step ops s s'"
| spurious: "i \<in> blocked ops s \<Longrightarrow> exchange_step ops s (s\<lparr>shared := op_wake ops i (shared s)\<rparr>)"

inductive exchange_reaches :: "('s, 'a) queue_ops \<Rightarrow> ('s, 'a) exchange \<Rightarrow> ('s, 'a) exchange \<Rightarrow> bool" for ops where
  refl: "exchange_reaches ops s s"
| step: "exchange_reaches ops s s' \<Longrightarrow> exchange_step ops s' s'' \<Longrightarrow> exchange_reaches ops s s''"

text \<open>A run of \<open>n\<close> steps without spurious wake-ups.\<close>

inductive works :: "('s, 'a) queue_ops \<Rightarrow> nat \<Rightarrow> ('s, 'a) exchange \<Rightarrow> ('s, 'a) exchange \<Rightarrow> bool" for ops where
  works_0: "works ops 0 s s"
| works_Suc: "work_step ops s s' \<Longrightarrow> works ops n s' s'' \<Longrightarrow> works ops (Suc n) s s''"

section \<open>The latch\<close>

record CountDownLatch =
  count :: int
  condition :: Condition

definition new_CountDownLatch :: "int \<Rightarrow> CountDownLatch" where
  "new_CountDownLatch n = \<lparr>count = n, condition = new_Condition\<rparr>"

text \<open>Whether the call returns.\<close>

definition latch_wait :: "nat \<Rightarrow> CountDownLatch \<Rightarrow> bool \<times> CountDownLatch" where
  "latch_wait t l = (if 0 < count l then (False, l\<lparr>condition := cond_wait t (condition l)\<rparr>) else (True, l))"

definition countDown :: "CountDownLatch \<Rightarrow> CountDownLatch" where
  "countDown l = (let l' = l\<lparr>count := count l - 1\<rparr>
     in if count l' = 0 then l'\<lparr>condition := cond_notifyAll (condition l')\<rparr> else l')"

definition getCount :: "CountDownLatch \<Rightarrow> int" where
  "getCount l = count l"

section \<open>Producers and consumers\<close>

definition puts :: "'a call list list \<Rightarrow> nat" where
  "puts css = length (filter (\<lambda>c. c \<noteq> Take) (concat css))"

definition takes :: "'a call list list \<Rightarrow> nat" where
  "takes css = length (filter (\<lambda>c. c = Take) (concat css))"

text \<open>Every thread only puts or only takes.\<close>

definition dedicated :: "'a call list list \<Rightarrow> bool" where
  "dedicated css \<longleftrightarrow> list_all (\<lambda>cs. list_all (\<lambda>c. c = Take) cs \<or> list_all (\<lambda>c. c \<noteq> Take) cs) css"

lemma count_update:
  assumes "i < length css" "css ! i = c # cs"
  shows "puts css = puts (css[i := cs]) + (if c = Take then 0 else 1)" "takes css = takes (css[i := cs]) + (if c = Take then 1 else 0)"
  using assms by (induction css arbitrary: i) (auto simp: puts_def takes_def nth_Cons split: nat.splits)

lemma dedicated_update: "dedicated css \<Longrightarrow> i < length css \<Longrightarrow> css ! i = c # cs \<Longrightarrow> dedicated (css[i := cs])"
  using set_update_subset_insert [of css i cs] nth_mem [of i css] by (fastforce simp: dedicated_def list_all_iff)

lemma only_takes: "dedicated css \<Longrightarrow> (\<And>cs. cs \<in> set css \<Longrightarrow> cs = [] \<or> hd cs = Take) \<Longrightarrow> puts css = 0"
proof (induction css)
  case (Cons cs css)
  then have "list_all (\<lambda>c. c = Take) cs" using Cons.prems(2) [of cs] by (cases cs) (auto simp: dedicated_def)
  with Cons show ?case by (simp add: puts_def dedicated_def list_all_iff filter_empty_conv)
qed (simp add: puts_def)

lemma only_puts: "dedicated css \<Longrightarrow> (\<And>cs. cs \<in> set css \<Longrightarrow> cs = [] \<or> hd cs \<noteq> Take) \<Longrightarrow> takes css = 0"
proof (induction css)
  case (Cons cs css)
  then have "list_all (\<lambda>c. c \<noteq> Take) cs" using Cons.prems(2) [of cs] by (cases cs) (auto simp: dedicated_def)
  with Cons show ?case by (simp add: takes_def dedicated_def list_all_iff filter_empty_conv)
qed (simp add: takes_def)

lemma takes_positive: "i < length css \<Longrightarrow> css ! i = Take # cs \<Longrightarrow> 0 < takes css"
  using count_update(2) by fastforce

lemma puts_positive: "i < length css \<Longrightarrow> css ! i = c # cs \<Longrightarrow> c \<noteq> Take \<Longrightarrow> 0 < puts css"
  using count_update(1) by fastforce

section \<open>Every item has a thread on its way\<close>

text \<open>
  \<open>n\<close> items are available to the threads that use a condition: either none of them waits, or enough were woken to take the items.
\<close>

definition covered :: "nat \<Rightarrow> Condition \<Rightarrow> bool" where
  "covered n c \<longleftrightarrow> waiting c = [] \<or> n \<le> length (woken c)"

definition inside :: "Condition \<Rightarrow> nat list" where
  "inside c = waiting c @ woken c"

lemma covered_new [simp]: "covered n new_Condition"
  by (simp add: covered_def new_Condition_def)

lemma covered_0 [simp]: "covered 0 c"
  by (simp add: covered_def)

lemma covered_mono: "covered n c \<Longrightarrow> m \<le> n \<Longrightarrow> covered m c"
  by (auto simp: covered_def)

lemma notify_choice: "waiting c \<noteq> [] \<Longrightarrow> waiting c ! (k mod length (waiting c)) \<in> set (waiting c)"
  by simp

lemma covered_wake: "covered n c \<Longrightarrow> t \<in> set (waiting c) \<Longrightarrow> covered (Suc n) (cond_wake t c)"
  by (auto simp: covered_def cond_wake_def)

lemma covered_woken: "covered n c \<Longrightarrow> t \<in> set (waiting c) \<Longrightarrow> covered n (cond_wake t c)"
  using covered_mono [OF covered_wake] by simp

lemma covered_notify: "covered n c \<Longrightarrow> covered (Suc n) (cond_notify k c)"
  using covered_wake [OF _ notify_choice] by (auto simp: cond_notify_def) (simp add: covered_def)

lemma covered_resume: "covered n c \<Longrightarrow> distinct (inside c) \<Longrightarrow> covered (n - 1) (cond_resume t c)"
  using distinct_remove1_removeAll [of "woken c" t] length_remove1 [of t "woken c"]
  by (auto simp: covered_def cond_resume_def inside_def split: if_splits)

text \<open>Which threads are inside a condition.\<close>

lemma inside_new [simp]: "inside new_Condition = []"
  by (simp add: inside_def new_Condition_def)

lemma inside_cong: "mset (inside c) = mset (inside d) \<Longrightarrow> set (inside c) = set (inside d) \<and> distinct (inside c) = distinct (inside d)"
  by (metis mset_eq_setD mset_eq_imp_distinct_iff)

lemma inside_wait: "mset (inside (cond_wait t c)) = add_mset t (mset (inside c))"
  by (simp add: inside_def cond_wait_def)

lemma inside_wake: "t \<in> set (waiting c) \<Longrightarrow> mset (inside (cond_wake t c)) = mset (inside c)"
  by (simp add: inside_def cond_wake_def)

lemma inside_notify: "mset (inside (cond_notify k c)) = mset (inside c)"
  using inside_wake [OF notify_choice] by (auto simp: cond_notify_def)

lemma inside_wait_simps [simp]:
  "set (inside (cond_wait t c)) = insert t (set (inside c))" "distinct (inside (cond_wait t c)) \<longleftrightarrow> t \<notin> set (inside c) \<and> distinct (inside c)"
  by (auto simp: inside_def cond_wait_def)

lemma inside_notify_simps [simp]:
  "set (inside (cond_notify k c)) = set (inside c)" "distinct (inside (cond_notify k c)) = distinct (inside c)"
  using inside_cong [OF inside_notify [of k c]] by simp_all

lemma inside_wake_simps [simp]:
  "t \<in> set (waiting c) \<Longrightarrow> set (inside (cond_wake t c)) = set (inside c)" "t \<in> set (waiting c) \<Longrightarrow> distinct (inside (cond_wake t c)) = distinct (inside c)"
  using inside_cong [OF inside_wake [of t c]] by simp_all

lemma inside_resume: "t \<notin> set (waiting c) \<Longrightarrow> inside (cond_resume t c) = removeAll t (inside c)"
  by (simp add: inside_def cond_resume_def)

lemma waiting_simps [simp]:
  "waiting (cond_wait t c) = waiting c @ [t]" "waiting (cond_resume t c) = waiting c" "waiting new_Condition = []"
  by (simp_all add: cond_wait_def cond_resume_def new_Condition_def)

lemma waiting_notify: "length (waiting c) \<le> Suc (length (waiting (cond_notify k c)))" "set (waiting (cond_notify k c)) \<subseteq> set (waiting c)"
  using set_remove1_subset [of _ "waiting c"] by (auto simp: cond_notify_def cond_wake_def length_remove1)

lemma resume_outside: "t \<notin> set (inside c) \<Longrightarrow> cond_resume t c = c"
  by (simp add: inside_def cond_resume_def)

section \<open>The contract of a blocking queue\<close>

text \<open>
  What the two queues promise: items come out in the order they went in; a thread waits exactly when the queue is empty or full; a thread that put an item notifies
  the condition of the takers and one that took an item that of the putters. \<open>cap\<close> is \<open>None\<close> for the queue without a bound.
\<close>

locale blocking_queue =
  fixes ops :: "('s, 'a) queue_ops"
    and contents :: "'s \<Rightarrow> 'a list"
    and nE nF :: "'s \<Rightarrow> Condition"
    and cap :: "nat option"
    and good :: "'s \<Rightarrow> bool"
  assumes put_full: "good q \<Longrightarrow> cap = Some (length (contents q)) \<Longrightarrow>
      \<exists>q'. op_put ops t k x q = Inr (False, q') \<and> good q' \<and> contents q' = contents q \<and> nE q' = nE q \<and> nF q' = cond_wait t (nF q)"
    and put_room: "good q \<Longrightarrow> cap \<noteq> Some (length (contents q)) \<Longrightarrow>
      \<exists>q'. op_put ops t k x q = Inr (True, q') \<and> good q' \<and> contents q' = contents q @ [x] \<and> nE q' = cond_notify k (nE q) \<and> nF q' = nF q"
    and take_empty: "good q \<Longrightarrow> contents q = [] \<Longrightarrow>
      \<exists>q'. op_take ops t k q = Inr (None, q') \<and> good q' \<and> contents q' = [] \<and> nE q' = cond_wait t (nE q) \<and> nF q' = nF q"
    and take_item: "good q \<Longrightarrow> contents q = y # ys \<Longrightarrow>
      \<exists>q'. op_take ops t k q = Inr (Some y, q') \<and> good q' \<and> contents q' = ys \<and> nE q' = nE q \<and> nF q' = cond_notify k (nF q)"
    and resume: "good q \<Longrightarrow> good (op_resume ops t q) \<and> contents (op_resume ops t q) = contents q
      \<and> nE (op_resume ops t q) = cond_resume t (nE q) \<and> nF (op_resume ops t q) = cond_resume t (nF q)"
    and conditions: "(\<Union>c \<in> set (op_conditions ops q). set (waiting c)) = set (waiting (nE q)) \<union> set (waiting (nF q))"
    and wake_taker: "good q \<Longrightarrow> t \<in> set (waiting (nE q)) \<Longrightarrow> good (op_wake ops t q) \<and> contents (op_wake ops t q) = contents q
      \<and> nE (op_wake ops t q) = cond_wake t (nE q) \<and> nF (op_wake ops t q) = nF q"
    and wake_putter: "good q \<Longrightarrow> t \<notin> set (waiting (nE q)) \<Longrightarrow> t \<in> set (waiting (nF q)) \<Longrightarrow> good (op_wake ops t q)
      \<and> contents (op_wake ops t q) = contents q \<and> nE (op_wake ops t q) = nE q \<and> nF (op_wake ops t q) = cond_wake t (nF q)"
begin

definition roomy :: "'s \<Rightarrow> bool" where
  "roomy q \<longleftrightarrow> (case cap of None \<Rightarrow> inside (nF q) = [] | Some n \<Rightarrow> length (contents q) \<le> n \<and> covered (n - length (contents q)) (nF q))"

definition queue_inv :: "('s, 'a) exchange \<Rightarrow> bool" where
  "queue_inv s \<longleftrightarrow> good (shared s) \<and> put_log s = out_log s @ contents (shared s)
     \<and> covered (length (contents (shared s))) (nE (shared s)) \<and> roomy (shared s)
     \<and> distinct (inside (nE (shared s)) @ inside (nF (shared s)))
     \<and> (\<forall>i \<in> set (inside (nE (shared s))). i < length (calls s) \<and> calls s ! i \<noteq> [] \<and> hd (calls s ! i) = Take)
     \<and> (\<forall>i \<in> set (inside (nF (shared s))). i < length (calls s) \<and> calls s ! i \<noteq> [] \<and> hd (calls s ! i) \<noteq> Take)"

lemma blocked_eq: "blocked ops s = set (waiting (nE (shared s))) \<union> set (waiting (nF (shared s)))"
  by (simp add: blocked_def conditions)

text \<open>A thread that goes on with a call has left the conditions.\<close>

lemma resume_taker:
  assumes inv: "queue_inv s" and i: "i < length (calls s)" "calls s ! i = Take # cs" "i \<notin> blocked ops s"
  defines "q \<equiv> op_resume ops i (shared s)"
  shows "good q" "contents q = contents (shared s)" "nF q = nF (shared s)" "inside (nE q) = removeAll i (inside (nE (shared s)))"
    "covered (length (contents q) - 1) (nE q)" "waiting (nE q) = waiting (nE (shared s))" "i \<notin> set (inside (nF q))"
proof -
  have "i \<notin> set (inside (nF (shared s)))" using inv i by (auto simp: queue_inv_def)
  then show "good q" "contents q = contents (shared s)" "nF q = nF (shared s)" "i \<notin> set (inside (nF q))"
      "waiting (nE q) = waiting (nE (shared s))"
    using inv resume [of "shared s" i] by (auto simp: queue_inv_def q_def resume_outside)
  show "inside (nE q) = removeAll i (inside (nE (shared s)))"
    using inv i(3) resume [of "shared s" i] by (simp add: queue_inv_def q_def inside_resume blocked_eq)
  show "covered (length (contents q) - 1) (nE q)"
    using inv resume [of "shared s" i] covered_resume by (simp add: queue_inv_def q_def)
qed

lemma resume_putter:
  assumes inv: "queue_inv s" and i: "i < length (calls s)" "calls s ! i = Put x # cs" "i \<notin> blocked ops s"
  defines "q \<equiv> op_resume ops i (shared s)"
  shows "good q" "contents q = contents (shared s)" "nE q = nE (shared s)" "inside (nF q) = removeAll i (inside (nF (shared s)))"
    "covered n (nF (shared s)) \<Longrightarrow> covered (n - 1) (nF q)" "waiting (nF q) = waiting (nF (shared s))" "i \<notin> set (inside (nE q))"
proof -
  have "i \<notin> set (inside (nE (shared s)))" using inv i by (auto simp: queue_inv_def)
  then show "good q" "contents q = contents (shared s)" "nE q = nE (shared s)" "i \<notin> set (inside (nE q))"
      "waiting (nF q) = waiting (nF (shared s))"
    using inv resume [of "shared s" i] by (auto simp: queue_inv_def q_def resume_outside)
  show "inside (nF q) = removeAll i (inside (nF (shared s)))"
    using inv i(3) resume [of "shared s" i] by (simp add: queue_inv_def q_def inside_resume blocked_eq)
  show "covered n (nF (shared s)) \<Longrightarrow> covered (n - 1) (nF q)"
    using inv resume [of "shared s" i] covered_resume [of n "nF (shared s)" i] by (simp add: queue_inv_def q_def)
qed

text \<open>The measure of the work left: a call that returns lets at most one thread out of a wait.\<close>

definition work_left :: "('s, 'a) exchange \<Rightarrow> int" where
  "work_left s = 2 * int (length (concat (calls s))) - int (length (waiting (nE (shared s)) @ waiting (nF (shared s))))"

lemma calls_left: "i < length css \<Longrightarrow> css ! i = c # cs \<Longrightarrow> length (concat css) = Suc (length (concat (css[i := cs])))"
  by (induction css arbitrary: i) (auto split: nat.splits simp: nth_Cons)

lemma returned_inv:
  assumes "queue_inv s" "i < length (calls s)" "good q" "put_log s' = out_log s' @ contents q" "covered (length (contents q)) (nE q)" "roomy q"
    and "set (inside (nE q)) \<subseteq> set (inside (nE (shared s))) - {i}" "set (inside (nF q)) \<subseteq> set (inside (nF (shared s))) - {i}"
    and "distinct (inside (nE q))" "distinct (inside (nF q))" "shared s' = q" "calls s' = (calls s)[i := cs]"
  shows "queue_inv s'"
proof -
  have "calls s' ! j = calls s ! j" if "j \<noteq> i" for j using that assms(12) by simp
  then show ?thesis using assms unfolding queue_inv_def by (auto simp: subset_iff)
qed

lemma waited_inv:
  assumes "queue_inv s" "i < length (calls s)" "calls s ! i = c # cs" "good q" "contents q = contents (shared s)" "covered (length (contents q)) (nE q)" "roomy q"
    and "set (inside (nE q)) \<subseteq> (if c = Take then insert i else id) (set (inside (nE (shared s))))"
    and "set (inside (nF q)) \<subseteq> (if c = Take then id else insert i) (set (inside (nF (shared s))))"
    and "distinct (inside (nE q) @ inside (nF q))"
  shows "queue_inv (s\<lparr>shared := q\<rparr>)"
proof -
  have "j < length (calls s) \<and> calls s ! j \<noteq> [] \<and> hd (calls s ! j) = Take" if "j \<in> set (inside (nE q))" for j
  proof -
    have "j \<in> set (inside (nE (shared s))) \<or> j = i \<and> c = Take" using that assms(8) by (auto split: if_splits)
    then show ?thesis using assms(1-3) unfolding queue_inv_def by auto
  qed
  moreover have "j < length (calls s) \<and> calls s ! j \<noteq> [] \<and> hd (calls s ! j) \<noteq> Take" if "j \<in> set (inside (nF q))" for j
  proof -
    have "j \<in> set (inside (nF (shared s))) \<or> j = i \<and> c \<noteq> Take" using that assms(9) by (auto split: if_splits)
    then show ?thesis using assms(1-3) unfolding queue_inv_def by auto
  qed
  ultimately show ?thesis using assms unfolding queue_inv_def by simp
qed

lemma roomy_taken:
  assumes "roomy q" "contents q = y # contents q'" "nF q' = cond_notify k (nF q)"
  shows "roomy q'"
proof (cases cap)
  case None
  with assms show ?thesis unfolding roomy_def by (simp add: inside_def cond_notify_def)
next
  case (Some n)
  with assms have "length (contents q') < n" "covered (n - Suc (length (contents q'))) (nF q)" unfolding roomy_def by simp_all
  with covered_notify [of "n - Suc (length (contents q'))" "nF q" k] Some assms(3) show ?thesis unfolding roomy_def by (simp add: Suc_diff_Suc)
qed

lemma take_works:
  assumes inv: "queue_inv s" and i: "i < length (calls s)" "calls s ! i = Take # cs" "i \<notin> blocked ops s"
  shows "\<exists>s'. perform ops i k Take cs s = Inr s' \<and> queue_inv s' \<and> work_left s' < work_left s"
proof -
  define q where "q = op_resume ops i (shared s)"
  note q = resume_taker [OF inv i, folded q_def]
  have apart: "set (inside (nE (shared s))) \<inter> set (inside (nF (shared s))) = {}" using inv by (simp add: queue_inv_def)
  show ?thesis
  proof (cases "contents q")
    case Nil
    with take_empty [OF q(1), of i k] obtain q' where q': "op_take ops i k q = Inr (None, q')" "good q'" "contents q' = []"
      "nE q' = cond_wait i (nE q)" "nF q' = nF q" by blast
    moreover have "roomy q'" using inv q(2,3) Nil q'(3,5) unfolding queue_inv_def roomy_def by (simp split: option.splits)
    moreover have "distinct (inside (nE q') @ inside (nF q'))" "set (inside (nE q')) = insert i (set (inside (nE (shared s))))"
      using inv q(3,4,7) q'(4,5) by (auto simp: queue_inv_def distinct_removeAll)
    moreover have "work_left (s\<lparr>shared := q'\<rparr>) < work_left s" using q(3,6) q'(4,5) by (simp add: work_left_def)
    ultimately show ?thesis
      using waited_inv [OF inv i(1,2), of q'] apart q(2,3) Nil by (simp add: q_def [symmetric])
  next
    case (Cons y ys)
    with take_item [OF q(1), of y ys i k] obtain q' where q': "op_take ops i k q = Inr (Some y, q')" "good q'" "contents q' = ys"
      "nE q' = nE q" "nF q' = cond_notify k (nF q)" by blast
    moreover have "roomy q'"
      using inv roomy_taken [of "shared s" y q' k] q(2,3) Cons q'(3,5) unfolding queue_inv_def by metis
    moreover have "covered (length ys) (nE q')" using q(5) Cons q'(4) by simp
    moreover have "set (inside (nE q')) = set (inside (nE (shared s))) - {i}" using q(4) q'(4) by simp
    moreover have "set (inside (nF q')) = set (inside (nF (shared s))) - {i}" using q(3,7) q'(5) by simp
    moreover have "distinct (inside (nE q'))" "distinct (inside (nF q'))" "put_log s = (out_log s @ [y]) @ ys"
      using inv q(2-4) q'(4,5) Cons by (simp_all add: queue_inv_def distinct_removeAll)
    moreover have "work_left (s\<lparr>shared := q', calls := (calls s)[i := cs], out_log := out_log s @ [y]\<rparr>) < work_left s"
      using q(3,6) q'(4,5) waiting_notify(1) [of "nF q" k] calls_left [OF i(1,2)] by (simp add: work_left_def)
    ultimately show ?thesis
      using returned_inv [OF inv i(1), of q' "s\<lparr>shared := q', calls := (calls s)[i := cs], out_log := out_log s @ [y]\<rparr>" cs]
      by (simp add: q_def [symmetric])
  qed
qed

lemma put_works:
  assumes inv: "queue_inv s" and i: "i < length (calls s)" "calls s ! i = Put x # cs" "i \<notin> blocked ops s"
  shows "\<exists>s'. perform ops i k (Put x) cs s = Inr s' \<and> queue_inv s' \<and> work_left s' < work_left s"
proof -
  define q where "q = op_resume ops i (shared s)"
  note q = resume_putter [OF inv i, folded q_def]
  have apart: "set (inside (nE (shared s))) \<inter> set (inside (nF (shared s))) = {}" using inv by (simp add: queue_inv_def)
  show ?thesis
  proof (cases "cap = Some (length (contents q))")
    case True
    with put_full [OF q(1), of i k x] obtain q' where q': "op_put ops i k x q = Inr (False, q')" "good q'" "contents q' = contents q"
      "nE q' = nE q" "nF q' = cond_wait i (nF q)" by blast
    moreover have "roomy q'" using True q'(3) unfolding roomy_def by simp
    moreover have "distinct (inside (nE q') @ inside (nF q'))" "set (inside (nF q')) = insert i (set (inside (nF (shared s))))"
      using inv q(3,4,7) q'(4,5) by (auto simp: queue_inv_def distinct_removeAll)
    moreover have "work_left (s\<lparr>shared := q'\<rparr>) < work_left s" using q(3,6) q'(4,5) by (simp add: work_left_def)
    moreover have "covered (length (contents q')) (nE q')" using inv q(2,3) q'(3,4) by (simp add: queue_inv_def)
    ultimately show ?thesis
      using waited_inv [OF inv i(1,2), of q'] apart q(2,3) by (simp add: q_def [symmetric])
  next
    case False
    with put_room [OF q(1), of i k x] obtain q' where q': "op_put ops i k x q = Inr (True, q')" "good q'" "contents q' = contents q @ [x]"
      "nE q' = cond_notify k (nE q)" "nF q' = nF q" by blast
    moreover have "roomy q'"
      using inv q(2,4,5) False q'(3,5) unfolding queue_inv_def roomy_def by (fastforce split: option.splits)
    moreover have "covered (length (contents q')) (nE q')" using inv q(2,3) q'(3,4) covered_notify by (simp add: queue_inv_def)
    moreover have "set (inside (nF q')) = set (inside (nF (shared s))) - {i}" using q(4) q'(5) by simp
    moreover have "set (inside (nE q')) = set (inside (nE (shared s))) - {i}" using q(3,7) q'(4) by simp
    moreover have "distinct (inside (nE q'))" "distinct (inside (nF q'))" "put_log s @ [x] = out_log s @ contents q @ [x]"
      using inv q(2-4) q'(4,5) by (simp_all add: queue_inv_def distinct_removeAll)
    moreover have "work_left (s\<lparr>shared := q', calls := (calls s)[i := cs], put_log := put_log s @ [x]\<rparr>) < work_left s"
      using q(3,6) q'(4,5) waiting_notify(1) [of "nE q" k] calls_left [OF i(1,2)] by (simp add: work_left_def)
    ultimately show ?thesis
      using returned_inv [OF inv i(1), of q' "s\<lparr>shared := q', calls := (calls s)[i := cs], put_log := put_log s @ [x]\<rparr>" cs]
      by (simp add: q_def [symmetric])
  qed
qed

lemma call_works:
  assumes "queue_inv s" "i < length (calls s)" "calls s ! i = c # cs" "i \<notin> blocked ops s"
  shows "\<exists>s'. perform ops i k c cs s = Inr s' \<and> queue_inv s' \<and> work_left s' < work_left s"
  using assms by (metis call.exhaust put_works take_works)

lemma work_step_inv: "work_step ops s s' \<Longrightarrow> queue_inv s \<Longrightarrow> queue_inv s' \<and> work_left s' < work_left s"
  by (elim work_step.cases) (metis call_works sum.inject(2))

lemma spurious_inv:
  assumes inv: "queue_inv s" and i: "i \<in> blocked ops s"
  shows "queue_inv (s\<lparr>shared := op_wake ops i (shared s)\<rparr>)"
proof (cases "i \<in> set (waiting (nE (shared s)))")
  case True
  then have w: "good (op_wake ops i (shared s))" "contents (op_wake ops i (shared s)) = contents (shared s)"
      "nE (op_wake ops i (shared s)) = cond_wake i (nE (shared s))" "nF (op_wake ops i (shared s)) = nF (shared s)"
    using inv wake_taker [of "shared s" i] by (auto simp: queue_inv_def)
  moreover have "roomy (op_wake ops i (shared s))" using inv unfolding queue_inv_def roomy_def w(2,4) by simp
  moreover have "covered (length (contents (shared s))) (cond_wake i (nE (shared s)))"
    using inv True covered_woken [of _ "nE (shared s)" i] by (simp add: queue_inv_def)
  ultimately show ?thesis using inv True by (simp add: queue_inv_def)
next
  case False
  then have i: "i \<in> set (waiting (nF (shared s)))" using i by (simp add: blocked_eq)
  then have w: "good (op_wake ops i (shared s))" "contents (op_wake ops i (shared s)) = contents (shared s)"
      "nE (op_wake ops i (shared s)) = nE (shared s)" "nF (op_wake ops i (shared s)) = cond_wake i (nF (shared s))"
    using inv wake_putter [of "shared s" i] False by (auto simp: queue_inv_def)
  moreover have "roomy (op_wake ops i (shared s))"
    using inv i covered_woken [of _ "nF (shared s)" i] unfolding queue_inv_def roomy_def w(2,4)
    by (auto simp: inside_def split: option.splits)
  ultimately show ?thesis using inv i by (simp add: queue_inv_def)
qed

lemma exchange_reaches_inv: "exchange_reaches ops s s' \<Longrightarrow> queue_inv s \<Longrightarrow> queue_inv s'"
  by (induction rule: exchange_reaches.induct) (auto elim!: exchange_step.cases dest: work_step_inv intro: spurious_inv)

lemma new_inv: "good q \<Longrightarrow> contents q = [] \<Longrightarrow> nE q = new_Condition \<Longrightarrow> nF q = new_Condition \<Longrightarrow> queue_inv (new_exchange q css)"
  unfolding queue_inv_def roomy_def by (simp add: new_exchange_def split: option.splits)

lemma works_bound: "works ops n s s' \<Longrightarrow> queue_inv s \<Longrightarrow> queue_inv s' \<and> int n + work_left s' \<le> work_left s"
  by (induction rule: works.induct) (use work_step_inv in fastforce)+

lemma waiting_bound:
  assumes "queue_inv s"
  shows "length (waiting (nE (shared s)) @ waiting (nF (shared s))) \<le> length (calls s)"
proof -
  let ?w = "waiting (nE (shared s)) @ waiting (nF (shared s))"
  have "distinct ?w" "set ?w \<subseteq> {..<length (calls s)}" using assms by (auto simp: queue_inv_def inside_def)
  then show ?thesis using card_mono [of "{..<length (calls s)}" "set ?w"] distinct_card [of ?w] by simp
qed

text \<open>What a step does to the calls that are left.\<close>

lemma work_step_calls:
  assumes "work_step ops s s'"
  shows "length (calls s') = length (calls s)" "dedicated (calls s) \<Longrightarrow> dedicated (calls s')"
    "length (put_log s') + puts (calls s') = length (put_log s) + puts (calls s)"
    "length (out_log s') + takes (calls s') = length (out_log s) + takes (calls s)"
    "length (concat (calls s')) \<le> length (concat (calls s))"
proof -
  from assms obtain i c cs k where i: "i < length (calls s)" "calls s ! i = c # cs" and p: "perform ops i k c cs s = Inr s'"
    by (auto elim: work_step.cases)
  note upd = count_update [OF i] dedicated_update [OF _ i] calls_left [OF i]
  consider "calls s' = calls s" "put_log s' = put_log s" "out_log s' = out_log s"
    | x where "c = Put x" "calls s' = (calls s)[i := cs]" "put_log s' = put_log s @ [x]" "out_log s' = out_log s"
    | x where "c = Take" "calls s' = (calls s)[i := cs]" "put_log s' = put_log s" "out_log s' = out_log s @ [x]"
    using p by (cases c) (auto simp: fault_simps split: if_splits option.splits)
  then show "length (calls s') = length (calls s)" "dedicated (calls s) \<Longrightarrow> dedicated (calls s')"
    "length (put_log s') + puts (calls s') = length (put_log s) + puts (calls s)"
    "length (out_log s') + takes (calls s') = length (out_log s) + takes (calls s)"
    "length (concat (calls s')) \<le> length (concat (calls s))"
    by (cases; use upd in simp)+
qed

lemma reaches_calls:
  assumes "exchange_reaches ops s s'"
  shows "length (calls s') = length (calls s) \<and> (dedicated (calls s) \<longrightarrow> dedicated (calls s'))
    \<and> length (put_log s') + puts (calls s') = length (put_log s) + puts (calls s)
    \<and> length (out_log s') + takes (calls s') = length (out_log s) + takes (calls s)
    \<and> length (concat (calls s')) \<le> length (concat (calls s))"
  using assms
proof (induction rule: exchange_reaches.induct)
  case (step s s' s'')
  from step.hyps(2) show ?case
  proof cases
    case working
    from work_step_calls [OF this] step.IH show ?thesis by linarith
  qed (use step.IH in simp)
qed simp

text \<open>No thread can go on: those that are not done wait, and no wake-up is on its way.\<close>

lemma at_rest:
  assumes inv: "queue_inv s" and rest: "\<not> (\<exists>s'. work_step ops s s')"
  shows "i < length (calls s) \<Longrightarrow> calls s ! i \<noteq> [] \<Longrightarrow> i \<in> blocked ops s"
    and "woken (nE (shared s)) = []" "woken (nF (shared s)) = []"
proof -
  have blocked: "i \<in> blocked ops s" if i: "i < length (calls s)" "calls s ! i \<noteq> []" for i
  proof (rule ccontr)
    assume "i \<notin> blocked ops s"
    moreover from i obtain c cs where c: "calls s ! i = c # cs" by (cases "calls s ! i") auto
    ultimately obtain s' where "perform ops i 0 c cs s = Inr s'" using call_works [OF inv i(1)] by blast
    with i(1) c \<open>i \<notin> blocked ops s\<close> rest show False by (blast intro: work_step.work)
  qed
  then show "i < length (calls s) \<Longrightarrow> calls s ! i \<noteq> [] \<Longrightarrow> i \<in> blocked ops s" .
  have "j \<notin> set (woken (nE (shared s))) \<union> set (woken (nF (shared s)))" for j
    using inv blocked [of j] unfolding blocked_eq queue_inv_def by (auto simp: inside_def)
  then show "woken (nE (shared s)) = []" "woken (nF (shared s)) = []" by (metis UnI1 UnI2 list.set_intros(1) list.exhaust)+
qed

text \<open>Who waits at rest: takers only at an empty queue, putters only at a full one.\<close>

lemma rest_waiting:
  assumes inv: "queue_inv s" and rest: "\<not> (\<exists>s'. work_step ops s s')"
  shows "waiting (nE (shared s)) \<noteq> [] \<Longrightarrow> contents (shared s) = []"
    and "waiting (nF (shared s)) \<noteq> [] \<Longrightarrow> cap = Some (length (contents (shared s)))"
  using inv at_rest(2,3) [OF inv rest] unfolding queue_inv_def roomy_def covered_def inside_def by (auto split: option.splits)

lemma rest_done:
  assumes inv: "queue_inv s" and rest: "\<not> (\<exists>s'. work_step ops s s')" and ded: "dedicated (calls s)" and cap: "cap \<noteq> Some 0"
    and same: "length (put_log s) + puts (calls s) = length (out_log s) + takes (calls s)"
  shows "concat (calls s) = []" "out_log s = put_log s"
proof -
  have len: "length (put_log s) = length (out_log s) + length (contents (shared s))" using inv by (simp add: queue_inv_def)
  have left: "i \<in> set (waiting (nE (shared s))) \<and> hd (calls s ! i) = Take \<or> i \<in> set (waiting (nF (shared s))) \<and> hd (calls s ! i) \<noteq> Take"
    if "i < length (calls s)" "calls s ! i \<noteq> []" for i
    using at_rest(1) [OF inv rest that] inv unfolding blocked_eq queue_inv_def by (auto simp: inside_def)
  show "concat (calls s) = []"
  proof (rule ccontr)
    assume "concat (calls s) \<noteq> []"
    then obtain i where i: "i < length (calls s)" "calls s ! i \<noteq> []" by (auto simp: in_set_conv_nth)
    show False
    proof (cases "waiting (nE (shared s)) = []")
      case False
      then have empty: "contents (shared s) = []" by (rule rest_waiting(1) [OF inv rest])
      then have "waiting (nF (shared s)) = []" using rest_waiting(2) [OF inv rest] cap by auto
      then have "cs = [] \<or> hd cs = Take" if "cs \<in> set (calls s)" for cs
        using that left by (metis empty_iff in_set_conv_nth list.set(1))
      then have "puts (calls s) = 0" using only_takes [OF ded] by blast
      moreover have "0 < takes (calls s)" using left [OF i] \<open>waiting (nF (shared s)) = []\<close> i takes_positive [of i "calls s"]
        by (cases "calls s ! i") auto
      ultimately show False using same len empty by simp
    next
      case True
      then have "waiting (nF (shared s)) \<noteq> []" using left [OF i] by auto
      then have full: "contents (shared s) \<noteq> []" using rest_waiting(2) [OF inv rest] cap by auto
      have "cs = [] \<or> hd cs \<noteq> Take" if "cs \<in> set (calls s)" for cs
        using that left True by (metis empty_iff in_set_conv_nth list.set(1))
      then have "takes (calls s) = 0" using only_puts [OF ded] by blast
      then show False using same len full by simp
    qed
  qed
  then have "puts (calls s) = 0" "takes (calls s) = 0" by (simp_all only: puts_def takes_def) simp_all
  with same len inv show "out_log s = put_log s" by (simp add: queue_inv_def)
qed

lemma exchange_completes:
  assumes q: "good q" "contents q = []" "nE q = new_Condition" "nF q = new_Condition" and cap: "cap \<noteq> Some 0"
    and css: "dedicated css" "puts css = takes css" and run: "exchange_reaches ops (new_exchange q css) s"
  shows "put_log s = out_log s @ contents (shared s)"
    and "cap = Some n \<Longrightarrow> length (contents (shared s)) \<le> n"
    and "works ops m s s' \<Longrightarrow> m \<le> 2 * length (concat css) + length css"
    and "\<not> (\<exists>s'. work_step ops s s') \<Longrightarrow> concat (calls s) = [] \<and> out_log s = put_log s"
proof -
  have inv: "queue_inv s" by (rule exchange_reaches_inv [OF run new_inv [OF q]])
  then show "put_log s = out_log s @ contents (shared s)" "cap = Some n \<Longrightarrow> length (contents (shared s)) \<le> n"
    unfolding queue_inv_def roomy_def by simp_all
  note left = reaches_calls [OF run, simplified new_exchange_def exchange.simps]
  show "m \<le> 2 * length (concat css) + length css" if w: "works ops m s s'"
  proof -
    have w': "queue_inv s'" "int m + work_left s' \<le> work_left s" using works_bound [OF w inv] by simp_all
    have "length (calls s') = length (calls s)" using w by (induction rule: works.induct) (simp_all add: work_step_calls(1))
    then show ?thesis using w'(2) waiting_bound [OF w'(1)] left by (simp add: work_left_def)
  qed
  show "concat (calls s) = [] \<and> out_log s = put_log s" if "\<not> (\<exists>s'. work_step ops s s')"
    using rest_done [OF inv that _ cap] left css by simp
qed

end

interpretation bq: blocking_queue BlockingQueue_ops queue notEmpty "\<lambda>_. new_Condition" None "\<lambda>_. True"
  by unfold_locales (auto simp: BlockingQueue_ops_def BlockingQueue_put_def BlockingQueue_take_def cond_resume_def
      cond_notify_def new_Condition_def)

interpretation bbq: blocking_queue BoundedBlockingQueue_ops ring ringNotEmpty ringNotFull "Some n" "\<lambda>q. maxSize q = n" for n
  by unfold_locales (auto simp: BoundedBlockingQueue_ops_def BoundedBlockingQueue_put_def BoundedBlockingQueue_take_def ring_full_def
      ring_push_def Let_def)

text \<open>
  Producers and consumers: threads that exchange items through a \<open>BlockingQueue\<close>, some only putting and some only taking, as many puts as takes. Whatever the interleaving, the
  choice of \<open>notify\<close> and the spurious wake-ups, the items come out in the order they went in; the threads run only a bounded number of critical sections; and when no thread can go on,
  every call has returned. No wake-up is lost.
\<close>

theorem blocking_queue_exchange:
  assumes "dedicated css" "puts css = takes css"
    and "exchange_reaches BlockingQueue_ops (new_exchange new_BlockingQueue css) s"
  shows "put_log s = out_log s @ queue (shared s)
    \<and> (\<forall>m s'. works BlockingQueue_ops m s s' \<longrightarrow> m \<le> 2 * length (concat css) + length css)
    \<and> (\<not> (\<exists>s'. work_step BlockingQueue_ops s s') \<longrightarrow> concat (calls s) = [] \<and> out_log s = put_log s)"
  using bq.exchange_completes [OF _ _ _ _ _ assms] by (simp add: new_BlockingQueue_def)

theorem blocking_queue_exchange_witness:
  "\<exists>s. exchange_reaches BlockingQueue_ops (new_exchange new_BlockingQueue [[Take], [Put (7 :: nat)]]) s
     \<and> put_log s = [7] \<and> put_log s = out_log s @ queue (shared s) \<and> concat (calls s) = []"
proof -
  let ?ops = "BlockingQueue_ops :: (nat BlockingQueue, nat) queue_ops"
  let ?s0 = "new_exchange new_BlockingQueue [[Take], [Put (7 :: nat)]]"
  obtain s1 where s1: "perform ?ops 0 0 Take [] ?s0 = Inr s1" "calls s1 = [[Take], [Put 7]]" "blocked ?ops s1 = {0}" "put_log s1 = []"
      "shared s1 = \<lparr>queue = [], notEmpty = \<lparr>waiting = [0], woken = []\<rparr>\<rparr>"
    by (simp add: new_exchange_def blocked_def BlockingQueue_ops_def BlockingQueue_take_def BlockingQueue_put_def new_BlockingQueue_def new_Condition_def cond_resume_def cond_wait_def cond_notify_def cond_wake_def)
  obtain s2 where s2: "perform ?ops 1 0 (Put 7) [] s1 = Inr s2" "calls s2 = [[Take], []]" "blocked ?ops s2 = {}" "put_log s2 = [7]"
      "shared s2 = \<lparr>queue = [7], notEmpty = \<lparr>waiting = [], woken = [0]\<rparr>\<rparr>"
    using s1 by (simp add: blocked_def BlockingQueue_ops_def BlockingQueue_take_def BlockingQueue_put_def new_BlockingQueue_def new_Condition_def cond_resume_def cond_wait_def cond_notify_def cond_wake_def)
  obtain s3 where s3: "perform ?ops 0 0 Take [] s2 = Inr s3" "calls s3 = [[], []]" "put_log s3 = [7]"
    using s2 by (simp add: blocked_def BlockingQueue_ops_def BlockingQueue_take_def BlockingQueue_put_def new_BlockingQueue_def new_Condition_def cond_resume_def cond_wait_def cond_notify_def cond_wake_def)
  have "work_step ?ops ?s0 s1" using s1(1) by (intro work_step.work [of 0 _ Take "[]"]) (simp_all add: new_exchange_def blocked_def BlockingQueue_ops_def BlockingQueue_take_def BlockingQueue_put_def new_BlockingQueue_def new_Condition_def cond_resume_def cond_wait_def cond_notify_def cond_wake_def)
  moreover have "work_step ?ops s1 s2" using s1 s2(1) by (intro work_step.work [of 1 _ "Put 7" "[]"]) simp_all
  moreover have "work_step ?ops s2 s3" using s2 s3(1) by (intro work_step.work [of 0 _ Take "[]"]) simp_all
  ultimately have run: "exchange_reaches ?ops ?s0 s3"
    by (meson exchange_reaches.intros exchange_step.working)
  have "\<not> (\<exists>s'. work_step ?ops s3 s')" using s3(2) by (auto elim!: work_step.cases simp: less_Suc_eq nth_Cons split: nat.splits)
  moreover have "dedicated [[Take], [Put (7 :: nat)]]" "puts [[Take], [Put (7 :: nat)]] = takes [[Take], [Put (7 :: nat)]]"
    by (simp_all add: dedicated_def puts_def takes_def)
  ultimately have "put_log s3 = out_log s3 @ queue (shared s3) \<and> concat (calls s3) = []"
    using blocking_queue_exchange [OF _ _ run] by blast
  with run s3(3) show ?thesis by blast
qed



section \<open>The latch opens\<close>

datatype latch_event = Wait nat | CountDown | Wake nat

text \<open>What threads do with a latch; a woken thread goes through the loop of \<open>wait\<close> again. The record holds the threads whose \<open>wait\<close> has returned.\<close>

fun latch_step :: "latch_event \<Rightarrow> CountDownLatch \<times> nat list \<Rightarrow> CountDownLatch \<times> nat list" where
  "latch_step (Wait t) (l, gone) =
     (if t \<in> set (waiting (condition l)) then (l, gone)
      else case latch_wait t (l\<lparr>condition := cond_resume t (condition l)\<rparr>) of (returned, l') \<Rightarrow> (l', if returned then gone @ [t] else gone))"
| "latch_step CountDown (l, gone) = (countDown l, gone)"
| "latch_step (Wake t) (l, gone) = (if t \<in> set (waiting (condition l)) then (l\<lparr>condition := cond_wake t (condition l)\<rparr>, gone) else (l, gone))"

definition latch_run :: "latch_event list \<Rightarrow> nat \<Rightarrow> CountDownLatch \<times> nat list" where
  "latch_run es n = fold latch_step es (new_CountDownLatch (int n), [])"

definition count_downs :: "latch_event list \<Rightarrow> nat" where
  "count_downs es = length (filter (\<lambda>e. e = CountDown) es)"

lemma latch_inv:
  "count (fst (latch_run es n)) = int n - int (count_downs es)
     \<and> (0 < n \<and> count_downs es < n \<longrightarrow> snd (latch_run es n) = []) \<and> (n \<le> count_downs es \<longrightarrow> waiting (condition (fst (latch_run es n))) = [])"
proof (induction es rule: rev_induct)
  case (snoc e es)
  obtain l gone where l: "latch_run es n = (l, gone)" by fastforce
  then have "latch_run (es @ [e]) n = latch_step e (l, gone)" by (simp add: latch_run_def)
  with snoc.IH l show ?case
    by (cases e) (auto simp: count_downs_def latch_wait_def countDown_def cond_notifyAll_def cond_wake_def cond_wait_def cond_resume_def Let_def)
qed (auto simp: latch_run_def new_CountDownLatch_def count_downs_def)

text \<open>
  A latch made with a positive count: as long as \<open>countDown\<close> was called less often, no call of \<open>wait\<close> has returned; once it was called that often, no thread
  is left waiting, and every \<open>wait\<close> returns at once.
\<close>

theorem latch_opens:
  assumes "0 < n"
  shows "(count_downs es < n \<longrightarrow> snd (latch_run es n) = [])
    \<and> (n \<le> count_downs es \<longrightarrow> waiting (condition (fst (latch_run es n))) = [] \<and> fst (latch_wait t (fst (latch_run es n))))"
  using latch_inv [of es n] assms by (simp add: latch_wait_def)

theorem latch_opens_witness:
  "snd (latch_run [Wait 1, CountDown, Wake 1, Wait 1] 2) = [] \<and> waiting (condition (fst (latch_run [Wait 1, CountDown, CountDown] 2))) = []"
  using latch_opens [of 2 "[Wait 1, CountDown, Wake 1, Wait 1]" 0] latch_opens [of 2 "[Wait 1, CountDown, CountDown]" 0]
  by (simp add: count_downs_def)

end
