(* ===== verification/Thread_Pool.thy ===== *)
theory Thread_Pool
  imports Monitors
begin

text \<open>
  \<open>base/ThreadPool.h\<close>, \<open>base/ThreadPool.cc\<close>: worker threads that take tasks from a queue with an optional bound. The steps are those of the theory
  \<open>Monitors\<close>: one critical section, or one look at \<open>running_\<close>. A task, like the init callback, is what it does with the pool: the tasks it hands to \<open>run\<close>.

  \<open>accepted\<close> and \<open>taken\<close> record the tasks that went into the queue and those that workers took out and started; the code does not have them.
\<close>

section \<open>The pool\<close>

datatype task = Task nat (submits: "task list")

record ThreadPool =
  poolNotEmpty :: Condition
  poolNotFull :: Condition
  pool_name :: string
  threadInitCallback :: "task list option"
  threads :: "string list"
  pool_queue :: "task list"
  maxQueueSize :: nat
  running :: bool
  joined :: bool

definition new_ThreadPool :: "string \<Rightarrow> ThreadPool" where
  "new_ThreadPool nameArg =
     \<lparr>poolNotEmpty = new_Condition, poolNotFull = new_Condition, pool_name = nameArg, threadInitCallback = None, threads = [],
      pool_queue = [], maxQueueSize = 0, running = False, joined = False\<rparr>"

definition setMaxQueueSize :: "nat \<Rightarrow> ThreadPool \<Rightarrow> ThreadPool" where
  "setMaxQueueSize n p = p\<lparr>maxQueueSize := n\<rparr>"

definition setThreadInitCallback :: "task list \<Rightarrow> ThreadPool \<Rightarrow> ThreadPool" where
  "setThreadInitCallback cb p = p\<lparr>threadInitCallback := Some cb\<rparr>"

text \<open>Also whether the caller itself runs the init callback.\<close>

definition ThreadPool_start :: "nat \<Rightarrow> ThreadPool \<Rightarrow> (ThreadPool \<times> bool) res" where
  "ThreadPool_start numThreads p =
     bindE (assertE (threads p = [])) (\<lambda>_.
     Inr (p\<lparr>running := True, threads := map (\<lambda>i. pool_name p @ show_int (int i + 1)) [0..<numThreads]\<rparr>,
          numThreads = 0 \<and> threadInitCallback p \<noteq> None))"

definition isFull :: "ThreadPool \<Rightarrow> bool" where
  "isFull p \<longleftrightarrow> 0 < maxQueueSize p \<and> maxQueueSize p \<le> length (pool_queue p)"

datatype run_result = Waits | Refused | Queued | RunHere

definition ThreadPool_run :: "nat \<Rightarrow> nat \<Rightarrow> task \<Rightarrow> ThreadPool \<Rightarrow> (run_result \<times> ThreadPool) res" where
  "ThreadPool_run t k task p =
     (if threads p = [] then Inr (RunHere, p)
      else if isFull p \<and> running p then Inr (Waits, p\<lparr>poolNotFull := cond_wait t (poolNotFull p)\<rparr>)
      else if \<not> running p then Inr (Refused, p)
      else bindE (assertE (\<not> isFull p)) (\<lambda>_.
           Inr (Queued, p\<lparr>pool_queue := pool_queue p @ [task], poolNotEmpty := cond_notify k (poolNotEmpty p)\<rparr>)))"

text \<open>\<open>None\<close>: the thread waits; \<open>Some None\<close>: it returns an empty task.\<close>

definition ThreadPool_take :: "nat \<Rightarrow> nat \<Rightarrow> ThreadPool \<Rightarrow> task option option \<times> ThreadPool" where
  "ThreadPool_take t k p =
     (if pool_queue p = [] \<and> running p then (None, p\<lparr>poolNotEmpty := cond_wait t (poolNotEmpty p)\<rparr>)
      else if pool_queue p \<noteq> []
      then let p1 = p\<lparr>pool_queue := tl (pool_queue p)\<rparr>
           in (Some (Some (hd (pool_queue p))),
               if 0 < maxQueueSize p then p1\<lparr>poolNotFull := cond_notify k (poolNotFull p1)\<rparr> else p1)
      else (Some None, p))"

text \<open>The first half of \<open>stop\<close>, under the mutex; then it joins the threads, each of which may be joined once.\<close>

definition stop_locked :: "ThreadPool \<Rightarrow> ThreadPool" where
  "stop_locked p = p\<lparr>running := False, poolNotEmpty := cond_notifyAll (poolNotEmpty p), poolNotFull := cond_notifyAll (poolNotFull p)\<rparr>"

definition join_threads :: "ThreadPool \<Rightarrow> ThreadPool res" where
  "join_threads p = bindE (assertE (threads p = [] \<or> \<not> joined p)) (\<lambda>_. Inr (p\<lparr>joined := True\<rparr>))"

definition queueSize :: "ThreadPool \<Rightarrow> nat" where
  "queueSize p = length (pool_queue p)"

definition resume :: "nat \<Rightarrow> ThreadPool \<Rightarrow> ThreadPool" where
  "resume t p = p\<lparr>poolNotEmpty := cond_resume t (poolNotEmpty p), poolNotFull := cond_resume t (poolNotFull p)\<rparr>"

section \<open>Its threads\<close>

datatype pool_call = Run task | Stop | Join

text \<open>
  A worker is at the head of its loop, in \<open>take\<close>, or in a task (the calls left of it); another thread has the calls left that it makes.
\<close>

datatype pool_phase = LoopHead | InTake | Calls "pool_call list" | Ended

record pool_system =
  pool :: ThreadPool
  phases :: "pool_phase list"
  accepted :: "task list"
  taken :: "task list"

definition is_worker :: "pool_system \<Rightarrow> nat \<Rightarrow> bool" where
  "is_worker s i \<longleftrightarrow> i < length (threads (pool s))"

text \<open>The pool after \<open>start\<close>: the workers begin with the init callback (\<open>runInThread\<close>), the
  caller and the other threads with their calls.\<close>

definition init_calls :: "ThreadPool \<Rightarrow> pool_call list" where
  "init_calls p = (case threadInitCallback p of None \<Rightarrow> [] | Some ts \<Rightarrow> map Run ts)"

definition new_system :: "nat \<Rightarrow> ThreadPool \<Rightarrow> pool_call list \<Rightarrow> pool_call list list \<Rightarrow> pool_system res" where
  "new_system n p caller others =
     bindE (ThreadPool_start n p) (\<lambda>(p', here).
     Inr \<lparr>pool = p',
          phases = replicate n (Calls (init_calls p)) @ Calls ((if here then init_calls p else []) @ caller) # map Calls others,
          accepted = [], taken = []\<rparr>)"

definition blocked_threads :: "pool_system \<Rightarrow> nat set" where
  "blocked_threads s = set (waiting (poolNotEmpty (pool s))) \<union> set (waiting (poolNotFull (pool s)))"

definition workers_ended :: "pool_system \<Rightarrow> bool" where
  "workers_ended s \<longleftrightarrow> list_all (\<lambda>ph. ph = Ended) (take (length (threads (pool s))) (phases s))"

text \<open>The thread \<open>i\<close> goes on from its phase.\<close>

fun pool_work :: "nat \<Rightarrow> nat \<Rightarrow> pool_phase \<Rightarrow> pool_system \<Rightarrow> pool_system res" where
  "pool_work i k LoopHead s = Inr (s\<lparr>phases := (phases s)[i := if running (pool s) then InTake else Ended]\<rparr>)"
| "pool_work i k InTake s =
     (case ThreadPool_take i k (resume i (pool s)) of
        (None, p) \<Rightarrow> Inr (s\<lparr>pool := p\<rparr>)
      | (Some None, p) \<Rightarrow> Inr (s\<lparr>pool := p, phases := (phases s)[i := LoopHead]\<rparr>)
      | (Some (Some task), p) \<Rightarrow>
          Inr (s\<lparr>pool := p, phases := (phases s)[i := Calls (map Run (submits task))], taken := taken s @ [task]\<rparr>))"
| "pool_work i k (Calls []) s = Inr (s\<lparr>phases := (phases s)[i := if is_worker s i then LoopHead else Ended]\<rparr>)"
| "pool_work i k (Calls (Run task # cs)) s =
     bindE (ThreadPool_run i k task (resume i (pool s))) (\<lambda>(result, p).
     Inr (case result of
            Waits \<Rightarrow> s\<lparr>pool := p\<rparr>
          | Refused \<Rightarrow> s\<lparr>pool := p, phases := (phases s)[i := Calls cs]\<rparr>
          | Queued \<Rightarrow> s\<lparr>pool := p, phases := (phases s)[i := Calls cs], accepted := accepted s @ [task]\<rparr>
          | RunHere \<Rightarrow> s\<lparr>pool := p, phases := (phases s)[i := Calls (map Run (submits task) @ cs)]\<rparr>))"
| "pool_work i k (Calls (Stop # cs)) s =
     Inr (s\<lparr>pool := stop_locked (pool s), phases := (phases s)[i := Calls (Join # cs)]\<rparr>)"
| "pool_work i k (Calls (Join # cs)) s =
     bindE (join_threads (pool s)) (\<lambda>p. Inr (s\<lparr>pool := p, phases := (phases s)[i := Calls cs]\<rparr>))"
| "pool_work i k Ended s = Inr s"

definition can_work :: "nat \<Rightarrow> pool_system \<Rightarrow> bool" where
  "can_work i s \<longleftrightarrow> i < length (phases s) \<and> phases s ! i \<noteq> Ended \<and> i \<notin> blocked_threads s
     \<and> (case phases s ! i of Calls (Join # cs) \<Rightarrow> workers_ended s | _ \<Rightarrow> True)"

inductive pool_step :: "pool_system \<Rightarrow> pool_system \<Rightarrow> bool" where
  pool_works: "can_work i s \<Longrightarrow> pool_work i k (phases s ! i) s = Inr s' \<Longrightarrow> pool_step s s'"

inductive pool_reaches :: "pool_system \<Rightarrow> pool_system \<Rightarrow> bool" where
  pool_refl: "pool_reaches s s"
| pool_more: "pool_reaches s s' \<Longrightarrow> pool_step s' s'' \<Longrightarrow> pool_reaches s s''"
| pool_spurious_taker: "pool_reaches s s' \<Longrightarrow> i \<in> set (waiting (poolNotEmpty (pool s'))) \<Longrightarrow>
    pool_reaches s (s'\<lparr>pool := (pool s')\<lparr>poolNotEmpty := cond_wake i (poolNotEmpty (pool s'))\<rparr>\<rparr>)"
| pool_spurious_putter: "pool_reaches s s' \<Longrightarrow> i \<in> set (waiting (poolNotFull (pool s'))) \<Longrightarrow>
    pool_reaches s (s'\<lparr>pool := (pool s')\<lparr>poolNotFull := cond_wake i (poolNotFull (pool s'))\<rparr>\<rparr>)"

inductive pool_runs :: "nat \<Rightarrow> pool_system \<Rightarrow> pool_system \<Rightarrow> bool" where
  pool_runs_0: "pool_runs 0 s s"
| pool_runs_Suc: "pool_step s s' \<Longrightarrow> pool_runs n s' s'' \<Longrightarrow> pool_runs (Suc n) s s''"

text \<open>A given order of the threads, with the choice of \<open>notify\<close> in each step.\<close>

fun schedule :: "(nat \<times> nat) list \<Rightarrow> pool_system \<Rightarrow> pool_system option" where
  "schedule [] s = Some s"
| "schedule ((i, k) # is) s =
     (if can_work i s then (case pool_work i k (phases s ! i) s of Inr s' \<Rightarrow> schedule is s' | Inl e \<Rightarrow> None) else None)"

lemma schedule_reaches: "schedule is s = Some s' \<Longrightarrow> pool_reaches s0 s \<Longrightarrow> pool_reaches s0 s'"
  by (induction "is" s rule: schedule.induct)
     (auto split: if_splits sum.splits intro: pool_more pool_works)

section \<open>The invariant\<close>

definition queue_ok :: "pool_system \<Rightarrow> bool" where
  "queue_ok s \<longleftrightarrow> accepted s = taken s @ pool_queue (pool s)
     \<and> (0 < maxQueueSize (pool s) \<longrightarrow> length (pool_queue (pool s)) \<le> maxQueueSize (pool s))"

definition waits_ok :: "ThreadPool \<Rightarrow> bool" where
  "waits_ok p \<longleftrightarrow>
     (if running p
      then covered (length (pool_queue p)) (poolNotEmpty p)
        \<and> (0 < maxQueueSize p \<longrightarrow> covered (maxQueueSize p - length (pool_queue p)) (poolNotFull p))
      else waiting (poolNotEmpty p) = [] \<and> waiting (poolNotFull p) = [])
     \<and> (maxQueueSize p = 0 \<longrightarrow> waiting (poolNotFull p) = [])"

fun in_run :: "pool_phase \<Rightarrow> bool" where
  "in_run (Calls (Run t # cs)) = True"
| "in_run _ = False"

definition inside_ok :: "ThreadPool \<Rightarrow> pool_phase list \<Rightarrow> bool" where
  "inside_ok p phs \<longleftrightarrow> (threads p = [] \<longrightarrow> inside (poolNotEmpty p) = [] \<and> inside (poolNotFull p) = [])
     \<and> distinct (inside (poolNotEmpty p)) \<and> distinct (inside (poolNotFull p))
     \<and> (\<forall>i \<in> set (inside (poolNotEmpty p)). i < length phs \<and> phs ! i = InTake)
     \<and> (\<forall>i \<in> set (inside (poolNotFull p)). i < length phs \<and> in_run (phs ! i))"

fun stops_of :: "pool_phase \<Rightarrow> nat" where
  "stops_of (Calls cs) = length (filter (\<lambda>c. c = Stop \<or> c = Join) cs)"
| "stops_of _ = 0"

definition shape_ok :: "pool_system \<Rightarrow> bool" where
  "shape_ok s \<longleftrightarrow> length (threads (pool s)) \<le> length (phases s)
     \<and> (\<forall>i < length (phases s). phases s ! i = LoopHead \<or> phases s ! i = InTake \<longrightarrow> is_worker s i)
     \<and> (\<forall>i < length (phases s). is_worker s i \<longrightarrow> stops_of (phases s ! i) = 0)
     \<and> sum_list (map stops_of (phases s)) + (if joined (pool s) then 1 else 0) \<le> 1"

definition pool_inv :: "pool_system \<Rightarrow> bool" where
  "pool_inv s \<longleftrightarrow> queue_ok s \<and> waits_ok (pool s) \<and> inside_ok (pool s) (phases s) \<and> shape_ok s"

lemma blocked_phase:
  assumes "inside_ok p phs"
  shows "phs ! i \<noteq> InTake \<Longrightarrow> i \<notin> set (inside (poolNotEmpty p))" "\<not> in_run (phs ! i) \<Longrightarrow> i \<notin> set (inside (poolNotFull p))"
  using assms by (auto simp: inside_ok_def)

lemma inside_ok_update:
  assumes "inside_ok p phs" "i \<notin> set (inside (poolNotEmpty p))" "i \<notin> set (inside (poolNotFull p))"
  shows "inside_ok p (phs[i := ph])"
proof -
  have "phs[i := ph] ! j = phs ! j" if "j \<noteq> i" for j using that by simp
  then show ?thesis using assms unfolding inside_ok_def by (metis length_list_update)
qed

lemma sum_stops: "i < length phs \<Longrightarrow> sum_list (map stops_of (phs[i := ph])) + stops_of (phs ! i) = sum_list (map stops_of phs) + stops_of ph"
  by (induction phs arbitrary: i) (auto simp: nth_Cons split: nat.splits)

lemma shape_ok_update:
  assumes "shape_ok s" "i < length (phases s)" "stops_of ph \<le> stops_of (phases s ! i)" "ph = LoopHead \<or> ph = InTake \<longrightarrow> is_worker s i"
    and "phases s' = (phases s)[i := ph]" "threads (pool s') = threads (pool s)" "joined (pool s') = joined (pool s)"
  shows "shape_ok s'"
  using assms sum_stops [OF assms(2), of ph] by (auto simp: shape_ok_def is_worker_def nth_list_update)

lemma stops_submits [simp]: "stops_of (Calls (map Run ts)) = 0" "stops_of (Calls (map Run ts @ cs)) = stops_of (Calls cs)"
  by (induction ts) auto

lemma resumed_outside: "i \<notin> set (inside (poolNotEmpty p)) \<Longrightarrow> i \<notin> set (inside (poolNotFull p)) \<Longrightarrow> resume i p = p"
  by (simp add: resume_def resume_outside)

lemma notify_idle [simp]: "waiting c = [] \<Longrightarrow> cond_notify k c = c"
  by (simp add: cond_notify_def)

text \<open>A worker in \<open>take\<close>.\<close>

lemma taker_resumed:
  assumes inv: "pool_inv s" and i: "i < length (phases s)" "phases s ! i = InTake" "i \<notin> blocked_threads s"
  defines "p \<equiv> resume i (pool s)"
  shows "poolNotFull p = poolNotFull (pool s)" "inside (poolNotEmpty p) = removeAll i (inside (poolNotEmpty (pool s)))"
    "i \<notin> set (inside (poolNotFull p))"
    "running p \<Longrightarrow> covered (length (pool_queue p) - 1) (poolNotEmpty p)" "waiting (poolNotEmpty p) = waiting (poolNotEmpty (pool s))"
    "pool_queue p = pool_queue (pool s)" "running p = running (pool s)" "maxQueueSize p = maxQueueSize (pool s)"
    "threads p = threads (pool s)" "joined p = joined (pool s)"
proof -
  have out: "i \<notin> set (inside (poolNotFull (pool s)))" using inv i by (intro blocked_phase(2)) (auto simp: pool_inv_def)
  then show "poolNotFull p = poolNotFull (pool s)" "i \<notin> set (inside (poolNotFull p))" by (simp_all add: p_def resume_def resume_outside)
  show "inside (poolNotEmpty p) = removeAll i (inside (poolNotEmpty (pool s)))"
    using i(3) by (simp add: p_def resume_def inside_resume blocked_threads_def)
  show "running p \<Longrightarrow> covered (length (pool_queue p) - 1) (poolNotEmpty p)"
    using inv covered_resume by (simp add: p_def resume_def pool_inv_def waits_ok_def inside_ok_def)
qed (simp_all add: p_def resume_def)

lemma putter_resumed:
  assumes inv: "pool_inv s" and i: "i < length (phases s)" "phases s ! i = Calls (Run t # cs)" "i \<notin> blocked_threads s"
  defines "p \<equiv> resume i (pool s)"
  shows "poolNotEmpty p = poolNotEmpty (pool s)" "inside (poolNotFull p) = removeAll i (inside (poolNotFull (pool s)))"
    "i \<notin> set (inside (poolNotEmpty p))"
    "running p \<Longrightarrow> 0 < maxQueueSize p \<Longrightarrow> covered (maxQueueSize p - length (pool_queue p) - 1) (poolNotFull p)"
    "waiting (poolNotFull p) = waiting (poolNotFull (pool s))"
    "pool_queue p = pool_queue (pool s)" "running p = running (pool s)" "maxQueueSize p = maxQueueSize (pool s)"
    "threads p = threads (pool s)" "joined p = joined (pool s)"
proof -
  have out: "i \<notin> set (inside (poolNotEmpty (pool s)))" using inv i by (intro blocked_phase(1)) (auto simp: pool_inv_def)
  then show "poolNotEmpty p = poolNotEmpty (pool s)" "i \<notin> set (inside (poolNotEmpty p))" by (simp_all add: p_def resume_def resume_outside)
  show "inside (poolNotFull p) = removeAll i (inside (poolNotFull (pool s)))"
    using i(3) by (simp add: p_def resume_def inside_resume blocked_threads_def)
  show "running p \<Longrightarrow> 0 < maxQueueSize p \<Longrightarrow> covered (maxQueueSize p - length (pool_queue p) - 1) (poolNotFull p)"
    using inv covered_resume [of "maxQueueSize (pool s) - length (pool_queue (pool s))" "poolNotFull (pool s)" i] by (simp add: p_def resume_def pool_inv_def waits_ok_def inside_ok_def)
qed (simp_all add: p_def resume_def)

text \<open>Each kind of step keeps the invariant and does not fail.\<close>

lemma take_step:
  assumes inv: "pool_inv s" and i: "i < length (phases s)" "phases s ! i = InTake" "i \<notin> blocked_threads s"
  shows "\<exists>s'. pool_work i k InTake s = Inr s' \<and> pool_inv s'"
proof -
  define p where "p = resume i (pool s)"
  note p = taker_resumed [OF inv i, folded p_def]
  have s: "queue_ok s" "waits_ok (pool s)" "inside_ok (pool s) (phases s)" "shape_ok s" using inv by (simp_all add: pool_inv_def)
  have worker: "is_worker s i" using s(4) i(1,2) by (simp add: shape_ok_def)
  have out: "i \<notin> set (inside (poolNotEmpty p))" using p(2) by simp
  have "\<And>j. j \<in> set (inside (poolNotEmpty p)) \<Longrightarrow> j \<in> set (inside (poolNotEmpty (pool s)))" using p(2) by simp
  then have ins: "inside_ok p (phases s)" using s(3) p(1,2,9) by (auto simp: inside_ok_def distinct_removeAll)
  consider (wait) "pool_queue p = []" "running p" | (none) "pool_queue p = []" "\<not> running p" | (item) t ts where "pool_queue p = t # ts"
    by (cases "pool_queue p") auto
  then show ?thesis
  proof cases
    case wait
    let ?p = "p\<lparr>poolNotEmpty := cond_wait i (poolNotEmpty p)\<rparr>"
    have "threads p \<noteq> []" using worker p(9) by (auto simp: is_worker_def)
    then have "inside_ok ?p (phases s)" using ins i(1,2) out by (simp add: inside_ok_def)
    moreover have "waits_ok ?p" using s(2) p wait by (simp add: waits_ok_def)
    moreover have "queue_ok (s\<lparr>pool := ?p\<rparr>)" "shape_ok (s\<lparr>pool := ?p\<rparr>)" using s(1,4) p by (simp_all add: queue_ok_def shape_ok_def is_worker_def)
    ultimately show ?thesis using wait by (simp add: p_def [symmetric] ThreadPool_take_def pool_inv_def)
  next
    case none
    have "inside_ok p ((phases s)[i := LoopHead])" by (rule inside_ok_update [OF ins out p(3)])
    moreover have "waits_ok p" using s(2) p none by (simp add: waits_ok_def)
    moreover have "queue_ok (s\<lparr>pool := p, phases := (phases s)[i := LoopHead]\<rparr>)" using s(1) p by (simp add: queue_ok_def)
    moreover have "shape_ok (s\<lparr>pool := p, phases := (phases s)[i := LoopHead]\<rparr>)"
      by (rule shape_ok_update [OF s(4) i(1), of LoopHead]) (simp_all add: worker p)
    ultimately show ?thesis using none by (simp add: p_def [symmetric] ThreadPool_take_def pool_inv_def)
  next
    case item
    let ?p1 = "p\<lparr>pool_queue := ts\<rparr>"
    let ?p = "if 0 < maxQueueSize p then ?p1\<lparr>poolNotFull := cond_notify k (poolNotFull ?p1)\<rparr> else ?p1"
    let ?ph = "Calls (map Run (submits t))"
    let ?s = "s\<lparr>pool := ?p, phases := (phases s)[i := ?ph], taken := taken s @ [t]\<rparr>"
    have "threads p \<noteq> []" using worker p(9) by (auto simp: is_worker_def)
    then have "inside_ok ?p (phases s)" using ins by (simp add: inside_ok_def)
    then have "inside_ok ?p ((phases s)[i := ?ph])" using out p(3) by (intro inside_ok_update) simp_all
    moreover have "waits_ok ?p"
    proof (cases "running p")
      case True
      have "covered (maxQueueSize p - length ts) (cond_notify k (poolNotFull p))" if "0 < maxQueueSize p"
        using covered_notify [of "maxQueueSize p - length (pool_queue p)" "poolNotFull p" k] s(1,2) that True item p
        by (simp add: waits_ok_def queue_ok_def Suc_diff_Suc Suc_le_eq)
      then show ?thesis using s(2) True item p by (simp add: waits_ok_def)
    next
      case False
      then show ?thesis using s(2) p by (simp add: waits_ok_def)
    qed
    moreover have "pool_queue (pool s) = t # ts" using item p(6) by simp
    then have "queue_ok ?s" using s(1) p(8) by (auto simp: queue_ok_def)
    moreover have "shape_ok ?s" by (rule shape_ok_update [OF s(4) i(1), of ?ph]) (simp_all add: p)
    ultimately show ?thesis using item by (simp add: p_def [symmetric] ThreadPool_take_def pool_inv_def Let_def)
  qed
qed

lemma run_step:
  assumes inv: "pool_inv s" and i: "i < length (phases s)" "phases s ! i = Calls (Run t # cs)" "i \<notin> blocked_threads s"
  shows "\<exists>s'. pool_work i k (Calls (Run t # cs)) s = Inr s' \<and> pool_inv s'"
proof -
  define p where "p = resume i (pool s)"
  note p = putter_resumed [OF inv i, folded p_def]
  have s: "queue_ok s" "waits_ok (pool s)" "inside_ok (pool s) (phases s)" "shape_ok s" using inv by (simp_all add: pool_inv_def)
  have out: "i \<notin> set (inside (poolNotFull p))" using p(2) by simp
  have "\<And>j. j \<in> set (inside (poolNotFull p)) \<Longrightarrow> j \<in> set (inside (poolNotFull (pool s)))" using p(2) by simp
  then have ins: "inside_ok p (phases s)" using s(3) p(1,2,9) by (auto simp: inside_ok_def distinct_removeAll)
  have later: "inside_ok p ((phases s)[i := ph])" for ph by (rule inside_ok_update [OF ins p(3) out])
  have stay: "queue_ok (s\<lparr>pool := p, phases := phs\<rparr>)" for phs using s(1) p by (simp add: queue_ok_def)
  have shape: "shape_ok (s\<lparr>pool := q, phases := (phases s)[i := Calls ds]\<rparr>)"
      "shape_ok (s\<lparr>pool := q, phases := (phases s)[i := Calls ds], accepted := acc\<rparr>)"
    if "stops_of (Calls ds) \<le> stops_of (Calls (Run t # cs))" "threads q = threads p" "joined q = joined p" for q ds acc
    using that p i(2) by (auto intro!: shape_ok_update [OF s(4) i(1), of "Calls ds"])
  consider (here) "threads p = []" | (wait) "threads p \<noteq> []" "isFull p" "running p" | (refused) "threads p \<noteq> []" "\<not> running p"
    | (queued) "threads p \<noteq> []" "\<not> isFull p" "running p" by blast
  then show ?thesis
  proof cases
    case here
    then have "p = pool s" using s(3) p(9) resumed_outside [of i "pool s"] by (simp add: p_def inside_ok_def)
    then have "waits_ok p" using s(2) by simp
    then show ?thesis using here later stay shape(1) [of "map Run (submits t) @ cs" p]
      by (simp add: p_def [symmetric] ThreadPool_run_def pool_inv_def)
  next
    case wait
    let ?p = "p\<lparr>poolNotFull := cond_wait i (poolNotFull p)\<rparr>"
    have "inside_ok ?p (phases s)" using ins i(1,2) out wait(1) by (simp add: inside_ok_def)
    moreover have "waits_ok ?p" using s(2) p wait by (simp add: waits_ok_def isFull_def)
    moreover have "queue_ok (s\<lparr>pool := ?p\<rparr>)" "shape_ok (s\<lparr>pool := ?p\<rparr>)" using s(1,4) p by (simp_all add: queue_ok_def shape_ok_def is_worker_def)
    ultimately show ?thesis using wait by (simp add: p_def [symmetric] ThreadPool_run_def pool_inv_def)
  next
    case refused
    then have "waits_ok p" using s(2) p by (simp add: waits_ok_def)
    then show ?thesis using refused later stay shape(1) [of cs p] by (simp add: p_def [symmetric] ThreadPool_run_def pool_inv_def)
  next
    case queued
    let ?p = "p\<lparr>pool_queue := pool_queue p @ [t], poolNotEmpty := cond_notify k (poolNotEmpty p)\<rparr>"
    let ?s = "s\<lparr>pool := ?p, phases := (phases s)[i := Calls cs], accepted := accepted s @ [t]\<rparr>"
    have "inside_ok ?p ((phases s)[i := Calls cs])" using later [of "Calls cs"] queued(1) by (simp add: inside_ok_def)
    moreover have "waits_ok ?p"
      using s(2) p(1,4-8) queued(3) covered_notify by (auto simp: waits_ok_def)
    moreover have "queue_ok ?s" using s(1) p(6,8) queued(2) by (auto simp: queue_ok_def isFull_def)
    moreover have "shape_ok ?s" by (rule shape(2)) simp_all
    ultimately show ?thesis using queued by (simp add: p_def [symmetric] ThreadPool_run_def pool_inv_def)
  qed
qed

lemma stop_step:
  assumes inv: "pool_inv s" and i: "i < length (phases s)" "phases s ! i = Calls (Stop # cs)"
  shows "pool_inv (s\<lparr>pool := stop_locked (pool s), phases := (phases s)[i := Calls (Join # cs)]\<rparr>)"
proof -
  have s: "queue_ok s" "waits_ok (pool s)" "inside_ok (pool s) (phases s)" "shape_ok s" using inv by (simp_all add: pool_inv_def)
  have "i \<notin> set (inside (poolNotEmpty (pool s)))" "i \<notin> set (inside (poolNotFull (pool s)))"
    using blocked_phase [OF s(3), of i] i(2) by simp_all
  then have "inside_ok (pool s) ((phases s)[i := Calls (Join # cs)])" by (intro inside_ok_update s(3))
  then have "inside_ok (stop_locked (pool s)) ((phases s)[i := Calls (Join # cs)])"
    by (auto simp: stop_locked_def inside_ok_def inside_def cond_notifyAll_def)
  moreover have "shape_ok (s\<lparr>pool := stop_locked (pool s), phases := (phases s)[i := Calls (Join # cs)]\<rparr>)"
    by (rule shape_ok_update [OF s(4) i(1), of "Calls (Join # cs)"]) (simp_all add: i(2) stop_locked_def)
  ultimately show ?thesis using s(1) by (simp add: pool_inv_def queue_ok_def waits_ok_def stop_locked_def cond_notifyAll_def)
qed

lemma join_step:
  assumes inv: "pool_inv s" and i: "i < length (phases s)" "phases s ! i = Calls (Join # cs)"
  shows "\<exists>s'. pool_work i k (Calls (Join # cs)) s = Inr s' \<and> pool_inv s'"
proof -
  have s: "queue_ok s" "waits_ok (pool s)" "inside_ok (pool s) (phases s)" "shape_ok s" using inv by (simp_all add: pool_inv_def)
  let ?s = "s\<lparr>pool := (pool s)\<lparr>joined := True\<rparr>, phases := (phases s)[i := Calls cs]\<rparr>"
  have stops: "sum_list (map stops_of ((phases s)[i := Calls cs])) + 1 = sum_list (map stops_of (phases s))"
    using sum_stops [OF i(1), of "Calls cs"] i(2) by simp
  then have once: "\<not> joined (pool s)" using s(4) by (auto simp: shape_ok_def split: if_splits)
  have "i \<notin> set (inside (poolNotEmpty (pool s)))" "i \<notin> set (inside (poolNotFull (pool s)))"
    using blocked_phase [OF s(3), of i] i(2) by simp_all
  then have "inside_ok (pool s) ((phases s)[i := Calls cs])" by (intro inside_ok_update s(3))
  moreover have "\<not> is_worker s i" using s(4) i by (auto simp: shape_ok_def)
  then have "shape_ok ?s" using s(4) stops once i(1) by (auto simp: shape_ok_def is_worker_def nth_list_update split: if_splits)
  ultimately have "pool_inv ?s" using s(1,2) by (simp add: pool_inv_def queue_ok_def waits_ok_def inside_ok_def)
  then show ?thesis using once by (simp add: join_threads_def)
qed

lemma phase_step:
  assumes inv: "pool_inv s" and i: "i < length (phases s)" "phases s ! i \<noteq> InTake" "\<not> in_run (phases s ! i)"
    and "stops_of ph = 0" "ph = LoopHead \<or> ph = InTake \<longrightarrow> is_worker s i"
  shows "pool_inv (s\<lparr>phases := (phases s)[i := ph]\<rparr>)"
proof -
  have s: "inside_ok (pool s) (phases s)" "shape_ok s" using inv by (simp_all add: pool_inv_def)
  have "inside_ok (pool s) ((phases s)[i := ph])" using blocked_phase [OF s(1), of i] i by (intro inside_ok_update s(1))
  moreover have "shape_ok (s\<lparr>phases := (phases s)[i := ph]\<rparr>)" by (rule shape_ok_update [OF s(2) i(1), of ph]) (use assms in simp_all)
  ultimately show ?thesis using inv by (simp add: pool_inv_def queue_ok_def)
qed

lemma pool_work_inv:
  assumes inv: "pool_inv s" and can: "can_work i s"
  shows "\<exists>s'. pool_work i k (phases s ! i) s = Inr s' \<and> pool_inv s'"
proof -
  have i: "i < length (phases s)" "i \<notin> blocked_threads s" using can by (simp_all add: can_work_def)
  have worker: "is_worker s i" if "phases s ! i = LoopHead \<or> phases s ! i = InTake"
    using inv i(1) that by (auto simp: pool_inv_def shape_ok_def)
  show ?thesis
  proof (cases "phases s ! i")
    case LoopHead
    then show ?thesis using phase_step [OF inv i(1)] worker by simp
  next
    case InTake
    then show ?thesis using take_step [OF inv i(1) _ i(2)] by simp
  next
    case (Calls cs)
    show ?thesis
    proof (cases cs)
      case Nil
      then show ?thesis using phase_step [OF inv i(1)] Calls by simp
    next
      case (Cons c ds)
      then show ?thesis
        using run_step [OF inv i(1) _ i(2)] stop_step [OF inv i(1)] join_step [OF inv i(1)] Calls by (cases c) (simp_all del: pool_work.simps(4,6))
    qed
  next
    case Ended
    then show ?thesis using can by (simp add: can_work_def)
  qed
qed

lemma pool_step_inv: "pool_step s s' \<Longrightarrow> pool_inv s \<Longrightarrow> pool_inv s'"
  by (elim pool_step.cases) (metis pool_work_inv sum.inject(2))

lemma waits_woken:
  assumes "waits_ok p"
  shows "i \<in> set (waiting (poolNotEmpty p)) \<Longrightarrow> waits_ok (p\<lparr>poolNotEmpty := cond_wake i (poolNotEmpty p)\<rparr>)"
    and "i \<in> set (waiting (poolNotFull p)) \<Longrightarrow> waits_ok (p\<lparr>poolNotFull := cond_wake i (poolNotFull p)\<rparr>)"
  using assms covered_woken [of _ "poolNotEmpty p" i] covered_woken [of _ "poolNotFull p" i] by (auto simp: waits_ok_def split: if_splits)

lemma inside_woken:
  assumes "inside_ok p phs"
  shows "i \<in> set (waiting (poolNotEmpty p)) \<Longrightarrow> inside_ok (p\<lparr>poolNotEmpty := cond_wake i (poolNotEmpty p)\<rparr>) phs"
    and "i \<in> set (waiting (poolNotFull p)) \<Longrightarrow> inside_ok (p\<lparr>poolNotFull := cond_wake i (poolNotFull p)\<rparr>) phs"
  using assms by (auto simp: inside_ok_def inside_def cond_wake_def)

lemma pool_reaches_inv: "pool_reaches s s' \<Longrightarrow> pool_inv s \<Longrightarrow> pool_inv s'"
proof (induction rule: pool_reaches.induct)
  case (pool_spurious_taker s s' i)
  then show ?case by (simp add: pool_inv_def waits_woken inside_woken) (simp add: queue_ok_def shape_ok_def is_worker_def)
next
  case (pool_spurious_putter s s' i)
  then show ?case by (simp add: pool_inv_def waits_woken inside_woken) (simp add: queue_ok_def shape_ok_def is_worker_def)
qed (auto intro: pool_step_inv)

section \<open>Tasks are done in order\<close>

definition unstarted :: "ThreadPool \<Rightarrow> bool" where
  "unstarted p \<longleftrightarrow> poolNotEmpty p = new_Condition \<and> poolNotFull p = new_Condition \<and> threads p = [] \<and> pool_queue p = [] \<and> \<not> joined p"

text \<open>The threads around the pool call \<open>run\<close>, and \<open>stop\<close> at most once.\<close>

definition one_stop :: "pool_call list list \<Rightarrow> bool" where
  "one_stop css \<longleftrightarrow> length (filter (\<lambda>c. c = Stop) (concat css)) \<le> 1 \<and> Join \<notin> set (concat css)"

lemma stops_clients: "Join \<notin> set (concat css) \<Longrightarrow> sum_list (map (stops_of \<circ> Calls) css) = length (filter (\<lambda>c. c = Stop) (concat css))"
  by (induction css) (auto intro!: arg_cong [of _ _ length] filter_cong)

lemma stops_init [simp]: "stops_of (Calls (init_calls p @ cs)) = stops_of (Calls cs)" "stops_of (Calls (init_calls p)) = 0"
  by (simp_all add: init_calls_def split: option.split del: stops_of.simps) simp_all

lemma new_system_inv:
  assumes "unstarted p" "one_stop (caller # others)" "new_system n p caller others = Inr s"
  shows "pool_inv s"
proof -
  have "sum_list (map stops_of (phases s)) = length (filter (\<lambda>c. c = Stop) (concat (caller # others)))"
    using assms stops_clients [of "caller # others"]
    by (auto simp: new_system_def ThreadPool_start_def unstarted_def one_stop_def sum_list_replicate simp del: stops_of.simps)
  moreover have "LoopHead \<notin> set (phases s)" "InTake \<notin> set (phases s)"
    using assms by (auto simp: new_system_def ThreadPool_start_def unstarted_def)
  then have "phases s ! i \<noteq> LoopHead \<and> phases s ! i \<noteq> InTake" if "i < length (phases s)" for i using that nth_mem by metis
  moreover have "length (threads (pool s)) \<le> length (phases s)" "\<not> joined (pool s)"
    using assms by (auto simp: new_system_def ThreadPool_start_def unstarted_def)
  moreover have "stops_of (phases s ! i) = 0" if "is_worker s i" for i
    using assms that by (auto simp: new_system_def ThreadPool_start_def unstarted_def is_worker_def nth_append simp del: stops_of.simps)
  ultimately have "shape_ok s" using assms(2) by (simp add: shape_ok_def one_stop_def del: stops_of.simps)
  then show ?thesis
    using assms(1,3) by (auto simp: new_system_def ThreadPool_start_def unstarted_def pool_inv_def queue_ok_def waits_ok_def inside_ok_def)
qed

text \<open>
  C27. A thread pool with any number of workers, any bound on its queue and any threads around it that hand it tasks and stop it at most once; tasks may hand it more tasks. At every
  moment the tasks that were started are those that were accepted, in order, without the ones still in the queue; the queue respects its bound; no assertion fails; and while the pool
  runs, no worker sleeps unless at least as many woken workers are on their way as there are tasks in the queue.
\<close>

theorem pool_tasks_in_order:
  assumes "unstarted p" "one_stop (caller # others)" "new_system n p caller others = Inr s0" "pool_reaches s0 s"
  shows "accepted s = taken s @ pool_queue (pool s)
    \<and> (0 < maxQueueSize (pool s) \<longrightarrow> length (pool_queue (pool s)) \<le> maxQueueSize (pool s))
    \<and> (can_work i s \<longrightarrow> (\<exists>s'. pool_work i k (phases s ! i) s = Inr s'))
    \<and> (running (pool s) \<and> waiting (poolNotEmpty (pool s)) \<noteq> [] \<longrightarrow> length (pool_queue (pool s)) \<le> length (woken (poolNotEmpty (pool s))))"
proof -
  have "pool_inv s" by (rule pool_reaches_inv [OF assms(4) new_system_inv [OF assms(1-3)]])
  with pool_work_inv [of s i k] show ?thesis by (auto simp: pool_inv_def queue_ok_def waits_ok_def covered_def)
qed

theorem pool_tasks_in_order_witness:
  "\<exists>s. schedule [(0, 0), (0, 0), (0, 0), (1, 0), (0, 0), (1, 0)]
       (projr (new_system 1 (setMaxQueueSize 1 (new_ThreadPool ''pool'')) [Run (Task 0 []), Run (Task 1 []), Stop] [])) = Some s
     \<and> accepted s = [Task 0 [], Task 1 []] \<and> accepted s = taken s @ pool_queue (pool s)"
proof -
  let ?p = "setMaxQueueSize 1 (new_ThreadPool ''pool'')" and ?cs = "[Run (Task 0 []), Run (Task 1 []), Stop]"
  let ?is = "[(0, 0), (0, 0), (0, 0), (1, 0), (0, 0), (1, 0)] :: (nat \<times> nat) list"
  obtain s0 where s0: "new_system 1 ?p ?cs [] = Inr s0" by (simp add: new_system_def ThreadPool_start_def setMaxQueueSize_def new_ThreadPool_def)
  have "map_option accepted (schedule ?is (projr (new_system 1 ?p ?cs []))) = Some [Task 0 [], Task 1 []]" by code_simp
  then obtain s where s: "schedule ?is s0 = Some s" "accepted s = [Task 0 [], Task 1 []]"
    unfolding s0 sum.sel map_option_eq_Some by blast
  have "unstarted ?p" "one_stop [?cs]" by (simp_all add: unstarted_def one_stop_def setMaxQueueSize_def new_ThreadPool_def)
  from pool_tasks_in_order [OF this s0 schedule_reaches [OF s(1) pool_refl]] s show ?thesis unfolding s0 sum.sel by blast
qed

section \<open>The pool stops\<close>

fun task_size :: "task \<Rightarrow> nat" where
  "task_size (Task n ts) = 1 + sum_list (map task_size ts)"

fun call_size :: "pool_call \<Rightarrow> nat" where
  "call_size (Run t) = 2 * task_size t"
| "call_size Stop = 2"
| "call_size Join = 1"

fun phase_size :: "pool_phase \<Rightarrow> nat" where
  "phase_size LoopHead = 1"
| "phase_size InTake = 2"
| "phase_size (Calls cs) = 2 + sum_list (map call_size cs)"
| "phase_size Ended = 0"

definition pool_work_left :: "pool_system \<Rightarrow> nat" where
  "pool_work_left s = sum_list (map phase_size (phases s)) + sum_list (map (\<lambda>t. 2 * task_size t) (pool_queue (pool s)))"

lemma sum_phases: "i < length phs \<Longrightarrow> sum_list (map phase_size (phs[i := ph])) + phase_size (phs ! i) = sum_list (map phase_size phs) + phase_size ph"
  by (induction phs arbitrary: i) (auto simp: nth_Cons split: nat.splits)

lemma submits_size [simp]: "sum_list (map call_size (map Run (submits t))) + 2 = 2 * task_size t"
  by (cases t) (simp add: sum_list_const_mult comp_def)

text \<open>Once the pool was stopped, every step of a thread uses up work.\<close>

lemma stopped_step:
  assumes inv: "pool_inv s" and stopped: "\<not> running (pool s)" and can: "can_work i s" and work: "pool_work i k (phases s ! i) s = Inr s'"
  shows "\<not> running (pool s')" "accepted s' = accepted s" "pool_work_left s' < pool_work_left s"
proof -
  have i: "i < length (phases s)" using can by (simp add: can_work_def)
  note sum = sum_phases [OF i]
  have "\<not> running (pool s') \<and> accepted s' = accepted s \<and> pool_work_left s' < pool_work_left s"
  proof (cases "phases s ! i")
    case LoopHead
    then show ?thesis using work stopped sum [of Ended] by (auto simp: pool_work_left_def)
  next
    case InTake
    show ?thesis
    proof (cases "pool_queue (pool s)")
      case Nil
      then show ?thesis using work stopped InTake sum [of LoopHead] by (auto simp: pool_work_left_def ThreadPool_take_def resume_def)
    next
      case (Cons t ts)
      then show ?thesis using work stopped InTake sum [of "Calls (map Run (submits t))"] submits_size [of t]
        by (cases "0 < maxQueueSize (pool s)") (auto simp: pool_work_left_def ThreadPool_take_def resume_def Let_def)
    qed
  next
    case (Calls cs)
    show ?thesis
    proof (cases cs)
      case Nil
      then show ?thesis using work stopped Calls sum [of LoopHead] sum [of Ended] by (auto simp: pool_work_left_def)
    next
      case (Cons c ds)
      show ?thesis
      proof (cases c)
        case (Run t)
        have "0 < task_size t" by (cases t) simp
        then show ?thesis using work stopped Calls Cons Run sum [of "Calls ds"] sum [of "Calls (map Run (submits t) @ ds)"] submits_size [of t]
          by (auto simp: pool_work_left_def ThreadPool_run_def resume_def split: if_splits)
      next
        case Stop
        then show ?thesis using work Calls Cons sum [of "Calls (Join # ds)"] by (auto simp: pool_work_left_def stop_locked_def)
      next
        case Join
        then show ?thesis using work stopped Calls Cons sum [of "Calls ds"] by (auto simp: pool_work_left_def join_threads_def fault_simps split: if_splits)
      qed
    qed
  next
    case Ended
    then show ?thesis using can by (simp add: can_work_def)
  qed
  then show "\<not> running (pool s')" "accepted s' = accepted s" "pool_work_left s' < pool_work_left s" by simp_all
qed

lemma stopped_runs:
  "pool_runs n s s' \<Longrightarrow> pool_inv s \<Longrightarrow> \<not> running (pool s) \<Longrightarrow> \<not> running (pool s') \<and> accepted s' = accepted s \<and> n + pool_work_left s' \<le> pool_work_left s"
proof (induction rule: pool_runs.induct)
  case (pool_runs_Suc s s' n s'')
  from pool_runs_Suc.hyps(1) have "\<not> running (pool s') \<and> accepted s' = accepted s \<and> pool_work_left s' < pool_work_left s"
    by (rule pool_step.cases) (use stopped_step pool_runs_Suc.prems in blast)
  then show ?case using pool_runs_Suc pool_step_inv by fastforce
qed simp

lemma stopped_rest:
  assumes inv: "pool_inv s" and stopped: "\<not> running (pool s)" and rest: "\<not> (\<exists>s'. pool_step s s')"
  shows "list_all (\<lambda>ph. ph = Ended) (phases s)"
proof -
  have blocked: "blocked_threads s = {}" using inv stopped by (simp add: pool_inv_def waits_ok_def blocked_threads_def)
  have stuck: "\<not> can_work i s" for i
    using pool_work_inv [OF inv, of i 0] rest by (blast intro: pool_works)
  have join: "phases s ! i = Ended \<or> (\<exists>cs. phases s ! i = Calls (Join # cs) \<and> \<not> workers_ended s)" if "i < length (phases s)" for i
    using stuck [of i] that blocked by (auto simp: can_work_def split: pool_phase.splits list.splits pool_call.splits)
  have "workers_ended s"
    unfolding workers_ended_def list_all_length
  proof (intro allI impI)
    fix i assume i: "i < length (take (length (threads (pool s))) (phases s))"
    then have "stops_of (phases s ! i) = 0" using inv by (auto simp: pool_inv_def shape_ok_def is_worker_def)
    then show "take (length (threads (pool s))) (phases s) ! i = Ended" using join [of i] i by auto
  qed
  then show ?thesis using join by (auto simp: list_all_length)
qed

text \<open>
  C28. Stopping: once \<open>stop\<close> has cleared \<open>running_\<close>, no further task is accepted, every run of the threads is finite, and when no thread can go on all of them have ended: the workers, wherever
  they were, and the thread in \<open>stop\<close>, whose \<open>join\<close> calls return. Tasks that are still in the queue then are dropped.
\<close>

theorem pool_stops:
  assumes "unstarted p" "one_stop (caller # others)" "new_system n p caller others = Inr s0" "pool_reaches s0 s" "\<not> running (pool s)"
  shows "(\<forall>m s'. pool_runs m s s' \<longrightarrow> m \<le> pool_work_left s \<and> accepted s' = accepted s \<and> \<not> running (pool s'))
    \<and> (\<not> (\<exists>s'. pool_step s s') \<longrightarrow> list_all (\<lambda>ph. ph = Ended) (phases s) \<and> accepted s = taken s @ pool_queue (pool s))"
proof -
  have inv: "pool_inv s" by (rule pool_reaches_inv [OF assms(4) new_system_inv [OF assms(1-3)]])
  then have "accepted s = taken s @ pool_queue (pool s)" by (simp add: pool_inv_def queue_ok_def)
  with stopped_runs [OF _ inv assms(5)] stopped_rest [OF inv assms(5)] show ?thesis by fastforce
qed

theorem pool_stops_witness:
  "\<exists>s. schedule [(1, 0), (1, 0), (1, 0), (0, 0), (0, 0), (1, 0), (1, 0)]
       (projr (new_system 1 (new_ThreadPool ''pool'') [Run (Task 0 []), Run (Task 1 []), Stop] [])) = Some s
     \<and> list_all (\<lambda>ph. ph = Ended) (phases s) \<and> accepted s = taken s @ [Task 0 [], Task 1 []]"
proof -
  let ?p = "new_ThreadPool ''pool''" and ?cs = "[Run (Task 0 []), Run (Task 1 []), Stop]"
  let ?is = "[(1, 0), (1, 0), (1, 0), (0, 0), (0, 0), (1, 0), (1, 0)] :: (nat \<times> nat) list"
  obtain s0 where s0: "new_system 1 ?p ?cs [] = Inr s0" by (simp add: new_system_def ThreadPool_start_def new_ThreadPool_def)
  have "map_option (\<lambda>s. (pool_queue (pool s), running (pool s), phases s)) (schedule ?is (projr (new_system 1 ?p ?cs [])))
      = Some ([Task 0 [], Task 1 []], False, [Ended, Ended])" by code_simp
  then obtain s where s: "schedule ?is s0 = Some s" "pool_queue (pool s) = [Task 0 [], Task 1 []]" "\<not> running (pool s)" "phases s = [Ended, Ended]"
    unfolding s0 sum.sel map_option_eq_Some by blast
  have rest: "\<not> (\<exists>s'. pool_step s s')" using s(4) by (auto elim!: pool_step.cases simp: can_work_def less_Suc_eq)
  have "unstarted ?p" "one_stop [?cs]" by (simp_all add: unstarted_def one_stop_def new_ThreadPool_def)
  from pool_stops [OF this s0 schedule_reaches [OF s(1) pool_refl] s(3)] rest s(1,2) show ?thesis unfolding s0 sum.sel by metis
qed

end
