(* ===== verification/Log_Format.thy ===== *)
theory Log_Format
  imports Complex_Main Prelude
begin

text \<open>
  \<open>formatSI\<close> and \<open>formatIEC\<close> of \<open>base/LogStream.cc\<close>. The numbers of type \<open>double\<close> that occur are at least one half and below \<open>2\<^sup>6\<^sup>4\<close>: a result is the
  exact one rounded to 53 binary digits, to the even neighbour when two are equally near. \<open>snprintf\<close> with \<open>%.kf\<close> rounds the exact value of its argument
  to \<open>k\<close> decimals in the same way. Numbers are rationals, so both can be computed.
\<close>

section \<open>Rounding\<close>

definition nearest_even :: "rat \<Rightarrow> int" where
  "nearest_even x =
     (let f = \<lfloor>x\<rfloor>; d = x - of_int f
      in if d < 1 / 2 then f else if 1 / 2 < d then f + 1 else if even f then f else f + 1)"

text \<open>The exponent of the highest binary digit of an integer; that of \<open>2 * x\<close> gives the unit of the last of the 53 digits of \<open>x\<close>.\<close>

function binade :: "int \<Rightarrow> nat" where
  "binade n = (if n \<le> 1 then 0 else Suc (binade (n div 2)))"
  by pat_completeness auto
termination
  by (relation "measure nat") auto

declare binade.simps [simp del]

definition ulp :: "rat \<Rightarrow> rat" where
  "ulp x = 2 ^ binade \<lfloor>2 * x\<rfloor> / 2 ^ 53"

definition to_double :: "rat \<Rightarrow> rat" where
  "to_double x = of_int (nearest_even (x / ulp x)) * ulp x"

text \<open>The text of a non-negative number with \<open>k\<close> decimals.\<close>

definition fixed_text :: "nat \<Rightarrow> rat \<Rightarrow> string" where
  "fixed_text k x =
     (let N = nat (nearest_even (x * 10 ^ k)); frac = show_nat (N mod 10 ^ k)
      in show_nat (N div 10 ^ k) @ (if k = 0 then [] else ''.'' @ replicate (k - length frac) (CHR ''0'') @ frac))"

section \<open>The function\<close>

text \<open>\<open>n/d\<close> in double precision, printed with \<open>k\<close> decimals.\<close>

definition quotient_text :: "nat \<Rightarrow> int \<Rightarrow> int \<Rightarrow> string" where
  "quotient_text k s d = fixed_text k (to_double (to_double (of_int s) / of_int d))"

definition formatSI :: "int \<Rightarrow> string" where
  "formatSI s =
     (if s < 1000 then show_int s
      else if s < 9995 then quotient_text 2 s (10 ^ 3) @ ''k''
      else if s < 99950 then quotient_text 1 s (10 ^ 3) @ ''k''
      else if s < 999500 then quotient_text 0 s (10 ^ 3) @ ''k''
      else if s < 9995000 then quotient_text 2 s (10 ^ 6) @ ''M''
      else if s < 99950000 then quotient_text 1 s (10 ^ 6) @ ''M''
      else if s < 999500000 then quotient_text 0 s (10 ^ 6) @ ''M''
      else if s < 9995000000 then quotient_text 2 s (10 ^ 9) @ ''G''
      else if s < 99950000000 then quotient_text 1 s (10 ^ 9) @ ''G''
      else if s < 999500000000 then quotient_text 0 s (10 ^ 9) @ ''G''
      else if s < 9995000000000 then quotient_text 2 s (10 ^ 12) @ ''T''
      else if s < 99950000000000 then quotient_text 1 s (10 ^ 12) @ ''T''
      else if s < 999500000000000 then quotient_text 0 s (10 ^ 12) @ ''T''
      else if s < 9995000000000000 then quotient_text 2 s (10 ^ 15) @ ''P''
      else if s < 99950000000000000 then quotient_text 1 s (10 ^ 15) @ ''P''
      else if s < 999500000000000000 then quotient_text 0 s (10 ^ 15) @ ''P''
      else quotient_text 2 s (10 ^ 18) @ ''E'')"

section \<open>Rounding is monotone\<close>

lemma nearest_even_bounds: "of_int \<lfloor>x\<rfloor> \<le> (of_int (nearest_even x) :: rat)" "nearest_even x \<le> \<lfloor>x\<rfloor> + 1"
  by (simp_all add: nearest_even_def Let_def)

lemma nearest_even_mono:
  assumes "x \<le> y"
  shows "nearest_even x \<le> nearest_even y"
proof (cases "\<lfloor>x\<rfloor> = \<lfloor>y\<rfloor>")
  case True
  with assms show ?thesis by (auto simp: nearest_even_def Let_def)
next
  case False
  with assms have "\<lfloor>x\<rfloor> + 1 \<le> \<lfloor>y\<rfloor>" using floor_mono [OF assms] by linarith
  with nearest_even_bounds(2) [of x] nearest_even_bounds(1) [of y] show ?thesis by linarith
qed

lemma nearest_even_int [simp]: "nearest_even (of_int n) = n"
  by (simp add: nearest_even_def)

lemma binade_bounds: "1 \<le> n \<Longrightarrow> 2 ^ binade n \<le> n \<and> n < 2 ^ Suc (binade n)"
proof (induction n rule: binade.induct)
  case (1 n)
  show ?case
  proof (cases "n \<le> 1")
    case True
    with 1 have "n = 1" by simp
    then show ?thesis by (simp add: binade.simps [of 1])
  next
    case False
    then have "2 ^ binade (n div 2) \<le> n div 2 \<and> n div 2 < 2 ^ Suc (binade (n div 2))" by (intro "1.IH") auto
    with False show ?thesis by (simp add: binade.simps [of n]) linarith
  qed
qed

lemma binade_mono: "m \<le> n \<Longrightarrow> binade m \<le> binade n"
proof (induction m arbitrary: n rule: binade.induct)
  case (1 m)
  then show ?case by (auto simp: binade.simps [of m] binade.simps [of n])
qed

lemma ulp_pos [simp]: "0 < ulp x"
  by (simp add: ulp_def)

lemma double_range:
  assumes "1 / 2 \<le> x"
  shows "2 ^ binade \<lfloor>2 * x\<rfloor> \<le> 2 * to_double x" "to_double x \<le> 2 ^ binade \<lfloor>2 * x\<rfloor>"
proof -
  let ?e = "binade \<lfloor>2 * x\<rfloor>"
  have fl: "2 ^ ?e \<le> \<lfloor>2 * x\<rfloor>" "\<lfloor>2 * x\<rfloor> < 2 ^ Suc ?e" using binade_bounds assms by auto
  have "(2 ^ ?e :: rat) \<le> 2 * x"
    using fl(1) by (metis le_floor_iff of_int_numeral of_int_power)
  moreover have "2 * x < (2 ^ Suc ?e :: rat)"
    using fl(2) by (metis floor_less_iff of_int_numeral of_int_power)
  ultimately have "of_int (2 ^ 52) \<le> x / ulp x" "x / ulp x \<le> of_int (2 ^ 53)"
    by (simp_all add: ulp_def field_simps)
  then have "2 ^ 52 \<le> nearest_even (x / ulp x)" "nearest_even (x / ulp x) \<le> 2 ^ 53"
    using nearest_even_mono nearest_even_int by metis+
  then have "(2 ^ 52 :: rat) \<le> of_int (nearest_even (x / ulp x))" "of_int (nearest_even (x / ulp x)) \<le> (2 ^ 53 :: rat)"
    by (metis of_int_le_iff of_int_numeral of_int_power)+
  then have "2 ^ 52 * ulp x \<le> to_double x" "to_double x \<le> 2 ^ 53 * ulp x"
    unfolding to_double_def by (simp_all add: mult_right_mono)
  then show "2 ^ ?e \<le> 2 * to_double x" "to_double x \<le> 2 ^ ?e"
    by (simp_all add: ulp_def)
qed

lemma to_double_mono:
  assumes "1 / 2 \<le> x" "x \<le> y"
  shows "to_double x \<le> to_double y"
proof (cases "binade \<lfloor>2 * x\<rfloor> = binade \<lfloor>2 * y\<rfloor>")
  case True
  then have "ulp x = ulp y" by (simp add: ulp_def)
  then show ?thesis
    using assms(2) by (simp add: to_double_def nearest_even_mono divide_right_mono mult_right_mono less_imp_le)
next
  case False
  have "binade \<lfloor>2 * x\<rfloor> \<le> binade \<lfloor>2 * y\<rfloor>" using assms(2) by (intro binade_mono floor_mono) simp
  with False have "(2 ^ Suc (binade \<lfloor>2 * x\<rfloor>) :: rat) \<le> 2 ^ binade \<lfloor>2 * y\<rfloor>" by (intro power_increasing) auto
  then have "2 * 2 ^ binade \<lfloor>2 * x\<rfloor> \<le> (2 ^ binade \<lfloor>2 * y\<rfloor> :: rat)" by simp
  with double_range(2) [OF assms(1)] double_range(1) [of y] assms show ?thesis by linarith
qed

section \<open>The length of the text\<close>

text \<open>The digits of the text as one number.\<close>

definition scaled :: "nat \<Rightarrow> int \<Rightarrow> int \<Rightarrow> int" where
  "scaled k s d = nearest_even (to_double (to_double (of_int s) / of_int d) * 10 ^ k)"

lemma scaled_mono:
  assumes "2 \<le> d" "d \<le> 2 * s" "s \<le> s'" "to_double (of_int d / 2) = of_int d / 2"
  shows "scaled k s d \<le> scaled k s' d"
proof -
  have half: "1 / 2 \<le> (of_int d / 2 :: rat)" "of_int d / 2 \<le> (of_int s :: rat)"
  proof -
    have "(2 :: rat) \<le> of_int d" using assms(1) by (metis of_int_le_iff of_int_numeral)
    moreover have "(of_int d :: rat) \<le> 2 * of_int s" using assms(2) by (metis of_int_le_iff of_int_mult of_int_numeral)
    ultimately show "1 / 2 \<le> (of_int d / 2 :: rat)" "of_int d / 2 \<le> (of_int s :: rat)" by simp_all
  qed
  then have "of_int d / 2 \<le> to_double (of_int s)" "to_double (of_int s) \<le> to_double (of_int s')"
    using to_double_mono [OF half] to_double_mono [of "of_int s" "of_int s'"] assms by simp_all
  moreover from this(1) assms(1) have "1 / 2 \<le> to_double (of_int s) / of_int d" by (simp add: field_simps)
  ultimately have "to_double (to_double (of_int s) / of_int d) \<le> to_double (to_double (of_int s') / of_int d)"
    using assms(1) by (intro to_double_mono) (simp_all add: divide_right_mono)
  then show ?thesis
    unfolding scaled_def by (intro nearest_even_mono) simp
qed

lemma fixed_text_length:
  assumes "k \<le> 2" "nearest_even (x * 10 ^ k) < (if k = 0 then 10000 else 1000)"
  shows "length (fixed_text k x) \<le> 4"
proof -
  let ?N = "nat (nearest_even (x * 10 ^ k))"
  have N: "?N < (if k = 0 then 10000 else 1000)" using assms(2) by auto
  consider "k = 0" | "k = 1" | "k = 2" using assms(1) by linarith
  then show ?thesis
  proof cases
    case 1
    with N have "length (show_nat ?N) \<le> 4" by (intro show_nat_length) auto
    with 1 show ?thesis by (simp add: fixed_text_def)
  next
    case 2
    with N have "length (show_nat (?N div 10)) \<le> 2" "length (show_nat (?N mod 10)) \<le> 1"
      by (intro show_nat_length; simp)+
    with 2 show ?thesis by (simp add: fixed_text_def Let_def)
  next
    case 3
    with N have "length (show_nat (?N div 100)) \<le> 1" "length (show_nat (?N mod 100)) \<le> 2"
      by (intro show_nat_length; simp)+
    with 3 show ?thesis by (simp add: fixed_text_def Let_def)
  qed
qed

lemma quotient_length:
  assumes "to_double (of_int d / 2) = of_int d / 2" "scaled k m d < (if k = 0 then 10000 else 1000)" "k \<le> 2" "2 \<le> d" "d \<le> 2 * s" "s \<le> m"
  shows "length (quotient_text k s d @ [c]) \<le> 5"
proof -
  have "scaled k s d < (if k = 0 then 10000 else 1000)"
    using scaled_mono [OF assms(4,5,6,1), of k] assms(2) by linarith
  from fixed_text_length [OF assms(3) this [unfolded scaled_def]] show ?thesis by (simp add: quotient_text_def)
qed

text \<open>The same with integers only, to compute the ends of the branches.\<close>

definition nearest_quotient :: "int \<Rightarrow> int \<Rightarrow> int" where
  "nearest_quotient p q =
     (let f = p div q; r = 2 * (p mod q) in if r < q then f else if q < r then f + 1 else if even f then f else f + 1)"

definition double_digits :: "int \<Rightarrow> int \<Rightarrow> int" where
  "double_digits p q = (let u = 2 ^ binade (2 * p div q) in nearest_quotient (p * 2 ^ 53) (q * u) * u)"

definition scaled_int :: "nat \<Rightarrow> int \<Rightarrow> int \<Rightarrow> int" where
  "scaled_int k s d = nearest_quotient (double_digits (double_digits s 1) (2 ^ 53 * d) * 10 ^ k) (2 ^ 53)"

lemma nearest_quotient: "0 < q \<Longrightarrow> nearest_even (of_int p / of_int q) = nearest_quotient p q"
proof -
  assume q: "0 < q"
  have fl: "\<lfloor>of_int p / of_int q :: rat\<rfloor> = p div q" by (rule floor_divide_of_int_eq)
  have "(of_int p :: rat) = of_int (p div q) * of_int q + of_int (p mod q)"
    by (metis div_mult_mod_eq of_int_add of_int_mult)
  then have d: "(of_int p / of_int q :: rat) - of_int (p div q) = of_int (p mod q) / of_int q"
    using q by (simp add: field_simps)
  have "(of_int (p mod q) / of_int q < (1 / 2 :: rat)) = (2 * (p mod q) < q)"
    using q by (simp add: field_simps) (metis of_int_less_iff of_int_mult of_int_numeral mult.commute)
  moreover have "((1 / 2 :: rat) < of_int (p mod q) / of_int q) = (q < 2 * (p mod q))"
    using q by (simp add: field_simps) (metis of_int_less_iff of_int_mult of_int_numeral mult.commute)
  ultimately show ?thesis
    unfolding nearest_even_def nearest_quotient_def Let_def fl d by simp
qed

lemma double_digits: "0 < q \<Longrightarrow> to_double (of_int p / of_int q) = of_int (double_digits p q) / 2 ^ 53"
proof -
  assume q: "0 < q"
  let ?u = "2 ^ binade (2 * p div q)"
  have "\<lfloor>2 * (of_int p / of_int q) :: rat\<rfloor> = 2 * p div q"
    using floor_divide_of_int_eq [of "2 * p" q] by simp
  then have u: "ulp (of_int p / of_int q) = of_int ?u / 2 ^ 53" by (simp add: ulp_def)
  have "of_int p / of_int q / (of_int ?u / 2 ^ 53) = (of_int (p * 2 ^ 53) / of_int (q * ?u) :: rat)"
    by simp
  then have "nearest_even (of_int p / of_int q / (of_int ?u / 2 ^ 53)) = nearest_quotient (p * 2 ^ 53) (q * ?u)"
    using nearest_quotient [of "q * ?u" "p * 2 ^ 53"] q by simp
  then show ?thesis
    unfolding to_double_def u double_digits_def Let_def by simp
qed

lemma scaled_int: "0 < d \<Longrightarrow> scaled k s d = scaled_int k s d"
proof -
  assume d: "0 < d"
  let ?a = "double_digits s 1"
  have "to_double (of_int s) = of_int ?a / 2 ^ 53" using double_digits [of 1 s] by simp
  then have "to_double (of_int s) / of_int d = of_int ?a / of_int (2 ^ 53 * d)" using d by (simp add: field_simps)
  then have "to_double (to_double (of_int s) / of_int d) = of_int (double_digits ?a (2 ^ 53 * d)) / 2 ^ 53"
    using double_digits [of "2 ^ 53 * d" ?a] d by simp
  then have eq: "to_double (to_double (of_int s) / of_int d) * 10 ^ k = of_int (double_digits ?a (2 ^ 53 * d) * 10 ^ k) / of_int (2 ^ 53)"
    by simp
  show ?thesis
    unfolding scaled_def scaled_int_def eq by (rule nearest_quotient) simp
qed

lemma exact_half: "double_digits d 2 * 2 = d * 2 ^ 53 \<Longrightarrow> to_double (of_int d / 2) = of_int d / 2"
proof -
  assume "double_digits d 2 * 2 = d * 2 ^ 53"
  then have "(of_int (double_digits d 2) * 2 :: rat) = of_int d * 2 ^ 53"
    by (metis of_int_mult of_int_numeral of_int_power)
  with double_digits [of 2 d] show ?thesis by (simp add: field_simps)
qed

lemma exact_units: "to_double (of_int (10 ^ 3) / 2) = of_int (10 ^ 3) / 2" "to_double (of_int (10 ^ 6) / 2) = of_int (10 ^ 6) / 2"
  "to_double (of_int (10 ^ 9) / 2) = of_int (10 ^ 9) / 2" "to_double (of_int (10 ^ 12) / 2) = of_int (10 ^ 12) / 2"
  "to_double (of_int (10 ^ 15) / 2) = of_int (10 ^ 15) / 2" "to_double (of_int (10 ^ 18) / 2) = of_int (10 ^ 18) / 2"
  by (rule exact_half, code_simp)+

lemma largest_digits:
  "scaled_int 2 9994 (10 ^ 3) < (if 2 = (0 :: nat) then 10000 else 1000)"
  "scaled_int 1 99949 (10 ^ 3) < (if 1 = (0 :: nat) then 10000 else 1000)"
  "scaled_int 0 999499 (10 ^ 3) < (if 0 = (0 :: nat) then 10000 else 1000)"
  "scaled_int 2 9994999 (10 ^ 6) < (if 2 = (0 :: nat) then 10000 else 1000)"
  "scaled_int 1 99949999 (10 ^ 6) < (if 1 = (0 :: nat) then 10000 else 1000)"
  "scaled_int 0 999499999 (10 ^ 6) < (if 0 = (0 :: nat) then 10000 else 1000)"
  "scaled_int 2 9994999999 (10 ^ 9) < (if 2 = (0 :: nat) then 10000 else 1000)"
  "scaled_int 1 99949999999 (10 ^ 9) < (if 1 = (0 :: nat) then 10000 else 1000)"
  "scaled_int 0 999499999999 (10 ^ 9) < (if 0 = (0 :: nat) then 10000 else 1000)"
  "scaled_int 2 9994999999999 (10 ^ 12) < (if 2 = (0 :: nat) then 10000 else 1000)"
  "scaled_int 1 99949999999999 (10 ^ 12) < (if 1 = (0 :: nat) then 10000 else 1000)"
  "scaled_int 0 999499999999999 (10 ^ 12) < (if 0 = (0 :: nat) then 10000 else 1000)"
  "scaled_int 2 9994999999999999 (10 ^ 15) < (if 2 = (0 :: nat) then 10000 else 1000)"
  "scaled_int 1 99949999999999991 (10 ^ 15) < (if 1 = (0 :: nat) then 10000 else 1000)"
  "scaled_int 0 999499999999999999 (10 ^ 15) < (if 0 = (0 :: nat) then 10000 else 1000)"
  "scaled_int 2 9223372036854775807 (10 ^ 18) < (if 2 = (0 :: nat) then 10000 else 1000)"
  by code_simp+

lemma largest_texts:
  "scaled 2 9994 (10 ^ 3) < (if 2 = (0 :: nat) then 10000 else 1000)"
  "scaled 1 99949 (10 ^ 3) < (if 1 = (0 :: nat) then 10000 else 1000)"
  "scaled 0 999499 (10 ^ 3) < (if 0 = (0 :: nat) then 10000 else 1000)"
  "scaled 2 9994999 (10 ^ 6) < (if 2 = (0 :: nat) then 10000 else 1000)"
  "scaled 1 99949999 (10 ^ 6) < (if 1 = (0 :: nat) then 10000 else 1000)"
  "scaled 0 999499999 (10 ^ 6) < (if 0 = (0 :: nat) then 10000 else 1000)"
  "scaled 2 9994999999 (10 ^ 9) < (if 2 = (0 :: nat) then 10000 else 1000)"
  "scaled 1 99949999999 (10 ^ 9) < (if 1 = (0 :: nat) then 10000 else 1000)"
  "scaled 0 999499999999 (10 ^ 9) < (if 0 = (0 :: nat) then 10000 else 1000)"
  "scaled 2 9994999999999 (10 ^ 12) < (if 2 = (0 :: nat) then 10000 else 1000)"
  "scaled 1 99949999999999 (10 ^ 12) < (if 1 = (0 :: nat) then 10000 else 1000)"
  "scaled 0 999499999999999 (10 ^ 12) < (if 0 = (0 :: nat) then 10000 else 1000)"
  "scaled 2 9994999999999999 (10 ^ 15) < (if 2 = (0 :: nat) then 10000 else 1000)"
  "scaled 1 99949999999999991 (10 ^ 15) < (if 1 = (0 :: nat) then 10000 else 1000)"
  "scaled 0 999499999999999999 (10 ^ 15) < (if 0 = (0 :: nat) then 10000 else 1000)"
  "scaled 2 9223372036854775807 (10 ^ 18) < (if 2 = (0 :: nat) then 10000 else 1000)"
  by (simp_all only: scaled_int largest_digits zero_less_power zero_less_numeral)

lemmas SI_lengths =
  quotient_length [OF exact_units(1) largest_texts(1)]
  quotient_length [OF exact_units(1) largest_texts(2)]
  quotient_length [OF exact_units(1) largest_texts(3)]
  quotient_length [OF exact_units(2) largest_texts(4)]
  quotient_length [OF exact_units(2) largest_texts(5)]
  quotient_length [OF exact_units(2) largest_texts(6)]
  quotient_length [OF exact_units(3) largest_texts(7)]
  quotient_length [OF exact_units(3) largest_texts(8)]
  quotient_length [OF exact_units(3) largest_texts(9)]
  quotient_length [OF exact_units(4) largest_texts(10)]
  quotient_length [OF exact_units(4) largest_texts(11)]
  quotient_length [OF exact_units(4) largest_texts(12)]
  quotient_length [OF exact_units(5) largest_texts(13)]
  quotient_length [OF exact_units(5) largest_texts(14)]
  quotient_length [OF exact_units(5) largest_texts(15)]
  quotient_length [OF exact_units(6) largest_texts(16)]

lemma if_cases_le: "(b \<Longrightarrow> length x \<le> n) \<Longrightarrow> (\<not> b \<Longrightarrow> length y \<le> n) \<Longrightarrow> length (if b then x else y) \<le> n"
  by simp

lemma formatSI_short:
  assumes "0 \<le> s" "s < 2 ^ 63" "\<not> (99949999999999992 \<le> s \<and> s < 99950000000000000)"
  shows "length (formatSI s) \<le> 5"
proof -
  have "length (show_int s) \<le> 3" if "s < 1000"
  proof -
    have "length (show_nat (nat s)) \<le> 3" using that by (intro show_nat_length) auto
    with assms(1) show ?thesis by (simp add: show_int_def)
  qed
  then have "length (show_int s) \<le> 5" if "s < 1000" using that by simp
  with assms show ?thesis
    unfolding formatSI_def by (intro if_cases_le SI_lengths) simp_all
qed

lemma formatSI_long:
  assumes "99949999999999992 \<le> s" "s < 99950000000000000"
  shows "formatSI s = ''100.0P''"
proof -
  have "scaled_int 1 99949999999999992 (10 ^ 15) = 1000" "scaled_int 1 99949999999999999 (10 ^ 15) = 1000" by code_simp+
  then have "scaled 1 99949999999999992 (10 ^ 15) = 1000" "scaled 1 99949999999999999 (10 ^ 15) = 1000"
    by (simp_all only: scaled_int zero_less_power zero_less_numeral)
  moreover have "scaled 1 99949999999999992 (10 ^ 15) \<le> scaled 1 s (10 ^ 15)" "scaled 1 s (10 ^ 15) \<le> scaled 1 99949999999999999 (10 ^ 15)"
    using assms by (intro scaled_mono exact_units; simp)+
  ultimately have "nearest_even (to_double (to_double (of_int s) / of_int (10 ^ 15)) * 10) = 1000"
    by (simp add: scaled_def)
  moreover have "show_nat 100 = ''100''" "show_nat 0 = ''0''" by code_simp+
  ultimately show ?thesis
    using assms by (simp add: formatSI_def quotient_text_def fixed_text_def Let_def)
qed

text \<open>
  The comment at \<open>formatSI\<close> promises at most five characters for a number that is not negative. That holds for every such number of 64 bits but eight: from
  99949999999999992 to 99949999999999999 the conversion to \<open>double\<close> reaches the upper end of its branch and the text is \<open>100.0P\<close>.
\<close>

theorem formatSI_length:
  assumes "0 \<le> s" "s < 2 ^ 63"
  shows "if 99949999999999992 \<le> s \<and> s < 99950000000000000 then formatSI s = ''100.0P'' else length (formatSI s) \<le> 5"
  using formatSI_short [OF assms] formatSI_long by simp

theorem formatSI_length_witness: "formatSI 99949999999999995 = ''100.0P'' \<and> length (formatSI 1234567) \<le> 5"
  using formatSI_length [of 99949999999999995] formatSI_length [of 1234567] by simp

section \<open>Binary units\<close>

text \<open>
  \<open>formatIEC\<close> compares in double precision: \<open>product_double u m\<close> is the product of a unit and the double nearest to the literal \<open>m\<close>.
\<close>

definition product_double :: "rat \<Rightarrow> rat \<Rightarrow> rat" where
  "product_double u m = to_double (u * to_double m)"

definition formatIEC :: "int \<Rightarrow> string" where
  "formatIEC s =
     (let n = to_double (of_int s)
      in if n < 2 ^ 10 then show_int s
      else if n < product_double (2 ^ 10) (9995 / 1000) then quotient_text 2 s (2 ^ 10) @ ''Ki''
      else if n < product_double (2 ^ 10) (9995 / 100) then quotient_text 1 s (2 ^ 10) @ ''Ki''
      else if n < product_double (2 ^ 10) (10235 / 10) then quotient_text 0 s (2 ^ 10) @ ''Ki''
      else if n < product_double (2 ^ 20) (9995 / 1000) then quotient_text 2 s (2 ^ 20) @ ''Mi''
      else if n < product_double (2 ^ 20) (9995 / 100) then quotient_text 1 s (2 ^ 20) @ ''Mi''
      else if n < product_double (2 ^ 20) (10235 / 10) then quotient_text 0 s (2 ^ 20) @ ''Mi''
      else if n < product_double (2 ^ 30) (9995 / 1000) then quotient_text 2 s (2 ^ 30) @ ''Gi''
      else if n < product_double (2 ^ 30) (9995 / 100) then quotient_text 1 s (2 ^ 30) @ ''Gi''
      else if n < product_double (2 ^ 30) (10235 / 10) then quotient_text 0 s (2 ^ 30) @ ''Gi''
      else if n < product_double (2 ^ 40) (9995 / 1000) then quotient_text 2 s (2 ^ 40) @ ''Ti''
      else if n < product_double (2 ^ 40) (9995 / 100) then quotient_text 1 s (2 ^ 40) @ ''Ti''
      else if n < product_double (2 ^ 40) (10235 / 10) then quotient_text 0 s (2 ^ 40) @ ''Ti''
      else if n < product_double (2 ^ 50) (9995 / 1000) then quotient_text 2 s (2 ^ 50) @ ''Pi''
      else if n < product_double (2 ^ 50) (9995 / 100) then quotient_text 1 s (2 ^ 50) @ ''Pi''
      else if n < product_double (2 ^ 50) (10235 / 10) then quotient_text 0 s (2 ^ 50) @ ''Pi''
      else if n < product_double (2 ^ 60) (9995 / 1000) then quotient_text 2 s (2 ^ 60) @ ''Ei''
      else quotient_text 1 s (2 ^ 60) @ ''Ei'')"

text \<open>The first number that is not below a limit, with integers only.\<close>

definition limit_reached :: "int \<Rightarrow> int \<Rightarrow> int \<Rightarrow> int \<Rightarrow> bool" where
  "limit_reached u p q t \<longleftrightarrow> 0 < q \<and> 1 \<le> t \<and> double_digits (u * double_digits p q) (2 ^ 53) \<le> double_digits t 1"

lemma below_limit:
  assumes "limit_reached u p q t" "to_double (of_int s) < product_double (of_int u) (of_int p / of_int q)"
  shows "s < t"
proof (rule ccontr)
  assume "\<not> s < t"
  then have st: "(of_int t :: rat) \<le> of_int s" by simp
  have q: "0 < q" and t: "1 \<le> t" and le: "double_digits (u * double_digits p q) (2 ^ 53) \<le> double_digits t 1"
    using assms(1) by (simp_all add: limit_reached_def)
  have "product_double (of_int u) (of_int p / of_int q) = to_double (of_int (u * double_digits p q) / of_int (2 ^ 53))"
    unfolding product_double_def double_digits [OF q, of p] by simp
  also have "\<dots> = of_int (double_digits (u * double_digits p q) (2 ^ 53)) / 2 ^ 53" by (rule double_digits) simp
  also have "\<dots> \<le> of_int (double_digits t 1) / 2 ^ 53" using le by (simp add: divide_right_mono)
  also have "\<dots> = to_double (of_int t)" using double_digits [of 1 t] by simp
  also have "\<dots> \<le> to_double (of_int s)"
  proof (rule to_double_mono [OF _ st])
    have "(1 :: rat) \<le> of_int t" using t by (metis of_int_1 of_int_le_iff)
    then show "1 / 2 \<le> (of_int t :: rat)" by linarith
  qed
  finally show False using assms(2) by simp
qed

lemma IEC_limits:
  "limit_reached (2 ^ 10) 9995 1000 10235"
  "limit_reached (2 ^ 10) 9995 100 102349"
  "limit_reached (2 ^ 10) 10235 10 1048064"
  "limit_reached (2 ^ 20) 9995 1000 10480518"
  "limit_reached (2 ^ 20) 9995 100 104805172"
  "limit_reached (2 ^ 20) 10235 10 1073217536"
  "limit_reached (2 ^ 30) 9995 1000 10732049531"
  "limit_reached (2 ^ 30) 9995 100 107320495309"
  "limit_reached (2 ^ 30) 10235 10 1098974756864"
  "limit_reached (2 ^ 40) 9995 1000 10989618719622"
  "limit_reached (2 ^ 40) 9995 100 109896187196212"
  "limit_reached (2 ^ 40) 10235 10 1125350151028736"
  "limit_reached (2 ^ 50) 9995 1000 11253369568892026"
  "limit_reached (2 ^ 50) 9995 100 112533695688920265"
  "limit_reached (2 ^ 50) 10235 10 1152358554653425600"
  "limit_reached (2 ^ 60) 9995 1000 11523450438545433601"
  by code_simp+

lemma binary_units:
  "to_double (of_int (2 ^ 10) / 2) = of_int (2 ^ 10) / 2"
  "to_double (of_int (2 ^ 20) / 2) = of_int (2 ^ 20) / 2"
  "to_double (of_int (2 ^ 30) / 2) = of_int (2 ^ 30) / 2"
  "to_double (of_int (2 ^ 40) / 2) = of_int (2 ^ 40) / 2"
  "to_double (of_int (2 ^ 50) / 2) = of_int (2 ^ 50) / 2"
  "to_double (of_int (2 ^ 60) / 2) = of_int (2 ^ 60) / 2"
  by (rule exact_half, code_simp)+

lemma largest_IEC_digits:
  "scaled_int 2 10234 (2 ^ 10) < (if 2 = (0 :: nat) then 10000 else 1000)"
  "scaled_int 1 102348 (2 ^ 10) < (if 1 = (0 :: nat) then 10000 else 1000)"
  "scaled_int 0 1048063 (2 ^ 10) < (if 0 = (0 :: nat) then 10000 else 1000)"
  "scaled_int 2 10480517 (2 ^ 20) < (if 2 = (0 :: nat) then 10000 else 1000)"
  "scaled_int 1 104805171 (2 ^ 20) < (if 1 = (0 :: nat) then 10000 else 1000)"
  "scaled_int 0 1073217535 (2 ^ 20) < (if 0 = (0 :: nat) then 10000 else 1000)"
  "scaled_int 2 10732049530 (2 ^ 30) < (if 2 = (0 :: nat) then 10000 else 1000)"
  "scaled_int 1 107320495308 (2 ^ 30) < (if 1 = (0 :: nat) then 10000 else 1000)"
  "scaled_int 0 1098974756863 (2 ^ 30) < (if 0 = (0 :: nat) then 10000 else 1000)"
  "scaled_int 2 10989618719621 (2 ^ 40) < (if 2 = (0 :: nat) then 10000 else 1000)"
  "scaled_int 1 109896187196211 (2 ^ 40) < (if 1 = (0 :: nat) then 10000 else 1000)"
  "scaled_int 0 1125350151028735 (2 ^ 40) < (if 0 = (0 :: nat) then 10000 else 1000)"
  "scaled_int 2 11253369568892025 (2 ^ 50) < (if 2 = (0 :: nat) then 10000 else 1000)"
  "scaled_int 1 112533695688920264 (2 ^ 50) < (if 1 = (0 :: nat) then 10000 else 1000)"
  "scaled_int 0 1152358554653425599 (2 ^ 50) < (if 0 = (0 :: nat) then 10000 else 1000)"
  "scaled_int 2 9223372036854775807 (2 ^ 60) < (if 2 = (0 :: nat) then 10000 else 1000)"
  by code_simp+

lemma largest_IEC_texts:
  "scaled 2 10234 (2 ^ 10) < (if 2 = (0 :: nat) then 10000 else 1000)"
  "scaled 1 102348 (2 ^ 10) < (if 1 = (0 :: nat) then 10000 else 1000)"
  "scaled 0 1048063 (2 ^ 10) < (if 0 = (0 :: nat) then 10000 else 1000)"
  "scaled 2 10480517 (2 ^ 20) < (if 2 = (0 :: nat) then 10000 else 1000)"
  "scaled 1 104805171 (2 ^ 20) < (if 1 = (0 :: nat) then 10000 else 1000)"
  "scaled 0 1073217535 (2 ^ 20) < (if 0 = (0 :: nat) then 10000 else 1000)"
  "scaled 2 10732049530 (2 ^ 30) < (if 2 = (0 :: nat) then 10000 else 1000)"
  "scaled 1 107320495308 (2 ^ 30) < (if 1 = (0 :: nat) then 10000 else 1000)"
  "scaled 0 1098974756863 (2 ^ 30) < (if 0 = (0 :: nat) then 10000 else 1000)"
  "scaled 2 10989618719621 (2 ^ 40) < (if 2 = (0 :: nat) then 10000 else 1000)"
  "scaled 1 109896187196211 (2 ^ 40) < (if 1 = (0 :: nat) then 10000 else 1000)"
  "scaled 0 1125350151028735 (2 ^ 40) < (if 0 = (0 :: nat) then 10000 else 1000)"
  "scaled 2 11253369568892025 (2 ^ 50) < (if 2 = (0 :: nat) then 10000 else 1000)"
  "scaled 1 112533695688920264 (2 ^ 50) < (if 1 = (0 :: nat) then 10000 else 1000)"
  "scaled 0 1152358554653425599 (2 ^ 50) < (if 0 = (0 :: nat) then 10000 else 1000)"
  "scaled 2 9223372036854775807 (2 ^ 60) < (if 2 = (0 :: nat) then 10000 else 1000)"
  by (simp_all only: scaled_int largest_IEC_digits zero_less_power zero_less_numeral)

lemma IEC_length:
  assumes "to_double (of_int d / 2) = of_int d / 2" "scaled k m d < (if k = 0 then 10000 else 1000)" "k \<le> 2" "2 \<le> d" "d \<le> 2 * s" "s \<le> m"
  shows "length (quotient_text k s d @ [c, c']) \<le> 6"
  using quotient_length [OF assms, of c] by simp

lemmas IEC_lengths =
  IEC_length [OF binary_units(1) largest_IEC_texts(1)]
  IEC_length [OF binary_units(1) largest_IEC_texts(2)]
  IEC_length [OF binary_units(1) largest_IEC_texts(3)]
  IEC_length [OF binary_units(2) largest_IEC_texts(4)]
  IEC_length [OF binary_units(2) largest_IEC_texts(5)]
  IEC_length [OF binary_units(2) largest_IEC_texts(6)]
  IEC_length [OF binary_units(3) largest_IEC_texts(7)]
  IEC_length [OF binary_units(3) largest_IEC_texts(8)]
  IEC_length [OF binary_units(3) largest_IEC_texts(9)]
  IEC_length [OF binary_units(4) largest_IEC_texts(10)]
  IEC_length [OF binary_units(4) largest_IEC_texts(11)]
  IEC_length [OF binary_units(4) largest_IEC_texts(12)]
  IEC_length [OF binary_units(5) largest_IEC_texts(13)]
  IEC_length [OF binary_units(5) largest_IEC_texts(14)]
  IEC_length [OF binary_units(5) largest_IEC_texts(15)]
  IEC_length [OF binary_units(6) largest_IEC_texts(16)]

text \<open>A number that is not below a limit is greater than every number whose double is.\<close>

definition limit_open :: "int \<Rightarrow> int \<Rightarrow> int \<Rightarrow> int \<Rightarrow> bool" where
  "limit_open u p q t \<longleftrightarrow> 0 < q \<and> double_digits t 1 < double_digits (u * double_digits p q) (2 ^ 53)"

lemma above_limit:
  assumes "limit_open u p q t" "\<not> to_double (of_int s) < product_double (of_int u) (of_int p / of_int q)" "1 \<le> s"
  shows "t < s"
proof (rule ccontr)
  assume "\<not> t < s"
  then have st: "(of_int s :: rat) \<le> of_int t" by simp
  have q: "0 < q" and less: "double_digits t 1 < double_digits (u * double_digits p q) (2 ^ 53)"
    using assms(1) by (simp_all add: limit_open_def)
  have "(1 :: rat) \<le> of_int s" using assms(3) by (metis of_int_1 of_int_le_iff)
  then have "to_double (of_int s) \<le> to_double (of_int t)" using st by (intro to_double_mono) linarith
  also have "\<dots> = of_int (double_digits t 1) / 2 ^ 53" using double_digits [of 1 t] by simp
  also have "\<dots> < of_int (double_digits (u * double_digits p q) (2 ^ 53)) / 2 ^ 53" using less by (simp add: divide_strict_right_mono)
  also have "\<dots> = to_double (of_int (u * double_digits p q) / of_int (2 ^ 53))" by (rule double_digits [symmetric]) simp
  also have "\<dots> = product_double (of_int u) (of_int p / of_int q)"
    unfolding product_double_def double_digits [OF q, of p] by simp
  finally show False using assms(2) by simp
qed

lemma IEC_opens:
  "limit_open 1 1024 1 1023" "limit_open (2 ^ 10) 10235 10 (2 ^ 19)" "limit_open (2 ^ 20) 10235 10 (2 ^ 29)"
  "limit_open (2 ^ 30) 10235 10 (2 ^ 39)" "limit_open (2 ^ 40) 10235 10 (2 ^ 49)" "limit_open (2 ^ 50) 10235 10 (2 ^ 59)"
  "limit_open (2 ^ 60) 9995 1000 (2 ^ 63)" "limit_reached 1 1024 1 1024"
  by code_simp+

lemma product_double_Ki: "product_double 1 1024 = 2 ^ 10"
proof -
  have "double_digits 2048 2 * 2 = 2048 * 2 ^ 53" by code_simp
  from exact_half [OF this] show ?thesis by (simp add: product_double_def)
qed

lemmas IEC_below = IEC_limits [THEN below_limit, simplified]

lemmas IEC_above = IEC_opens(2-7) [THEN above_limit, simplified]

lemma Ki_border:
  "to_double (of_int s) < 2 ^ 10 \<Longrightarrow> s < 1024" "\<not> to_double (of_int s) < 2 ^ 10 \<Longrightarrow> 0 \<le> s \<Longrightarrow> 1023 < s"
proof -
  show "s < 1024" if "to_double (of_int s) < 2 ^ 10" using below_limit [OF IEC_opens(8), of s] that by (simp add: product_double_Ki)
  show "1023 < s" if "\<not> to_double (of_int s) < 2 ^ 10" "0 \<le> s"
  proof -
    have "s \<noteq> 0" using that(1) nearest_even_int [of 0] by (auto simp: to_double_def)
    then show ?thesis using above_limit [OF IEC_opens(1), of s] that by (simp add: product_double_Ki)
  qed
qed

text \<open>The comment at \<open>formatIEC\<close> promises at most six characters for a number that is not negative, and that always holds; the last branch is never taken.\<close>

theorem formatIEC_length:
  assumes "0 \<le> s" "s < 2 ^ 63"
  shows "length (formatIEC s) \<le> 6"
proof (cases "to_double (of_int s) < 2 ^ 10")
  case True
  then have "length (show_nat (nat s)) \<le> 4" using Ki_border(1) by (intro show_nat_length) fastforce+
  with True assms(1) show ?thesis by (simp add: formatIEC_def show_int_def)
next
  case False
  then have big: "1023 < s" using Ki_border(2) assms(1) by blast
  note below = IEC_below [of s] and above = IEC_above [of s]
  show ?thesis
    unfolding formatIEC_def Let_def
    by (intro if_cases_le IEC_lengths) (use False big assms below above in simp_all)
qed

theorem formatIEC_length_witness: "length (formatIEC (2 ^ 63 - 1)) \<le> 6"
  using formatIEC_length [of "2 ^ 63 - 1"] by simp

end
