(* ===== verification/Log_Stream.thy ===== *)
theory Log_Stream
  imports Prelude "HOL-Library.Signed_Division"
begin

text \<open>
  \<open>base/LogStream.h\<close> and \<open>base/LogStream.cc\<close>: the fixed buffer that a log line is written into, the conversion of
  integers and the insertion operators. The buffer is an array of \<open>SIZE\<close> characters and a position; a write that
  leaves the array is \<open>UndefinedBehaviour\<close>. The insertion of \<open>double\<close> (\<open>snprintf\<close> with \<open>%.12g\<close>) is a parameter.
\<close>

section \<open>Integers\<close>

definition digits :: string where
  "digits = ''9876543210123456789''"

definition digitsHex :: string where
  "digitsHex = ''0123456789ABCDEF''"

text \<open>
  \<open>/\<close> and \<open>%\<close> of C++ truncate, so the digit of a negative number is negative; \<open>zero\<close> points into the middle of
  \<open>digits\<close>. The characters come out from the last to the first.
\<close>

function convert_loop :: "int \<Rightarrow> string" where
  "convert_loop i =
     (let lsd = i smod 10; i' = i sdiv 10
      in digits ! nat (9 + lsd) # (if i' \<noteq> 0 then convert_loop i' else []))"
  by pat_completeness auto
termination
  by (relation "measure (\<lambda>i. nat \<bar>i\<bar>)") (auto simp: signed_divide_int_def sgn_if abs_mult)

declare convert_loop.simps [simp del]

definition convert :: "int \<Rightarrow> string" where
  "convert value = (let p = convert_loop value; p' = (if value < 0 then p @ ''-'' else p) in rev p')"

fun convertHex_loop :: "nat \<Rightarrow> string" where
  "convertHex_loop i =
     (let lsd = i mod 16; i' = i div 16 in digitsHex ! lsd # (if i' \<noteq> 0 then convertHex_loop i' else []))"

declare convertHex_loop.simps [simp del]

definition convertHex :: "nat \<Rightarrow> string" where
  "convertHex value = rev (convertHex_loop value)"

section \<open>The buffer\<close>

definition kSmallBuffer :: nat where
  "kSmallBuffer = 4000"

definition kLargeBuffer :: nat where
  "kLargeBuffer = 4000 * 1000"

record FixedBuffer =
  data :: string
  cur :: nat

definition avail :: "FixedBuffer \<Rightarrow> nat" where
  "avail b = length (data b) - cur b"

definition fixed_toString :: "FixedBuffer \<Rightarrow> string" where
  "fixed_toString b = take (cur b) (data b)"

text \<open>A write of characters at a position of the array, and \<open>add\<close>.\<close>

definition write_at :: "nat \<Rightarrow> string \<Rightarrow> FixedBuffer \<Rightarrow> FixedBuffer res" where
  "write_at pos str b =
     (if pos + length str \<le> length (data b) then Inr (b\<lparr>data := copy_at pos str (data b)\<rparr>) else Inl UndefinedBehaviour)"

definition add :: "nat \<Rightarrow> FixedBuffer \<Rightarrow> FixedBuffer" where
  "add len b = b\<lparr>cur := cur b + len\<rparr>"

definition fixed_append :: "string \<Rightarrow> FixedBuffer \<Rightarrow> FixedBuffer res" where
  "fixed_append str b =
     (if avail b > length str then bindE (write_at (cur b) str b) (\<lambda>b'. Inr (add (length str) b')) else Inr b)"

definition fixed_reset :: "FixedBuffer \<Rightarrow> FixedBuffer" where
  "fixed_reset b = b\<lparr>cur := 0\<rparr>"

definition debugString :: "FixedBuffer \<Rightarrow> (string \<times> FixedBuffer) res" where
  "debugString b = bindE (write_at (cur b) [CHR 0x00] b) (\<lambda>b'. Inr (c_str (data b'), b'))"

section \<open>Insertion\<close>

definition kMaxNumericSize :: nat where
  "kMaxNumericSize = 48"

text \<open>\<open>convert\<close> writes the characters and a null character at \<open>current()\<close>.\<close>

definition formatInteger :: "int \<Rightarrow> FixedBuffer \<Rightarrow> FixedBuffer res" where
  "formatInteger v b =
     (if avail b \<ge> kMaxNumericSize
      then bindE (write_at (cur b) (convert v @ [CHR 0x00]) b) (\<lambda>b'. Inr (add (length (convert v)) b'))
      else Inr b)"

definition insert_pointer :: "nat \<Rightarrow> FixedBuffer \<Rightarrow> FixedBuffer res" where
  "insert_pointer v b =
     (if avail b \<ge> kMaxNumericSize
      then bindE (write_at (cur b) ''0x'' b) (\<lambda>b1.
           bindE (write_at (cur b1 + 2) (convertHex v @ [CHR 0x00]) b1) (\<lambda>b2.
           Inr (add (length (convertHex v) + 2) b2)))
      else Inr b)"

definition insert_double :: "('d \<Rightarrow> string) \<Rightarrow> 'd \<Rightarrow> FixedBuffer \<Rightarrow> FixedBuffer res" where
  "insert_double printf v b =
     (if avail b \<ge> kMaxNumericSize
      then bindE (write_at (cur b) (take (kMaxNumericSize - 1) (printf v) @ [CHR 0x00]) b) (\<lambda>b'.
           Inr (add (length (printf v)) b'))
      else Inr b)"

text \<open>What is inserted with \<open><<\<close>; a null pointer to characters is \<open>None\<close>, a text of characters ends at the first null.\<close>

datatype item =
    Bool bool
  | Char char
  | Signed32 "32 word"
  | Unsigned32 "32 word"
  | Signed64 "64 word"
  | Unsigned64 "64 word"
  | Pointer "64 word"
  | CString "string option"
  | String string

fun insert_item :: "item \<Rightarrow> FixedBuffer \<Rightarrow> FixedBuffer res" where
  "insert_item (Bool v) b = fixed_append (if v then ''1'' else ''0'') b"
| "insert_item (Char v) b = fixed_append [v] b"
| "insert_item (Signed32 v) b = formatInteger (sint v) b"
| "insert_item (Unsigned32 v) b = formatInteger (uint v) b"
| "insert_item (Signed64 v) b = formatInteger (sint v) b"
| "insert_item (Unsigned64 v) b = formatInteger (uint v) b"
| "insert_item (Pointer v) b = insert_pointer (unat v) b"
| "insert_item (CString s) b = (case s of Some str \<Rightarrow> fixed_append (c_str str) b | None \<Rightarrow> fixed_append ''(null)'' b)"
| "insert_item (String s) b = fixed_append s b"

fun insert_items :: "item list \<Rightarrow> FixedBuffer \<Rightarrow> FixedBuffer res" where
  "insert_items [] b = Inr b"
| "insert_items (i # is) b = bindE (insert_item i b) (insert_items is)"

section \<open>The conversion is the decimal text\<close>

lemma digits_nth: "d < 10 \<Longrightarrow> digits ! (9 + d) = digit_char d \<and> digits ! (9 - d) = digit_char d"
proof -
  have "list_all (\<lambda>d. digits ! (9 + d) = digit_char d \<and> digits ! (9 - d) = digit_char d) [0..<10]" by code_simp
  then show "d < 10 \<Longrightarrow> digits ! (9 + d) = digit_char d \<and> digits ! (9 - d) = digit_char d"
    by (auto simp: list_all_iff)
qed

lemma truncated:
  "int n sdiv 10 = int (n div 10)" "int n smod 10 = int (n mod 10)"
  "(- int n) sdiv 10 = - int (n div 10)" "(- int n) smod 10 = - int (n mod 10)"
  by (cases "n = 0"; simp add: signed_divide_int_def signed_modulo_int_def zdiv_int zmod_int)+

lemma convert_loop_nat: "convert_loop (int n) = rev (show_nat n)"
proof (induction n rule: show_nat.induct)
  case (1 n)
  have "nat (9 + int (n mod 10)) = 9 + n mod 10" by simp
  then show ?case
    using 1 digits_nth [of "n mod 10"]
    by (subst convert_loop.simps) (auto simp: show_nat.simps [of n] truncated Let_def simp del: of_nat_mod of_nat_div)
qed

lemma convert_loop_neg: "convert_loop (- int n) = rev (show_nat n)"
proof (induction n rule: show_nat.induct)
  case (1 n)
  have "nat (9 - int (n mod 10)) = 9 - n mod 10" by simp
  then show ?case
    using 1 digits_nth [of "n mod 10"]
    by (subst convert_loop.simps) (auto simp: show_nat.simps [of n] truncated Let_def simp del: of_nat_mod of_nat_div)
qed

lemma convert_show: "convert v = show_int v"
proof (cases "v < 0")
  case True
  then have "convert_loop v = rev (show_nat (nat (- v)))" using convert_loop_neg [of "nat (- v)"] by simp
  with True show ?thesis by (simp add: convert_def show_int_def)
next
  case False
  then have "convert_loop v = rev (show_nat (nat v))" using convert_loop_nat [of "nat v"] by simp
  with False show ?thesis by (simp add: convert_def show_int_def)
qed

lemma show_int_length:
  assumes "- (10 ^ 19) < v" "v < 10 ^ 20"
  shows "length (show_int v) \<le> 20"
proof -
  have "length (show_nat (nat (- v))) \<le> 19" if "v < 0"
    using assms(1) that by (intro show_nat_length) (simp_all add: nat_less_iff)
  moreover have "length (show_nat (nat v)) \<le> 20" if "\<not> v < 0"
    using assms(2) that by (intro show_nat_length) (simp_all add: nat_less_iff)
  ultimately show ?thesis by (auto simp: show_int_def)
qed

lemma convertHex_length: "n < 16 ^ k \<Longrightarrow> 0 < k \<Longrightarrow> length (convertHex_loop n) \<le> k"
proof (induction n arbitrary: k rule: convertHex_loop.induct)
  case (1 n)
  show ?case
  proof (cases "n div 16 = 0")
    case True
    with "1.prems" show ?thesis by (simp add: convertHex_loop.simps [of n])
  next
    case False
    then obtain k' where k: "k = Suc k'" "0 < k'"
      using "1.prems" by (cases k; cases "k - 1") auto
    then have "n div 16 < 16 ^ k'" using "1.prems"(1) by (simp add: less_mult_imp_div_less mult.commute)
    with "1.IH" [OF refl refl False this k(2)] k(1) show ?thesis by (simp add: convertHex_loop.simps [of n] Let_def)
  qed
qed

text \<open>The text of an item, and when it is taken into a buffer with room for \<open>n\<close> characters.\<close>

fun item_text :: "item \<Rightarrow> string" where
  "item_text (Bool v) = (if v then ''1'' else ''0'')"
| "item_text (Char v) = [v]"
| "item_text (Signed32 v) = show_int (sint v)"
| "item_text (Unsigned32 v) = show_int (uint v)"
| "item_text (Signed64 v) = show_int (sint v)"
| "item_text (Unsigned64 v) = show_int (uint v)"
| "item_text (Pointer v) = ''0x'' @ convertHex (unat v)"
| "item_text (CString s) = (case s of Some str \<Rightarrow> c_str str | None \<Rightarrow> ''(null)'')"
| "item_text (String s) = s"

fun numeric :: "item \<Rightarrow> bool" where
  "numeric (Bool v) \<longleftrightarrow> False"
| "numeric (Char v) \<longleftrightarrow> False"
| "numeric (CString s) \<longleftrightarrow> False"
| "numeric (String s) \<longleftrightarrow> False"
| "numeric i \<longleftrightarrow> True"

definition item_fits :: "nat \<Rightarrow> item \<Rightarrow> bool" where
  "item_fits n i \<longleftrightarrow> (if numeric i then 48 \<le> n else length (item_text i) < n)"

fun log_text :: "nat \<Rightarrow> item list \<Rightarrow> string \<Rightarrow> string" where
  "log_text N [] t = t"
| "log_text N (i # is) t = log_text N is (if item_fits (N - length t) i then t @ item_text i else t)"

lemma numeric_length: "numeric i \<Longrightarrow> length (item_text i) \<le> 20"
proof -
  have "- (10 ^ 19) < uint v" for v :: "64 word" by (rule less_le_trans [OF _ uint_ge_0]) simp
  moreover have "- (10 ^ 19) < uint v" for v :: "32 word" by (rule less_le_trans [OF _ uint_ge_0]) simp
  moreover have "- (10 ^ 19) < sint v" "sint v < 10 ^ 20" "uint v < 10 ^ 20" for v :: "64 word"
    using sint_greater_eq [of v] sint_less [of v] uint_lt2p [of v] by simp_all
  moreover have "- (10 ^ 19) < sint v" "sint v < 10 ^ 20" "uint v < 10 ^ 20" for v :: "32 word"
    using sint_greater_eq [of v] sint_less [of v] uint_lt2p [of v] by simp_all
  moreover have "unat v < 2 ^ LENGTH(64)" for v :: "64 word" by (rule unsigned_less)
  then have "length (convertHex_loop (unat v)) \<le> 16" for v :: "64 word" by (intro convertHex_length) simp_all
  then have "length (convertHex_loop (unat v)) \<le> 18" for v :: "64 word" by (rule order_trans) simp
  ultimately show "numeric i \<Longrightarrow> length (item_text i) \<le> 20"
    by (cases i) (auto simp: convertHex_def intro!: show_int_length)
qed

section \<open>A log line\<close>

definition fixed_inv :: "FixedBuffer \<Rightarrow> bool" where
  "fixed_inv b \<longleftrightarrow> cur b < length (data b)"

lemma take_copy_at:
  "p \<le> length xs \<Longrightarrow> p + length str \<le> length xs \<Longrightarrow> k \<le> length str \<Longrightarrow> take (p + k) (copy_at p str xs) = take p xs @ take k str"
  by (simp add: copy_at_def)

text \<open>Characters written at the position, of which \<open>k\<close> are kept.\<close>

lemma write_and_add:
  assumes "fixed_inv b" "cur b + length str \<le> length (data b)" "k \<le> length str" "cur b + k < length (data b)"
  shows "\<exists>b'. write_at (cur b) str b = Inr b' \<and> fixed_inv (add k b') \<and> length (data (add k b')) = length (data b)
    \<and> fixed_toString (add k b') = fixed_toString b @ take k str"
  using assms by (simp add: write_at_def add_def fixed_inv_def fixed_toString_def take_copy_at)

lemma fixed_append_spec:
  assumes "fixed_inv b"
  shows "\<exists>b'. fixed_append str b = Inr b' \<and> fixed_inv b' \<and> length (data b') = length (data b)
    \<and> fixed_toString b' = fixed_toString b @ (if length str < avail b then str else [])"
proof (cases "length str < avail b")
  case True
  then have "cur b + length str < length (data b)" by (simp add: avail_def)
  then obtain b' where "write_at (cur b) str b = Inr b'" "fixed_inv (add (length str) b')"
      "length (data (add (length str) b')) = length (data b)" "fixed_toString (add (length str) b') = fixed_toString b @ str"
    using write_and_add [OF assms, of str "length str"] by auto
  with True show ?thesis by (simp add: fixed_append_def)
qed (use assms in \<open>simp add: fixed_append_def\<close>)

lemma formatInteger_spec:
  assumes "fixed_inv b" "length (show_int v) \<le> 20"
  shows "\<exists>b'. formatInteger v b = Inr b' \<and> fixed_inv b' \<and> length (data b') = length (data b)
    \<and> fixed_toString b' = fixed_toString b @ (if 48 \<le> avail b then show_int v else [])"
proof (cases "48 \<le> avail b")
  case True
  let ?k = "length (show_int v)"
  have "cur b + 48 \<le> length (data b)" using True by (simp add: avail_def)
  then obtain b' where "write_at (cur b) (show_int v @ [CHR 0x00]) b = Inr b'" "fixed_inv (add ?k b')"
      "length (data (add ?k b')) = length (data b)" "fixed_toString (add ?k b') = fixed_toString b @ show_int v"
    using write_and_add [OF assms(1), of "show_int v @ [CHR 0x00]" ?k] assms(2) by auto
  with True show ?thesis by (simp add: formatInteger_def kMaxNumericSize_def convert_show)
qed (use assms in \<open>simp add: formatInteger_def kMaxNumericSize_def\<close>)

lemma insert_pointer_spec:
  assumes "fixed_inv b" "length (convertHex v) \<le> 18"
  shows "\<exists>b'. insert_pointer v b = Inr b' \<and> fixed_inv b' \<and> length (data b') = length (data b)
    \<and> fixed_toString b' = fixed_toString b @ (if 48 \<le> avail b then ''0x'' @ convertHex v else [])"
proof (cases "48 \<le> avail b")
  case True
  let ?k = "length (convertHex v) + 2" and ?cs = "convertHex v @ [CHR 0x00]"
  have room: "cur b + 48 \<le> length (data b)" using True by (simp add: avail_def)
  then obtain b' where "write_at (cur b) (''0x'' @ ?cs) b = Inr b'" "fixed_inv (add ?k b')"
      "length (data (add ?k b')) = length (data b)" "fixed_toString (add ?k b') = fixed_toString b @ ''0x'' @ convertHex v"
    using write_and_add [OF assms(1), of "''0x'' @ ?cs" ?k] assms(2) by auto
  moreover have "bindE (write_at (cur b) ''0x'' b) (\<lambda>b1. write_at (cur b1 + 2) ?cs b1) = write_at (cur b) (''0x'' @ ?cs) b"
    using room assms(2) by (auto simp: write_at_def copy_at_def numeral_3_eq_3 add.commute)
  ultimately show ?thesis
    using True by (simp add: insert_pointer_def kMaxNumericSize_def flip: bindE_assoc)
qed (use assms in \<open>simp add: insert_pointer_def kMaxNumericSize_def\<close>)

lemma insert_item_text: "\<not> numeric i \<Longrightarrow> insert_item i b = fixed_append (item_text i) b"
  by (cases i) (auto split: option.splits)

lemma insert_item_spec:
  assumes "fixed_inv b"
  shows "\<exists>b'. insert_item i b = Inr b' \<and> fixed_inv b' \<and> length (data b') = length (data b)
    \<and> fixed_toString b' = fixed_toString b @ (if item_fits (avail b) i then item_text i else [])"
proof (cases "numeric i")
  case False
  with fixed_append_spec [OF assms, of "item_text i"] show ?thesis by (simp add: insert_item_text item_fits_def)
next
  case True
  note integer = formatInteger_spec [OF assms] and short = numeric_length [OF True]
  show ?thesis
  proof (cases i)
    case (Signed32 v)
    with integer [of "sint v"] short show ?thesis by (auto simp: item_fits_def split: if_splits)
  next
    case (Unsigned32 v)
    with integer [of "uint v"] short show ?thesis by (auto simp: item_fits_def split: if_splits)
  next
    case (Signed64 v)
    with integer [of "sint v"] short show ?thesis by (auto simp: item_fits_def split: if_splits)
  next
    case (Unsigned64 v)
    with integer [of "uint v"] short show ?thesis by (auto simp: item_fits_def split: if_splits)
  next
    case (Pointer v)
    with insert_pointer_spec [OF assms, of "unat v"] short show ?thesis by (auto simp: item_fits_def split: if_splits)
  qed (use True in simp_all)
qed

lemma insert_items_spec:
  assumes "cur b < length (data b)"
  shows "\<exists>b'. insert_items is b = Inr b' \<and> cur b' < length (data b') \<and> length (data b') = length (data b)
    \<and> fixed_toString b' = log_text (length (data b)) is (fixed_toString b)"
  using assms
proof (induction "is" arbitrary: b)
  case (Cons i items)
  from Cons.prems have inv: "fixed_inv b" by (simp add: fixed_inv_def)
  obtain b1 where b1: "insert_item i b = Inr b1" "fixed_inv b1" "length (data b1) = length (data b)"
      "fixed_toString b1 = fixed_toString b @ (if item_fits (avail b) i then item_text i else [])"
    using insert_item_spec [OF inv] by blast
  have "length (data b) - length (fixed_toString b) = avail b"
    using Cons.prems by (simp add: fixed_toString_def avail_def)
  with Cons.IH [of b1] b1 show ?case by (auto simp: fixed_inv_def)
qed simp

text \<open>
  C38. A log line is never cut inside an item and never overruns its buffer: for any sequence of insertions (flags, characters, signed and unsigned integers of 32 and 64
  bits with their smallest and largest values, addresses, texts) into a buffer with room left, no write leaves the array, and what the buffer holds
  is the text of the items in order, each whole or, when it does not fit, left out; the text of an integer is its decimal notation.
\<close>

theorem log_line:
  assumes "cur b < length (data b)"
  shows "\<exists>b'. insert_items is b = Inr b' \<and> cur b' < length (data b') \<and> length (data b') = length (data b)
    \<and> fixed_toString b' = log_text (length (data b)) is (fixed_toString b)"
  using assms by (rule insert_items_spec)

theorem log_line_witness:
  "\<exists>b'. insert_items [String ''id '', Signed64 (- (2 ^ 63)), Char (CHR ''/''), Unsigned64 (- 1), CString None] \<lparr>data = replicate 60 (CHR 0x00), cur = 0\<rparr> = Inr b'
     \<and> fixed_toString b' = ''id -9223372036854775808/(null)''"
proof -
  let ?is = "[String ''id '', Signed64 (- (2 ^ 63)), Char (CHR ''/''), Unsigned64 (- 1), CString None]"
  have decimal: "show_nat (numeral k) = (if numeral k < (10 :: nat) then [digit_char (numeral k)]
      else show_nat (numeral k div 10) @ [digit_char (numeral k mod 10)])" for k
    by (rule show_nat.simps)
  have "log_text 60 ?is [] = ''id -9223372036854775808/(null)''"
    by (simp add: item_fits_def show_int_def decimal digit_char_def) code_simp
  then show ?thesis
    using log_line [of "\<lparr>data = replicate 60 (CHR 0x00), cur = 0\<rparr>" ?is]
    by (auto simp: fixed_toString_def simp del: insert_items.simps log_text.simps)
qed

end
