(* ===== verification/Log_File.thy ===== *)
theory Log_File
  imports Calendar
begin

text \<open>
  \<open>base/FileUtil\<close> (class \<open>AppendFile\<close>) and \<open>base/LogFile\<close>: log lines go to a file that is replaced by a new one when it has grown too large and at midnight. The clock,
  \<open>gmtime_r\<close>, the name of the host and the process id are parameters, and so is which files can be opened and when a write fails.

  A stream of the C library keeps what was written to it; \<open>synced\<close> is how much of it was flushed. \<open>fwrite\<close> accepts everything or sets the error indicator. \<open>closed\<close> records the files that were
  replaced, each with the time it was opened at; the code does not have it.
\<close>

record log_env =
  env_time :: "nat \<Rightarrow> int"
  env_gmtime :: "int \<Rightarrow> tm"
  env_hostname :: string
  env_pid :: int
  env_fopen :: "string \<Rightarrow> bool"
  env_fwrite :: "string \<Rightarrow> nat \<Rightarrow> nat option"

section \<open>Files that grow\<close>

record AppendFile =
  file_name :: string
  content :: string
  synced :: nat
  ferror :: bool
  fwrites :: nat
  writtenBytes :: nat

definition new_AppendFile :: "log_env \<Rightarrow> string \<Rightarrow> AppendFile res" where
  "new_AppendFile env filename =
     bindE (assertE (env_fopen env filename)) (\<lambda>_.
     Inr \<lparr>file_name = filename, content = [], synced = 0, ferror = False, fwrites = 0, writtenBytes = 0\<rparr>)"

text \<open>\<open>env_fwrite\<close> says after how many characters the \<open>k\<close>-th write to a file fails, if it does.\<close>

definition file_write :: "log_env \<Rightarrow> string \<Rightarrow> AppendFile \<Rightarrow> nat \<times> AppendFile" where
  "file_write env cs f =
     (let n = (case env_fwrite env (file_name f) (fwrites f) of None \<Rightarrow> length cs | Some m \<Rightarrow> min m (length cs))
      in (n, f\<lparr>content := content f @ take n cs, ferror := ferror f \<or> n < length cs, fwrites := fwrites f + 1\<rparr>))"

lemma file_write_short: "file_write env cs f = (n, f') \<Longrightarrow> n \<le> length cs \<and> (n = length cs \<or> ferror f')"
  by (auto simp: file_write_def Let_def split: option.splits)

function append_loop :: "log_env \<Rightarrow> string \<Rightarrow> nat \<Rightarrow> AppendFile \<Rightarrow> nat \<times> AppendFile" where
  "append_loop env logline written f =
     (if written < length logline
      then let remain = length logline - written;
               (n, f') = file_write env (drop written logline) f
           in if n \<noteq> remain \<and> ferror f' then (written, f') else append_loop env logline (written + n) f'
      else (written, f))"
  by pat_completeness auto
termination
proof (relation "measure (\<lambda>(env, logline, written, f). length logline - written)", goal_cases)
  case (2 env logline written f remain y n f')
  then have "n = remain" using file_write_short [of env "drop written logline" f n f'] by auto
  with 2 show ?case by simp
qed simp

declare append_loop.simps [simp del]

definition AppendFile_append :: "log_env \<Rightarrow> string \<Rightarrow> AppendFile \<Rightarrow> AppendFile" where
  "AppendFile_append env logline f =
     (let (written, f') = append_loop env logline 0 f in f'\<lparr>writtenBytes := writtenBytes f' + written\<rparr>)"

definition AppendFile_flush :: "AppendFile \<Rightarrow> AppendFile" where
  "AppendFile_flush f = f\<lparr>synced := length (content f)\<rparr>"

section \<open>The log file\<close>

definition kRollPerSeconds :: int where
  "kRollPerSeconds = 60 * 60 * 24"

record LogFile =
  basename :: string
  rollSize :: int
  flushInterval :: int
  checkEveryN :: int
  count :: int
  startOfPeriod :: int
  lastRoll :: int
  lastFlush :: int
  log_file :: "AppendFile option"
  ticks :: nat
  closed :: "AppendFile list"
  opened :: "int list"

text \<open>A look at the clock.\<close>

definition log_time :: "log_env \<Rightarrow> LogFile \<Rightarrow> int \<times> LogFile" where
  "log_time env l = (env_time env (ticks l), l\<lparr>ticks := ticks l + 1\<rparr>)"

definition getLogFileName :: "log_env \<Rightarrow> string \<Rightarrow> int \<Rightarrow> string" where
  "getLogFileName env name now =
     (let tm = env_gmtime env now;
          timebuf = ''.'' @ show_int (tm_year tm + 1900) @ pad0 2 (tm_mon tm + 1) @ pad0 2 (tm_mday tm) @ ''-''
            @ pad0 2 (tm_hour tm) @ pad0 2 (tm_min tm) @ pad0 2 (tm_sec tm) @ ''.''
      in name @ timebuf @ env_hostname env @ ''.'' @ show_int (env_pid env) @ ''.log'')"

text \<open>The new file is opened before the old one, which \<open>reset\<close> replaces, is closed.\<close>

definition rollFile :: "log_env \<Rightarrow> LogFile \<Rightarrow> (bool \<times> LogFile) res" where
  "rollFile env l =
     (let (now, l1) = log_time env l;
          filename = getLogFileName env (basename l1) now;
          start = now sdiv kRollPerSeconds * kRollPerSeconds
      in if now > lastRoll l1
         then bindE (new_AppendFile env filename) (\<lambda>f.
              Inr (True, l1\<lparr>lastRoll := now, lastFlush := now, startOfPeriod := start, log_file := Some f,
                            closed := closed l1 @ (case log_file l1 of None \<Rightarrow> [] | Some old \<Rightarrow> [AppendFile_flush old]),
                            opened := opened l1 @ [now]\<rparr>))
         else Inr (False, l1))"

definition new_LogFile :: "log_env \<Rightarrow> string \<Rightarrow> int \<Rightarrow> int \<Rightarrow> int \<Rightarrow> LogFile res" where
  "new_LogFile env name roll interval everyN =
     bindE (assertE (CHR ''/'' \<notin> set name)) (\<lambda>_.
     bindE (rollFile env \<lparr>basename = name, rollSize = roll, flushInterval = interval, checkEveryN = everyN, count = 0,
        startOfPeriod = 0, lastRoll = 0, lastFlush = 0, log_file = None, ticks = 0, closed = [], opened = []\<rparr>) (\<lambda>(_, l). Inr l))"

definition append_unlocked :: "log_env \<Rightarrow> string \<Rightarrow> LogFile \<Rightarrow> LogFile res" where
  "append_unlocked env logline l =
     (case log_file l of
        None \<Rightarrow> Inl NullDereference
      | Some f \<Rightarrow>
          let f1 = AppendFile_append env logline f;
              l1 = l\<lparr>log_file := Some f1\<rparr>
          in if int (writtenBytes f1) > rollSize l1 then bindE (rollFile env l1) (\<lambda>(_, l2). Inr l2)
             else let l2 = l1\<lparr>count := count l1 + 1\<rparr>
                  in if count l2 \<ge> checkEveryN l2
                     then let (now, l3) = log_time env (l2\<lparr>count := 0\<rparr>);
                              thisPeriod = now sdiv kRollPerSeconds * kRollPerSeconds
                          in if thisPeriod \<noteq> startOfPeriod l3 then bindE (rollFile env l3) (\<lambda>(_, l4). Inr l4)
                             else if now - lastFlush l3 > flushInterval l3
                             then Inr (l3\<lparr>lastFlush := now, log_file := Some (AppendFile_flush f1)\<rparr>)
                             else Inr l3
                     else Inr l2)"

definition LogFile_flush :: "LogFile \<Rightarrow> LogFile res" where
  "LogFile_flush l = (case log_file l of None \<Rightarrow> Inl NullDereference | Some f \<Rightarrow> Inr (l\<lparr>log_file := Some (AppendFile_flush f)\<rparr>))"

section \<open>Lines are kept\<close>

text \<open>Files can be opened and written.\<close>

definition healthy :: "log_env \<Rightarrow> bool" where
  "healthy env \<longleftrightarrow> (\<forall>name. env_fopen env name) \<and> (\<forall>name k. env_fwrite env name k = None)"

fun append_lines :: "log_env \<Rightarrow> string list \<Rightarrow> LogFile \<Rightarrow> LogFile res" where
  "append_lines env [] l = Inr l"
| "append_lines env (x # xs) l = bindE (append_unlocked env x l) (append_lines env xs)"

lemma append_lines_append: "append_lines env (xs @ ys) l = bindE (append_lines env xs l) (append_lines env ys)"
  by (induction xs arbitrary: l) (simp_all add: bindE_def split: sum.split)

lemma AppendFile_append_healthy:
  assumes "healthy env"
  shows "content (AppendFile_append env x f) = content f @ x" "writtenBytes (AppendFile_append env x f) = writtenBytes f + length x"
proof -
  have "append_loop env x 0 f = (length x, f') \<and> content f' = content f @ x \<and> writtenBytes f' = writtenBytes f"
    if "f' = snd (append_loop env x 0 f)" for f'
    using that assms by (subst append_loop.simps, subst (asm) append_loop.simps)
      (auto simp: file_write_def healthy_def append_loop.simps [of env x "length x"])
  then show "content (AppendFile_append env x f) = content f @ x" "writtenBytes (AppendFile_append env x f) = writtenBytes f + length x"
    by (auto simp: AppendFile_append_def split: prod.split)
qed

text \<open>Whole lines, in order, over the closed files and the open one.\<close>

definition log_holds :: "LogFile \<Rightarrow> string list \<Rightarrow> bool" where
  "log_holds l lines \<longleftrightarrow> (\<exists>lss ls f. lines = concat lss @ ls \<and> map content (closed l) = map concat lss
     \<and> log_file l = Some f \<and> content f = concat ls \<and> writtenBytes f = length (content f))"

definition log_inv :: "LogFile \<Rightarrow> bool" where
  "log_inv l \<longleftrightarrow> sorted_wrt (<) (opened l) \<and> opened l \<noteq> [] \<and> lastRoll l = last (opened l) \<and> length (opened l) = Suc (length (closed l))
     \<and> startOfPeriod l = lastRoll l sdiv kRollPerSeconds * kRollPerSeconds \<and> list_all (\<lambda>f. synced f = length (content f)) (closed l)"

lemma sorted_snoc: "sorted_wrt (<) xs \<Longrightarrow> xs \<noteq> [] \<Longrightarrow> last xs < (x :: int) \<Longrightarrow> sorted_wrt (<) (xs @ [x])"
  by (cases xs rule: rev_cases) (auto simp: sorted_wrt_append)

lemma rollFile_healthy:
  assumes "healthy env" "log_inv l" "log_holds l lines"
  shows "\<exists>rolled l'. rollFile env l = Inr (rolled, l') \<and> log_inv l' \<and> log_holds l' lines \<and> rollSize l' = rollSize l \<and> ticks l' = ticks l + 1
    \<and> (rolled \<longrightarrow> lastRoll l' = env_time env (ticks l) \<and> (\<exists>f. log_file l' = Some f \<and> writtenBytes f = 0))
    \<and> (\<not> rolled \<longrightarrow> env_time env (ticks l) \<le> lastRoll l' \<and> log_file l' = log_file l)"
proof (cases "env_time env (ticks l) > lastRoll l")
  case True
  obtain lss ls f where l: "lines = concat lss @ ls" "map content (closed l) = map concat lss" "log_file l = Some f" "content f = concat ls"
    using assms(3) by (auto simp: log_holds_def)
  have "log_holds (l\<lparr>log_file := Some new, closed := closed l @ [AppendFile_flush f]\<rparr>) lines" if "content new = []" "writtenBytes new = 0" for new
    unfolding log_holds_def using l that by (intro exI [of _ "lss @ [ls]"] exI [of _ "[]"]) (simp add: AppendFile_flush_def)
  note new = this [of "\<lparr>file_name = n, content = [], synced = 0, ferror = False, fwrites = 0, writtenBytes = 0\<rparr>" for n]
  show ?thesis
    using assms(1,2) l(3) True sorted_snoc [of "opened l"] new
    by (auto simp: rollFile_def log_time_def new_AppendFile_def healthy_def log_inv_def log_holds_def AppendFile_flush_def)
next
  case False
  then show ?thesis using assms(2,3) by (auto simp: rollFile_def log_time_def log_inv_def log_holds_def)
qed

lemma log_holds_append:
  assumes "log_holds l lines" "log_file l = Some f" "content f' = content f @ x" "writtenBytes f' = writtenBytes f + length x"
    and "log_file l' = Some f'" "closed l' = closed l"
  shows "log_holds l' (lines @ [x])"
proof -
  obtain lss ls where l: "lines = concat lss @ ls" "map content (closed l) = map concat lss" "content f = concat ls" "writtenBytes f = length (content f)"
    using assms(1,2) by (auto simp: log_holds_def)
  then show ?thesis unfolding log_holds_def using assms by (intro exI [of _ lss] exI [of _ "ls @ [x]"]) simp
qed

text \<open>Whether the open file is within its bound, or the clock has not passed the last roll.\<close>

definition in_bound :: "log_env \<Rightarrow> LogFile \<Rightarrow> bool" where
  "in_bound env l \<longleftrightarrow> (\<exists>f. log_file l = Some f \<and> (int (writtenBytes f) \<le> rollSize l \<or> env_time env (ticks l - 1) \<le> lastRoll l))"

lemma append_unlocked_healthy:
  assumes env: "healthy env" and inv: "log_inv l" and holds: "log_holds l lines" and size: "0 \<le> rollSize l"
  shows "\<exists>l'. append_unlocked env x l = Inr l' \<and> log_inv l' \<and> log_holds l' (lines @ [x]) \<and> rollSize l' = rollSize l \<and> in_bound env l'"
proof -
  obtain f where f: "log_file l = Some f" using holds by (auto simp: log_holds_def)
  define f1 where "f1 = AppendFile_append env x f"
  note f1 = AppendFile_append_healthy [OF env, of x f, folded f1_def]
  have upd: "log_holds l' (lines @ [x])" if "log_file l' = Some f2" "content f2 = content f1" "writtenBytes f2 = writtenBytes f1" "closed l' = closed l" for l' f2
    using log_holds_append [OF holds f _ _ that(1,4), of x] f1 that by simp
  have roll: "\<exists>l'. bindE (rollFile env l1) (\<lambda>(_, l2). Inr l2) = Inr l' \<and> log_inv l' \<and> log_holds l' (lines @ [x]) \<and> rollSize l' = rollSize l \<and> in_bound env l'"
    if l1: "log_inv l1" "log_holds l1 (lines @ [x])" "rollSize l1 = rollSize l" for l1
  proof -
    obtain rolled l' where l': "rollFile env l1 = Inr (rolled, l')" "log_inv l'" "log_holds l' (lines @ [x])" "rollSize l' = rollSize l1" "ticks l' = ticks l1 + 1"
      "rolled \<longrightarrow> (\<exists>f. log_file l' = Some f \<and> writtenBytes f = 0)" "\<not> rolled \<longrightarrow> env_time env (ticks l1) \<le> lastRoll l' \<and> log_file l' = log_file l1"
      using rollFile_healthy [OF env l1(1,2)] by blast
    moreover obtain g where "log_file l' = Some g" using l'(3) by (auto simp: log_holds_def)
    ultimately show ?thesis using l1(3) size by (auto simp: in_bound_def)
  qed
  have flush: "content (AppendFile_flush f1) = content f1" "writtenBytes (AppendFile_flush f1) = writtenBytes f1" by (simp_all add: AppendFile_flush_def)
  show ?thesis
    using inv roll upd flush
    by (auto simp: append_unlocked_def f f1_def [symmetric] Let_def log_time_def log_inv_def in_bound_def)
qed

lemma append_lines_healthy:
  assumes "healthy env" "log_inv l" "log_holds l lines" "0 \<le> rollSize l"
  shows "\<exists>l'. append_lines env xs l = Inr l' \<and> log_inv l' \<and> log_holds l' (lines @ xs) \<and> rollSize l' = rollSize l \<and> (xs \<noteq> [] \<longrightarrow> in_bound env l')"
proof (induction xs rule: rev_induct)
  case (snoc x xs)
  then obtain l' where l': "append_lines env xs l = Inr l'" "log_inv l'" "log_holds l' (lines @ xs)" "rollSize l' = rollSize l" by blast
  with append_unlocked_healthy [OF assms(1) l'(2,3), of x] assms(4) show ?case by (auto simp: append_lines_append)
qed (use assms in simp)

lemma new_LogFile_healthy:
  assumes "healthy env" "0 < env_time env 0" "CHR ''/'' \<notin> set name"
  shows "\<exists>l. new_LogFile env name roll interval everyN = Inr l \<and> log_inv l \<and> log_holds l [] \<and> rollSize l = roll"
  using assms by (auto simp: new_LogFile_def rollFile_def log_time_def new_AppendFile_def healthy_def log_inv_def log_holds_def)

text \<open>
  C40. Log files: as long as files can be opened and written and the clock shows a time after 1970, every line that is appended is in the files, whole and in order, whatever the clock does: the lines of the
  closed files followed by those of the open one. Files are opened at increasing times and flushed when they are replaced, the period belongs to the last roll, and after each
  line the open file is within its bound unless the clock has not passed the last roll.
\<close>

theorem log_files_keep_lines:
  assumes "healthy env" "0 < env_time env 0" "CHR ''/'' \<notin> set name" "0 \<le> roll"
  shows "\<exists>l. bindE (new_LogFile env name roll interval everyN) (append_lines env lines) = Inr l
    \<and> log_holds l lines \<and> log_inv l \<and> (lines \<noteq> [] \<longrightarrow> in_bound env l)"
proof -
  obtain l0 where "new_LogFile env name roll interval everyN = Inr l0" "log_inv l0" "log_holds l0 []" "rollSize l0 = roll"
    using new_LogFile_healthy [OF assms(1-3)] by blast
  then show ?thesis using append_lines_healthy [OF assms(1), of l0 "[]" lines] assms(4) by auto
qed

definition demo_env :: log_env where
  "demo_env = \<lparr>env_time = (\<lambda>n. 1000000 + int n), env_gmtime = (\<lambda>t. \<lparr>tm_sec = 0, tm_min = 0, tm_hour = 0, tm_mday = 1, tm_mon = 0, tm_year = 70\<rparr>),
     env_hostname = ''host'', env_pid = 7, env_fopen = (\<lambda>_. True), env_fwrite = (\<lambda>_ _. None)\<rparr>"

theorem log_files_keep_lines_witness:
  "\<exists>l. bindE (new_LogFile demo_env ''im'' 5 3 1024) (append_lines demo_env [''one'', ''two'', ''three'']) = Inr l
    \<and> map content (closed l) = [''onetwo''] \<and> log_holds l [''one'', ''two'', ''three'']"
proof -
  have "healthy demo_env" "0 < env_time demo_env 0" by (simp_all add: healthy_def demo_env_def)
  then obtain l where l: "bindE (new_LogFile demo_env ''im'' 5 3 1024) (append_lines demo_env [''one'', ''two'', ''three'']) = Inr l"
    "log_holds l [''one'', ''two'', ''three'']" using log_files_keep_lines [of demo_env "''im''" 5 3 1024 "[''one'', ''two'', ''three'']"] by auto
  have "map_sum (\<lambda>e. e) (\<lambda>l. map content (closed l)) (bindE (new_LogFile demo_env ''im'' 5 3 1024) (append_lines demo_env [''one'', ''two'', ''three'']))
      = Inr [''onetwo'']" by code_simp
  with l show ?thesis by simp
qed

end
