(* ===== verification/Async_Logging.thy ===== *)
theory Async_Logging
  imports Log_Stream Log_File
begin

text \<open>
  \<open>base/AsyncLogging\<close>: threads append log lines to large buffers under a mutex, and one thread swaps the buffers and writes them to the log file. The size of the large buffers is a
  parameter \<open>sz\<close> (\<open>kLargeBuffer\<close> in the code). A step is one critical section, or the part of the loop of the thread that touches only its own variables; while the thread waits for the
  condition or the timeout, others may append. \<open>logged\<close> and \<open>drops\<close> record the lines that were appended and how often buffers were dropped; the code does not have them.
\<close>

section \<open>The buffers\<close>

definition new_FixedBuffer :: "nat \<Rightarrow> FixedBuffer" where
  "new_FixedBuffer sz = \<lparr>data = replicate sz (CHR 0x00), cur = 0\<rparr>"

datatype async_phase = NotStarted | LoopHead | WaitingForLines | Writing | Ended

record AsyncLogging =
  running :: bool
  currentBuffer :: FixedBuffer
  nextBuffer :: "FixedBuffer option"
  buffers :: "FixedBuffer list"
  newBuffer1 :: "FixedBuffer option"
  newBuffer2 :: "FixedBuffer option"
  buffersToWrite :: "FixedBuffer list"
  log_output :: "LogFile option"
  async_phase :: async_phase
  logged :: "string list"
  drops :: nat

definition new_AsyncLogging :: "nat \<Rightarrow> AsyncLogging" where
  "new_AsyncLogging sz =
     \<lparr>running = False, currentBuffer = new_FixedBuffer sz, nextBuffer = Some (new_FixedBuffer sz), buffers = [],
      newBuffer1 = None, newBuffer2 = None, buffersToWrite = [], log_output = None, async_phase = NotStarted, logged = [], drops = 0\<rparr>"

definition async_append :: "nat \<Rightarrow> string \<Rightarrow> AsyncLogging \<Rightarrow> AsyncLogging res" where
  "async_append sz logline a =
     (if avail (currentBuffer a) > length logline
      then bindE (fixed_append logline (currentBuffer a)) (\<lambda>b. Inr (a\<lparr>currentBuffer := b, logged := logged a @ [logline]\<rparr>))
      else let a1 = a\<lparr>buffers := buffers a @ [currentBuffer a]\<rparr>;
               a2 = (case nextBuffer a1 of
                       Some b \<Rightarrow> a1\<lparr>currentBuffer := b, nextBuffer := None\<rparr>
                     | None \<Rightarrow> a1\<lparr>currentBuffer := new_FixedBuffer sz\<rparr>)
           in bindE (fixed_append logline (currentBuffer a2)) (\<lambda>b. Inr (a2\<lparr>currentBuffer := b, logged := logged a2 @ [logline]\<rparr>)))"

definition async_start :: "AsyncLogging \<Rightarrow> AsyncLogging" where
  "async_start a = a\<lparr>running := True\<rparr>"

definition async_stop :: "AsyncLogging \<Rightarrow> AsyncLogging" where
  "async_stop a = a\<lparr>running := False\<rparr>"

section \<open>The thread\<close>

definition is_empty_buffer :: "FixedBuffer option \<Rightarrow> bool" where
  "is_empty_buffer b \<longleftrightarrow> (case b of None \<Rightarrow> False | Some b' \<Rightarrow> cur b' = 0)"

text \<open>The head of \<open>threadFunc\<close>; the log file has the default interval and number of lines between checks.\<close>

definition thread_begin :: "log_env \<Rightarrow> nat \<Rightarrow> string \<Rightarrow> int \<Rightarrow> AsyncLogging \<Rightarrow> AsyncLogging res" where
  "thread_begin env sz base roll a =
     bindE (assertE (running a)) (\<lambda>_.
     bindE (new_LogFile env base roll 3 1024) (\<lambda>out.
     Inr (a\<lparr>log_output := Some out, newBuffer1 := Some (new_FixedBuffer sz), newBuffer2 := Some (new_FixedBuffer sz),
            buffersToWrite := [], async_phase := LoopHead\<rparr>)))"

definition swap_buffers :: "AsyncLogging \<Rightarrow> AsyncLogging res" where
  "swap_buffers a =
     (case newBuffer1 a of
        None \<Rightarrow> Inl NullDereference
      | Some b1 \<Rightarrow>
          let a1 = a\<lparr>buffersToWrite := buffers a @ [currentBuffer a], buffers := buffersToWrite a, currentBuffer := b1, newBuffer1 := None\<rparr>
          in Inr ((if nextBuffer a1 = None then a1\<lparr>nextBuffer := newBuffer2 a1, newBuffer2 := None\<rparr> else a1)\<lparr>async_phase := Writing\<rparr>))"

definition loop_begin :: "AsyncLogging \<Rightarrow> AsyncLogging res" where
  "loop_begin a =
     bindE (assertE (is_empty_buffer (newBuffer1 a))) (\<lambda>_.
     bindE (assertE (is_empty_buffer (newBuffer2 a))) (\<lambda>_.
     bindE (assertE (buffersToWrite a = [])) (\<lambda>_.
     if buffers a = [] then Inr (a\<lparr>async_phase := WaitingForLines\<rparr>) else swap_buffers a)))"

text \<open>A buffer for reuse is the last of those that were written, reset.\<close>

definition refill :: "FixedBuffer option \<Rightarrow> FixedBuffer list \<Rightarrow> (FixedBuffer option \<times> FixedBuffer list) res" where
  "refill b bs = (if b = None then bindE (assertE (bs \<noteq> [])) (\<lambda>_. Inr (Some (fixed_reset (last bs)), butlast bs)) else Inr (b, bs))"

definition on_output :: "(LogFile \<Rightarrow> LogFile res) \<Rightarrow> AsyncLogging \<Rightarrow> AsyncLogging res" where
  "on_output f a = (case log_output a of None \<Rightarrow> Inl NullDereference | Some out \<Rightarrow> bindE (f out) (\<lambda>out'. Inr (a\<lparr>log_output := Some out'\<rparr>)))"

definition drop_message :: "string \<Rightarrow> nat \<Rightarrow> string" where
  "drop_message now n = take 255 (''Dropped log messages at '' @ now @ '', '' @ show_nat (n - 2) @ '' larger buffers'' @ [CHR 0x0A])"

definition write_buffers :: "log_env \<Rightarrow> string \<Rightarrow> AsyncLogging \<Rightarrow> AsyncLogging res" where
  "write_buffers env now a =
     bindE (assertE (buffersToWrite a \<noteq> [])) (\<lambda>_.
     bindE (if length (buffersToWrite a) > 25
            then bindE (on_output (append_unlocked env (drop_message now (length (buffersToWrite a)))) a) (\<lambda>a'.
                 Inr (a'\<lparr>buffersToWrite := take 2 (buffersToWrite a'), drops := drops a' + 1\<rparr>))
            else Inr a) (\<lambda>a1.
     bindE (on_output (append_lines env (map fixed_toString (buffersToWrite a1))) a1) (\<lambda>a2.
     let bs = (if length (buffersToWrite a2) > 2 then take 2 (buffersToWrite a2) else buffersToWrite a2)
     in bindE (refill (newBuffer1 a2) bs) (\<lambda>(b1, bs1).
        bindE (refill (newBuffer2 a2) bs1) (\<lambda>(b2, bs2).
        on_output LogFile_flush (a2\<lparr>newBuffer1 := b1, newBuffer2 := b2, buffersToWrite := [], async_phase := LoopHead\<rparr>))))))"

definition thread_end :: "AsyncLogging \<Rightarrow> AsyncLogging res" where
  "thread_end a = on_output LogFile_flush (a\<lparr>async_phase := Ended\<rparr>)"

text \<open>The next step of the thread.\<close>

definition thread_step :: "log_env \<Rightarrow> nat \<Rightarrow> string \<Rightarrow> int \<Rightarrow> string \<Rightarrow> AsyncLogging \<Rightarrow> AsyncLogging res" where
  "thread_step env sz base roll now a =
     (case async_phase a of
        NotStarted \<Rightarrow> thread_begin env sz base roll a
      | LoopHead \<Rightarrow> if running a then loop_begin a else thread_end a
      | WaitingForLines \<Rightarrow> swap_buffers a
      | Writing \<Rightarrow> write_buffers env now a
      | Ended \<Rightarrow> Inr a)"

text \<open>
  The program starts the thread, appends lines that fit into a large buffer and stops the thread at some time; \<open>start\<close> waits until the thread has begun.
\<close>

inductive async_reaches :: "log_env \<Rightarrow> nat \<Rightarrow> string \<Rightarrow> int \<Rightarrow> AsyncLogging \<Rightarrow> bool" for env sz base roll where
  started: "async_reaches env sz base roll (async_start (new_AsyncLogging sz))"
| appended: "async_reaches env sz base roll a \<Longrightarrow> length logline < sz \<Longrightarrow> async_append sz logline a = Inr a' \<Longrightarrow> async_reaches env sz base roll a'"
| stopped: "async_reaches env sz base roll a \<Longrightarrow> async_phase a \<noteq> NotStarted \<Longrightarrow> async_reaches env sz base roll (async_stop a)"
| thread: "async_reaches env sz base roll a \<Longrightarrow> thread_step env sz base roll now a = Inr a' \<Longrightarrow> async_reaches env sz base roll a'"

section \<open>Nothing is lost while the thread runs\<close>

definition buffer_ok :: "nat \<Rightarrow> FixedBuffer \<Rightarrow> bool" where
  "buffer_ok sz b \<longleftrightarrow> fixed_inv b \<and> length (data b) = sz"

definition reusable :: "nat \<Rightarrow> FixedBuffer option \<Rightarrow> bool" where
  "reusable sz b \<longleftrightarrow> (case b of None \<Rightarrow> False | Some b' \<Rightarrow> buffer_ok sz b' \<and> cur b' = 0)"

definition file_text :: "LogFile \<Rightarrow> string" where
  "file_text l = concat (map content (closed l)) @ (case log_file l of None \<Rightarrow> [] | Some f \<Rightarrow> content f)"

definition files_text :: "AsyncLogging \<Rightarrow> string" where
  "files_text a = (case log_output a of None \<Rightarrow> [] | Some l \<Rightarrow> file_text l)"

definition buffered :: "AsyncLogging \<Rightarrow> string" where
  "buffered a = concat (map fixed_toString (buffersToWrite a)) @ concat (map fixed_toString (buffers a)) @ fixed_toString (currentBuffer a)"

definition shared_ok :: "nat \<Rightarrow> AsyncLogging \<Rightarrow> bool" where
  "shared_ok sz a \<longleftrightarrow> buffer_ok sz (currentBuffer a) \<and> list_all (buffer_ok sz) (buffers a)
     \<and> (if nextBuffer a = None then buffers a \<noteq> [] else reusable sz (nextBuffer a))"

definition thread_ok :: "nat \<Rightarrow> AsyncLogging \<Rightarrow> bool" where
  "thread_ok sz a \<longleftrightarrow>
     (case async_phase a of
        NotStarted \<Rightarrow> running a \<and> log_output a = None \<and> buffersToWrite a = []
      | Writing \<Rightarrow> newBuffer1 a = None \<and> buffersToWrite a \<noteq> [] \<and> list_all (buffer_ok sz) (buffersToWrite a)
          \<and> (if newBuffer2 a = None then 2 \<le> length (buffersToWrite a) else reusable sz (newBuffer2 a))
      | _ \<Rightarrow> reusable sz (newBuffer1 a) \<and> reusable sz (newBuffer2 a) \<and> buffersToWrite a = [])"

definition output_ok :: "AsyncLogging \<Rightarrow> bool" where
  "output_ok a \<longleftrightarrow> (async_phase a = NotStarted \<or> (\<exists>l lines. log_output a = Some l \<and> log_inv l \<and> log_holds l lines \<and> 0 \<le> rollSize l))"

definition async_inv :: "nat \<Rightarrow> AsyncLogging \<Rightarrow> bool" where
  "async_inv sz a \<longleftrightarrow> shared_ok sz a \<and> thread_ok sz a \<and> output_ok a \<and> (drops a = 0 \<longrightarrow> files_text a @ buffered a = concat (logged a))"

lemma new_buffer_ok [simp]: "0 < sz \<Longrightarrow> buffer_ok sz (new_FixedBuffer sz)" "cur (new_FixedBuffer sz) = 0" "fixed_toString (new_FixedBuffer sz) = []"
  by (simp_all add: buffer_ok_def new_FixedBuffer_def fixed_inv_def fixed_toString_def)

lemma empty_toString: "cur b = 0 \<Longrightarrow> fixed_toString b = []"
  by (simp add: fixed_toString_def)

lemma concat_map_concat: "concat (map concat xss) = concat (concat xss)"
  by (induction xss) simp_all

lemma file_text_holds: "log_holds l lines \<Longrightarrow> file_text l = concat lines"
  by (auto simp: log_holds_def file_text_def concat_map_concat)

lemma append_into:
  assumes "buffer_ok sz b" "length x < avail b"
  shows "\<exists>b'. fixed_append x b = Inr b' \<and> buffer_ok sz b' \<and> fixed_toString b' = fixed_toString b @ x"
  using fixed_append_spec [of b x] assms by (auto simp: buffer_ok_def)

lemma avail_fresh: "buffer_ok sz b \<Longrightarrow> cur b = 0 \<Longrightarrow> avail b = sz"
  by (simp add: buffer_ok_def avail_def)

lemma async_append_inv:
  assumes inv: "async_inv sz a" and len: "length x < sz"
  shows "\<exists>a'. async_append sz x a = Inr a' \<and> async_inv sz a' \<and> async_phase a' = async_phase a"
proof (cases "length x < avail (currentBuffer a)")
  case True
  then obtain b where "fixed_append x (currentBuffer a) = Inr b" "buffer_ok sz b" "fixed_toString b = fixed_toString (currentBuffer a) @ x"
    using append_into inv by (metis async_inv_def shared_ok_def)
  then show ?thesis using inv True
    by (auto simp: async_append_def async_inv_def shared_ok_def thread_ok_def output_ok_def files_text_def buffered_def cong: async_phase.case_cong)
next
  case False
  define b where "b = (case nextBuffer a of Some b \<Rightarrow> b | None \<Rightarrow> new_FixedBuffer sz)"
  have fresh: "buffer_ok sz b" "cur b = 0" using inv len by (auto simp: b_def async_inv_def shared_ok_def reusable_def split: option.splits if_splits)
  then obtain b' where b': "fixed_append x b = Inr b'" "buffer_ok sz b'" "fixed_toString b' = x"
    using append_into [OF fresh(1), of x] len by (auto simp: avail_fresh empty_toString)
  have "async_append sz x a = Inr (a\<lparr>buffers := buffers a @ [currentBuffer a], nextBuffer := None, currentBuffer := b', logged := logged a @ [x]\<rparr>)"
    using False b' by (auto simp: async_append_def b_def Let_def split: option.splits)
  then show ?thesis using inv b'
    by (auto simp: async_inv_def shared_ok_def thread_ok_def output_ok_def files_text_def buffered_def cong: async_phase.case_cong)
qed

lemma swap_inv:
  assumes inv: "async_inv sz a" and ph: "async_phase a = LoopHead \<or> async_phase a = WaitingForLines"
  shows "\<exists>a'. swap_buffers a = Inr a' \<and> async_inv sz a'"
proof -
  have t: "reusable sz (newBuffer1 a)" "reusable sz (newBuffer2 a)" "buffersToWrite a = []"
    using inv ph by (auto simp: async_inv_def thread_ok_def)
  then obtain b1 b2 where b: "newBuffer1 a = Some b1" "buffer_ok sz b1" "cur b1 = 0" "newBuffer2 a = Some b2" "buffer_ok sz b2" "cur b2 = 0"
    by (auto simp: reusable_def split: option.splits)
  have "buffers a \<noteq> [] \<Longrightarrow> 2 \<le> Suc (length (buffers a))" by (cases "buffers a") auto
  then show ?thesis using inv ph b t
    by (auto simp: swap_buffers_def async_inv_def shared_ok_def thread_ok_def output_ok_def files_text_def buffered_def reusable_def Let_def empty_toString
        split: if_splits)
qed

lemma loop_begin_inv:
  assumes inv: "async_inv sz a" and ph: "async_phase a = LoopHead"
  shows "\<exists>a'. loop_begin a = Inr a' \<and> async_inv sz a'"
proof -
  have t: "reusable sz (newBuffer1 a)" "reusable sz (newBuffer2 a)" "buffersToWrite a = []"
    using inv ph by (auto simp: async_inv_def thread_ok_def)
  then have "is_empty_buffer (newBuffer1 a)" "is_empty_buffer (newBuffer2 a)"
    by (auto simp: is_empty_buffer_def reusable_def split: option.splits)
  moreover have "async_inv sz (a\<lparr>async_phase := WaitingForLines\<rparr>)"
    using inv ph by (auto simp: async_inv_def shared_ok_def thread_ok_def output_ok_def files_text_def buffered_def)
  ultimately show ?thesis using swap_inv [OF inv] ph t(3) by (simp add: loop_begin_def)
qed

lemma begin_inv:
  assumes "healthy env" "0 < env_time env 0" "CHR ''/'' \<notin> set base" "0 \<le> roll" "0 < sz"
    and inv: "async_inv sz a" and ph: "async_phase a = NotStarted"
  shows "\<exists>a'. thread_begin env sz base roll a = Inr a' \<and> async_inv sz a'"
proof -
  obtain l where l: "new_LogFile env base roll 3 1024 = Inr l" "log_inv l" "log_holds l []" "rollSize l = roll"
    using new_LogFile_healthy [OF assms(1-3)] by blast
  then have "file_text l = []" using file_text_holds by fastforce
  with l assms(4,5) inv ph show ?thesis
    by (auto simp: thread_begin_def async_inv_def shared_ok_def thread_ok_def output_ok_def files_text_def buffered_def reusable_def)
qed

text \<open>Writing to the log file.\<close>

lemma output_lines:
  assumes "healthy env" "log_output a = Some l" "log_inv l" "log_holds l lines" "0 \<le> rollSize l"
  shows "\<exists>l'. on_output (append_lines env xs) a = Inr (a\<lparr>log_output := Some l'\<rparr>) \<and> log_inv l' \<and> log_holds l' (lines @ xs) \<and> 0 \<le> rollSize l'"
  using append_lines_healthy [OF assms(1,3-5), of xs] assms(2,5) by (auto simp: on_output_def)

lemma output_line:
  assumes "healthy env" "log_output a = Some l" "log_inv l" "log_holds l lines" "0 \<le> rollSize l"
  shows "\<exists>l'. on_output (append_unlocked env x) a = Inr (a\<lparr>log_output := Some l'\<rparr>) \<and> log_inv l' \<and> log_holds l' (lines @ [x]) \<and> 0 \<le> rollSize l'"
  using append_unlocked_healthy [OF assms(1,3-5), of x] assms(2,5) by (auto simp: on_output_def)

lemma output_flush:
  assumes "log_output a = Some l" "log_inv l" "log_holds l lines" "0 \<le> rollSize l"
  shows "\<exists>l'. on_output LogFile_flush a = Inr (a\<lparr>log_output := Some l'\<rparr>) \<and> log_inv l' \<and> log_holds l' lines \<and> 0 \<le> rollSize l'"
proof -
  obtain f where f: "log_file l = Some f" using assms(3) by (auto simp: log_holds_def)
  then have "log_holds (l\<lparr>log_file := Some (AppendFile_flush f)\<rparr>) lines"
    using assms(3) unfolding log_holds_def by (simp add: AppendFile_flush_def)
  with f assms(1,2,4) show ?thesis by (auto simp: on_output_def LogFile_flush_def log_inv_def)
qed

text \<open>The buffers for the next round.\<close>

lemma refill_both:
  assumes "bs \<noteq> []" "list_all (buffer_ok sz) bs" "if b2 = None then 2 \<le> length bs else reusable sz b2" "0 < sz"
  shows "\<exists>b1' bs1 b2' bs2. refill None bs = Inr (b1', bs1) \<and> refill b2 bs1 = Inr (b2', bs2) \<and> reusable sz b1' \<and> reusable sz b2'"
proof -
  have reset: "reusable sz (Some (fixed_reset b))" if "buffer_ok sz b" for b
    using that assms(4) by (simp add: reusable_def fixed_reset_def buffer_ok_def fixed_inv_def)
  have "buffer_ok sz (last bs)" using assms(1,2) by (simp add: list_all_iff)
  moreover have "butlast bs \<noteq> [] \<and> buffer_ok sz (last (butlast bs))" if "b2 = None"
  proof -
    have "butlast bs \<noteq> []" using assms(3) that by (cases bs rule: rev_cases) auto
    then show ?thesis using assms(2) in_set_butlastD [OF last_in_set] by (auto simp: list_all_iff)
  qed
  ultimately show ?thesis using assms(1,3) reset by (auto simp: refill_def)
qed

lemma write_inv:
  assumes env: "healthy env" and inv: "async_inv sz a" and ph: "async_phase a = Writing" and sz: "0 < sz"
  shows "\<exists>a'. write_buffers env now a = Inr a' \<and> async_inv sz a'"
proof -
  obtain l lines where l: "log_output a = Some l" "log_inv l" "log_holds l lines" "0 \<le> rollSize l"
    using inv ph by (auto simp: async_inv_def output_ok_def)
  have t: "newBuffer1 a = None" "buffersToWrite a \<noteq> []" "list_all (buffer_ok sz) (buffersToWrite a)"
      "if newBuffer2 a = None then 2 \<le> length (buffersToWrite a) else reusable sz (newBuffer2 a)"
    and whole: "drops a = 0 \<Longrightarrow> file_text l @ buffered a = concat (logged a)"
    using inv ph l(1) by (auto simp: async_inv_def thread_ok_def files_text_def)
  define big where "big \<longleftrightarrow> length (buffersToWrite a) > 25"
  define ws where "ws = (if big then take 2 (buffersToWrite a) else buffersToWrite a)"
  define d where "d = drops a + of_bool big"
  obtain l1 lines1 where l1: "log_inv l1" "log_holds l1 lines1" "0 \<le> rollSize l1" "\<not> big \<Longrightarrow> lines1 = lines"
      "(if big then bindE (on_output (append_unlocked env (drop_message now (length (buffersToWrite a)))) a) (\<lambda>a'.
            Inr (a'\<lparr>buffersToWrite := take 2 (buffersToWrite a'), drops := drops a' + 1\<rparr>)) else Inr a)
       = Inr (a\<lparr>log_output := Some l1, buffersToWrite := ws, drops := d\<rparr>)"
    using output_line [OF env l, of "drop_message now (length (buffersToWrite a))"] l by (cases big) (auto simp: ws_def d_def)
  define a1 where "a1 = a\<lparr>log_output := Some l1, buffersToWrite := ws, drops := d\<rparr>"
  have a1: "log_output a1 = Some l1" "newBuffer1 a1 = None" "newBuffer2 a1 = newBuffer2 a" "buffersToWrite a1 = ws" by (simp_all add: a1_def t(1))
  obtain l2 where l2: "on_output (append_lines env (map fixed_toString ws)) a1 = Inr (a1\<lparr>log_output := Some l2\<rparr>)" "log_inv l2"
      "log_holds l2 (lines1 @ map fixed_toString ws)" "0 \<le> rollSize l2"
    using output_lines [OF env a1(1) l1(1-3), of "map fixed_toString ws"] by blast
  define bs where "bs = (if length ws > 2 then take 2 ws else ws)"
  have "bs = (if length (buffersToWrite a) > 2 then take 2 (buffersToWrite a) else buffersToWrite a)" by (auto simp: bs_def ws_def big_def)
  then have "bs \<noteq> []" "list_all (buffer_ok sz) bs" "if newBuffer2 a = None then 2 \<le> length bs else reusable sz (newBuffer2 a)"
    using t(2-4) by (auto simp: list_all_iff dest: in_set_takeD)
  from refill_both [OF this sz] obtain b1 bs1 b2 bs2 where b: "refill None bs = Inr (b1, bs1)" "refill (newBuffer2 a) bs1 = Inr (b2, bs2)"
      "reusable sz b1" "reusable sz b2" by blast
  define a2 where "a2 = a1\<lparr>log_output := Some l2, newBuffer1 := b1, newBuffer2 := b2, buffersToWrite := [], async_phase := LoopHead\<rparr>"
  have a2: "log_output a2 = Some l2" by (simp add: a2_def)
  obtain l3 where l3: "on_output LogFile_flush a2 = Inr (a2\<lparr>log_output := Some l3\<rparr>)" "log_inv l3"
      "log_holds l3 (lines1 @ map fixed_toString ws)" "0 \<le> rollSize l3"
    using output_flush [OF a2 l2(2-4)] by blast
  have "file_text l3 @ buffered a2 = concat (logged a)" if "d = 0"
    using whole that l1(4) file_text_holds [OF l3(3)] file_text_holds [OF l(3)] by (simp add: buffered_def ws_def d_def a2_def a1_def)
  then have "async_inv sz (a2\<lparr>log_output := Some l3\<rparr>)"
    using inv b(3,4) l3(2-4)
    by (auto simp: async_inv_def shared_ok_def thread_ok_def output_ok_def files_text_def buffered_def a2_def a1_def)
  moreover have "write_buffers env now a = Inr (a2\<lparr>log_output := Some l3\<rparr>)"
    unfolding write_buffers_def big_def [symmetric] l1(5) [folded a1_def]
    by (simp add: t(2) a1 l2(1) bs_def [symmetric] b(1,2) a2_def [symmetric] l3(1) Let_def cong: if_cong split del: if_split)
  ultimately show ?thesis by blast
qed

lemma end_inv:
  assumes inv: "async_inv sz a" and ph: "async_phase a = LoopHead"
  shows "\<exists>a'. thread_end a = Inr a' \<and> async_inv sz a'"
proof -
  obtain l lines where l: "log_output a = Some l" "log_inv l" "log_holds l lines" "0 \<le> rollSize l"
    using inv ph by (auto simp: async_inv_def output_ok_def)
  then obtain l' where l': "on_output LogFile_flush (a\<lparr>async_phase := Ended\<rparr>) = Inr (a\<lparr>async_phase := Ended, log_output := Some l'\<rparr>)"
      "log_inv l'" "log_holds l' lines" "0 \<le> rollSize l'"
    using output_flush [of "a\<lparr>async_phase := Ended\<rparr>" l lines] by auto
  then have "async_inv sz (a\<lparr>async_phase := Ended, log_output := Some l'\<rparr>)"
    using inv ph l file_text_holds [OF l(3)] file_text_holds [OF l'(3)]
    by (auto simp: async_inv_def shared_ok_def thread_ok_def output_ok_def files_text_def buffered_def)
  with l'(1) show ?thesis by (simp add: thread_end_def)
qed

lemma thread_step_inv:
  assumes "healthy env" "0 < env_time env 0" "CHR ''/'' \<notin> set base" "0 \<le> roll" "0 < sz" and inv: "async_inv sz a"
  shows "\<exists>a'. thread_step env sz base roll now a = Inr a' \<and> async_inv sz a'"
  using begin_inv [OF assms] loop_begin_inv [OF inv] end_inv [OF inv] swap_inv [OF inv] write_inv [OF assms(1) inv _ assms(5)] inv
  by (cases "async_phase a") (simp_all add: thread_step_def)

lemma async_reaches_inv:
  assumes "healthy env" "0 < env_time env 0" "CHR ''/'' \<notin> set base" "0 \<le> roll" "0 < sz" "async_reaches env sz base roll a"
  shows "async_inv sz a"
  using assms(6)
proof (induction rule: async_reaches.induct)
  case started
  show ?case using assms(5)
    by (simp add: async_inv_def async_start_def new_AsyncLogging_def shared_ok_def thread_ok_def output_ok_def files_text_def buffered_def reusable_def)
next
  case (appended a x a')
  then show ?case using async_append_inv by force
next
  case (stopped a)
  then show ?case
    by (auto simp: async_stop_def async_inv_def shared_ok_def thread_ok_def output_ok_def files_text_def buffered_def split: async_phase.splits)
next
  case (thread a now a')
  then show ?case using thread_step_inv [OF assms(1-5) thread.IH, of now] by auto
qed


text \<open>A given order of events, with the text of the current time.\<close>

datatype async_event = Append string | StopThread | ThreadStep string

fun async_run :: "log_env \<Rightarrow> nat \<Rightarrow> string \<Rightarrow> int \<Rightarrow> async_event list \<Rightarrow> AsyncLogging \<Rightarrow> AsyncLogging option" where
  "async_run env sz base roll [] a = Some a"
| "async_run env sz base roll (Append x # es) a =
     (if length x < sz then (case async_append sz x a of Inr a' \<Rightarrow> async_run env sz base roll es a' | Inl e \<Rightarrow> None) else None)"
| "async_run env sz base roll (StopThread # es) a = (if async_phase a \<noteq> NotStarted then async_run env sz base roll es (async_stop a) else None)"
| "async_run env sz base roll (ThreadStep now # es) a =
     (case thread_step env sz base roll now a of Inr a' \<Rightarrow> async_run env sz base roll es a' | Inl e \<Rightarrow> None)"

lemma async_run_reaches: "async_run env sz base roll es a = Some a' \<Longrightarrow> async_reaches env sz base roll a \<Longrightarrow> async_reaches env sz base roll a'"
proof (induction env sz base roll es a rule: async_run.induct)
  case (2 env sz base roll x es a)
  then show ?case by (auto split: if_splits sum.splits intro: async_reaches.appended)
next
  case (3 env sz base roll es a)
  then show ?case by (auto split: if_splits intro: async_reaches.stopped)
next
  case (4 env sz base roll now es a)
  then show ?case by (auto split: sum.splits intro: async_reaches.thread)
qed simp


text \<open>
  A line can be lost when logging stops: when \<open>stop\<close> comes while the thread is at the head of its loop, the thread ends without another look at the buffers, and a line that was appended before the
  stop never reaches the file.
\<close>

theorem stop_loses_lines:
  "\<exists>a. async_reaches demo_env 8 ''im'' 5 a \<and> async_phase a = Ended \<and> logged a = [''one''] \<and> files_text a = []"
proof -
  let ?es = "[ThreadStep [], Append ''one'', StopThread, ThreadStep []]"
  have "map_option (\<lambda>a. (async_phase a, logged a, files_text a)) (async_run demo_env 8 ''im'' 5 ?es (async_start (new_AsyncLogging 8))) = Some (Ended, [''one''], [])"
    by code_simp
  then obtain a where a: "async_run demo_env 8 ''im'' 5 ?es (async_start (new_AsyncLogging 8)) = Some a" "async_phase a = Ended" "logged a = [''one'']" "files_text a = []"
    unfolding map_option_eq_Some by blast
  with async_run_reaches [OF a(1) async_reaches.started] show ?thesis by blast
qed

end
