(* ===== verification/Time_Zone.thy ===== *)
theory Time_Zone
  imports Calendar
begin

text \<open>
  \<open>base/TimeZone.h\<close> and \<open>base/TimeZone.cc\<close> without the reader of zone files: broken-down time, the table of transitions of a zone and the
  conversions between seconds since 1970 and local time. \<open>std::upper_bound\<close> is the position after the elements that are not greater, which is
  what it returns on a range in order. An element of a vector beside its bounds is \<open>UndefinedBehaviour\<close>.
\<close>

section \<open>Broken-down time\<close>

definition kSecondsPerDay :: int where
  "kSecondsPerDay = 24 * 60 * 60"

record DateTime = YearMonthDay +
  hour :: int
  minute :: int
  second :: int

definition DateTime_of_tm :: "tm \<Rightarrow> DateTime" where
  "DateTime_of_tm t = \<lparr>year = tm_year t + 1900, month = tm_mon t + 1, day = tm_mday t,
     hour = tm_hour t, minute = tm_min t, second = tm_sec t\<rparr>"

definition DateTime_toIsoString :: "DateTime \<Rightarrow> string" where
  "DateTime_toIsoString dt = take 63 (pad0 4 (year dt) @ ''-'' @ pad0 2 (month dt) @ ''-'' @ pad0 2 (day dt) @ '' ''
     @ pad0 2 (hour dt) @ '':'' @ pad0 2 (minute dt) @ '':'' @ pad0 2 (second dt))"

definition fillHMS :: "int \<Rightarrow> int \<times> int \<times> int" where
  "fillHMS seconds = (let minutes = seconds div 60 in (minutes div 60, minutes mod 60, seconds mod 60))"

definition BreakTime :: "int \<Rightarrow> DateTime" where
  "BreakTime t =
     (let seconds = wrap32 (t smod kSecondsPerDay);
          days = wrap32 (t sdiv kSecondsPerDay);
          (seconds, days) = (if seconds < 0 then (seconds + kSecondsPerDay, days - 1) else (seconds, days));
          (h, m, s) = fillHMS seconds;
          ymd = yearMonthDay \<lparr>julianDayNumber = days + kJulianDayOf1970_01_01\<rparr>
      in \<lparr>year = year ymd, month = month ymd, day = day ymd, hour = h, minute = m, second = s\<rparr>)"

definition toUtcTime :: "int \<Rightarrow> DateTime" where
  "toUtcTime t = BreakTime t"

definition fromUtcTime :: "DateTime \<Rightarrow> int" where
  "fromUtcTime dt =
     (let date = new_Date (year dt) (month dt) (day dt);
          secondsInDay = hour dt * 3600 + minute dt * 60 + second dt;
          days = julianDayNumber date - kJulianDayOf1970_01_01
      in days * kSecondsPerDay + secondsInDay)"

section \<open>Zones\<close>

record Transition =
  utctime :: int
  localtime :: int
  localtimeIdx :: int

record LocalTime =
  utcOffset :: int
  isDst :: bool
  desigIdx :: int

record Data =
  transitions :: "Transition list"
  localtimes :: "LocalTime list"
  abbrev :: string
  tzstring :: string

definition new_Data :: Data where
  "new_Data = \<lparr>transitions = [], localtimes = [], abbrev = [], tzstring = []\<rparr>"

definition addLocalTime :: "int \<Rightarrow> bool \<Rightarrow> int \<Rightarrow> Data \<Rightarrow> Data" where
  "addLocalTime offset dst idx d = d\<lparr>localtimes := localtimes d @ [\<lparr>utcOffset = offset, isDst = dst, desigIdx = idx\<rparr>]\<rparr>"

text \<open>\<open>at\<close> throws for an index out of range.\<close>

definition addTransition :: "int \<Rightarrow> int \<Rightarrow> Data \<Rightarrow> Data res" where
  "addTransition utcTime idx d =
     (if 0 \<le> idx \<and> idx < int (length (localtimes d))
      then let lt = localtimes d ! nat idx
           in Inr (d\<lparr>transitions := transitions d @ [\<lparr>utctime = utcTime, localtime = utcTime + utcOffset lt, localtimeIdx = idx\<rparr>]\<rparr>)
      else Inl OutOfRange)"

definition localtime_at :: "int \<Rightarrow> Data \<Rightarrow> LocalTime res" where
  "localtime_at idx d =
     (if 0 \<le> idx \<and> idx < int (length (localtimes d)) then Inr (localtimes d ! nat idx) else Inl UndefinedBehaviour)"

definition upper_bound :: "('a \<Rightarrow> int) \<Rightarrow> int \<Rightarrow> 'a list \<Rightarrow> nat" where
  "upper_bound key x xs = length (takeWhile (\<lambda>y. key y \<le> x) xs)"

definition findLocalTime :: "int \<Rightarrow> Data \<Rightarrow> LocalTime res" where
  "findLocalTime utcTime d =
     (if transitions d = [] \<or> utcTime < utctime (hd (transitions d)) then localtime_at 0 d
      else let transI = upper_bound utctime utcTime (transitions d)
           in bindE (assertE (transI \<noteq> 0)) (\<lambda>_.
              if transI \<noteq> length (transitions d) then localtime_at (localtimeIdx (transitions d ! (transI - 1))) d
              else localtime_at (localtimeIdx (last (transitions d))) d))"

definition findLocalTime_local :: "DateTime \<Rightarrow> bool \<Rightarrow> Data \<Rightarrow> LocalTime res" where
  "findLocalTime_local lt postTransition d =
     (let local = fromUtcTime lt; ts = transitions d
      in if ts = [] \<or> local < localtime (hd ts) then localtime_at 0 d
         else let transI = upper_bound localtime local ts
              in bindE (assertE (transI \<noteq> 0)) (\<lambda>_.
                 if transI = length ts then localtime_at (localtimeIdx (last ts)) d
                 else let prior_trans = ts ! (transI - 1)
                      in bindE (localtime_at (localtimeIdx prior_trans) d) (\<lambda>prior.
                         let prior_second = utctime (ts ! transI) - 1 + utcOffset prior
                         in if prior_second < local
                            then localtime_at (localtimeIdx (if postTransition then ts ! transI else prior_trans)) d
                            else let transI' = transI - 1
                                 in bindE (if transI' \<noteq> 0
                                           then bindE (localtime_at (localtimeIdx (ts ! (transI' - 1))) d) (\<lambda>prior'.
                                                Inr (ts ! (transI' - 1), utctime (ts ! transI') - 1 + utcOffset prior'))
                                           else Inr (prior_trans, prior_second)) (\<lambda>(prior_trans', prior_second').
                                    if local \<le> prior_second'
                                    then localtime_at (localtimeIdx (if postTransition then ts ! transI' else prior_trans')) d
                                    else localtime_at (localtimeIdx (ts ! transI')) d))))"

text \<open>A time zone is a pointer to its data; \<open>None\<close> is the invalid zone.\<close>

type_synonym TimeZone = "Data option"

definition fixed_zone :: "int \<Rightarrow> string \<Rightarrow> TimeZone" where
  "fixed_zone eastOfUtc name = Some ((addLocalTime eastOfUtc False 0 new_Data)\<lparr>abbrev := name\<rparr>)"

definition UTC :: TimeZone where
  "UTC = fixed_zone 0 ''UTC''"

definition toLocalTime :: "TimeZone \<Rightarrow> int \<Rightarrow> (DateTime \<times> int) res" where
  "toLocalTime z seconds =
     (case z of
        None \<Rightarrow> Inl AssertionFailure
      | Some d \<Rightarrow> bindE (findLocalTime seconds d) (\<lambda>local. Inr (BreakTime (seconds + utcOffset local), utcOffset local)))"

definition fromLocalTime :: "TimeZone \<Rightarrow> DateTime \<Rightarrow> bool \<Rightarrow> int res" where
  "fromLocalTime z lt postTransition =
     (case z of
        None \<Rightarrow> Inl AssertionFailure
      | Some d \<Rightarrow> bindE (findLocalTime_local lt postTransition d) (\<lambda>local. Inr (fromUtcTime lt - utcOffset local)))"

section \<open>Seconds and broken-down time\<close>

text \<open>The times whose day is a date after the year -4800 and at most 300 million days after 1970.\<close>

definition representable :: "int \<Rightarrow> bool" where
  "representable t \<longleftrightarrow> - 2472326 * 86400 \<le> t \<and> t < 300000000 * 86400"

definition valid_time :: "DateTime \<Rightarrow> bool" where
  "valid_time dt \<longleftrightarrow> valid_date (YearMonthDay.truncate dt) \<and> 0 \<le> hour dt \<and> hour dt < 24
     \<and> 0 \<le> minute dt \<and> minute dt < 60 \<and> 0 \<le> second dt \<and> second dt < 60"

lemma julian_1970: "kJulianDayOf1970_01_01 = 2440588"
  by (simp add: kJulianDayOf1970_01_01_def getJulianDayNumber_def)

lemma first_day: "getJulianDayNumber (- 4799) 1 1 = - 31738"
  by (simp add: getJulianDayNumber_def)

text \<open>Every day number from the first on is that of a date.\<close>

lemma date_of_number: "\<exists>x. valid_date x \<and> getJulianDayNumber (year x) (month x) (day x) = - 31738 + int k"
proof (induction k)
  case 0
  have "valid_date \<lparr>year = - 4799, month = 1, day = 1\<rparr>" by (simp add: valid_date_def days_in_month_def)
  with first_day show ?case by (intro exI [of _ "\<lparr>year = - 4799, month = 1, day = 1\<rparr>"]) simp
next
  case (Suc k)
  then obtain x where "valid_date x" "getJulianDayNumber (year x) (month x) (day x) = - 31738 + int k" by blast
  with julian_next_day [of x] show ?case by (intro exI [of _ "next_day x"]) simp
qed

lemma number_roundtrip:
  assumes "- 31738 \<le> n"
  shows "valid_date (getYearMonthDay n)"
    and "getJulianDayNumber (year (getYearMonthDay n)) (month (getYearMonthDay n)) (day (getYearMonthDay n)) = n"
proof -
  obtain x where x: "valid_date x" "getJulianDayNumber (year x) (month x) (day x) = n"
    using date_of_number [of "nat (n + 31738)"] assms by auto
  with julian_roundtrip [OF x(1)] show "valid_date (getYearMonthDay n)"
    "getJulianDayNumber (year (getYearMonthDay n)) (month (getYearMonthDay n)) (day (getYearMonthDay n)) = n" by simp_all
qed

text \<open>Truncated division corrected for negative remainders is division.\<close>

lemma floor_from_trunc:
  fixes t d :: int
  assumes "0 < d"
  shows "(if t smod d < 0 then (t smod d + d, t sdiv d - 1) else (t smod d, t sdiv d)) = (t mod d, t div d)"
proof (cases "0 \<le> t")
  case True
  then show ?thesis using assms by (simp add: not_less)
next
  case False
  have trunc: "t sdiv d = - (- t div d)" "t smod d = - (- t mod d)"
    using False assms by (simp_all add: signed_divide_int_def signed_modulo_int_def)
  show ?thesis
  proof (cases "- t mod d = 0")
    case True
    then have "t mod d = 0" by (simp add: zmod_zminus1_eq_if [of "- t" d, simplified])
    with True show ?thesis unfolding trunc using zdiv_zminus1_eq_if [of d "- t"] assms by simp
  next
    case False
    then have "0 < - t mod d" using pos_mod_sign [OF assms, of "- t"] by linarith
    then show ?thesis
      unfolding trunc using zdiv_zminus1_eq_if [of d "- t"] zmod_zminus1_eq_if [of "- t" d] assms by auto
  qed
qed

lemma BreakTime_parts:
  assumes "representable t"
  shows "BreakTime t = (let ymd = getYearMonthDay (t div 86400 + 2440588); s = t mod 86400
    in \<lparr>year = year ymd, month = month ymd, day = day ymd, hour = s div 60 div 60, minute = s div 60 mod 60, second = s mod 60\<rparr>)"
proof -
  have days: "- 2472326 \<le> t div 86400" "t div 86400 < 300000000"
    using assms by (auto simp: representable_def)
  have trunc: "(if t smod 86400 < 0 then (t smod 86400 + 86400, t sdiv 86400 - 1) else (t smod 86400, t sdiv 86400)) = (t mod 86400, t div 86400)"
    by (rule floor_from_trunc) simp
  then have "t sdiv 86400 = t div 86400 \<or> t sdiv 86400 = t div 86400 + 1" "t smod 86400 = t mod 86400 \<or> t smod 86400 = t mod 86400 - 86400"
    by (auto split: if_splits)
  then have small: "is_int32 (t smod 86400)" "is_int32 (t sdiv 86400)"
    using days pos_mod_sign [of 86400 t] pos_mod_bound [of 86400 t] by (auto simp: is_int32_def)
  have k: "kSecondsPerDay = 86400" by (simp add: kSecondsPerDay_def)
  show ?thesis
    by (simp only: k BreakTime_def wrap32_id small Let_def trunc prod.case fillHMS_def yearMonthDay_def Date.simps julian_1970)
qed

lemma seconds_split:
  fixes s :: int
  assumes "0 \<le> s" "s < 86400"
  shows "0 \<le> s div 60 div 60" "s div 60 div 60 < 24" "s = s div 60 div 60 * 3600 + s div 60 mod 60 * 60 + s mod 60"
proof -
  have "s = s div 60 * 60 + s mod 60" "s div 60 = s div 60 div 60 * 60 + s div 60 mod 60" by simp_all
  then show "s = s div 60 div 60 * 3600 + s div 60 mod 60 * 60 + s mod 60" by linarith
  show "0 \<le> s div 60 div 60" "s div 60 div 60 < 24" using assms by linarith+
qed

lemma BreakTime_valid:
  assumes "representable t"
  shows "valid_time (BreakTime t)" "fromUtcTime (BreakTime t) = t"
proof -
  let ?n = "t div 86400 + 2440588"
  have n: "- 31738 \<le> ?n" using assms by (auto simp: representable_def)
  note split = seconds_split [of "t mod 86400", OF pos_mod_sign pos_mod_bound]
  have "valid_date (getYearMonthDay ?n)"
    and number: "getJulianDayNumber (year (getYearMonthDay ?n)) (month (getYearMonthDay ?n)) (day (getYearMonthDay ?n)) = ?n"
    using number_roundtrip [OF n] by blast+
  then show "valid_time (BreakTime t)"
    using split(1,2) by (simp add: BreakTime_parts [OF assms] valid_time_def valid_date_def Let_def YearMonthDay.truncate_def)
  have "fromUtcTime (BreakTime t) = (t div 86400) * 86400
      + (t mod 86400 div 60 div 60 * 3600 + t mod 86400 div 60 mod 60 * 60 + t mod 86400 mod 60)"
    by (simp add: BreakTime_parts [OF assms] fromUtcTime_def new_Date_def julian_1970 kSecondsPerDay_def Let_def number)
  also have "\<dots> = t" by (simp only: split(3) [symmetric] zero_less_numeral div_mult_mod_eq)
  finally show "fromUtcTime (BreakTime t) = t" .
qed

lemma BreakTime_inverse:
  assumes "valid_time dt" "representable (fromUtcTime dt)"
  shows "BreakTime (fromUtcTime dt) = dt"
proof -
  let ?s = "hour dt * 3600 + minute dt * 60 + second dt"
  define n where "n = getJulianDayNumber (year dt) (month dt) (day dt)"
  have t: "fromUtcTime dt = 86400 * (n - 2440588) + ?s"
    by (simp add: fromUtcTime_def new_Date_def julian_1970 kSecondsPerDay_def n_def)
  have s: "0 \<le> ?s" "?s < 86400" using assms(1) by (auto simp: valid_time_def)
  then have parts: "fromUtcTime dt div 86400 = n - 2440588" "fromUtcTime dt mod 86400 = ?s"
    using int_div_pos_eq [OF t] int_mod_pos_eq [OF t] by simp_all
  have hms: "?s div 60 div 60 = hour dt" "?s div 60 mod 60 = minute dt" "?s mod 60 = second dt"
  proof -
    have m: "?s = 60 * (60 * hour dt + minute dt) + second dt" by simp
    have v: "0 \<le> second dt" "second dt < 60" "0 \<le> minute dt" "minute dt < 60" using assms(1) by (simp_all add: valid_time_def)
    then have "?s div 60 = 60 * hour dt + minute dt" "?s mod 60 = second dt"
      using int_div_pos_eq [OF m] int_mod_pos_eq [OF m] by simp_all
    with v show "?s div 60 div 60 = hour dt" "?s div 60 mod 60 = minute dt" "?s mod 60 = second dt"
      using int_div_pos_eq [OF refl, of "minute dt" 60 "hour dt"] int_mod_pos_eq [OF refl, of "minute dt" 60 "hour dt"] by simp_all
  qed
  have ymd: "getYearMonthDay n = YearMonthDay.truncate dt"
    using julian_roundtrip [of "YearMonthDay.truncate dt"] assms(1)
    by (simp add: n_def valid_time_def YearMonthDay.truncate_def)
  show ?thesis
    unfolding BreakTime_parts [OF assms(2)] parts Let_def
    by (cases dt) (use hms ymd in \<open>simp add: YearMonthDay.truncate_def\<close>)
qed

section \<open>The table of transitions\<close>

definition offset_of :: "Data \<Rightarrow> Transition \<Rightarrow> int" where
  "offset_of d tr = utcOffset (localtimes d ! nat (localtimeIdx tr))"

text \<open>
  A table as zone files have it: the types of local time exist, offsets differ by at most \<open>D\<close> seconds, and transitions are in order,
  more than twice as far apart.
\<close>

definition zone_ok :: "int \<Rightarrow> Data \<Rightarrow> bool" where
  "zone_ok D d \<longleftrightarrow> 0 \<le> D
     \<and> (\<forall>tr \<in> set (transitions d). 0 \<le> localtimeIdx tr \<and> localtimeIdx tr < int (length (localtimes d))
          \<and> localtime tr = utctime tr + offset_of d tr)
     \<and> (\<forall>a \<in> set (transitions d). \<forall>b \<in> set (transitions d). offset_of d a - offset_of d b \<le> D)
     \<and> sorted_wrt (\<lambda>a b. utctime a + 2 * D < utctime b) (transitions d)"

lemma upper_bound_eq:
  fixes x :: int
  assumes "sorted_wrt (\<lambda>a b. key a < key b) ts" "k < length ts" "key (ts ! k) \<le> x" "Suc k < length ts \<Longrightarrow> x < key (ts ! Suc k)"
  shows "upper_bound key x ts = Suc k"
proof -
  have "key (ts ! i) \<le> x" if "i < Suc k" for i
  proof (cases "i = k")
    case False
    with assms(1,2) that have "key (ts ! i) < key (ts ! k)" by (simp add: sorted_wrt_iff_nth_less)
    with assms(3) show ?thesis by linarith
  qed (use assms(3) in simp)
  then have "takeWhile (\<lambda>y. key y \<le> x) ts = take (Suc k) ts"
    using assms(4) by (intro takeWhile_eq_take_P_nth) (auto simp: not_le)
  then show ?thesis using assms(2) by (simp add: upper_bound_def)
qed

text \<open>The transition that is in force.\<close>

lemma in_force:
  assumes "ts \<noteq> []" "key (hd ts) \<le> (x :: int)"
  obtains k where "k < length ts" "key (ts ! k) \<le> x" "Suc k < length ts \<Longrightarrow> x < key (ts ! Suc k)"
proof -
  let ?n = "length (takeWhile (\<lambda>y. key y \<le> x) ts)"
  have pos: "0 < ?n" using assms by (cases ts) auto
  have le: "?n \<le> length ts" by (rule length_takeWhile_le)
  have "key (ts ! (?n - 1)) \<le> x"
    using set_takeWhileD [of "ts ! (?n - 1)" "\<lambda>y. key y \<le> x" ts] pos
    by (metis (no_types, lifting) diff_less nth_mem takeWhile_nth zero_less_one)
  moreover have "x < key (ts ! ?n)" if "?n < length ts"
    using nth_length_takeWhile [OF that] by (simp add: not_le)
  moreover have "?n - 1 < length ts" "Suc (?n - 1) = ?n" using pos le by linarith+
  ultimately show thesis using that [of "?n - 1"] by simp
qed

lemma zone_facts:
  assumes "zone_ok D d" "i < length (transitions d)"
  shows "localtime_at (localtimeIdx (transitions d ! i)) d = Inr (localtimes d ! nat (localtimeIdx (transitions d ! i)))"
    and "localtime (transitions d ! i) = utctime (transitions d ! i) + offset_of d (transitions d ! i)"
    and "j < length (transitions d) \<Longrightarrow> offset_of d (transitions d ! i) - offset_of d (transitions d ! j) \<le> D"
    and "i < j \<Longrightarrow> j < length (transitions d) \<Longrightarrow> utctime (transitions d ! i) + 2 * D < utctime (transitions d ! j)"
proof -
  have "transitions d ! i \<in> set (transitions d)" using assms(2) by simp
  then show "localtime_at (localtimeIdx (transitions d ! i)) d = Inr (localtimes d ! nat (localtimeIdx (transitions d ! i)))"
    "localtime (transitions d ! i) = utctime (transitions d ! i) + offset_of d (transitions d ! i)"
    "j < length (transitions d) \<Longrightarrow> offset_of d (transitions d ! i) - offset_of d (transitions d ! j) \<le> D"
    using assms(1) by (auto simp: zone_ok_def localtime_at_def)
  show "i < j \<Longrightarrow> j < length (transitions d) \<Longrightarrow> utctime (transitions d ! i) + 2 * D < utctime (transitions d ! j)"
    using assms by (auto simp: zone_ok_def sorted_wrt_iff_nth_less)
qed

lemma zone_sorted:
  assumes "zone_ok D d"
  shows "sorted_wrt (\<lambda>a b. utctime a < utctime b) (transitions d)" "sorted_wrt (\<lambda>a b. localtime a < localtime b) (transitions d)"
proof -
  have D: "0 \<le> D" using assms by (simp add: zone_ok_def)
  have "utctime (transitions d ! i) < utctime (transitions d ! j) \<and> localtime (transitions d ! i) < localtime (transitions d ! j)"
    if "i < j" "j < length (transitions d)" for i j
    using zone_facts [OF assms, of i] zone_facts(2) [OF assms that(2)] that D by force
  then show "sorted_wrt (\<lambda>a b. utctime a < utctime b) (transitions d)" "sorted_wrt (\<lambda>a b. localtime a < localtime b) (transitions d)"
    by (auto simp: sorted_wrt_iff_nth_less)
qed

lemma findLocalTime_in_force:
  assumes "zone_ok D d" "k < length (transitions d)" "utctime (transitions d ! k) \<le> t"
    "Suc k < length (transitions d) \<Longrightarrow> t < utctime (transitions d ! Suc k)"
  shows "findLocalTime t d = Inr (localtimes d ! nat (localtimeIdx (transitions d ! k)))"
proof -
  have "utctime (hd (transitions d)) \<le> utctime (transitions d ! k)"
  proof (cases "k = 0")
    case False
    then have "utctime (transitions d ! 0) < utctime (transitions d ! k)"
      using zone_sorted(1) [OF assms(1)] assms(2) by (simp add: sorted_wrt_iff_nth_less)
    moreover have "transitions d \<noteq> []" using assms(2) by auto
    ultimately show ?thesis by (simp add: hd_conv_nth)
  qed (use assms(2) in \<open>auto simp: hd_conv_nth\<close>)
  then have "\<not> t < utctime (hd (transitions d))" "transitions d \<noteq> []" using assms(2,3) by auto
  moreover have "upper_bound utctime t (transitions d) = Suc k"
    using upper_bound_eq [OF zone_sorted(1) [OF assms(1)] assms(2-4)] by simp
  moreover have "last (transitions d) = transitions d ! k" if "Suc k = length (transitions d)"
    using that by (metis diff_Suc_1 last_conv_nth list.size(3) nat.distinct(1))
  ultimately show ?thesis
    using zone_facts(1) [OF assms(1,2)] assms(2) by (auto simp: findLocalTime_def)
qed

lemma local_search:
  assumes zone: "zone_ok D d" and i: "i < length (transitions d)" "localtime (transitions d ! i) \<le> fromUtcTime lt"
    "Suc i < length (transitions d) \<Longrightarrow> fromUtcTime lt < localtime (transitions d ! Suc i)"
  defines "ts \<equiv> transitions d"
  defines "type j \<equiv> localtimes d ! nat (localtimeIdx (transitions d ! j))"
  shows "findLocalTime_local lt post d = Inr (
     if Suc i = length ts then type i
     else if utctime (ts ! Suc i) - 1 + offset_of d (ts ! i) < fromUtcTime lt then type (if post then Suc i else i)
     else if i \<noteq> 0 \<and> fromUtcTime lt \<le> utctime (ts ! i) - 1 + offset_of d (ts ! (i - 1)) then type (if post then i else i - 1)
     else type i)"
proof -
  have ne: "ts \<noteq> []" using i(1) by (auto simp: ts_def)
  have "localtime (hd ts) \<le> localtime (ts ! i)"
  proof (cases "i = 0")
    case False
    then have "localtime (ts ! 0) < localtime (ts ! i)"
      using zone_sorted(2) [OF zone] i(1) by (simp add: sorted_wrt_iff_nth_less ts_def)
    with ne show ?thesis by (simp add: hd_conv_nth)
  qed (use ne in \<open>simp add: hd_conv_nth\<close>)
  then have first: "\<not> fromUtcTime lt < localtime (hd ts)" using i(2) by (simp add: ts_def)
  have ub: "upper_bound localtime (fromUtcTime lt) ts = Suc i"
    unfolding ts_def by (rule upper_bound_eq [OF zone_sorted(2) [OF zone] i(1,2)]) (rule i(3))
  have at: "localtime_at (localtimeIdx (ts ! j)) d = Inr (type j)" if "j < length ts" for j
    using zone_facts(1) [OF zone] that by (simp add: ts_def type_def)
  have off: "utcOffset (type j) = offset_of d (ts ! j)" for j
    by (simp add: type_def offset_of_def ts_def)
  have last: "last ts = ts ! i" if "Suc i = length ts"
    using that by (metis diff_Suc_1 last_conv_nth list.size(3) nat.distinct(1))
  have len: "i < length ts" using i(1) by (simp add: ts_def)
  show ?thesis
    unfolding findLocalTime_local_def Let_def ts_def [symmetric]
    using ne first ub last len at [of i] at [of "Suc i"] at [of "i - 1"] Suc_lessI [OF len]
    by (cases "Suc i = length ts"; cases "i = 0") (auto simp: off)
qed

text \<open>
  The instants of a zone around the transition \<open>k\<close> that is in force: the local time they show lies before the next but one transition, and before the next
  unless the clock is put back there and the instant is shown a second time.
\<close>

lemma shown_later:
  assumes zone: "zone_ok D d" and k: "k < length (transitions d)" "Suc k < length (transitions d) \<Longrightarrow> t < utctime (transitions d ! Suc k)"
    and j: "Suc k < j" "j < length (transitions d)"
  shows "t + offset_of d (transitions d ! k) < localtime (transitions d ! j)"
    and "t + offset_of d (transitions d ! k) \<le> utctime (transitions d ! j) - 1 + offset_of d (transitions d ! Suc k)"
proof -
  have sk: "Suc k < length (transitions d)" using j by simp
  have "t < utctime (transitions d ! Suc k)" using k(2) sk by simp
  moreover have "utctime (transitions d ! Suc k) + 2 * D < utctime (transitions d ! j)" using zone_facts(4) [OF zone sk] j by simp
  moreover have "offset_of d (transitions d ! k) - offset_of d (transitions d ! j) \<le> D"
    "offset_of d (transitions d ! k) - offset_of d (transitions d ! Suc k) \<le> D" using zone_facts(3) [OF zone k(1)] j sk by blast+
  moreover have "0 \<le> D" using zone by (simp add: zone_ok_def)
  moreover note zone_facts(2) [OF zone j(2)]
  ultimately show "t + offset_of d (transitions d ! k) < localtime (transitions d ! j)"
    "t + offset_of d (transitions d ! k) \<le> utctime (transitions d ! j) - 1 + offset_of d (transitions d ! Suc k)" by linarith+
qed

lemma toLocalTime_in_force:
  assumes "zone_ok D d" "k < length (transitions d)" "utctime (transitions d ! k) \<le> t"
    "Suc k < length (transitions d) \<Longrightarrow> t < utctime (transitions d ! Suc k)"
  shows "toLocalTime (Some d) t = Inr (BreakTime (t + offset_of d (transitions d ! k)), offset_of d (transitions d ! k))"
  using findLocalTime_in_force [OF assms] by (simp add: toLocalTime_def offset_of_def)

text \<open>The answers when the local time is that of an instant that is not shown again later.\<close>

lemma answers_at:
  assumes zone: "zone_ok D d" and k: "k < length (transitions d)" "utctime (transitions d ! k) \<le> t"
      "Suc k < length (transitions d) \<Longrightarrow> t < utctime (transitions d ! Suc k)"
    and dt: "fromUtcTime dt = t + offset_of d (transitions d ! k)" "dt = BreakTime (fromUtcTime dt)"
    and once: "Suc k < length (transitions d) \<Longrightarrow> fromUtcTime dt < localtime (transitions d ! Suc k)"
  shows "fromLocalTime (Some d) dt True = Inr t"
    and "\<exists>t' off'. fromLocalTime (Some d) dt post = Inr t' \<and> toLocalTime (Some d) t' = Inr (dt, off')"
proof -
  let ?ts = "transitions d" and ?L = "fromUtcTime dt"
  define type where "type j = localtimes d ! nat (localtimeIdx (?ts ! j))" for j
  have off: "utcOffset (type j) = offset_of d (?ts ! j)" for j by (simp add: type_def offset_of_def)
  have "localtime (?ts ! k) \<le> ?L" using zone_facts(2) [OF zone k(1)] k(2) dt(1) by simp
  note search = local_search [OF zone k(1) this once, folded type_def]
  have "\<not> utctime (?ts ! Suc k) - 1 + offset_of d (?ts ! k) < ?L" if "Suc k \<noteq> length ?ts"
    using k that dt(1) by simp
  then have cases: "findLocalTime_local dt p d = Inr (type k) \<or>
      \<not> p \<and> k \<noteq> 0 \<and> ?L \<le> utctime (?ts ! k) - 1 + offset_of d (?ts ! (k - 1)) \<and> findLocalTime_local dt p d = Inr (type (k - 1))" for p
    using search [of p] by auto
  from cases [of True] show "fromLocalTime (Some d) dt True = Inr t"
    by (simp add: fromLocalTime_def off dt(1))
  have here: "toLocalTime (Some d) t = Inr (dt, offset_of d (?ts ! k))"
    using toLocalTime_in_force [OF zone k] dt by simp
  from cases [of post] show "\<exists>t' off'. fromLocalTime (Some d) dt post = Inr t' \<and> toLocalTime (Some d) t' = Inr (dt, off')"
  proof (elim disjE conjE)
    assume "findLocalTime_local dt post d = Inr (type k)"
    with here dt(1) show ?thesis by (auto simp: fromLocalTime_def off)
  next
    assume before: "k \<noteq> 0" "?L \<le> utctime (?ts ! k) - 1 + offset_of d (?ts ! (k - 1))"
      and found: "findLocalTime_local dt post d = Inr (type (k - 1))"
    let ?t = "?L - offset_of d (?ts ! (k - 1))"
    have j: "k - 1 < length ?ts" "Suc (k - 1) = k" using k(1) before(1) by simp_all
    have "utctime (?ts ! (k - 1)) + 2 * D < utctime (?ts ! k)" using zone_facts(4) [OF zone j(1), of k] before(1) k(1) by simp
    then have "utctime (?ts ! (k - 1)) \<le> ?t"
      using zone_facts(3) [OF zone j(1) k(1)] dt(1) k(2) zone by (simp add: zone_ok_def)
    moreover have "?t < utctime (?ts ! Suc (k - 1))" using before(2) j(2) by simp
    ultimately have "toLocalTime (Some d) ?t = Inr (dt, offset_of d (?ts ! (k - 1)))"
      using toLocalTime_in_force [OF zone j(1)] dt(2) by simp
    with found show ?thesis by (auto simp: fromLocalTime_def off)
  qed
qed

text \<open>And when it is that of an instant that is shown again after the clock was put back, not for the last time.\<close>

lemma answers_twice:
  assumes zone: "zone_ok D d" and k: "Suc (Suc k) < length (transitions d)" "utctime (transitions d ! k) \<le> t" "t < utctime (transitions d ! Suc k)"
    and dt: "fromUtcTime dt = t + offset_of d (transitions d ! k)" "dt = BreakTime (fromUtcTime dt)"
    and twice: "localtime (transitions d ! Suc k) \<le> fromUtcTime dt"
  shows "fromLocalTime (Some d) dt False = Inr t"
    and "\<exists>t' off'. fromLocalTime (Some d) dt post = Inr t' \<and> toLocalTime (Some d) t' = Inr (dt, off')"
proof -
  let ?ts = "transitions d" and ?L = "fromUtcTime dt"
  define type where "type j = localtimes d ! nat (localtimeIdx (?ts ! j))" for j
  have off: "utcOffset (type j) = offset_of d (?ts ! j)" for j by (simp add: type_def offset_of_def)
  have len: "k < length ?ts" "Suc k < length ?ts" using k(1) by simp_all
  note later = shown_later [OF zone len(1) k(3) lessI k(1), folded dt(1)]
  have "\<not> utctime (?ts ! Suc (Suc k)) - 1 + offset_of d (?ts ! Suc k) < ?L" "?L \<le> utctime (?ts ! Suc k) - 1 + offset_of d (?ts ! k)"
    using later(2) k(3) dt(1) by simp_all
  then have found: "findLocalTime_local dt p d = Inr (type (if p then Suc k else k))" for p
    using local_search [OF zone len(2) twice later(1), of p, folded type_def] k(1) by simp
  then show "fromLocalTime (Some d) dt False = Inr t" by (simp add: fromLocalTime_def off dt(1))
  show "\<exists>t' off'. fromLocalTime (Some d) dt post = Inr t' \<and> toLocalTime (Some d) t' = Inr (dt, off')"
  proof (cases post)
    case False
    with found [of False] toLocalTime_in_force [OF zone len(1) k(2)] k(3) dt show ?thesis by (auto simp: fromLocalTime_def off)
  next
    case True
    let ?t = "?L - offset_of d (?ts ! Suc k)"
    have "utctime (?ts ! Suc k) \<le> ?t" using twice zone_facts(2) [OF zone len(2)] by simp
    moreover have "?t < utctime (?ts ! Suc (Suc k))" using later(2) by simp
    ultimately have "toLocalTime (Some d) ?t = Inr (dt, offset_of d (?ts ! Suc k))"
      using toLocalTime_in_force [OF zone len(2)] dt(2) by simp
    with True found [of True] show ?thesis by (auto simp: fromLocalTime_def off)
  qed
qed

text \<open>
  C32. Local time and back: take a zone whose transitions are in order and far apart compared with the changes of its offset, and an instant not before the first transition and not
  in the last moments before the last one. Its local time is a valid date and time, one of the two values of \<open>postTransition\<close> brings back exactly that instant, and whatever
  the value, the answer is an instant that shows the same local time; no vector is read out of range and no assertion fails.
\<close>

theorem local_time_roundtrip:
  assumes zone: "zone_ok D d" and ts: "transitions d \<noteq> []" and first: "utctime (hd (transitions d)) \<le> t"
    and not_last: "t < utctime (last (transitions d)) - D \<or> utctime (last (transitions d)) \<le> t"
    and rep: "\<forall>tr \<in> set (transitions d). representable (t + offset_of d tr)"
  shows "\<exists>dt off post. toLocalTime (Some d) t = Inr (dt, off) \<and> valid_time dt \<and> fromLocalTime (Some d) dt post = Inr t
    \<and> (\<forall>post'. \<exists>t' off'. fromLocalTime (Some d) dt post' = Inr t' \<and> toLocalTime (Some d) t' = Inr (dt, off'))"
proof -
  let ?ts = "transitions d"
  obtain k where k: "k < length ?ts" "utctime (?ts ! k) \<le> t" "Suc k < length ?ts \<Longrightarrow> t < utctime (?ts ! Suc k)"
    by (rule in_force [of ?ts utctime t, OF ts first]) blast
  define dt where "dt = BreakTime (t + offset_of d (?ts ! k))"
  have "representable (t + offset_of d (?ts ! k))" using rep k(1) by simp
  note broken = BreakTime_valid [OF this, folded dt_def]
  have dt: "fromUtcTime dt = t + offset_of d (?ts ! k)" "dt = BreakTime (fromUtcTime dt)"
    using broken(2) by (simp_all add: dt_def)
  have to: "toLocalTime (Some d) t = Inr (dt, offset_of d (?ts ! k))"
    using toLocalTime_in_force [OF zone k] by (simp add: dt_def)
  show ?thesis
  proof (cases "Suc k < length ?ts \<and> localtime (?ts ! Suc k) \<le> fromUtcTime dt")
    case False
    then show ?thesis using answers_at [OF zone k dt] to broken(1) by (metis not_le)
  next
    case True
    then have sk: "Suc k < length ?ts" and twice: "localtime (?ts ! Suc k) \<le> fromUtcTime dt" by auto
    have "Suc (Suc k) \<noteq> length ?ts"
    proof
      assume "Suc (Suc k) = length ?ts"
      then have "last ?ts = ?ts ! Suc k" by (metis diff_Suc_1 last_conv_nth ts)
      with not_last k(3) sk twice dt(1) zone_facts(2) [OF zone sk] zone_facts(3) [OF zone k(1) sk] show False by simp
    qed
    with sk have "Suc (Suc k) < length ?ts" by simp
    from answers_twice [OF zone this k(2) k(3) [OF sk] dt twice] to broken(1) show ?thesis by blast
  qed
qed

text \<open>The zone of the comments in the source: the last years of summer time in China.\<close>

definition prc :: Data where
  "prc = \<lparr>transitions =
       [\<lparr>utctime = 621968400, localtime = 621997200, localtimeIdx = 0\<rparr>,
        \<lparr>utctime = 640116000, localtime = 640148400, localtimeIdx = 1\<rparr>,
        \<lparr>utctime = 653418000, localtime = 653446800, localtimeIdx = 0\<rparr>,
        \<lparr>utctime = 671565600, localtime = 671598000, localtimeIdx = 1\<rparr>,
        \<lparr>utctime = 684867600, localtime = 684896400, localtimeIdx = 0\<rparr>],
     localtimes = [\<lparr>utcOffset = 28800, isDst = False, desigIdx = 0\<rparr>, \<lparr>utcOffset = 32400, isDst = True, desigIdx = 4\<rparr>],
     abbrev = [], tzstring = []\<rparr>"

lemma prc_ok: "zone_ok 3600 prc"
  by (simp add: prc_def zone_ok_def offset_of_def)

theorem local_time_roundtrip_witness:
  "\<exists>dt off post. toLocalTime (Some prc) 653416200 = Inr (dt, off) \<and> valid_time dt \<and> fromLocalTime (Some prc) dt post = Inr 653416200"
  using local_time_roundtrip [OF prc_ok, of 653416200]
  by (fastforce simp: prc_def offset_of_def representable_def)

text \<open>
  The last transition is treated differently: when it puts the clock back, the instants just before it cannot be found again. For an instant
  whose local time is shown again after the last transition, \<open>fromLocalTime\<close> ignores \<open>postTransition\<close> and returns the later instant in both cases.
\<close>

theorem last_transition_shown_twice:
  assumes zone: "zone_ok D d" and k: "length (transitions d) = Suc (Suc k)" "utctime (transitions d ! k) \<le> t" "t < utctime (transitions d ! Suc k)"
    and twice: "localtime (transitions d ! Suc k) \<le> t + offset_of d (transitions d ! k)"
    and rep: "representable (t + offset_of d (transitions d ! k))"
  shows "\<exists>dt. toLocalTime (Some d) t = Inr (dt, offset_of d (transitions d ! k))
    \<and> fromLocalTime (Some d) dt post = Inr (t + (offset_of d (transitions d ! k) - offset_of d (transitions d ! Suc k)))
    \<and> t < t + (offset_of d (transitions d ! k) - offset_of d (transitions d ! Suc k))"
proof -
  let ?dt = "BreakTime (t + offset_of d (transitions d ! k))"
  have len: "k < length (transitions d)" "Suc k < length (transitions d)" using k(1) by simp_all
  have L: "fromUtcTime ?dt = t + offset_of d (transitions d ! k)" by (rule BreakTime_valid(2) [OF rep])
  have "findLocalTime_local ?dt post d = Inr (localtimes d ! nat (localtimeIdx (transitions d ! Suc k)))"
    using local_search [OF zone len(2), of ?dt post] twice L k(1) by simp
  then have "fromLocalTime (Some d) ?dt post = Inr (t + (offset_of d (transitions d ! k) - offset_of d (transitions d ! Suc k)))"
    by (simp add: fromLocalTime_def L) (simp add: offset_of_def)
  moreover have "toLocalTime (Some d) t = Inr (?dt, offset_of d (transitions d ! k))"
    using toLocalTime_in_force [OF zone len(1) k(2)] k(3) by simp
  ultimately show ?thesis
    using twice k(3) zone_facts(2) [OF zone len(2)] by (intro exI [of _ ?dt]) simp
qed

theorem last_transition_shown_twice_witness:
  "\<exists>dt. toLocalTime (Some prc) 684865800 = Inr (dt, 32400) \<and> fromLocalTime (Some prc) dt False = Inr 684869400"
  using last_transition_shown_twice [OF prc_ok, of 3 684865800 False]
  by (simp add: prc_def offset_of_def representable_def)

end
