(* ===== verification/Zone_File.thy ===== *)
theory Zone_File
  imports Time_Zone Net_Buffer
begin

text \<open>
  The reader of zone files of \<open>base/TimeZone.cc\<close>: class \<open>File\<close>, \<open>readDataBlock\<close>, \<open>readTimeZoneFile\<close> and \<open>loadZoneFile\<close>. A file that could be opened is its characters and a position.
  \<open>std::logic_error\<close> and the exceptions derived from it (\<open>at\<close> out of range, \<open>reserve\<close> with a negative count) are caught
  and make the zone invalid; what is not caught is a \<open>Crash\<close>: an array of negative length, an overflow of \<open>int\<close>. The memory for counts that are too large is not limited,
  and what a failed reader has already stored in the data is dropped, as \<open>loadZoneFile\<close> drops it.
\<close>

section \<open>Files\<close>

datatype exception = LogicError string | Crash fault

type_synonym 'a io = "exception + 'a"

definition bindX :: "'a io \<Rightarrow> ('a \<Rightarrow> 'b io) \<Rightarrow> 'b io" where
  "bindX m f = (case m of Inl e \<Rightarrow> Inl e | Inr x \<Rightarrow> f x)"

lemma bindX_simps [simp]: "bindX (Inl e) f = Inl e" "bindX (Inr x) f = f x"
  by (simp_all add: bindX_def)

record File =
  bytes :: string
  pos :: nat

definition fread :: "nat \<Rightarrow> File \<Rightarrow> string \<times> File" where
  "fread n f = (let cs = take n (drop (pos f) (bytes f)) in (cs, f\<lparr>pos := pos f + length cs\<rparr>))"

definition File_readBytes :: "int \<Rightarrow> File \<Rightarrow> (string \<times> File) io" where
  "File_readBytes n f =
     (if n < 0 then Inl (Crash UndefinedBehaviour)
      else let (buf, f') = fread (nat n) f
           in if int (length buf) \<noteq> n then Inl (LogicError ''no enough data'') else Inr (buf, f'))"

definition File_readToEnd :: "File \<Rightarrow> string \<times> File" where
  "File_readToEnd f = (let cs = drop (pos f) (bytes f) in (cs, f\<lparr>pos := pos f + length cs\<rparr>))"

definition File_readInt64 :: "File \<Rightarrow> (int \<times> File) io" where
  "File_readInt64 f = (let (x, f') = fread 8 f
     in if length x \<noteq> 8 then Inl (LogicError ''bad int64_t data'')
        else Inr (sint (networkToHost64 (word_of_nat (of_le_bytes x))), f'))"

definition File_readInt32 :: "File \<Rightarrow> (int \<times> File) io" where
  "File_readInt32 f = (let (x, f') = fread 4 f
     in if length x \<noteq> 4 then Inl (LogicError ''bad int32_t data'')
        else Inr (sint (networkToHost32 (word_of_nat (of_le_bytes x))), f'))"

definition File_readUInt8 :: "File \<Rightarrow> (int \<times> File) io" where
  "File_readUInt8 f = (let (x, f') = fread 1 f
     in if length x \<noteq> 1 then Inl (LogicError ''bad uint8_t data'') else Inr (int (of_char (hd x)), f'))"

text \<open>\<open>fseek\<close> from the current position; a position before the start is refused.\<close>

definition File_skip :: "int \<Rightarrow> File \<Rightarrow> File" where
  "File_skip n f = (if int (pos f) + n < 0 then f else f\<lparr>pos := nat (int (pos f) + n)\<rparr>)"

section \<open>The data block\<close>

text \<open>A loop that reads \<open>n\<close> items, the vector reserved before it.\<close>

definition reserve :: "int \<Rightarrow> unit io" where
  "reserve n = (if n < 0 then Inl (LogicError ''vector::reserve'') else Inr ())"

fun read_items :: "(File \<Rightarrow> ('a \<times> File) io) \<Rightarrow> nat \<Rightarrow> File \<Rightarrow> ('a list \<times> File) io" where
  "read_items rd 0 f = Inr ([], f)"
| "read_items rd (Suc n) f = bindX (rd f) (\<lambda>(x, f1). bindX (read_items rd n f1) (\<lambda>(xs, f2). Inr (x # xs, f2)))"

definition read_type :: "File \<Rightarrow> ((int \<times> bool \<times> int) \<times> File) io" where
  "read_type f =
     bindX (File_readInt32 f) (\<lambda>(gmtoff, f1).
     bindX (File_readUInt8 f1) (\<lambda>(isdst, f2).
     bindX (File_readUInt8 f2) (\<lambda>(abbrind, f3). Inr ((gmtoff, isdst \<noteq> 0, abbrind), f3))))"

fun add_transitions :: "(int \<times> int) list \<Rightarrow> Data \<Rightarrow> Data io" where
  "add_transitions [] d = Inr d"
| "add_transitions ((t, idx) # ts) d =
     (case addTransition t idx d of
        Inl e \<Rightarrow> Inl (LogicError ''vector::_M_range_check'')
      | Inr d' \<Rightarrow> add_transitions ts d')"

definition readDataBlock :: "bool \<Rightarrow> File \<Rightarrow> Data \<Rightarrow> (bool \<times> Data) io" where
  "readDataBlock v1 f data =
     bindX (File_readInt32 f) (\<lambda>(isutccnt, f1).
     bindX (File_readInt32 f1) (\<lambda>(isstdcnt, f2).
     bindX (File_readInt32 f2) (\<lambda>(leapcnt, f3).
     bindX (File_readInt32 f3) (\<lambda>(timecnt, f4).
     bindX (File_readInt32 f4) (\<lambda>(typecnt, f5).
     bindX (File_readInt32 f5) (\<lambda>(charcnt, f6).
     if leapcnt \<noteq> 0 then Inr (False, data)
     else if isutccnt \<noteq> 0 \<and> isutccnt \<noteq> typecnt then Inr (False, data)
     else if isstdcnt \<noteq> 0 \<and> isstdcnt \<noteq> typecnt then Inr (False, data)
     else
       bindX (reserve timecnt) (\<lambda>_.
       bindX (read_items (if v1 then File_readInt32 else File_readInt64) (nat timecnt) f6) (\<lambda>(trans, f7).
       bindX (read_items File_readUInt8 (nat timecnt) f7) (\<lambda>(localIdx, f8).
       bindX (reserve typecnt) (\<lambda>_.
       bindX (read_items read_type (nat typecnt) f8) (\<lambda>(types, f9).
       let data1 = fold (\<lambda>(gmtoff, isdst, abbrind). addLocalTime gmtoff isdst abbrind) types data
       in bindX (add_transitions (zip trans localIdx) data1) (\<lambda>data2.
          bindX (File_readBytes charcnt f9) (\<lambda>(abbr, f10).
          let data3 = data2\<lparr>abbrev := abbr\<rparr>;
              f11 = File_skip isutccnt (File_skip isstdcnt (File_skip (leapcnt * ((if v1 then 4 else 8) + 4)) f10))
          in if v1 then Inr (True, data3)
             else let (tz, f12) = File_readToEnd f11 in Inr (True, data3\<lparr>tzstring := tz\<rparr>))))))))))))))"

section \<open>The file\<close>

definition readTimeZoneFile_body :: "File \<Rightarrow> Data \<Rightarrow> (bool \<times> Data) io" where
  "readTimeZoneFile_body f data =
     bindX (File_readBytes 4 f) (\<lambda>(head, f1).
     if head \<noteq> ''TZif'' then Inl (LogicError ''bad head'')
     else
       bindX (File_readBytes 1 f1) (\<lambda>(version, f2).
       bindX (File_readBytes 15 f2) (\<lambda>(_, f3).
       bindX (File_readInt32 f3) (\<lambda>(isgmtcnt, f4).
       bindX (File_readInt32 f4) (\<lambda>(isstdcnt, f5).
       bindX (File_readInt32 f5) (\<lambda>(leapcnt, f6).
       bindX (File_readInt32 f6) (\<lambda>(timecnt, f7).
       bindX (File_readInt32 f7) (\<lambda>(typecnt, f8).
       bindX (File_readInt32 f8) (\<lambda>(charcnt, f9).
       if version = ''2''
       then if is_int32 (6 * typecnt) \<and> is_int32 (8 * leapcnt)
            then bindX (File_readBytes 4 (File_skip (4 * timecnt + timecnt + 6 * typecnt + charcnt + 8 * leapcnt + isstdcnt + isgmtcnt) f9))
                   (\<lambda>(head', f10).
                 if head' \<noteq> ''TZif'' then Inl (LogicError ''bad head'')
                 else readDataBlock False (File_skip 16 f10) data)
            else Inl (Crash UndefinedBehaviour)
       else readDataBlock True (File_skip (- 4 * 6) f9) data)))))))))"

text \<open>\<open>None\<close> is a file that cannot be opened. The result is the returned value and the data.\<close>

definition readTimeZoneFile :: "string option \<Rightarrow> Data \<Rightarrow> (bool \<times> Data) res" where
  "readTimeZoneFile file data =
     (case file of
        None \<Rightarrow> Inr (False, data)
      | Some cs \<Rightarrow>
          (case readTimeZoneFile_body \<lparr>bytes = cs, pos = 0\<rparr> data of
             Inr r \<Rightarrow> Inr r
           | Inl (LogicError what) \<Rightarrow> Inr (False, data)
           | Inl (Crash e) \<Rightarrow> Inl e))"

definition loadZoneFile :: "string option \<Rightarrow> TimeZone res" where
  "loadZoneFile file = bindE (readTimeZoneFile file new_Data) (\<lambda>(ok, data). Inr (if ok then Some data else None))"

section \<open>Files of version 2\<close>

text \<open>What the format says: big-endian integers, a header and a block of 32-bit times, and the same again with 64-bit times, then the footer.\<close>

definition be32 :: "int \<Rightarrow> string" where
  "be32 x = rev (le_bytes 4 (unat (word_of_int x :: 32 word)))"

definition be64 :: "int \<Rightarrow> string" where
  "be64 x = rev (le_bytes 8 (unat (word_of_int x :: 64 word)))"

definition octet :: "int \<Rightarrow> string" where
  "octet x = [char_of (nat x)]"

definition type_bytes :: "int \<times> bool \<times> int \<Rightarrow> string" where
  "type_bytes = (\<lambda>(gmtoff, isdst, abbrind). be32 gmtoff @ octet (of_bool isdst) @ octet abbrind)"

text \<open>The counts of a header, in their order.\<close>

definition counts :: "int list \<Rightarrow> string" where
  "counts cs = concat (map be32 cs)"

record Zone_Contents =
  moves :: "(int \<times> int) list"
  types :: "(int \<times> bool \<times> int) list"
  chars :: string
  isstd :: string
  isut :: string
  footer :: string

definition zone_block :: "Zone_Contents \<Rightarrow> string" where
  "zone_block z =
     counts [int (length (isut z)), int (length (isstd z)), 0, int (length (moves z)), int (length (types z)), int (length (chars z))]
     @ concat (map (be64 \<circ> fst) (moves z)) @ concat (map (octet \<circ> snd) (moves z)) @ concat (map type_bytes (types z))
     @ chars z @ isstd z @ isut z @ footer z"

definition zone_file :: "string \<Rightarrow> int list \<Rightarrow> string \<Rightarrow> string \<Rightarrow> Zone_Contents \<Rightarrow> string" where
  "zone_file reserved old_counts old_block reserved' z =
     ''TZif2'' @ reserved @ counts old_counts @ old_block @ ''TZif'' @ reserved' @ zone_block z"

text \<open>The length of the block of 32-bit times.\<close>

fun old_length :: "int list \<Rightarrow> int" where
  "old_length [isgmtcnt, isstdcnt, leapcnt, timecnt, typecnt, charcnt] =
     5 * timecnt + 6 * typecnt + charcnt + 8 * leapcnt + isstdcnt + isgmtcnt"
| "old_length _ = 0"

definition zone_data :: "Zone_Contents \<Rightarrow> Data" where
  "zone_data z = \<lparr>
     transitions = map (\<lambda>(t, i). \<lparr>utctime = t, localtime = t + fst (types z ! nat i), localtimeIdx = i\<rparr>) (moves z),
     localtimes = map (\<lambda>(off, dst, i). \<lparr>utcOffset = off, isDst = dst, desigIdx = i\<rparr>) (types z),
     abbrev = chars z, tzstring = footer z\<rparr>"

definition is_octet :: "int \<Rightarrow> bool" where
  "is_octet x \<longleftrightarrow> 0 \<le> x \<and> x < 256"

definition contents_ok :: "Zone_Contents \<Rightarrow> bool" where
  "contents_ok z \<longleftrightarrow>
     list_all (\<lambda>(t, i). - (2 ^ 63) \<le> t \<and> t < 2 ^ 63 \<and> is_octet i \<and> i < int (length (types z))) (moves z)
     \<and> list_all (\<lambda>(off, dst, i). is_int32 off \<and> is_octet i) (types z)
     \<and> is_int32 (int (length (moves z))) \<and> is_int32 (int (length (types z))) \<and> is_int32 (int (length (chars z)))
     \<and> length (isstd z) \<in> {0, length (types z)} \<and> length (isut z) \<in> {0, length (types z)}"

subsection \<open>Reading in place\<close>

definition ahead :: "File \<Rightarrow> string" where
  "ahead f = drop (pos f) (bytes f)"

definition advance :: "nat \<Rightarrow> File \<Rightarrow> File" where
  "advance n f = f\<lparr>pos := pos f + n\<rparr>"

lemma ahead_advance [simp]: "ahead (advance n f) = drop n (ahead f)"
  by (simp add: ahead_def advance_def add.commute)

lemma advance_advance [simp]: "advance n (advance k f) = advance (k + n) f"
  by (simp add: advance_def)

lemma advance_0 [simp]: "advance 0 f = f"
  by (simp add: advance_def)

lemma fread_ahead: "n \<le> length (ahead f) \<Longrightarrow> fread n f = (take n (ahead f), advance n f)"
  by (simp add: fread_def ahead_def advance_def)

lemma bytes_be32 [simp]: "length (be32 x) = 4"
  by (simp add: be32_def)

lemma bytes_be64 [simp]: "length (be64 x) = 8"
  by (simp add: be64_def)

lemma bytes_octet [simp]: "length (octet x) = 1"
  by (simp add: octet_def)

lemma bytes_type [simp]: "length (type_bytes x) = 6"
  by (simp add: type_bytes_def split: prod.split)

lemma value_be32 [simp]:
  assumes "is_int32 x"
  shows "sint (networkToHost32 (word_of_nat (of_le_bytes (be32 x)))) = x"
proof -
  have "networkToHost32 (word_of_nat (of_le_bytes (be32 x))) = word_of_int x"
    unfolding networkToHost32_def be32_def
    by (subst byte_swap_of_bytes) (simp_all add: of_rev_bytes [where k = 4, simplified])
  then show ?thesis using assms by (simp add: sint_sbintrunc' is_int32_def signed_take_bit_int_eq_self)
qed

lemma value_be64 [simp]:
  assumes "- (2 ^ 63) \<le> x" "x < 2 ^ 63"
  shows "sint (networkToHost64 (word_of_nat (of_le_bytes (be64 x)))) = x"
proof -
  have "networkToHost64 (word_of_nat (of_le_bytes (be64 x))) = word_of_int x"
    unfolding networkToHost64_def be64_def
    by (subst byte_swap_of_bytes) (simp_all add: of_rev_bytes [where k = 8, simplified])
  then show ?thesis using assms by (simp add: sint_sbintrunc' signed_take_bit_int_eq_self)
qed

lemma value_octet [simp]: "is_octet x \<Longrightarrow> int (of_char (hd (octet x))) = x"
  by (simp add: octet_def is_octet_def nat_less_iff)

text \<open>A reader inverts an encoding: what lies ahead is consumed and returned.\<close>

locale reader =
  fixes rd :: "File \<Rightarrow> ('a \<times> File) io"
    and enc :: "'a \<Rightarrow> string"
    and valid :: "'a \<Rightarrow> bool"
  assumes reads: "valid x \<Longrightarrow> ahead f = enc x @ r \<Longrightarrow> rd f = Inr (x, advance (length (enc x)) f)"
begin

lemma reads_items:
  "list_all valid xs \<Longrightarrow> ahead f = concat (map enc xs) @ r \<Longrightarrow>
     read_items rd (length xs) f = Inr (xs, advance (length (concat (map enc xs))) f)"
proof (induction xs arbitrary: f)
  case (Cons a xs)
  with reads [of a f "concat (map enc xs) @ r"] show ?case by simp
qed simp

end

interpretation int32: reader File_readInt32 be32 is_int32
  by unfold_locales (simp add: File_readInt32_def fread_ahead)

interpretation int64: reader File_readInt64 be64 "\<lambda>x. - (2 ^ 63) \<le> x \<and> x < 2 ^ 63"
  by unfold_locales (simp add: File_readInt64_def fread_ahead)

interpretation uint8: reader File_readUInt8 octet is_octet
  by unfold_locales (simp add: File_readUInt8_def fread_ahead)

lemma is_octet_bool [simp]: "is_octet (of_bool b)"
  by (simp add: is_octet_def)

interpretation ttype: reader read_type type_bytes "\<lambda>(off, dst, i). is_int32 off \<and> is_octet i"
proof
  fix x f r
  assume "case x of (off, dst, i) \<Rightarrow> is_int32 off \<and> is_octet i" "ahead f = type_bytes x @ r"
  moreover obtain off dst i where "x = (off, dst, i)" by (cases x)
  ultimately show "read_type f = Inr (x, advance (length (type_bytes x)) f)"
    using int32.reads [of off f] uint8.reads [of "of_bool dst" "advance 4 f" "octet i @ r"] uint8.reads [of i "advance 5 f" r]
    by (simp add: read_type_def type_bytes_def)
qed

subsection \<open>The whole file\<close>

lemma File_skip_ahead: "0 \<le> n \<Longrightarrow> File_skip n f = advance (nat n) f"
  by (simp add: File_skip_def advance_def nat_add_distrib)

lemma File_readBytes_ahead: "0 \<le> n \<Longrightarrow> nat n \<le> length (ahead f) \<Longrightarrow> File_readBytes n f = Inr (take (nat n) (ahead f), advance (nat n) f)"
  by (simp add: File_readBytes_def fread_ahead)

lemma File_readToEnd_ahead: "File_readToEnd f = (ahead f, advance (length (ahead f)) f)"
  by (simp add: File_readToEnd_def ahead_def advance_def Let_def)

lemma add_local_times:
  "fold (\<lambda>(off, dst, i). addLocalTime off dst i) ts d =
     d\<lparr>localtimes := localtimes d @ map (\<lambda>(off, dst, i). \<lparr>utcOffset = off, isDst = dst, desigIdx = i\<rparr>) ts\<rparr>"
  by (induction ts arbitrary: d) (auto simp: addLocalTime_def)

lemma add_transitions_all:
  "list_all (\<lambda>(t, i). 0 \<le> i \<and> i < int (length (localtimes d))) ts \<Longrightarrow>
     add_transitions ts d = Inr (d\<lparr>transitions := transitions d
       @ map (\<lambda>(t, i). \<lparr>utctime = t, localtime = t + utcOffset (localtimes d ! nat i), localtimeIdx = i\<rparr>) ts\<rparr>)"
  by (induction ts arbitrary: d) (auto simp: addTransition_def Let_def)

lemma counts_read:
  assumes "list_all is_int32 [a, b, c, d, e, g]" "ahead f = counts [a, b, c, d, e, g] @ r"
  shows "File_readInt32 f = Inr (a, advance 4 f)" "File_readInt32 (advance 4 f) = Inr (b, advance 8 f)"
    "File_readInt32 (advance 8 f) = Inr (c, advance 12 f)" "File_readInt32 (advance 12 f) = Inr (d, advance 16 f)"
    "File_readInt32 (advance 16 f) = Inr (e, advance 20 f)" "File_readInt32 (advance 20 f) = Inr (g, advance 24 f)"
    "ahead (advance 24 f) = r"
  using assms int32.reads [of a f] int32.reads [of b "advance 4 f"] int32.reads [of c "advance 8 f"]
    int32.reads [of d "advance 12 f"] int32.reads [of e "advance 16 f"] int32.reads [of g "advance 20 f"]
  by (simp_all add: counts_def)

lemma length_concat_const: "(\<And>x. length (enc x) = k) \<Longrightarrow> length (concat (map enc xs)) = k * length xs"
  by (induction xs) simp_all

lemma data_block_read:
  assumes ok: "contents_ok z" and f: "ahead f = zone_block z"
  shows "readDataBlock False f new_Data = Inr (True, zone_data z)"
proof -
  let ?ts = "map fst (moves z)" and ?is = "map snd (moves z)"
  let ?n = "length (moves z)" and ?k = "length (types z)"
  let ?lts = "map (\<lambda>(off, dst, i). \<lparr>utcOffset = off, isDst = dst, desigIdx = i\<rparr>) (types z)"
  have small: "is_int32 (int ?n)" "is_int32 (int ?k)" "is_int32 (int (length (chars z)))"
    and marks: "length (isstd z) = 0 \<or> length (isstd z) = ?k" "length (isut z) = 0 \<or> length (isut z) = ?k"
    using ok by (auto simp: contents_ok_def)
  then have "is_int32 (int (length (isstd z)))" "is_int32 (int (length (isut z)))" "is_int32 0" by (auto simp: is_int32_def)
  with small have "list_all is_int32 [int (length (isut z)), int (length (isstd z)), 0, int ?n, int ?k, int (length (chars z))]" by simp
  note counts = counts_read [OF this f [unfolded zone_block_def]]
  define f1 where "f1 = advance 24 f"
  define f2 where "f2 = advance (8 * ?n) f1"
  define f3 where "f3 = advance ?n f2"
  define f4 where "f4 = advance (6 * ?k) f3"
  have a1: "ahead f1 = concat (map be64 ?ts) @ concat (map octet ?is) @ concat (map type_bytes (types z)) @ chars z @ isstd z @ isut z @ footer z"
    using counts(7) by (simp add: f1_def)
  have a2: "ahead f2 = concat (map octet ?is) @ concat (map type_bytes (types z)) @ chars z @ isstd z @ isut z @ footer z"
    by (simp add: f2_def a1 length_concat_const)
  have a3: "ahead f3 = concat (map type_bytes (types z)) @ chars z @ isstd z @ isut z @ footer z"
    by (simp add: f3_def a2 length_concat_const)
  have a4: "ahead f4 = chars z @ isstd z @ isut z @ footer z"
    by (simp add: f4_def a3 length_concat_const)
  have times: "read_items File_readInt64 ?n f1 = Inr (?ts, f2)"
    using int64.reads_items [of ?ts, OF _ a1] ok
    by (simp add: contents_ok_def list_all_iff case_prod_beta length_concat_const f2_def)
  have idx: "read_items File_readUInt8 ?n f2 = Inr (?is, f3)"
    using uint8.reads_items [of ?is, OF _ a2] ok
    by (simp add: contents_ok_def list_all_iff case_prod_beta length_concat_const f3_def)
  have types: "read_items read_type ?k f3 = Inr (types z, f4)"
    using ttype.reads_items [OF _ a3] ok by (simp add: contents_ok_def length_concat_const f4_def)
  have trans: "add_transitions (zip ?ts ?is) (fold (\<lambda>(off, dst, i). addLocalTime off dst i) (types z) new_Data)
      = Inr ((zone_data z)\<lparr>abbrev := [], tzstring := []\<rparr>)"
    using add_transitions_all [of "new_Data\<lparr>localtimes := ?lts\<rparr>" "moves z"] ok
    by (auto simp: zip_map_fst_snd contents_ok_def list_all_iff is_octet_def add_local_times new_Data_def zone_data_def case_prod_beta)
  have "(zone_data z)\<lparr>abbrev := chars z, tzstring := footer z\<rparr> = zone_data z" by (simp add: zone_data_def)
  with marks show ?thesis
    by (simp add: readDataBlock_def counts(1-6) f1_def [symmetric] reserve_def times idx types Let_def trans
        File_readBytes_ahead a4 File_skip_ahead File_readToEnd_ahead)
qed

lemma zone_file_read:
  assumes ok: "contents_ok z" and sizes: "length reserved = 15" "length reserved' = 16"
    and old: "length cs = 6" "list_all (\<lambda>c. 0 \<le> c \<and> is_int32 (8 * c)) cs" "int (length old_block) = old_length cs"
  shows "readTimeZoneFile_body \<lparr>bytes = zone_file reserved cs old_block reserved' z, pos = 0\<rparr> new_Data = Inr (True, zone_data z)"
proof -
  define f where "f = \<lparr>bytes = zone_file reserved cs old_block reserved' z, pos = 0\<rparr>"
  obtain a b c d e g where cs: "cs = [a, b, c, d, e, g]"
    using old(1) by (auto simp: length_Suc_conv numeral_eq_Suc)
  have f: "ahead f = ''TZif2'' @ reserved @ counts cs @ old_block @ ''TZif'' @ reserved' @ zone_block z"
    by (simp add: f_def ahead_def zone_file_def)
  define f1 where "f1 = advance 20 f"
  have a1: "ahead f1 = counts [a, b, c, d, e, g] @ old_block @ ''TZif'' @ reserved' @ zone_block z"
    by (simp add: f1_def f sizes cs)
  have "list_all is_int32 [a, b, c, d, e, g]" using old(2) by (auto simp: cs is_int32_def)
  note counts = counts_read [OF this a1]
  define f2 where "f2 = advance (length old_block) (advance 24 f1)"
  have a2: "ahead f2 = ''TZif'' @ reserved' @ zone_block z"
    unfolding f2_def ahead_advance [of "length old_block"] counts(7) by simp
  have head: "File_readBytes 4 f = Inr (''TZif'', advance 4 f)" "File_readBytes 1 (advance 4 f) = Inr (''2'', advance 5 f)"
    "File_readBytes 15 (advance 5 f) = Inr (reserved, f1)"
    using sizes by (simp_all add: File_readBytes_ahead f f1_def)
  have "5 * d + 6 * e + g + 8 * c + b + a = int (length old_block)" using old(3) by (simp add: cs)
  then have skip: "File_skip (5 * d + 6 * e + g + 8 * c + b + a) (advance 24 f1) = f2"
    by (simp only: File_skip_ahead of_nat_0_le_iff nat_int f2_def)
  have head2: "File_readBytes 4 f2 = Inr (''TZif'', advance 4 f2)" by (simp add: File_readBytes_ahead a2)
  have "ahead (File_skip 16 (advance 4 f2)) = zone_block z" by (simp add: File_skip_ahead a2 sizes)
  note block = data_block_read [OF ok this]
  have "is_int32 (6 * e)" "is_int32 (8 * c)" using old(2) by (auto simp: cs is_int32_def)
  then show ?thesis
    by (simp add: readTimeZoneFile_body_def f_def [symmetric] head counts(1-6) skip head2 block)
qed



text \<open>A reader throws \<open>logic_error\<close> when too few characters are left.\<close>

definition throws :: "'a io \<Rightarrow> bool" where
  "throws m \<longleftrightarrow> (case m of Inl (LogicError w) \<Rightarrow> True | _ \<Rightarrow> False)"

lemma throws_int32:
  assumes "\<And>x. 4 \<le> length (ahead f) \<Longrightarrow> throws (k (x, advance 4 f))"
  shows "throws (bindX (File_readInt32 f) k)"
proof (cases "4 \<le> length (ahead f)")
  case True
  then show ?thesis using assms by (simp add: File_readInt32_def fread_ahead)
next
  case False
  then show ?thesis by (simp add: File_readInt32_def fread_def ahead_def throws_def)
qed

lemma throws_bytes:
  assumes "0 \<le> n" "nat n \<le> length (ahead f) \<Longrightarrow> throws (k (take (nat n) (ahead f), advance (nat n) f))"
  shows "throws (bindX (File_readBytes n f) k)"
proof (cases "nat n \<le> length (ahead f)")
  case True
  then show ?thesis using assms by (simp add: File_readBytes_ahead)
next
  case False
  then show ?thesis using assms(1) by (auto simp: File_readBytes_def fread_def ahead_def throws_def)
qed

lemma throws_error [simp]: "throws (Inl (LogicError w))"
  by (simp add: throws_def)

lemma header_incomplete:
  assumes "length (ahead f) < 44 \<or> take 4 (ahead f) \<noteq> ''TZif''"
  shows "throws (readTimeZoneFile_body f d)"
  unfolding readTimeZoneFile_body_def
  using assms by (auto intro!: throws_int32 throws_bytes simp: not_less)

text \<open>
  Not a zone file: a file that cannot be opened, that is shorter than the header or that does not begin with the four letters of the format gives the invalid zone; the exception is caught.
\<close>

theorem not_a_zone_file:
  assumes "zonefile = None \<or> (\<exists>cs. zonefile = Some cs \<and> (length cs < 44 \<or> take 4 cs \<noteq> ''TZif''))"
  shows "loadZoneFile zonefile = Inr None"
proof (cases zonefile)
  case (Some cs)
  then have "throws (readTimeZoneFile_body \<lparr>bytes = cs, pos = 0\<rparr> new_Data)"
    using assms by (intro header_incomplete) (auto simp: ahead_def)
  with Some show ?thesis
    by (auto simp: throws_def loadZoneFile_def readTimeZoneFile_def split: sum.splits exception.splits)
qed (simp add: loadZoneFile_def readTimeZoneFile_def)

theorem not_a_zone_file_witness: "loadZoneFile (Some ''TZif2 cut short'') = Inr None"
  using not_a_zone_file [of "Some ''TZif2 cut short''"] by simp

end
