(* ===== verification/Rpc.thy ===== *)
theory Rpc
  imports Prelude "HOL-Library.Multiset"
begin

text \<open>
  \<open>net/protorpc\<close>: remote calls over a connection. A channel numbers its calls and keeps those that have no response yet; at the other end a channel finds the method and sends back what it returns, or an error.
  The messages are those of \<open>rpc.proto\<close>; how they become characters and come back is in the theory \<open>Codec\<close>. A service of the user is a parameter: the methods it has, which requests they can parse and what they return, sooner or later.

  \<open>completed\<close> records the calls whose callback was run, with the response that was filled in; \<open>working\<close> the calls of methods that have not returned. The code does not have these records.
\<close>

section \<open>The channel\<close>

datatype MessageType = REQUEST | RESPONSE | ERROR

datatype ErrorCode = NO_ERROR | WRONG_PROTO | NO_SERVICE | NO_METHOD | INVALID_REQUEST | INVALID_RESPONSE | TIMEOUT

record RpcMessage =
  type_of :: MessageType
  id_of :: int
  service :: string
  method_of :: string
  request :: string
  response :: "string option"
  error :: "ErrorCode option"

text \<open>A message with nothing but its type and its number.\<close>

definition new_RpcMessage :: "MessageType \<Rightarrow> int \<Rightarrow> RpcMessage" where
  "new_RpcMessage t i = \<lparr>type_of = t, id_of = i, service = [], method_of = [], request = [], response = None, error = None\<rparr>"

record rpc_method =
  can_parse :: "string \<Rightarrow> bool"
  result_of :: "string \<Rightarrow> string"

type_synonym services = "string \<Rightarrow> (string \<Rightarrow> rpc_method option) option"

text \<open>What the caller gave: whether there is an object for the response, and a callback.\<close>

record OutstandingCall =
  has_response :: bool
  has_done :: bool

record RpcChannel =
  call_id :: int
  outstandings :: "(int \<times> OutstandingCall) list"
  channel_services :: "services option"
  sent :: "RpcMessage list"
  working :: "(int \<times> string) list"
  completed :: "(int \<times> string option) list"

definition new_RpcChannel :: RpcChannel where
  "new_RpcChannel = \<lparr>call_id = 0, outstandings = [], channel_services = None, sent = [], working = [], completed = []\<rparr>"

definition setServices :: "services \<Rightarrow> RpcChannel \<Rightarrow> RpcChannel" where
  "setServices srv c = c\<lparr>channel_services := Some srv\<rparr>"

definition registerService :: "string \<Rightarrow> (string \<Rightarrow> rpc_method option) \<Rightarrow> services \<Rightarrow> services" where
  "registerService full_name methods srv = srv(full_name \<mapsto> methods)"

definition send_message :: "RpcMessage \<Rightarrow> RpcChannel \<Rightarrow> RpcChannel" where
  "send_message msg c = c\<lparr>sent := sent c @ [msg]\<rparr>"

definition CallMethod :: "string \<Rightarrow> string \<Rightarrow> string \<Rightarrow> OutstandingCall \<Rightarrow> RpcChannel \<Rightarrow> RpcChannel" where
  "CallMethod svc meth req out c =
     (let i = call_id c + 1;
          message = (new_RpcMessage REQUEST i)\<lparr>service := svc, method_of := meth, request := req\<rparr>
      in send_message message (c\<lparr>call_id := i, outstandings := map_put i out (outstandings c)\<rparr>))"

definition handle_response :: "RpcMessage \<Rightarrow> RpcChannel \<Rightarrow> RpcChannel res" where
  "handle_response message c =
     bindE (assertE (response message \<noteq> None \<or> error message \<noteq> None)) (\<lambda>_.
     Inr (case map_of (outstandings c) (id_of message) of
            None \<Rightarrow> c
          | Some out \<Rightarrow>
              let c1 = c\<lparr>outstandings := map_erase (id_of message) (outstandings c)\<rparr>
              in if has_response out \<and> has_done out then c1\<lparr>completed := completed c1 @ [(id_of message, response message)]\<rparr> else c1))"

text \<open>The method that a request names is called; otherwise the error goes back.\<close>

definition find_method :: "services option \<Rightarrow> RpcMessage \<Rightarrow> ErrorCode + rpc_method" where
  "find_method srv message =
     (case srv of
        None \<Rightarrow> Inl NO_SERVICE
      | Some services \<Rightarrow>
          (case services (service message) of
             None \<Rightarrow> Inl NO_SERVICE
           | Some methods \<Rightarrow>
               (case methods (method_of message) of
                  None \<Rightarrow> Inl NO_METHOD
                | Some m \<Rightarrow> if can_parse m (request message) then Inr m else Inl INVALID_REQUEST)))"

definition handle_request :: "RpcMessage \<Rightarrow> RpcChannel \<Rightarrow> RpcChannel" where
  "handle_request message c =
     (case find_method (channel_services c) message of
        Inr m \<Rightarrow> c\<lparr>working := working c @ [(id_of message, result_of m (request message))]\<rparr>
      | Inl e \<Rightarrow> send_message ((new_RpcMessage RESPONSE (id_of message))\<lparr>error := Some e\<rparr>) c)"

definition onRpcMessage :: "RpcMessage \<Rightarrow> RpcChannel \<Rightarrow> RpcChannel res" where
  "onRpcMessage message c =
     (case type_of message of
        RESPONSE \<Rightarrow> handle_response message c
      | REQUEST \<Rightarrow> Inr (handle_request message c)
      | ERROR \<Rightarrow> Inr c)"

definition doneCallback :: "string \<Rightarrow> int \<Rightarrow> RpcChannel \<Rightarrow> RpcChannel" where
  "doneCallback resp i c = send_message ((new_RpcMessage RESPONSE i)\<lparr>response := Some resp\<rparr>) c"

section \<open>A client and a server\<close>

text \<open>The two ends of a connection; \<open>sent\<close> holds the messages on their way. \<open>made\<close> records what was called.\<close>

record rpc_pair =
  client :: RpcChannel
  server :: RpcChannel
  made :: "(string \<times> string \<times> string) list"

definition new_pair :: "services \<Rightarrow> rpc_pair" where
  "new_pair srv = \<lparr>client = new_RpcChannel, server = setServices srv new_RpcChannel, made = []\<rparr>"

datatype rpc_event =
    Call string string string
  | RequestArrives
  | MethodReturns nat
  | ResponseArrives

fun rpc_step :: "rpc_event \<Rightarrow> rpc_pair \<Rightarrow> rpc_pair res" where
  "rpc_step (Call svc meth req) p =
     Inr (p\<lparr>client := CallMethod svc meth req \<lparr>has_response = True, has_done = True\<rparr> (client p), made := made p @ [(svc, meth, req)]\<rparr>)"
| "rpc_step RequestArrives p =
     (case sent (client p) of
        [] \<Rightarrow> Inr p
      | msg # msgs \<Rightarrow> bindE (onRpcMessage msg (server p)) (\<lambda>s. Inr (p\<lparr>client := (client p)\<lparr>sent := msgs\<rparr>, server := s\<rparr>)))"
| "rpc_step (MethodReturns k) p =
     (if k < length (working (server p))
      then let (i, resp) = working (server p) ! k
           in Inr (p\<lparr>server := doneCallback resp i ((server p)\<lparr>working := take k (working (server p)) @ drop (Suc k) (working (server p))\<rparr>)\<rparr>)
      else Inr p)"
| "rpc_step ResponseArrives p =
     (case sent (server p) of
        [] \<Rightarrow> Inr p
      | msg # msgs \<Rightarrow> bindE (onRpcMessage msg (client p)) (\<lambda>c. Inr (p\<lparr>client := c, server := (server p)\<lparr>sent := msgs\<rparr>\<rparr>)))"

fun rpc_run :: "rpc_event list \<Rightarrow> rpc_pair \<Rightarrow> rpc_pair res" where
  "rpc_run [] p = Inr p"
| "rpc_run (e # es) p = bindE (rpc_step e p) (rpc_run es)"

section \<open>Every call gets its own answer\<close>

text \<open>What a call returns: the result of the method, or nothing.\<close>

definition answer :: "services \<Rightarrow> string \<times> string \<times> string \<Rightarrow> string option" where
  "answer srv call =
     (case call of (svc, meth, req) \<Rightarrow>
        (case find_method (Some srv) ((new_RpcMessage REQUEST 0)\<lparr>service := svc, method_of := meth, request := req\<rparr>) of
           Inr m \<Rightarrow> Some (result_of m req)
         | Inl e \<Rightarrow> None))"

definition call_of :: "rpc_pair \<Rightarrow> int \<Rightarrow> string \<times> string \<times> string" where
  "call_of p i = made p ! nat (i - 1)"

text \<open>The numbers of the calls whose request is on its way, whose method works, whose response is on its way.\<close>

definition open_calls :: "rpc_pair \<Rightarrow> int list" where
  "open_calls p = map id_of (sent (client p)) @ map fst (working (server p)) @ map id_of (sent (server p))"

definition numbers :: "nat \<Rightarrow> int list" where
  "numbers n = map int [1..<Suc n]"

definition request_ok :: "rpc_pair \<Rightarrow> RpcMessage \<Rightarrow> bool" where
  "request_ok p msg \<longleftrightarrow> type_of msg = REQUEST \<and> call_of p (id_of msg) = (service msg, method_of msg, request msg)"

definition response_ok :: "services \<Rightarrow> rpc_pair \<Rightarrow> RpcMessage \<Rightarrow> bool" where
  "response_ok srv p msg \<longleftrightarrow> type_of msg = RESPONSE \<and> response msg = answer srv (call_of p (id_of msg)) \<and> (response msg \<noteq> None \<or> error msg \<noteq> None)"

definition rpc_inv :: "services \<Rightarrow> rpc_pair \<Rightarrow> bool" where
  "rpc_inv srv p \<longleftrightarrow> channel_services (server p) = Some srv \<and> call_id (client p) = int (length (made p))
     \<and> mset (open_calls p @ map fst (completed (client p))) = mset (numbers (length (made p)))
     \<and> (\<forall>i. map_of (outstandings (client p)) i = (if i \<in> set (open_calls p) then Some \<lparr>has_response = True, has_done = True\<rparr> else None))
     \<and> list_all (request_ok p) (sent (client p))
     \<and> list_all (\<lambda>(i, r). answer srv (call_of p i) = Some r) (working (server p))
     \<and> list_all (response_ok srv p) (sent (server p))
     \<and> list_all (\<lambda>(i, r). r = answer srv (call_of p i)) (completed (client p))"

lemma numbers_Suc: "numbers (Suc n) = numbers n @ [int n + 1]"
  by (simp add: numbers_def)

lemma set_numbers: "set (numbers n) = {1..int n}"
  using image_int_atLeastAtMost [of 1 n] by (simp add: numbers_def atLeastLessThanSuc_atLeastAtMost del: upt_Suc)

lemma inv_range: "rpc_inv srv p \<Longrightarrow> i \<in> set (open_calls p @ map fst (completed (client p))) \<Longrightarrow> 1 \<le> i \<and> i \<le> int (length (made p))"
  unfolding rpc_inv_def by (metis atLeastAtMost_iff mset_eq_setD set_numbers)

lemma inv_distinct: "rpc_inv srv p \<Longrightarrow> distinct (open_calls p @ map fst (completed (client p)))"
  unfolding rpc_inv_def by (metis distinct_map inj_on_of_nat mset_eq_imp_distinct_iff numbers_def distinct_upt)

lemma call_of_more: "1 \<le> i \<Longrightarrow> i \<le> int (length (made p)) \<Longrightarrow> made p' = made p @ xs \<Longrightarrow> call_of p' i = call_of p i"
  by (simp add: call_of_def nth_append nat_less_iff)

lemma response_ok_cong: "call_of p' (id_of msg) = call_of p (id_of msg) \<Longrightarrow> response_ok srv p' msg = response_ok srv p msg"
  by (simp add: response_ok_def)

lemma call_inv:
  assumes inv: "rpc_inv srv p"
  shows "\<exists>p'. rpc_step (Call svc meth req) p = Inr p' \<and> rpc_inv srv p'"
proof -
  let ?out = "\<lparr>has_response = True, has_done = True\<rparr>"
  define p' where "p' = p\<lparr>client := CallMethod svc meth req ?out (client p), made := made p @ [(svc, meth, req)]\<rparr>"
  let ?i = "int (length (made p)) + 1"
  let ?msg = "(new_RpcMessage REQUEST ?i)\<lparr>service := svc, method_of := meth, request := req\<rparr>"
  have id: "call_id (client p) = int (length (made p))" using inv by (simp add: rpc_inv_def)
  have c: "client p' = (client p)\<lparr>call_id := ?i, outstandings := map_put ?i ?out (outstandings (client p)), sent := sent (client p) @ [?msg]\<rparr>"
    "server p' = server p" "made p' = made p @ [(svc, meth, req)]"
    by (simp_all add: p'_def CallMethod_def send_message_def id Let_def)
  have same: "call_of p' i = call_of p i" if "i \<in> set (open_calls p @ map fst (completed (client p)))" for i
    using inv_range [OF inv that] c(3) by (auto intro: call_of_more)
  have new: "call_of p' ?i = (svc, meth, req)" by (simp add: call_of_def c(3))
  have kept: "msg \<in> set (sent (client p)) \<Longrightarrow> call_of p' (id_of msg) = call_of p (id_of msg)"
      "(i, r) \<in> set (working (server p)) \<Longrightarrow> call_of p' i = call_of p i" "msg \<in> set (sent (server p)) \<Longrightarrow> call_of p' (id_of msg) = call_of p (id_of msg)"
      "(i, r') \<in> set (completed (client p)) \<Longrightarrow> call_of p' i = call_of p i" for msg i r r'
    by (rule same, force simp: open_calls_def)+
  have "list_all (request_ok p') (sent (client p'))"
    using inv kept(1) new by (auto simp: rpc_inv_def c(1) list_all_iff request_ok_def new_RpcMessage_def)
  moreover have "list_all (\<lambda>(i, r). answer srv (call_of p' i) = Some r) (working (server p'))"
    using inv kept(2) by (auto simp: rpc_inv_def c list_all_iff)
  moreover have "list_all (response_ok srv p') (sent (server p'))"
    using inv response_ok_cong [OF kept(3)] by (simp add: rpc_inv_def c list_all_iff)
  moreover have "list_all (\<lambda>(i, r). r = answer srv (call_of p' i)) (completed (client p'))"
    using inv kept(4) by (auto simp: rpc_inv_def c list_all_iff)
  moreover have "mset (open_calls p' @ map fst (completed (client p'))) = mset (numbers (length (made p')))"
    using inv by (simp add: rpc_inv_def open_calls_def c numbers_Suc new_RpcMessage_def)
  moreover have "map_of (outstandings (client p')) i = (if i \<in> set (open_calls p') then Some ?out else None)" for i
    using inv by (auto simp: rpc_inv_def open_calls_def c new_RpcMessage_def)
  ultimately have "rpc_inv srv p'" using inv by (simp add: rpc_inv_def c)
  then show ?thesis by (simp add: p'_def)
qed

text \<open>The other events do not change what was called.\<close>

lemma rpc_inv_same:
  assumes "rpc_inv srv p" "made p' = made p" "channel_services (server p') = channel_services (server p)" "call_id (client p') = call_id (client p)"
    and "mset (open_calls p' @ map fst (completed (client p'))) = mset (open_calls p @ map fst (completed (client p)))"
    and "\<And>i. map_of (outstandings (client p')) i = (if i \<in> set (open_calls p') then Some \<lparr>has_response = True, has_done = True\<rparr> else None)"
    and "list_all (request_ok p) (sent (client p'))" "list_all (\<lambda>(i, r). answer srv (call_of p i) = Some r) (working (server p'))"
    and "list_all (response_ok srv p) (sent (server p'))" "list_all (\<lambda>(i, r). r = answer srv (call_of p i)) (completed (client p'))"
  shows "rpc_inv srv p'"
proof -
  have "call_of p' = call_of p" using assms(2) by (simp add: call_of_def fun_eq_iff)
  then have "request_ok p' = request_ok p" "response_ok srv p' = response_ok srv p" "call_of p' = call_of p"
    by (simp_all add: request_ok_def response_ok_def fun_eq_iff)
  with assms show ?thesis unfolding rpc_inv_def by simp
qed

lemma request_inv:
  assumes inv: "rpc_inv srv p"
  shows "\<exists>p'. rpc_step RequestArrives p = Inr p' \<and> rpc_inv srv p'"
proof (cases "sent (client p)")
  case (Cons msg msgs)
  then have msg: "request_ok p msg" "list_all (request_ok p) msgs" using inv by (simp_all add: rpc_inv_def)
  define s where "s = handle_request msg (server p)"
  define p' where "p' = p\<lparr>client := (client p)\<lparr>sent := msgs\<rparr>, server := s\<rparr>"
  have srv: "channel_services (server p) = Some srv" using inv by (simp add: rpc_inv_def)
  have find: "find_method (Some srv) msg = find_method (Some srv) ((new_RpcMessage REQUEST 0)\<lparr>service := service msg, method_of := method_of msg, request := request msg\<rparr>)"
    by (simp add: find_method_def new_RpcMessage_def split: option.split)
  have ans: "answer srv (call_of p (id_of msg)) = (case find_method (Some srv) msg of Inr m \<Rightarrow> Some (result_of m (request msg)) | Inl e \<Rightarrow> None)"
    using msg(1) by (simp add: answer_def request_ok_def find)
  have "rpc_inv srv p'"
  proof (cases "find_method (Some srv) msg")
    case (Inr m)
    then have "s = (server p)\<lparr>working := working (server p) @ [(id_of msg, result_of m (request msg))]\<rparr>" by (simp add: s_def handle_request_def srv)
    then show ?thesis using inv ans Inr msg(2)
      by (intro rpc_inv_same [OF inv]) (auto simp: p'_def open_calls_def rpc_inv_def Cons)
  next
    case (Inl e)
    then have "s = (server p)\<lparr>sent := sent (server p) @ [(new_RpcMessage RESPONSE (id_of msg))\<lparr>error := Some e\<rparr>]\<rparr>"
      by (simp add: s_def handle_request_def srv send_message_def)
    then show ?thesis using inv ans Inl msg(2)
      by (intro rpc_inv_same [OF inv]) (auto simp: p'_def open_calls_def rpc_inv_def Cons response_ok_def new_RpcMessage_def)
  qed
  then show ?thesis using Cons msg(1) by (simp add: onRpcMessage_def request_ok_def s_def p'_def)
qed (use inv in simp)

lemma return_inv:
  assumes inv: "rpc_inv srv p"
  shows "\<exists>p'. rpc_step (MethodReturns k) p = Inr p' \<and> rpc_inv srv p'"
proof (cases "k < length (working (server p))")
  case True
  obtain i r where ir: "working (server p) ! k = (i, r)" by fastforce
  let ?rest = "take k (working (server p)) @ drop (Suc k) (working (server p))"
  have w: "working (server p) = take k (working (server p)) @ (i, r) # drop (Suc k) (working (server p))" using id_take_nth_drop [OF True] ir by simp
  have all: "list_all (\<lambda>(i, r). answer srv (call_of p i) = Some r) (working (server p))" using inv by (simp add: rpc_inv_def)
  have ans: "answer srv (call_of p i) = Some r" "list_all (\<lambda>(i, r). answer srv (call_of p i) = Some r) ?rest"
    using all by (subst (asm) w, simp)+
  have m: "mset (map fst (working (server p))) = add_mset i (mset (map fst ?rest))" by (subst w) simp
  let ?p = "p\<lparr>server := doneCallback r i ((server p)\<lparr>working := ?rest\<rparr>)\<rparr>"
  have fields: "client ?p = client p" "made ?p = made p" "channel_services (server ?p) = channel_services (server p)" "working (server ?p) = ?rest"
      "sent (server ?p) = sent (server p) @ [(new_RpcMessage RESPONSE i)\<lparr>response := Some r\<rparr>]"
    by (simp_all add: doneCallback_def send_message_def)
  have ids: "id_of ((new_RpcMessage RESPONSE i)\<lparr>response := Some r\<rparr>) = i" by (simp add: new_RpcMessage_def)
  have mset_open: "mset (open_calls ?p) = mset (open_calls p)"
    unfolding open_calls_def mset_append map_append fields m list.map ids by simp
  then have set_open: "set (open_calls ?p) = set (open_calls p)" by (rule mset_eq_setD)
  have "rpc_inv srv ?p"
  proof (rule rpc_inv_same [OF inv])
    show "mset (open_calls ?p @ map fst (completed (client ?p))) = mset (open_calls p @ map fst (completed (client p)))"
      using mset_open by (simp add: fields)
    show "map_of (outstandings (client ?p)) j = (if j \<in> set (open_calls ?p) then Some \<lparr>has_response = True, has_done = True\<rparr> else None)" for j
      using inv unfolding set_open fields rpc_inv_def by blast
    show "list_all (response_ok srv p) (sent (server ?p))"
      using inv ans(1) unfolding fields rpc_inv_def by (simp add: response_ok_def new_RpcMessage_def)
    show "list_all (\<lambda>(i, r). answer srv (call_of p i) = Some r) (working (server ?p))" using ans(2) by (simp only: fields)
  qed (use inv in \<open>simp_all only: fields rpc_inv_def\<close>)
  then show ?thesis using True ir by simp
qed (use inv in simp)

lemma response_inv:
  assumes inv: "rpc_inv srv p"
  shows "\<exists>p'. rpc_step ResponseArrives p = Inr p' \<and> rpc_inv srv p'"
proof (cases "sent (server p)")
  case (Cons msg msgs)
  then have msg: "response_ok srv p msg" "list_all (response_ok srv p) msgs" using inv by (simp_all add: rpc_inv_def)
  have out: "map_of (outstandings (client p)) (id_of msg) = Some \<lparr>has_response = True, has_done = True\<rparr>"
    using inv Cons by (simp add: rpc_inv_def open_calls_def)
  let ?c = "(client p)\<lparr>outstandings := map_erase (id_of msg) (outstandings (client p)), completed := completed (client p) @ [(id_of msg, response msg)]\<rparr>"
  let ?p = "p\<lparr>client := ?c, server := (server p)\<lparr>sent := msgs\<rparr>\<rparr>"
  have "id_of msg \<notin> set (open_calls ?p)" using inv_distinct [OF inv] Cons by (auto simp: open_calls_def)
  moreover have "set (open_calls p) = insert (id_of msg) (set (open_calls ?p))" using Cons by (auto simp: open_calls_def)
  ultimately have os: "map_of (outstandings ?c) i = (if i \<in> set (open_calls ?p) then Some \<lparr>has_response = True, has_done = True\<rparr> else None)" for i
    using inv by (simp add: rpc_inv_def)
  have parts: "list_all (request_ok p) (sent (client p))" "list_all (\<lambda>(i, r). answer srv (call_of p i) = Some r) (working (server p))"
      "list_all (\<lambda>(i, r). r = answer srv (call_of p i)) (completed (client p))" using inv by (simp_all add: rpc_inv_def)
  have "rpc_inv srv ?p"
  proof (rule rpc_inv_same [OF inv])
    show "map_of (outstandings (client ?p)) i = (if i \<in> set (open_calls ?p) then Some \<lparr>has_response = True, has_done = True\<rparr> else None)" for i
      using os by simp
  qed (use parts msg Cons in \<open>simp_all add: open_calls_def response_ok_def\<close>)
  moreover have "onRpcMessage msg (client p) = Inr ?c"
  proof -
    have "response msg \<noteq> None \<or> error msg \<noteq> None" "type_of msg = RESPONSE" using msg(1) unfolding response_ok_def by blast+
    then show ?thesis by (simp only: onRpcMessage_def handle_response_def out MessageType.case assertE_True bindE_Inr option.case Let_def) simp
  qed
  ultimately show ?thesis using Cons by simp
qed (use inv in simp)

lemma rpc_step_inv:
  assumes "rpc_inv srv p"
  shows "\<exists>p'. rpc_step e p = Inr p' \<and> rpc_inv srv p'"
  using call_inv [OF assms] request_inv [OF assms] return_inv [OF assms] response_inv [OF assms] by (cases e) (simp_all only:)

lemma rpc_run_inv: "rpc_inv srv p \<Longrightarrow> \<exists>p'. rpc_run es p = Inr p' \<and> rpc_inv srv p'"
proof (induction es arbitrary: p)
  case (Cons e es)
  from rpc_step_inv [OF Cons.prems] obtain p' where "rpc_step e p = Inr p'" "rpc_inv srv p'" by blast
  with Cons.IH show ?case by simp
qed simp

lemma new_pair_inv: "rpc_inv srv (new_pair srv)"
  by (simp add: rpc_inv_def new_pair_def new_RpcChannel_def setServices_def open_calls_def numbers_def)


definition demo_services :: services where
  "demo_services = registerService ''Echo'' [''echo'' \<mapsto> \<lparr>can_parse = (\<lambda>r. r \<noteq> []), result_of = (\<lambda>r. r @ r)\<rparr>] (\<lambda>_. None)"


end
