(* ===== verification/Logger.thy ===== *)
theory Logger
  imports Log_Stream Time_Zone
begin

text \<open>
  \<open>base/Logging.h\<close> and \<open>base/Logging.cc\<close>, with the thread number of \<open>base/CurrentThread.h\<close>: a statement such as \<open>LOG_INFO << x\<close> builds a logger, which
  starts the line with the time, the thread and the level, takes the items, and ends the line and hands it to the output when it is destroyed. The time of the last
  line is kept as text per thread. The clock, the thread number of the system, \<open>errno\<close> and \<open>strerror_r\<close> are parameters (\<open>log_env\<close>).

  \<open>printed\<close>, \<open>flushes\<close> and \<open>aborted\<close> record the calls of \<open>g_output\<close>, of \<open>g_flush\<close> and of \<open>abort\<close>.
\<close>

section \<open>The logger\<close>

datatype LogLevel = TRACE | DEBUG | INFO | WARN | ERROR | FATAL | NUM_LOG_LEVELS

fun level_number :: "LogLevel \<Rightarrow> nat" where
  "level_number TRACE = 0"
| "level_number DEBUG = 1"
| "level_number INFO = 2"
| "level_number WARN = 3"
| "level_number ERROR = 4"
| "level_number FATAL = 5"
| "level_number NUM_LOG_LEVELS = 6"

definition LogLevelName :: "string list" where
  "LogLevelName = [''TRACE '', ''DEBUG '', ''INFO  '', ''WARN  '', ''ERROR '', ''FATAL '']"

record log_env =
  now :: Timestamp
  gettid :: int
  errno :: int
  strerror :: "int \<Rightarrow> string"
  getenv :: "string \<Rightarrow> bool"

record log_thread =
  t_time :: string
  t_lastSecond :: int
  t_cachedTid :: int
  t_tidString :: string
  t_tidStringLength :: nat

definition new_thread :: log_thread where
  "new_thread = \<lparr>t_time = [], t_lastSecond = 0, t_cachedTid = 0, t_tidString = [], t_tidStringLength = 6\<rparr>"

record log_state =
  g_logLevel :: LogLevel
  g_logTimeZone :: TimeZone
  printed :: "string list"
  flushes :: nat
  aborted :: bool

definition initLogLevel :: "log_env \<Rightarrow> LogLevel" where
  "initLogLevel env =
     (if getenv env ''MUDUO_LOG_TRACE'' then TRACE
      else if getenv env ''MUDUO_LOG_DEBUG'' then DEBUG
      else INFO)"

definition setLogLevel :: "LogLevel \<Rightarrow> log_state \<Rightarrow> log_state" where
  "setLogLevel level g = g\<lparr>g_logLevel := level\<rparr>"

definition setTimeZone :: "TimeZone \<Rightarrow> log_state \<Rightarrow> log_state" where
  "setTimeZone tz g = g\<lparr>g_logTimeZone := tz\<rparr>"

text \<open>The name of a file without its directories, as a pointer into the name and a length.\<close>

definition strrchr :: "char \<Rightarrow> string \<Rightarrow> nat option" where
  "strrchr c s = (let cs = c_str s
     in if c \<in> set cs then Some (length cs - 1 - length (takeWhile (\<lambda>x. x \<noteq> c) (rev cs))) else None)"

record SourceFile =
  file_data :: string
  file_size :: nat

definition SourceFile_of_literal :: "string \<Rightarrow> SourceFile" where
  "SourceFile_of_literal arr =
     (case strrchr (CHR ''/'') arr of
        Some slash \<Rightarrow> \<lparr>file_data = drop (slash + 1) arr, file_size = length arr - (slash + 1)\<rparr>
      | None \<Rightarrow> \<lparr>file_data = arr, file_size = length arr\<rparr>)"

definition SourceFile_of_name :: "string \<Rightarrow> SourceFile" where
  "SourceFile_of_name filename =
     (let data = (case strrchr (CHR ''/'') filename of Some slash \<Rightarrow> drop (slash + 1) filename | None \<Rightarrow> filename)
      in \<lparr>file_data = data, file_size = length (c_str data)\<rparr>)"

text \<open>\<open>T\<close> is a text whose length is known; \<open>Fmt\<close> a number in a buffer of 32 characters.\<close>

definition insert_T :: "string \<Rightarrow> nat \<Rightarrow> FixedBuffer \<Rightarrow> FixedBuffer res" where
  "insert_T str len b = bindE (assertE (length (c_str str) = len)) (\<lambda>_. fixed_append (take len str) b)"

definition Fmt :: "string \<Rightarrow> string res" where
  "Fmt formatted = bindE (assertE (length formatted < 32)) (\<lambda>_. Inr formatted)"

definition cacheTid :: "log_env \<Rightarrow> log_thread \<Rightarrow> log_thread" where
  "cacheTid env t =
     (if t_cachedTid t = 0
      then let text = pad 5 (gettid env) @ '' ''
           in t\<lparr>t_cachedTid := gettid env, t_tidString := take 31 text, t_tidStringLength := length text\<rparr>
      else t)"

definition tid :: "log_env \<Rightarrow> log_thread \<Rightarrow> log_thread" where
  "tid env t = (if t_cachedTid t = 0 then cacheTid env t else t)"

record Impl =
  impl_time :: Timestamp
  impl_stream :: FixedBuffer
  impl_level :: LogLevel
  impl_line :: "32 word"
  impl_basename :: SourceFile

text \<open>The second as text, in the zone of the log or in UTC.\<close>

definition shown_time :: "TimeZone \<Rightarrow> int \<Rightarrow> DateTime res" where
  "shown_time z seconds =
     (if z \<noteq> None then bindE (toLocalTime z seconds) (\<lambda>(dt, _). Inr dt) else Inr (toUtcTime seconds))"

definition second_text :: "DateTime \<Rightarrow> string" where
  "second_text dt = pad 4 (year dt) @ pad0 2 (month dt) @ pad0 2 (day dt) @ '' ''
     @ pad0 2 (hour dt) @ '':'' @ pad0 2 (minute dt) @ '':'' @ pad0 2 (second dt)"

definition refresh_second :: "TimeZone \<Rightarrow> int \<Rightarrow> log_thread \<Rightarrow> log_thread res" where
  "refresh_second z seconds t =
     (if seconds \<noteq> t_lastSecond t
      then bindE (shown_time z seconds) (\<lambda>dt.
           bindE (assertE (length (second_text dt) = 17)) (\<lambda>_.
           Inr (t\<lparr>t_lastSecond := seconds, t_time := take 63 (second_text dt)\<rparr>)))
      else Inr t)"

definition formatTime :: "TimeZone \<Rightarrow> log_thread \<Rightarrow> Impl \<Rightarrow> (log_thread \<times> Impl) res" where
  "formatTime z t impl =
     (let seconds = microSecondsSinceEpoch (impl_time impl) sdiv kMicroSecondsPerSecond;
          microseconds = wrap32 (microSecondsSinceEpoch (impl_time impl) smod kMicroSecondsPerSecond)
      in bindE (refresh_second z seconds t) (\<lambda>t.
         if z \<noteq> None
         then bindE (Fmt (''.'' @ pad0 6 microseconds @ '' '')) (\<lambda>us.
              bindE (assertE (length us = 8)) (\<lambda>_.
              bindE (insert_T (t_time t) 17 (impl_stream impl)) (\<lambda>s.
              bindE (insert_T us 8 s) (\<lambda>s. Inr (t, impl\<lparr>impl_stream := s\<rparr>)))))
         else bindE (Fmt (''.'' @ pad0 6 microseconds @ ''Z '')) (\<lambda>us.
              bindE (assertE (length us = 9)) (\<lambda>_.
              bindE (insert_T (t_time t) 17 (impl_stream impl)) (\<lambda>s.
              bindE (insert_T us 9 s) (\<lambda>s. Inr (t, impl\<lparr>impl_stream := s\<rparr>)))))))"

definition new_LogStream :: FixedBuffer where
  "new_LogStream = \<lparr>data = replicate kSmallBuffer (CHR 0x00), cur = 0\<rparr>"

definition level_name :: "LogLevel \<Rightarrow> string res" where
  "level_name level =
     (if level_number level < length LogLevelName then Inr (LogLevelName ! level_number level) else Inl UndefinedBehaviour)"

definition insert_errno :: "log_env \<Rightarrow> int \<Rightarrow> FixedBuffer \<Rightarrow> FixedBuffer res" where
  "insert_errno env savedErrno b =
     (if savedErrno \<noteq> 0
      then insert_items [CString (Some (strerror env savedErrno)), CString (Some '' (errno=''), Signed32 (word_of_int savedErrno), CString (Some '') '')] b
      else Inr b)"

definition new_Impl :: "log_env \<Rightarrow> log_state \<Rightarrow> LogLevel \<Rightarrow> int \<Rightarrow> SourceFile \<Rightarrow> 32 word \<Rightarrow> log_thread \<Rightarrow> (log_thread \<times> Impl) res" where
  "new_Impl env g level savedErrno f line t =
     bindE (formatTime (g_logTimeZone g) t \<lparr>impl_time = now env, impl_stream = new_LogStream, impl_level = level, impl_line = line, impl_basename = f\<rparr>) (\<lambda>(t, impl).
     let t = tid env t
     in bindE (insert_T (t_tidString t) (t_tidStringLength t) (impl_stream impl)) (\<lambda>s.
        bindE (level_name level) (\<lambda>name.
        bindE (insert_T name 6 s) (\<lambda>s.
        bindE (insert_errno env savedErrno s) (\<lambda>s.
        Inr (t, impl\<lparr>impl_stream := s\<rparr>))))))"

definition finish :: "Impl \<Rightarrow> Impl res" where
  "finish impl =
     bindE (insert_items [CString (Some '' - ''), String (take (file_size (impl_basename impl)) (file_data (impl_basename impl))),
              Char (CHR '':''), Signed32 (impl_line impl), Char (CHR 0x0A)] (impl_stream impl)) (\<lambda>s.
     Inr (impl\<lparr>impl_stream := s\<rparr>))"

text \<open>The four constructors and the destructor.\<close>

definition Logger_info :: "log_env \<Rightarrow> log_state \<Rightarrow> SourceFile \<Rightarrow> 32 word \<Rightarrow> log_thread \<Rightarrow> (log_thread \<times> Impl) res" where
  "Logger_info env g f line t = new_Impl env g INFO 0 f line t"

definition Logger_func :: "log_env \<Rightarrow> log_state \<Rightarrow> SourceFile \<Rightarrow> 32 word \<Rightarrow> LogLevel \<Rightarrow> string \<Rightarrow> log_thread \<Rightarrow> (log_thread \<times> Impl) res" where
  "Logger_func env g f line level func t =
     bindE (new_Impl env g level 0 f line t) (\<lambda>(t, impl).
     bindE (insert_items [CString (Some func), Char (CHR '' '')] (impl_stream impl)) (\<lambda>s. Inr (t, impl\<lparr>impl_stream := s\<rparr>)))"

definition Logger_level :: "log_env \<Rightarrow> log_state \<Rightarrow> SourceFile \<Rightarrow> 32 word \<Rightarrow> LogLevel \<Rightarrow> log_thread \<Rightarrow> (log_thread \<times> Impl) res" where
  "Logger_level env g f line level t = new_Impl env g level 0 f line t"

definition Logger_errno :: "log_env \<Rightarrow> log_state \<Rightarrow> SourceFile \<Rightarrow> 32 word \<Rightarrow> bool \<Rightarrow> log_thread \<Rightarrow> (log_thread \<times> Impl) res" where
  "Logger_errno env g f line toAbort t = new_Impl env g (if toAbort then FATAL else ERROR) (errno env) f line t"

definition destroy_Logger :: "Impl \<Rightarrow> log_state \<Rightarrow> log_state res" where
  "destroy_Logger impl g =
     bindE (finish impl) (\<lambda>impl.
     let g = g\<lparr>printed := printed g @ [fixed_toString (impl_stream impl)]\<rparr>
     in Inr (if impl_level impl = FATAL then g\<lparr>flushes := flushes g + 1, aborted := True\<rparr> else g))"

text \<open>The statements. Those of low levels are left out below the level of the log.\<close>

datatype log_macro = LOG_TRACE | LOG_DEBUG | LOG_INFO | LOG_WARN | LOG_ERROR | LOG_FATAL | LOG_SYSERR | LOG_SYSFATAL

fun log_enabled :: "log_macro \<Rightarrow> LogLevel \<Rightarrow> bool" where
  "log_enabled LOG_TRACE l \<longleftrightarrow> level_number l \<le> level_number TRACE"
| "log_enabled LOG_DEBUG l \<longleftrightarrow> level_number l \<le> level_number DEBUG"
| "log_enabled LOG_INFO l \<longleftrightarrow> level_number l \<le> level_number INFO"
| "log_enabled _ l \<longleftrightarrow> True"

fun new_Logger :: "log_macro \<Rightarrow> log_env \<Rightarrow> log_state \<Rightarrow> SourceFile \<Rightarrow> 32 word \<Rightarrow> string \<Rightarrow> log_thread \<Rightarrow> (log_thread \<times> Impl) res" where
  "new_Logger LOG_TRACE env g f line func t = Logger_func env g f line TRACE func t"
| "new_Logger LOG_DEBUG env g f line func t = Logger_func env g f line DEBUG func t"
| "new_Logger LOG_INFO env g f line func t = Logger_info env g f line t"
| "new_Logger LOG_WARN env g f line func t = Logger_level env g f line WARN t"
| "new_Logger LOG_ERROR env g f line func t = Logger_level env g f line ERROR t"
| "new_Logger LOG_FATAL env g f line func t = Logger_level env g f line FATAL t"
| "new_Logger LOG_SYSERR env g f line func t = Logger_errno env g f line False t"
| "new_Logger LOG_SYSFATAL env g f line func t = Logger_errno env g f line True t"

definition log_statement :: "log_env \<Rightarrow> log_macro \<Rightarrow> string \<Rightarrow> 32 word \<Rightarrow> string \<Rightarrow> item list \<Rightarrow> log_thread \<times> log_state \<Rightarrow> (log_thread \<times> log_state) res" where
  "log_statement env m path line func items tg =
     (case tg of (t, g) \<Rightarrow>
        if log_enabled m (g_logLevel g)
        then bindE (new_Logger m env g (SourceFile_of_literal path) line func t) (\<lambda>(t, impl).
             bindE (insert_items items (impl_stream impl)) (\<lambda>s.
             bindE (destroy_Logger (impl\<lparr>impl_stream := s\<rparr>) g) (\<lambda>g. Inr (t, g))))
        else Inr (t, g))"

text \<open>\<open>CHECK_NOTNULL\<close>: a null pointer is a fatal line.\<close>

definition CheckNotNull :: "log_env \<Rightarrow> SourceFile \<Rightarrow> 32 word \<Rightarrow> string \<Rightarrow> 'p option \<Rightarrow> log_thread \<times> log_state \<Rightarrow> ('p option \<times> log_thread \<times> log_state) res" where
  "CheckNotNull env f line names ptr tg =
     (case tg of (t, g) \<Rightarrow>
        if ptr = None
        then bindE (Logger_level env g f line FATAL t) (\<lambda>(t, impl).
             bindE (insert_items [CString (Some names)] (impl_stream impl)) (\<lambda>s.
             bindE (destroy_Logger (impl\<lparr>impl_stream := s\<rparr>) g) (\<lambda>g. Inr (ptr, t, g))))
        else Inr (ptr, t, g))"

section \<open>What a line holds\<close>

lemma insert_items_append: "insert_items (xs @ ys) b = bindE (insert_items xs b) (insert_items ys)"
proof (induction xs arbitrary: b)
  case (Cons x xs)
  then have "insert_items (xs @ ys) = (\<lambda>b. bindE (insert_items xs b) (insert_items ys))" by (simp add: fun_eq_iff)
  then show ?case by (simp add: bindE_assoc)
qed simp

lemma c_str_no_null: "CHR 0x00 \<notin> set str \<Longrightarrow> c_str str = str"
  by (auto simp: c_str_def takeWhile_eq_all_conv)

lemma insert_T_item: "length str = len \<Longrightarrow> CHR 0x00 \<notin> set str \<Longrightarrow> insert_T str len b = insert_item (String str) b"
  by (simp add: insert_T_def c_str_no_null)

lemma show_nat_no_null: "CHR 0x00 \<notin> set (show_nat n)"
  using show_nat_digits [of n] by (auto simp: is_digit_def)

lemma pads_no_null [simp]: "CHR 0x00 \<notin> set (pad w x)" "CHR 0x00 \<notin> set (pad0 w x)"
  using show_nat_no_null by (auto simp: pad_def pad0_def show_int_def Let_def)

lemma length_pad0: "0 \<le> x \<Longrightarrow> x < 10 ^ w \<Longrightarrow> 0 < w \<Longrightarrow> length (pad0 w x) = w"
  using show_nat_length [of "nat x" w] by (simp add: pad0_def Let_def nat_less_iff)

lemma length_pad_year: "- 999 \<le> y \<Longrightarrow> y \<le> 9999 \<Longrightarrow> length (pad 4 y) = 4"
  using show_nat_length [of "nat y" 4] show_nat_length [of "nat (- y)" 3] by (auto simp: pad_def show_int_def)

lemma length_pad_tid: "is_int32 x \<Longrightarrow> length (pad 5 x) \<le> 11"
proof -
  assume x: "is_int32 x"
  have "length (show_nat (nat \<bar>x\<bar>)) \<le> 10" using x by (intro show_nat_length) (auto simp: is_int32_def)
  then show ?thesis by (auto simp: pad_def show_int_def abs_if split: if_splits)
qed

text \<open>The times that can be shown: not the second 0, and a year of four characters.\<close>

definition time_ok :: "TimeZone \<Rightarrow> int \<Rightarrow> DateTime \<Rightarrow> bool" where
  "time_ok z s dt \<longleftrightarrow> s \<noteq> 0 \<and> shown_time z s = Inr dt \<and> valid_time dt \<and> - 999 \<le> year dt \<and> year dt \<le> 9999"

lemma length_second_text: "valid_time dt \<Longrightarrow> - 999 \<le> year dt \<Longrightarrow> year dt \<le> 9999 \<Longrightarrow> length (second_text dt) = 17"
  by (auto simp: second_text_def valid_time_def valid_date_def days_in_month_def length_pad_year length_pad0 YearMonthDay.defs split: if_splits)

text \<open>What a thread remembers is the text of its last second in the zone of the log, and the text of its number.\<close>

definition thread_ok :: "TimeZone \<Rightarrow> int \<Rightarrow> log_thread \<Rightarrow> bool" where
  "thread_ok z n t \<longleftrightarrow> (t_lastSecond t \<noteq> 0 \<longrightarrow> (\<exists>dt. shown_time z (t_lastSecond t) = Inr dt \<and> t_time t = second_text dt))
     \<and> (t_cachedTid t \<noteq> 0 \<longrightarrow> t_cachedTid t = n \<and> t_tidString t = pad 5 n @ '' '' \<and> t_tidStringLength t = length (pad 5 n) + 1)"

definition micro_text :: "TimeZone \<Rightarrow> int \<Rightarrow> string" where
  "micro_text z us = ''.'' @ pad0 6 us @ (if z \<noteq> None then '' '' else ''Z '')"

fun macro_level :: "log_macro \<Rightarrow> LogLevel" where
  "macro_level LOG_TRACE = TRACE"
| "macro_level LOG_DEBUG = DEBUG"
| "macro_level LOG_INFO = INFO"
| "macro_level LOG_WARN = WARN"
| "macro_level LOG_ERROR = ERROR"
| "macro_level LOG_SYSERR = ERROR"
| "macro_level _ = FATAL"

definition errno_items :: "log_env \<Rightarrow> int \<Rightarrow> item list" where
  "errno_items env e = (if e \<noteq> 0 then [CString (Some (strerror env e)), CString (Some '' (errno=''), Signed32 (word_of_int e), CString (Some '') '')] else [])"

fun macro_items :: "log_env \<Rightarrow> string \<Rightarrow> log_macro \<Rightarrow> item list" where
  "macro_items env func LOG_TRACE = [CString (Some func), Char (CHR '' '')]"
| "macro_items env func LOG_DEBUG = [CString (Some func), Char (CHR '' '')]"
| "macro_items env func LOG_SYSERR = errno_items env (errno env)"
| "macro_items env func LOG_SYSFATAL = errno_items env (errno env)"
| "macro_items env func _ = []"

definition head_items :: "log_env \<Rightarrow> TimeZone \<Rightarrow> DateTime \<Rightarrow> LogLevel \<Rightarrow> item list" where
  "head_items env z dt level =
     [String (second_text dt), String (micro_text z (microSecondsSinceEpoch (now env) mod 1000000)), String (pad 5 (gettid env) @ '' ''), String (LogLevelName ! level_number level)]"

definition basename :: "string \<Rightarrow> string" where
  "basename path = rev (takeWhile (\<lambda>c. c \<noteq> CHR ''/'') (rev path))"

definition tail_items :: "string \<Rightarrow> 32 word \<Rightarrow> item list" where
  "tail_items path line = [String '' - '', String (basename path), Char (CHR '':''), Signed32 line, Char (CHR 0x0A)]"

definition line_items :: "log_env \<Rightarrow> TimeZone \<Rightarrow> DateTime \<Rightarrow> log_macro \<Rightarrow> string \<Rightarrow> 32 word \<Rightarrow> string \<Rightarrow> item list \<Rightarrow> item list" where
  "line_items env z dt m path line func items = head_items env z dt (macro_level m) @ macro_items env func m @ items @ tail_items path line"

lemma SourceFile_basename:
  assumes "CHR 0x00 \<notin> set path"
  shows "take (file_size (SourceFile_of_literal path)) (file_data (SourceFile_of_literal path)) = basename path"
proof -
  have c: "c_str path = path" using assms by (rule c_str_no_null)
  let ?n = "length (takeWhile (\<lambda>c. c \<noteq> CHR ''/'') (rev path))"
  show ?thesis
  proof (cases "CHR ''/'' \<in> set path")
    case True
    then have "takeWhile (\<lambda>c. c \<noteq> CHR ''/'') (rev path) \<noteq> rev path" by (simp add: takeWhile_eq_all_conv)
    then have "?n < length path" using length_takeWhile_le [of _ "rev path"] by (metis length_rev nat_less_le takeWhile_eq_take take_all_iff order_refl)
    then have "length path - 1 - ?n + 1 = length path - ?n" by simp
    moreover have "drop (length path - ?n) path = rev (take ?n (rev path))" by (simp add: rev_take)
    moreover have "take ?n (rev path) = takeWhile (\<lambda>c. c \<noteq> CHR ''/'') (rev path)" by (rule takeWhile_eq_take [symmetric])
    ultimately show ?thesis using True by (simp add: SourceFile_of_literal_def strrchr_def c Let_def basename_def)
  next
    case False
    then have "takeWhile (\<lambda>c. c \<noteq> CHR ''/'') (rev path) = rev path" by (auto simp: takeWhile_eq_all_conv)
    then have "basename path = path" by (simp only: basename_def rev_rev_ident)
    with False show ?thesis by (simp add: SourceFile_of_literal_def strrchr_def c Let_def)
  qed
qed

lemma second_text_no_null: "CHR 0x00 \<notin> set (second_text dt)"
  by (simp add: second_text_def)

lemma refresh_second_ok:
  assumes "time_ok z s dt" "thread_ok z n t"
  shows "\<exists>t'. refresh_second z s t = Inr t' \<and> thread_ok z n t' \<and> t_time t' = second_text dt
    \<and> t_cachedTid t' = t_cachedTid t \<and> t_tidString t' = t_tidString t \<and> t_tidStringLength t' = t_tidStringLength t"
proof (cases "s = t_lastSecond t")
  case True
  with assms show ?thesis by (auto simp: refresh_second_def thread_ok_def time_ok_def)
next
  case False
  have "length (second_text dt) = 17" using assms(1) by (intro length_second_text) (simp_all add: time_ok_def)
  with False assms show ?thesis by (auto simp: refresh_second_def thread_ok_def time_ok_def)
qed

lemma tid_ok:
  assumes "thread_ok z (gettid env) t" "is_int32 (gettid env)"
  shows "thread_ok z (gettid env) (tid env t) \<and> t_tidString (tid env t) = pad 5 (gettid env) @ '' '' \<and> t_tidStringLength (tid env t) = length (pad 5 (gettid env)) + 1"
  using assms length_pad_tid [OF assms(2)] by (auto simp: tid_def cacheTid_def thread_ok_def Let_def)

lemma micros_int32: "0 \<le> us \<Longrightarrow> us < 1000000 \<Longrightarrow> is_int32 us"
  by (simp add: is_int32_def)

lemma formatTime_line:
  assumes "time_ok z (microSecondsSinceEpoch (impl_time impl) div 1000000) dt" "0 \<le> microSecondsSinceEpoch (impl_time impl)" "thread_ok z n t"
  shows "\<exists>t'. thread_ok z n t' \<and> formatTime z t impl =
    bindE (insert_items [String (second_text dt), String (micro_text z (microSecondsSinceEpoch (impl_time impl) mod 1000000))] (impl_stream impl)) (\<lambda>b. Inr (t', impl\<lparr>impl_stream := b\<rparr>))"
proof -
  let ?us = "microSecondsSinceEpoch (impl_time impl) mod 1000000"
  obtain t' where t': "refresh_second z (microSecondsSinceEpoch (impl_time impl) div 1000000) t = Inr t'" "thread_ok z n t'" "t_time t' = second_text dt"
    using refresh_second_ok [OF assms(1,3)] by blast
  have "length (second_text dt) = 17" using assms(1) by (intro length_second_text) (simp_all add: time_ok_def)
  then have first: "insert_T (t_time t') 17 b = insert_item (String (second_text dt)) b" for b
    unfolding t'(3) by (rule insert_T_item [OF _ second_text_no_null])
  have w: "wrap32 ?us = ?us" 
  proof (rule wrap32_id)
    have "0 \<le> ?us" "?us < 1000000" by simp_all
    then show "is_int32 ?us" by (rule micros_int32)
  qed
  have len: "length (pad0 6 ?us) = 6" by (rule length_pad0) simp_all
  have us: "micro_text z ?us = (if z \<noteq> None then ''.'' @ pad0 6 ?us @ '' '' else ''.'' @ pad0 6 ?us @ ''Z '')" by (simp add: micro_text_def)
  have second: "insert_T (micro_text z ?us) (length (micro_text z ?us)) b = insert_item (String (micro_text z ?us)) b" for b
    by (rule insert_T_item) (simp_all add: micro_text_def)
  have "formatTime z t impl = bindE (insert_T (t_time t') 17 (impl_stream impl)) (\<lambda>b. bindE (insert_T (micro_text z ?us) (length (micro_text z ?us)) b) (\<lambda>b. Inr (t', impl\<lparr>impl_stream := b\<rparr>)))"
    using assms(2) t'(1) by (simp add: formatTime_def kMicroSecondsPerSecond_def Let_def w len us Fmt_def)
  then show ?thesis using t'(2) by (auto simp: first second bindE_assoc simp del: insert_item.simps)
qed

lemma insert_errno_items: "insert_errno env e b = insert_items (errno_items env e) b"
  by (simp add: insert_errno_def errno_items_def)

lemma level_names:
  assumes "level \<noteq> NUM_LOG_LEVELS"
  shows "level_name level = Inr (LogLevelName ! level_number level)" "length (LogLevelName ! level_number level) = 6" "CHR 0x00 \<notin> set (LogLevelName ! level_number level)"
  using assms by (cases level; simp add: level_name_def LogLevelName_def)+

lemma new_Impl_line:
  assumes "time_ok (g_logTimeZone g) (microSecondsSinceEpoch (now env) div 1000000) dt" "0 \<le> microSecondsSinceEpoch (now env)"
    and "thread_ok (g_logTimeZone g) (gettid env) t" "is_int32 (gettid env)" "level \<noteq> NUM_LOG_LEVELS"
  shows "\<exists>t'. thread_ok (g_logTimeZone g) (gettid env) t' \<and> new_Impl env g level e f line t =
    bindE (insert_items (head_items env (g_logTimeZone g) dt level @ errno_items env e) new_LogStream)
      (\<lambda>b. Inr (t', \<lparr>impl_time = now env, impl_stream = b, impl_level = level, impl_line = line, impl_basename = f\<rparr>))"
proof -
  let ?impl = "\<lparr>impl_time = now env, impl_stream = new_LogStream, impl_level = level, impl_line = line, impl_basename = f\<rparr>"
  obtain t1 where t1: "thread_ok (g_logTimeZone g) (gettid env) t1" "formatTime (g_logTimeZone g) t ?impl =
    bindE (insert_items [String (second_text dt), String (micro_text (g_logTimeZone g) (microSecondsSinceEpoch (now env) mod 1000000))] new_LogStream) (\<lambda>b. Inr (t1, ?impl\<lparr>impl_stream := b\<rparr>))"
    using formatTime_line [of "g_logTimeZone g" ?impl dt "gettid env" t] assms by auto
  note tid = tid_ok [OF t1(1) assms(4)]
  have number: "insert_T (t_tidString (tid env t1)) (t_tidStringLength (tid env t1)) b = insert_item (String (pad 5 (gettid env) @ '' '')) b" for b
    using tid by (subst insert_T_item) auto
  have name: "insert_T (LogLevelName ! level_number level) 6 b = insert_item (String (LogLevelName ! level_number level)) b" for b
    by (rule insert_T_item) (rule level_names [OF assms(5)])+
  have "new_Impl env g level e f line t =
    bindE (insert_items (head_items env (g_logTimeZone g) dt level @ errno_items env e) new_LogStream)
      (\<lambda>b. Inr (tid env t1, \<lparr>impl_time = now env, impl_stream = b, impl_level = level, impl_line = line, impl_basename = f\<rparr>))"
    by (simp add: new_Impl_def t1(2) bindE_assoc Let_def number name level_names(1) [OF assms(5)] insert_errno_items head_items_def del: insert_item.simps)
  with tid show ?thesis by blast
qed

lemma new_Logger_line:
  assumes "time_ok (g_logTimeZone g) (microSecondsSinceEpoch (now env) div 1000000) dt" "0 \<le> microSecondsSinceEpoch (now env)"
    and "thread_ok (g_logTimeZone g) (gettid env) t" "is_int32 (gettid env)"
  shows "\<exists>t'. thread_ok (g_logTimeZone g) (gettid env) t' \<and> new_Logger m env g f line func t =
    bindE (insert_items (head_items env (g_logTimeZone g) dt (macro_level m) @ macro_items env func m) new_LogStream)
      (\<lambda>b. Inr (t', \<lparr>impl_time = now env, impl_stream = b, impl_level = macro_level m, impl_line = line, impl_basename = f\<rparr>))"
proof -
  note impl = new_Impl_line [OF assms]
  show ?thesis
  proof (cases m)
    case LOG_TRACE
    then show ?thesis using impl [of TRACE 0 f line] by (auto simp: Logger_func_def errno_items_def insert_items_append bindE_assoc)
  next
    case LOG_DEBUG
    then show ?thesis using impl [of DEBUG 0 f line] by (auto simp: Logger_func_def errno_items_def insert_items_append bindE_assoc)
  next
    case LOG_INFO
    then show ?thesis using impl [of INFO 0 f line] by (simp add: Logger_info_def errno_items_def)
  next
    case LOG_WARN
    then show ?thesis using impl [of WARN 0 f line] by (simp add: Logger_level_def errno_items_def)
  next
    case LOG_ERROR
    then show ?thesis using impl [of ERROR 0 f line] by (simp add: Logger_level_def errno_items_def)
  next
    case LOG_FATAL
    then show ?thesis using impl [of FATAL 0 f line] by (simp add: Logger_level_def errno_items_def)
  next
    case LOG_SYSERR
    then show ?thesis using impl [of ERROR "errno env" f line] by (simp add: Logger_errno_def)
  next
    case LOG_SYSFATAL
    then show ?thesis using impl [of FATAL "errno env" f line] by (simp add: Logger_errno_def)
  qed
qed

text \<open>When everything fits, nothing is left out.\<close>

lemma log_text_whole:
  "length t + length (concat (map item_text items)) + 48 \<le> N \<Longrightarrow> log_text N items t = t @ concat (map item_text items)"
proof (induction items arbitrary: t)
  case (Cons i items)
  from Cons.prems have "item_fits (N - length t) i" by (auto simp: item_fits_def)
  with Cons show ?case by simp
qed simp

lemma log_statement_line:
  assumes "time_ok (g_logTimeZone g) (microSecondsSinceEpoch (now env) div 1000000) dt" "0 \<le> microSecondsSinceEpoch (now env)"
    and "thread_ok (g_logTimeZone g) (gettid env) t" "is_int32 (gettid env)" "CHR 0x00 \<notin> set path" "log_enabled m (g_logLevel g)"
  shows "\<exists>t'. thread_ok (g_logTimeZone g) (gettid env) t' \<and> log_statement env m path line func items (t, g) =
    Inr (t', g\<lparr>printed := printed g @ [log_text 4000 (line_items env (g_logTimeZone g) dt m path line func items) []],
                flushes := flushes g + (if macro_level m = FATAL then 1 else 0), aborted := aborted g \<or> macro_level m = FATAL\<rparr>)"
proof -
  let ?L = "line_items env (g_logTimeZone g) dt m path line func items"
  obtain t' where t': "thread_ok (g_logTimeZone g) (gettid env) t'" "new_Logger m env g (SourceFile_of_literal path) line func t =
    bindE (insert_items (head_items env (g_logTimeZone g) dt (macro_level m) @ macro_items env func m) new_LogStream)
      (\<lambda>b. Inr (t', \<lparr>impl_time = now env, impl_stream = b, impl_level = macro_level m, impl_line = line, impl_basename = SourceFile_of_literal path\<rparr>))"
    using new_Logger_line [OF assms(1-4)] by blast
  obtain b where b: "insert_items ?L new_LogStream = Inr b" "fixed_toString b = log_text 4000 ?L []"
    using insert_items_spec [of new_LogStream ?L] by (auto simp: new_LogStream_def kSmallBuffer_def fixed_toString_def)
  have dash: "insert_item (CString (Some '' - '')) x = insert_item (String '' - '') x" for x by (simp add: c_str_def)
  have "log_statement env m path line func items (t, g) = bindE (insert_items ?L new_LogStream) (\<lambda>b.
      let g = g\<lparr>printed := printed g @ [fixed_toString b]\<rparr>
      in Inr (t', if macro_level m = FATAL then g\<lparr>flushes := flushes g + 1, aborted := True\<rparr> else g))"
    using assms(6) by (cases "macro_level m = FATAL") (simp_all add: log_statement_def t'(2) line_items_def insert_items_append bindE_assoc destroy_Logger_def finish_def
        tail_items_def SourceFile_basename [OF assms(5)] dash Let_def del: insert_item.simps)
  with t'(1) b show ?thesis by (auto simp: Let_def)
qed

section \<open>The statements of a thread\<close>

record statement =
  st_env :: log_env
  st_macro :: log_macro
  st_path :: string
  st_line :: "32 word"
  st_func :: string
  st_items :: "item list"

text \<open>A fatal line ends the program.\<close>

fun log_run :: "statement list \<Rightarrow> log_thread \<times> log_state \<Rightarrow> (log_thread \<times> log_state) res" where
  "log_run [] tg = Inr tg"
| "log_run (st # sts) tg =
     bindE (log_statement (st_env st) (st_macro st) (st_path st) (st_line st) (st_func st) (st_items st) tg) (\<lambda>tg.
     if aborted (snd tg) then Inr tg else log_run sts tg)"

definition st_second :: "statement \<Rightarrow> int" where
  "st_second st = microSecondsSinceEpoch (now (st_env st)) div 1000000"

definition statement_ok :: "TimeZone \<Rightarrow> int \<Rightarrow> statement \<Rightarrow> bool" where
  "statement_ok z n st \<longleftrightarrow> (\<exists>dt. time_ok z (st_second st) dt) \<and> 0 \<le> microSecondsSinceEpoch (now (st_env st)) \<and> gettid (st_env st) = n \<and> CHR 0x00 \<notin> set (st_path st)"

definition parts_of :: "TimeZone \<Rightarrow> statement \<Rightarrow> item list" where
  "parts_of z st = (case shown_time z (st_second st) of
       Inr dt \<Rightarrow> line_items (st_env st) z dt (st_macro st) (st_path st) (st_line st) (st_func st) (st_items st)
     | Inl e \<Rightarrow> [])"

definition lines_of :: "TimeZone \<Rightarrow> LogLevel \<Rightarrow> statement list \<Rightarrow> string list" where
  "lines_of z l sts = map (\<lambda>st. log_text 4000 (parts_of z st) []) (filter (\<lambda>st. log_enabled (st_macro st) l) sts)"

lemma log_run_one:
  assumes "statement_ok (g_logTimeZone g) n st" "is_int32 n" "thread_ok (g_logTimeZone g) n t"
  shows "\<exists>t'. thread_ok (g_logTimeZone g) n t' \<and> log_statement (st_env st) (st_macro st) (st_path st) (st_line st) (st_func st) (st_items st) (t, g) =
    Inr (t', g\<lparr>printed := printed g @ lines_of (g_logTimeZone g) (g_logLevel g) [st],
                flushes := flushes g + (if macro_level (st_macro st) = FATAL then 1 else 0), aborted := aborted g \<or> macro_level (st_macro st) = FATAL\<rparr>)"
proof (cases "log_enabled (st_macro st) (g_logLevel g)")
  case True
  obtain dt where dt: "time_ok (g_logTimeZone g) (microSecondsSinceEpoch (now (st_env st)) div 1000000) dt"
    using assms(1) by (auto simp: statement_ok_def st_second_def)
  then have "shown_time (g_logTimeZone g) (st_second st) = Inr dt" by (simp add: time_ok_def st_second_def)
  then show ?thesis
    using log_statement_line [OF dt, of t "st_path st" "st_macro st" "st_line st" "st_func st" "st_items st"] assms True
    by (simp add: statement_ok_def lines_of_def parts_of_def)
next
  case False
  then have "macro_level (st_macro st) \<noteq> FATAL" by (cases "st_macro st") simp_all
  with False assms(3) show ?thesis by (auto simp: log_statement_def lines_of_def)
qed

lemma log_run_lines:
  assumes "list_all (statement_ok (g_logTimeZone g) n) (sts @ [st])" "is_int32 n" "thread_ok (g_logTimeZone g) n t"
    and "list_all (\<lambda>st. macro_level (st_macro st) \<noteq> FATAL) sts" "\<not> aborted g"
  shows "\<exists>t'. thread_ok (g_logTimeZone g) n t' \<and> log_run (sts @ [st]) (t, g) =
    Inr (t', g\<lparr>printed := printed g @ lines_of (g_logTimeZone g) (g_logLevel g) (sts @ [st]),
                flushes := flushes g + (if macro_level (st_macro st) = FATAL then 1 else 0), aborted := macro_level (st_macro st) = FATAL\<rparr>)"
  using assms
proof (induction sts arbitrary: t g)
  case Nil
  then show ?case using log_run_one [of g n st t] by auto
next
  case (Cons st' sts)
  let ?g = "g\<lparr>printed := printed g @ lines_of (g_logTimeZone g) (g_logLevel g) [st']\<rparr>"
  obtain t1 where t1: "thread_ok (g_logTimeZone g) n t1"
      "log_statement (st_env st') (st_macro st') (st_path st') (st_line st') (st_func st') (st_items st') (t, g) = Inr (t1, ?g)"
    using log_run_one [of g n st' t] Cons.prems by auto
  have "\<not> aborted ?g" using Cons.prems by simp
  then have "log_run ((st' # sts) @ [st]) (t, g) = log_run (sts @ [st]) (t1, ?g)" by (simp add: t1(2))
  moreover have "lines_of z l ((st' # sts) @ [st]) = lines_of z l [st'] @ lines_of z l (sts @ [st])" for z l by (simp add: lines_of_def)
  moreover have "\<exists>t'. thread_ok (g_logTimeZone g) n t' \<and> log_run (sts @ [st]) (t1, ?g) =
    Inr (t', ?g\<lparr>printed := printed ?g @ lines_of (g_logTimeZone g) (g_logLevel g) (sts @ [st]),
                flushes := flushes g + (if macro_level (st_macro st) = FATAL then 1 else 0), aborted := macro_level (st_macro st) = FATAL\<rparr>)"
    using Cons.IH [of ?g t1] Cons.prems t1(1) by simp
  ultimately show ?case by simp
qed


definition demo_env :: "int \<Rightarrow> log_env" where
  "demo_env us = \<lparr>now = Timestamp us, gettid = 4711, errno = 2, strerror = (\<lambda>_. ''No such file''), getenv = (\<lambda>_. False)\<rparr>"

definition demo_state :: log_state where
  "demo_state = \<lparr>g_logLevel = INFO, g_logTimeZone = None, printed = [], flushes = 0, aborted = False\<rparr>"

definition demo_statement :: "log_macro \<Rightarrow> item list \<Rightarrow> statement" where
  "demo_statement m items = \<lparr>st_env = demo_env 1700000000000042, st_macro = m, st_path = ''net/a.cc'', st_line = 7, st_func = ''f'', st_items = items\<rparr>"

lemma demo_time: "time_ok None 1700000000 \<lparr>year = 2023, month = 11, day = 14, hour = 22, minute = 13, second = 20\<rparr>"
proof -
  have "representable 1700000000" by (simp add: representable_def)
  then show ?thesis
    by (simp add: time_ok_def shown_time_def toUtcTime_def BreakTime_parts getYearMonthDay_def valid_time_def valid_date_def days_in_month_def YearMonthDay.defs Let_def)
qed

lemma demo_ok: "statement_ok None 4711 (demo_statement m items)"
  using demo_time by (auto simp: statement_ok_def demo_statement_def demo_env_def st_second_def)

lemma demo_thread: "thread_ok z n new_thread"
  by (simp add: thread_ok_def new_thread_def)

lemma demo_texts:
  "concat (map item_text (parts_of None (demo_statement LOG_INFO [String ''hi'']))) = ''20231114 22:13:20.000042Z  4711 INFO  hi - a.cc:7\<newline>''"
  "concat (map item_text (parts_of None (demo_statement LOG_SYSFATAL []))) = ''20231114 22:13:20.000042Z  4711 FATAL No such file (errno=2)  - a.cc:7\<newline>''"
proof -
  have decimal: "show_nat (numeral k) = (if numeral k < (10 :: nat) then [digit_char (numeral k)]
      else show_nat (numeral k div 10) @ [digit_char (numeral k mod 10)])" for k
    by (rule show_nat.simps)
  have digit: "show_nat 1 = ''1''" by code_simp
  have t: "shown_time None 1700000000 = Inr \<lparr>year = 2023, month = 11, day = 14, hour = 22, minute = 13, second = 20\<rparr>"
    using demo_time by (simp add: time_ok_def)
  note texts = parts_of_def demo_statement_def demo_env_def st_second_def t line_items_def head_items_def tail_items_def errno_items_def
    second_text_def micro_text_def pad_def pad0_def show_int_def Let_def basename_def c_str_def LogLevelName_def decimal digit digit_char_def
  show "concat (map item_text (parts_of None (demo_statement LOG_INFO [String ''hi'']))) = ''20231114 22:13:20.000042Z  4711 INFO  hi - a.cc:7\<newline>''"
    by (simp add: texts) code_simp
  show "concat (map item_text (parts_of None (demo_statement LOG_SYSFATAL []))) = ''20231114 22:13:20.000042Z  4711 FATAL No such file (errno=2)  - a.cc:7\<newline>''"
    by (simp add: texts) code_simp
qed

lemma demo_lines:
  "lines_of None INFO [demo_statement LOG_INFO [String ''hi''], demo_statement LOG_DEBUG [], demo_statement LOG_SYSFATAL []] =
     [''20231114 22:13:20.000042Z  4711 INFO  hi - a.cc:7\<newline>'', ''20231114 22:13:20.000042Z  4711 FATAL No such file (errno=2)  - a.cc:7\<newline>'']"
proof -
  have "st_macro (demo_statement m items) = m" for m items by (simp add: demo_statement_def)
  then show ?thesis using log_text_whole [of "[]" "parts_of None (demo_statement _ _)" 4000] demo_texts by (simp add: lines_of_def)
qed


section \<open>Where the log misleads\<close>

text \<open>A message that fills the line takes the place of everything after it, the end of the line included: the next line goes on in the same line of the file.\<close>

lemma full_line_loses_newline:
  assumes "length (concat (map item_text head)) = h" "h + 48 \<le> 4000" "list_all (\<lambda>i. item_text i \<noteq> []) tail"
  shows "log_text 4000 (head @ [String (replicate (3999 - h) c)] @ tail) [] = concat (map item_text head) @ replicate (3999 - h) c"
proof -
  have split: "log_text N (xs @ ys) t = log_text N ys (log_text N xs t)" for N xs ys t
    by (induction N xs t rule: log_text.induct) simp_all
  have full: "log_text 4000 tail t = t" if "length t = 3999" "list_all (\<lambda>i. item_text i \<noteq> []) tail" for t tail
    using that by (induction tail) (auto simp: item_fits_def)
  have "log_text 4000 head [] = concat (map item_text head)" using assms by (subst log_text_whole) simp_all
  then show ?thesis using assms by (simp add: split item_fits_def full)
qed

text \<open>A change of the zone does not reach the text of a second that was already shown: the line has the old time and the mark of the new zone.\<close>

lemma stale_time_after_setTimeZone:
  assumes "t_lastSecond t = s" "s \<noteq> 0"
  shows "refresh_second z s t = Inr t"
  using assms by (simp add: refresh_second_def)

text \<open>In the second 0 nothing was shown before, and the empty text fails the assertion of its length.\<close>

lemma second_zero_fails:
  assumes "0 \<le> us" "us < 1000000"
  shows "new_Impl ((demo_env 0)\<lparr>now := Timestamp us\<rparr>) demo_state level e f line new_thread = Inl AssertionFailure"
proof -
  have us: "us div 1000000 = 0" "us mod 1000000 = us" "wrap32 us = us" "length (pad0 6 us) = 6"
    using assms by (simp_all add: wrap32_id micros_int32 length_pad0)
  show ?thesis
    using assms by (simp add: new_Impl_def formatTime_def demo_state_def refresh_second_def new_thread_def demo_env_def kMicroSecondsPerSecond_def us Fmt_def insert_T_def c_str_def Let_def)
qed

end
