(* ===== verification/Small_Files.thy ===== *)
theory Small_Files
  imports Prelude
begin

text \<open>
  \<open>FileUtil::ReadSmallFile\<close> and \<open>FileUtil::readFile\<close> of \<open>base/FileUtil.h\<close> and \<open>base/FileUtil.cc\<close>. What \<open>open\<close> and \<open>fstat\<close> return and what \<open>read\<close> delivers, in pieces of the
  system's choice, are parameters (\<open>os_file\<close>).
\<close>

section \<open>The system\<close>

datatype delivery = Piece string | ReadError int

datatype file_kind = Regular | Directory | OtherKind

record file_status =
  st_mode :: file_kind
  st_size :: int
  st_mtime :: int
  st_ctime :: int

record os_file =
  open_errno :: "int option"
  status_of :: "file_status + int"
  deliveries :: "delivery list"

text \<open>\<open>read\<close> of at most \<open>n\<close> characters; the rest of a longer piece comes with the next call. Nothing left is the end of the file.\<close>

fun sys_read :: "nat \<Rightarrow> delivery list \<Rightarrow> delivery \<times> delivery list" where
  "sys_read n [] = (Piece [], [])"
| "sys_read n (ReadError e # ds) = (ReadError e, ds)"
| "sys_read n (Piece p # ds) = (Piece (take n p), if n < length p then Piece (drop n p) # ds else ds)"

section \<open>Reading\<close>

definition kBufferSize :: nat where
  "kBufferSize = 64 * 1024"

record ReadSmallFile =
  is_open :: bool
  small_err :: int
  source :: os_file

definition new_ReadSmallFile :: "os_file \<Rightarrow> ReadSmallFile" where
  "new_ReadSmallFile f = (case open_errno f of
       None \<Rightarrow> \<lparr>is_open = True, small_err = 0, source = f\<rparr>
     | Some e \<Rightarrow> \<lparr>is_open = False, small_err = e, source = f\<rparr>)"

text \<open>The loop ends at \<open>maxSize\<close> characters, at the end of the file and at an error.\<close>

function read_loop :: "nat \<Rightarrow> string \<Rightarrow> int \<Rightarrow> delivery list \<Rightarrow> int \<times> string" where
  "read_loop maxSize content err ds =
     (if length content < maxSize
      then (case sys_read (min (maxSize - length content) kBufferSize) ds of
              (Piece p, ds') \<Rightarrow> if p \<noteq> [] then read_loop maxSize (content @ p) err ds' else (err, content)
            | (ReadError e, ds') \<Rightarrow> (e, content))
      else (err, content))"
  by pat_completeness auto
termination
  by (relation "measure (\<lambda>(maxSize, content, err, ds). maxSize - length content)") (auto simp: neq_Nil_conv)

declare read_loop.simps [simp del]

text \<open>The caller asks for the size of the file, and with it for its times.\<close>

record file_info =
  info_size :: "int option"
  info_mtime :: "int option"
  info_ctime :: "int option"

definition EISDIR :: int where
  "EISDIR = 21"

definition query_status :: "bool \<Rightarrow> bool \<Rightarrow> os_file \<Rightarrow> int \<Rightarrow> int \<times> file_info" where
  "query_status modifyTime createTime f err =
     (case status_of f of
        Inl st \<Rightarrow>
          (if st_mode st = Directory then EISDIR else err,
           \<lparr>info_size = (if st_mode st = Regular then Some (st_size st) else None),
            info_mtime = (if modifyTime then Some (st_mtime st) else None), info_ctime = (if createTime then Some (st_ctime st) else None)\<rparr>)
      | Inr e \<Rightarrow> (e, \<lparr>info_size = None, info_mtime = None, info_ctime = None\<rparr>))"

definition readToString :: "nat \<Rightarrow> bool \<Rightarrow> bool \<Rightarrow> bool \<Rightarrow> ReadSmallFile \<Rightarrow> string \<Rightarrow> int \<times> string \<times> file_info" where
  "readToString maxSize fileSize modifyTime createTime f content =
     (let none = \<lparr>info_size = None, info_mtime = None, info_ctime = None\<rparr>
      in if is_open f
         then let (err, info) = (if fileSize then query_status modifyTime createTime (source f) (small_err f) else (small_err f, none));
                  (err, content) = read_loop maxSize [] err (deliveries (source f))
              in (err, content, info)
         else (small_err f, content, none))"

text \<open>\<open>readToBuffer\<close> reads once, from the beginning of the file (\<open>pread\<close>), into the buffer of the object.\<close>

definition readToBuffer :: "ReadSmallFile \<Rightarrow> int \<times> string option" where
  "readToBuffer f =
     (if is_open f
      then (case fst (sys_read (kBufferSize - 1) (deliveries (source f))) of
              Piece p \<Rightarrow> (small_err f, Some p)
            | ReadError e \<Rightarrow> (e, None))
      else (small_err f, None))"

definition readFile :: "os_file \<Rightarrow> nat \<Rightarrow> string \<Rightarrow> int \<times> string" where
  "readFile f maxSize content = (case readToString maxSize False False False (new_ReadSmallFile f) content of (err, c, _) \<Rightarrow> (err, c))"

section \<open>What is read\<close>

text \<open>The characters that come before an error, and the error.\<close>

fun delivered :: "delivery list \<Rightarrow> string \<times> int option" where
  "delivered [] = ([], None)"
| "delivered (ReadError e # ds) = ([], Some e)"
| "delivered (Piece p # ds) = (case delivered ds of (cs, e) \<Rightarrow> (p @ cs, e))"

fun nonempty_pieces :: "delivery list \<Rightarrow> bool" where
  "nonempty_pieces [] \<longleftrightarrow> True"
| "nonempty_pieces (ReadError e # ds) \<longleftrightarrow> nonempty_pieces ds"
| "nonempty_pieces (Piece p # ds) \<longleftrightarrow> p \<noteq> [] \<and> nonempty_pieces ds"

lemma read_loop_delivered:
  assumes "nonempty_pieces ds" "length content \<le> maxSize"
  shows "read_loop maxSize content err ds =
    (case delivered ds of (cs, e) \<Rightarrow>
       (if length content + length cs < maxSize then (case e of Some e' \<Rightarrow> e' | None \<Rightarrow> err) else err, take maxSize (content @ cs)))"
  using assms
proof (induction maxSize content err ds rule: read_loop.induct)
  case (1 maxSize content err ds)
  let ?n = "min (maxSize - length content) kBufferSize"
  show ?case
  proof (cases "length content < maxSize")
    case True
    then have n: "0 < ?n" by (simp add: kBufferSize_def)
    show ?thesis
    proof (cases ds)
      case (Cons d ds')
      show ?thesis
      proof (cases d)
        case (Piece p)
        obtain cs e where de: "delivered ds' = (cs, e)" by fastforce
        have p: "p \<noteq> []" and take: "take ?n p \<noteq> []" using "1.prems"(1) Cons Piece n by auto
        let ?rest = "if ?n < length p then Piece (drop ?n p) # ds' else ds'"
        have step: "read_loop maxSize content err ds = read_loop maxSize (content @ take ?n p) err ?rest"
          using True take Cons Piece by (subst read_loop.simps) simp
        have rest: "delivered ?rest = (drop ?n p @ cs, e)" "nonempty_pieces ?rest" using "1.prems"(1) Cons Piece de by auto
        have len: "length (content @ take ?n p) \<le> maxSize" using True by simp
        have "(Piece (take ?n p), ?rest) = sys_read ?n ds" by (simp add: Cons Piece)
        from "1.IH" [OF True this refl take rest(2) len]
        have "read_loop maxSize (content @ take ?n p) err ?rest =
            (if length (content @ take ?n p) + length (drop ?n p @ cs) < maxSize then (case e of Some e' \<Rightarrow> e' | None \<Rightarrow> err) else err,
             take maxSize ((content @ take ?n p) @ drop ?n p @ cs))"
          by (simp only: rest(1) prod.case)
        moreover have "length (content @ take ?n p) + length (drop ?n p @ cs) = length content + length (p @ cs)" by simp
        moreover have "(content @ take ?n p) @ drop ?n p @ cs = content @ p @ cs" by simp
        ultimately show ?thesis using step Cons Piece de by (simp only: delivered.simps prod.case)
      qed (use Cons True in \<open>simp add: read_loop.simps\<close>)
    qed (use True in \<open>simp add: read_loop.simps\<close>)
  qed (use "1.prems" in \<open>simp add: read_loop.simps split: prod.split\<close>)
qed

lemma read_file_spec:
  assumes "nonempty_pieces (deliveries f)" "delivered (deliveries f) = (cs, e)"
  shows "readFile f maxSize old =
    (case open_errno f of
       Some err \<Rightarrow> (err, old)
     | None \<Rightarrow> (if length cs < maxSize then (case e of Some err \<Rightarrow> err | None \<Rightarrow> 0) else 0, take maxSize cs))"
  using assms read_loop_delivered [of "deliveries f" "[]" maxSize 0]
  by (simp add: readFile_def readToString_def new_ReadSmallFile_def split: option.split)

text \<open>
  A file that can be opened is read whole up to the limit of the caller, however the system cuts it into pieces; when reading fails before the limit, what came before the failure is
  there and the error is returned; a file that cannot be opened leaves the content of the caller and returns the error.
\<close>

theorem small_file_read:
  assumes "nonempty_pieces (deliveries f)" "delivered (deliveries f) = (cs, e)"
  shows "readFile f maxSize old =
    (case open_errno f of
       Some err \<Rightarrow> (err, old)
     | None \<Rightarrow> (if length cs < maxSize then (case e of Some err \<Rightarrow> err | None \<Rightarrow> 0) else 0, take maxSize cs))"
  using assms by (rule read_file_spec)

theorem small_file_read_witness:
  "readFile \<lparr>open_errno = None, status_of = Inr 0, deliveries = [Piece ''abc'', Piece ''de'', ReadError 5]\<rparr> 4 [] = (0, ''abcd'')
   \<and> readFile \<lparr>open_errno = None, status_of = Inr 0, deliveries = [Piece ''abc'', Piece ''de'', ReadError 5]\<rparr> 9 [] = (5, ''abcde'')"
  using small_file_read [of "\<lparr>open_errno = None, status_of = Inr 0, deliveries = [Piece ''abc'', Piece ''de'', ReadError 5]\<rparr>" "''abcde''" "Some 5"] by simp

end
