(* ===== verification/Process_Info.thy ===== *)
theory Process_Info
  imports Small_Files Calendar Log_Format
begin

text \<open>
  \<open>base/ProcessInfo.cc\<close> and the pages of \<open>net/inspect/ProcessInspector.cc\<close> and \<open>net/inspect/SystemInspector.cc\<close>: what the files of \<open>/proc\<close> say, taken apart and printed. What the
  system calls return is the record \<open>system\<close>. A \<open>StringPiece\<close> into a text is the rest of the text it points at, an array filled by \<open>snprintf\<close> is cut at its size.
\<close>

section \<open>Searching\<close>

definition find_char :: "char \<Rightarrow> string \<Rightarrow> nat option" where
  "find_char c s = (if c \<in> set s then Some (length (takeWhile (\<lambda>x. x \<noteq> c) s)) else None)"

definition rfind_char :: "char \<Rightarrow> string \<Rightarrow> nat option" where
  "rfind_char c s = (if c \<in> set s then Some (length s - 1 - length (takeWhile (\<lambda>x. x \<noteq> c) (rev s))) else None)"

fun find_text :: "string \<Rightarrow> string \<Rightarrow> nat option" where
  "find_text p [] = (if p = [] then Some 0 else None)"
| "find_text p (c # s) = (if take (length p) (c # s) = p then Some 0 else map_option Suc (find_text p s))"

section \<open>The system\<close>

text \<open>\<open>tms\<close> are the clock ticks that \<open>times\<close> counted for the user and for the system; \<open>exe\<close> is what \<open>readlink\<close> found.\<close>

record system =
  clock :: Timestamp
  gmtime :: "int \<Rightarrow> tm"
  startTime :: Timestamp
  getpid :: int
  passwd_name :: "string option"
  gethostname :: "string option"
  exe :: "string option"
  fd_entries :: "string list"
  task_entries :: "string list"
  rlimit_nofile :: "int option"
  tms :: "(int \<times> int) option"
  clockTicks :: int
  debugBuild :: bool
  utsname :: "(string \<times> string \<times> string \<times> string \<times> string) option"
  file_at :: "string \<Rightarrow> os_file"

definition pidString :: "system \<Rightarrow> string" where
  "pidString sys = take 31 (show_int (getpid sys))"

definition username :: "system \<Rightarrow> string" where
  "username sys = (case passwd_name sys of Some name \<Rightarrow> name | None \<Rightarrow> ''unknownuser'')"

definition hostname :: "system \<Rightarrow> string" where
  "hostname sys = (case gethostname sys of Some name \<Rightarrow> c_str (take 255 name) | None \<Rightarrow> ''unknownhost'')"

definition procStatus :: "system \<Rightarrow> string" where
  "procStatus sys = snd (readFile (file_at sys ''/proc/self/status'') 65536 [])"

definition procStat :: "system \<Rightarrow> string" where
  "procStat sys = snd (readFile (file_at sys ''/proc/self/stat'') 65536 [])"

definition threadStat :: "system \<Rightarrow> int \<Rightarrow> string" where
  "threadStat sys tid = snd (readFile (file_at sys (take 63 (''/proc/self/task/'' @ show_int tid @ ''/stat''))) 65536 [])"

definition exePath :: "system \<Rightarrow> string" where
  "exePath sys = (case exe sys of Some path \<Rightarrow> take 1024 path | None \<Rightarrow> [])"

text \<open>\<open>procname\<close>: where the two parentheses are.\<close>

definition procname_bounds :: "string \<Rightarrow> (nat \<times> nat) option" where
  "procname_bounds stat =
     (case (find_char (CHR ''('') stat, rfind_char (CHR '')'') stat) of
        (Some lp, Some rp) \<Rightarrow> if lp < rp then Some (lp, rp) else None
      | _ \<Rightarrow> None)"

definition procname :: "string \<Rightarrow> string" where
  "procname stat = (case procname_bounds stat of Some (lp, rp) \<Rightarrow> take (rp - lp - 1) (drop (lp + 1) stat) | None \<Rightarrow> [])"

text \<open>The filters of directory entries.\<close>

definition starts_with_digit :: "string \<Rightarrow> bool" where
  "starts_with_digit d_name \<longleftrightarrow> d_name \<noteq> [] \<and> is_digit (hd d_name)"

definition fdDirFilter :: "string \<Rightarrow> nat \<Rightarrow> nat" where
  "fdDirFilter d_name t_numOpenedFiles = (if starts_with_digit d_name then t_numOpenedFiles + 1 else t_numOpenedFiles)"

definition taskDirFilter :: "string \<Rightarrow> int list \<Rightarrow> int list" where
  "taskDirFilter d_name t_pids = (if starts_with_digit d_name then t_pids @ [atoi d_name] else t_pids)"

definition openedFiles :: "system \<Rightarrow> nat" where
  "openedFiles sys = fold fdDirFilter (fd_entries sys) 0"

definition maxOpenFiles :: "system \<Rightarrow> int" where
  "maxOpenFiles sys = (case rlimit_nofile sys of None \<Rightarrow> int (openedFiles sys) | Some cur \<Rightarrow> wrap32 cur)"

definition threads :: "system \<Rightarrow> int list" where
  "threads sys = sort (fold taskDirFilter (task_entries sys) [])"

definition numThreads :: "system \<Rightarrow> int" where
  "numThreads sys =
     (let status = procStatus sys
      in case find_text ''Threads:'' status of Some pos \<Rightarrow> atoi (drop (pos + 8) status) | None \<Rightarrow> 0)"

text \<open>
  Seconds are \<open>double\<close>s: a number of ticks over the ticks of a second. The quotient is rounded to 53 binary digits; scaling by a power of two does not change the rounding and keeps it
  in the range of \<open>to_double\<close>. The text is that of \<open>%.kf\<close>.
\<close>

record CpuTime =
  userSeconds :: "int \<times> int"
  systemSeconds :: "int \<times> int"

definition double_text :: "nat \<Rightarrow> int \<times> int \<Rightarrow> string" where
  "double_text k q = (case q of (n, d) \<Rightarrow>
     (if n < 0 then ''-'' else []) @ fixed_text k (to_double (to_double (of_int \<bar>n\<bar>) * 2 ^ 60 / of_int d) / 2 ^ 60))"

definition cpuTime :: "system \<Rightarrow> CpuTime" where
  "cpuTime sys = (case tms sys of
       Some (utime, stime) \<Rightarrow> \<lparr>userSeconds = (utime, clockTicks sys), systemSeconds = (stime, clockTicks sys)\<rparr>
     | None \<Rightarrow> \<lparr>userSeconds = (0, 1), systemSeconds = (0, 1)\<rparr>)"

section \<open>Taking texts apart\<close>

definition uptime :: "Timestamp \<Rightarrow> Timestamp \<Rightarrow> bool \<Rightarrow> string" where
  "uptime now start showMicroseconds =
     (let age = microSecondsSinceEpoch now - microSecondsSinceEpoch start;
          seconds = wrap32 (age sdiv kMicroSecondsPerSecond);
          days = seconds sdiv 86400;
          hours = (seconds smod 86400) sdiv 3600;
          minutes = (seconds smod 3600) sdiv 60;
          text = show_int days @ '' days '' @ pad0 2 hours @ '':'' @ pad0 2 minutes @ '':'' @ pad0 2 (seconds smod 60)
      in take 255 (if showMicroseconds then text @ ''.'' @ pad0 6 (wrap32 (age smod kMicroSecondsPerSecond)) else text))"

definition getLong :: "string \<Rightarrow> string \<Rightarrow> int" where
  "getLong status key = (case find_text key status of Some pos \<Rightarrow> atoll (drop (pos + length key) status) | None \<Rightarrow> 0)"

text \<open>The loop to the end of the line does not look for the end of the text.\<close>

definition getProcessName :: "string \<Rightarrow> string res" where
  "getProcessName status =
     (case find_text ''Name:'' status of
        None \<Rightarrow> Inr []
      | Some pos \<Rightarrow>
          let name = dropWhile (\<lambda>c. c = CHR 0x09) (drop (pos + 5) status)
          in if CHR 0x0A \<in> set name then Inr (takeWhile (\<lambda>c. c \<noteq> CHR 0x0A) name) else Inl UndefinedBehaviour)"

definition next_field :: "string \<Rightarrow> string" where
  "next_field data = (case find_char (CHR '' '') data of Some sp \<Rightarrow> drop (sp + 1) data | None \<Rightarrow> [])"

definition getCpuTime :: "int \<Rightarrow> string \<Rightarrow> CpuTime" where
  "getCpuTime hz data =
     (let data = (next_field ^^ 10) data;
          utime = atoll data;
          stime = atoll (next_field data)
      in \<lparr>userSeconds = (utime, hz), systemSeconds = (stime, hz)\<rparr>)"

definition stringPrintf :: "string \<Rightarrow> string \<Rightarrow> string" where
  "stringPrintf out formatted = out @ c_str (take 255 formatted)"

section \<open>The pages\<close>

definition pad_left :: "nat \<Rightarrow> string \<Rightarrow> string" where
  "pad_left w s = replicate (w - length s) (CHR '' '') @ s"

definition pad_right :: "nat \<Rightarrow> string \<Rightarrow> string" where
  "pad_right w s = s @ replicate (w - length s) (CHR '' '')"

definition proc_overview :: "system \<Rightarrow> string res" where
  "proc_overview sys =
     (let now = clock sys;
          status = procStatus sys;
          t = cpuTime sys
      in bindE (getProcessName status) (\<lambda>name.
         let result = ''Page generated at '' @ toFormattedString (gmtime sys) True now @ '' (UTC)\<newline>Started at ''
               @ toFormattedString (gmtime sys) True (startTime sys) @ '' (UTC), up for '' @ uptime now (startTime sys) True @ ''\<newline>''
               @ name @ '' ('' @ exePath sys @ '') running as '' @ username sys @ '' on '' @ hostname sys @ ''\<newline>''
               @ (if debugBuild sys then ''WARNING: debug build!\<newline>'' else []);
             result = stringPrintf result (''pid '' @ show_int (getpid sys) @ '', num of threads '' @ show_int (getLong status ''Threads:'') @ '', bits 64\<newline>'');
             result = stringPrintf (result @ ''Virtual memory: '') (double_text 3 (getLong status ''VmSize:'', 1024) @ '' MiB, '');
             result = stringPrintf (result @ ''RSS memory: '') (double_text 3 (getLong status ''VmRSS:'', 1024) @ '' MiB\<newline>'');
             result = stringPrintf result (''Opened files: '' @ show_nat (openedFiles sys) @ '', limit: '' @ show_int (maxOpenFiles sys) @ ''\<newline>'')
         in Inr (stringPrintf result (''User time: '' @ pad_left 12 (double_text 3 (userSeconds t)) @ ''s\<newline>Sys time:  '' @ pad_left 12 (double_text 3 (systemSeconds t)) @ ''s\<newline>''))))"

definition proc_pid :: "system \<Rightarrow> string res" where
  "proc_pid sys = Inr (take 31 (show_int (getpid sys)))"

definition proc_status :: "system \<Rightarrow> string res" where
  "proc_status sys = Inr (procStatus sys)"

text \<open>The row of a thread: \<open>name\<close> is the text after the first parenthesis up to the last, which the code overwrites with a null character.\<close>

definition thread_row :: "int \<Rightarrow> int \<Rightarrow> string \<Rightarrow> string res" where
  "thread_row hz tid stat =
     (case procname_bounds stat of
        None \<Rightarrow> Inl NullDereference
      | Some (lp, rp) \<Rightarrow>
          bindE (assertE (stat ! rp = CHR '')'')) (\<lambda>_.
          if rp + 4 \<le> length stat
          then let name = c_str (take (rp - lp - 1) (drop (lp + 1) stat));
                   t = getCpuTime hz (drop (rp + 4) stat)
               in Inr (c_str (take 255 (pad 5 tid @ '' '' @ pad_right 16 name @ '' '' @ [stat ! (rp + 2)] @ '' ''
                    @ pad_left 12 (double_text 3 (userSeconds t)) @ '' '' @ pad_left 12 (double_text 3 (systemSeconds t)) @ ''\<newline>'')))
          else Inl UndefinedBehaviour))"

definition stat_path :: "system \<Rightarrow> int \<Rightarrow> string" where
  "stat_path sys tid = take 255 (''/proc/'' @ show_int (getpid sys) @ ''/task/'' @ show_int tid @ ''/stat'')"

fun thread_rows :: "system \<Rightarrow> int list \<Rightarrow> string \<Rightarrow> string \<Rightarrow> string res" where
  "thread_rows sys [] stat result = Inr result"
| "thread_rows sys (tid # tids) stat result =
     (case readFile (file_at sys (stat_path sys tid)) 65536 stat of
        (err, stat') \<Rightarrow>
          if err = 0 then bindE (thread_row (clockTicks sys) tid stat') (\<lambda>row. thread_rows sys tids stat' (result @ row))
          else thread_rows sys tids stat' result)"

definition proc_threads :: "system \<Rightarrow> string res" where
  "proc_threads sys = thread_rows sys (threads sys) [] ''  TID NAME             S    User Time  System Time\<newline>''"

definition sys_file :: "string \<Rightarrow> system \<Rightarrow> string res" where
  "sys_file path sys = Inr (snd (readFile (file_at sys path) 65536 []))"

definition sys_overview :: "system \<Rightarrow> string res" where
  "sys_overview sys =
     (let now = clock sys;
          result = ''Page generated at '' @ toFormattedString (gmtime sys) True now @ '' (UTC)\<newline>'';
          result = (case utsname sys of
               Some (sysname, nodename, release, version, machine) \<Rightarrow>
                 stringPrintf (stringPrintf (stringPrintf result (''Hostname: '' @ nodename @ ''\<newline>'')) (''Machine: '' @ machine @ ''\<newline>''))
                   (''OS: '' @ sysname @ '' '' @ release @ '' '' @ version @ ''\<newline>'')
             | None \<Rightarrow> result);
          stat = snd (readFile (file_at sys ''/proc/stat'') 65536 []);
          bootTime = Timestamp (kMicroSecondsPerSecond * getLong stat ''btime '');
          result = result @ ''Boot time: '' @ toFormattedString (gmtime sys) False bootTime @ '' (UTC)\<newline>Up time: '' @ uptime now bootTime False @ ''\<newline>'';
          loadavg = snd (readFile (file_at sys ''/proc/loadavg'') 65536 []);
          result = stringPrintf result (''Processes created: '' @ show_int (getLong stat ''processes '') @ ''\<newline>'');
          result = stringPrintf result (''Loadavg: '' @ c_str loadavg @ ''\<newline>'');
          meminfo = snd (readFile (file_at sys ''/proc/meminfo'') 65536 []);
          total_kb = getLong meminfo ''MemTotal:'';
          free_kb = getLong meminfo ''MemFree:'';
          buffers_kb = getLong meminfo ''Buffers:'';
          cached_kb = getLong meminfo ''Cached:'';
          result = stringPrintf result (''Total Memory: '' @ pad 6 (total_kb sdiv 1024) @ '' MiB\<newline>'');
          result = stringPrintf result (''Free Memory:  '' @ pad 6 (free_kb sdiv 1024) @ '' MiB\<newline>'');
          result = stringPrintf result (''Buffers:      '' @ pad 6 (buffers_kb sdiv 1024) @ '' MiB\<newline>'');
          result = stringPrintf result (''Cached:       '' @ pad 6 (cached_kb sdiv 1024) @ '' MiB\<newline>'');
          result = stringPrintf result (''Real Used:    '' @ pad 6 ((total_kb - free_kb - buffers_kb - cached_kb) sdiv 1024) @ '' MiB\<newline>'')
      in Inr (stringPrintf result (''Real Free:    '' @ pad 6 ((free_kb + buffers_kb + cached_kb) sdiv 1024) @ '' MiB\<newline>'')))"

section \<open>What the pages show\<close>

lemma split_time: "0 \<le> r \<Longrightarrow> r < k \<Longrightarrow> (q * k + r) div k = q \<and> (q * k + r) mod k = r" for q k r :: int
  using int_div_pos_eq [of "q * k + r" k q r] int_mod_pos_eq [of "q * k + r" k q r] by (simp add: mult.commute)

text \<open>A time is shown as the days, hours, minutes and seconds it is made of.\<close>

lemma uptime_shows:
  assumes "0 \<le> d" "0 \<le> h" "h < 24" "0 \<le> m" "m < 60" "0 \<le> s" "s < 60" "0 \<le> us" "us < 1000000"
    and "((d * 24 + h) * 60 + m) * 60 + s < 2 ^ 31"
  shows "uptime (Timestamp (t + (((d * 24 + h) * 60 + m) * 60 + s) * 1000000 + us)) (Timestamp t) True =
    take 255 (show_int d @ '' days '' @ pad0 2 h @ '':'' @ pad0 2 m @ '':'' @ pad0 2 s @ ''.'' @ pad0 6 us)"
proof -
  let ?secs = "((d * 24 + h) * 60 + m) * 60 + s"
  have "0 \<le> ?secs" using assms by simp
  then have age: "(t + ?secs * 1000000 + us) - t = ?secs * 1000000 + us" "0 \<le> ?secs * 1000000 + us"
    using assms by simp_all
  have micros: "(?secs * 1000000 + us) div 1000000 = ?secs" "(?secs * 1000000 + us) mod 1000000 = us"
    using split_time [of us 1000000 ?secs] assms by blast+
  have w: "wrap32 ?secs = ?secs" "wrap32 us = us" using assms \<open>0 \<le> ?secs\<close> by (simp_all add: wrap32_id is_int32_def)
  have hour: "(h * 60 + m) * 60 + s < 86400" "0 \<le> (h * 60 + m) * 60 + s" "m * 60 + s < 3600" "0 \<le> m * 60 + s" using assms by simp_all
  have d: "?secs div 86400 = d" "?secs mod 86400 = (h * 60 + m) * 60 + s"
    using hour int_div_pos_eq [of ?secs 86400 d "(h * 60 + m) * 60 + s"] int_mod_pos_eq [of ?secs 86400 d "(h * 60 + m) * 60 + s"] by simp_all
  have h: "((h * 60 + m) * 60 + s) div 3600 = h"
    using hour int_div_pos_eq [of "(h * 60 + m) * 60 + s" 3600 h "m * 60 + s"] by simp
  have m: "?secs mod 3600 = m * 60 + s" "(m * 60 + s) div 60 = m"
    using hour assms int_mod_pos_eq [of ?secs 3600 "d * 24 + h" "m * 60 + s"] int_div_pos_eq [of "m * 60 + s" 60 m s] by simp_all
  have sec: "?secs mod 60 = s" using assms int_mod_pos_eq [of ?secs 60 "(d * 24 + h) * 60 + m" s] by simp
  show ?thesis
  proof -
    have "microSecondsSinceEpoch (Timestamp (t + ?secs * 1000000 + us)) - microSecondsSinceEpoch (Timestamp t) = ?secs * 1000000 + us" by simp
    then show ?thesis
      using \<open>0 \<le> ?secs\<close> age(2) hour assms
      by (simp only: uptime_def Let_def kMicroSecondsPerSecond_def if_True mult_1_right sdiv_nonneg smod_nonneg zero_less_numeral zero_less_mult_iff
            micros w d h m sec if_True mult_numeral_1 numeral_times_numeral semiring_norm append_assoc)
  qed
qed

text \<open>The line that the kernel writes for a thread: its number, its name in parentheses, its state and numbers.\<close>

fun field_text :: "int list \<Rightarrow> string" where
  "field_text [] = ''\<newline>''"
| "field_text [v] = show_int v @ ''\<newline>''"
| "field_text (v # w # vs) = show_int v @ '' '' @ field_text (w # vs)"

record kernel_thread =
  k_name :: string
  k_state :: char
  k_fields :: "int list"

definition stat_line :: "int \<Rightarrow> kernel_thread \<Rightarrow> string" where
  "stat_line tid k = show_int tid @ '' ('' @ k_name k @ '') '' @ [k_state k] @ '' '' @ field_text (k_fields k)"

definition plain_char :: "char \<Rightarrow> bool" where
  "plain_char c \<longleftrightarrow> is_digit c \<or> c = CHR ''-'' \<or> c = CHR '' '' \<or> c = CHR 0x0A"

lemma plain_char_not: "plain_char c \<Longrightarrow> c \<noteq> CHR ''('' \<and> c \<noteq> CHR '')'' \<and> c \<noteq> CHR 0x00"
  by (auto simp: plain_char_def is_digit_def)

lemma show_int_digits: "c \<in> set (show_int x) \<Longrightarrow> is_digit c \<or> c = CHR ''-''"
  using show_nat_digits by (auto simp: show_int_def split: if_splits)

lemma show_int_plain: "c \<in> set (show_int x) \<Longrightarrow> plain_char c"
  using show_int_digits by (auto simp: plain_char_def)

lemma field_text_plain: "c \<in> set (field_text vs) \<Longrightarrow> plain_char c"
  by (induction vs rule: field_text.induct) (auto dest: show_int_plain simp: plain_char_def)

lemma scan_int_prefix:
  assumes "rest = [] \<or> \<not> is_digit (hd rest)"
  shows "scan_int (show_int x @ rest) = Some x"
proof -
  obtain c cs where c: "show_nat (nat \<bar>x\<bar>) = c # cs" "is_digit c" using show_nat_Cons by blast
  have whole: "takeWhile is_digit (show_nat n @ rest) = show_nat n" for n
    using assms show_nat_digits [of n] by (cases rest) (simp_all add: takeWhile_append2 takeWhile_tail)
  show ?thesis
  proof (cases "x < 0")
    case True
    then show ?thesis by (simp add: scan_int_def show_int_def Let_def whole digits_val_show_nat)
  next
    case False
    then have s: "show_nat (nat x) = c # cs" using c(1) by simp
    have "dropWhile is_space (show_nat (nat x) @ rest) = show_nat (nat x) @ rest" using s c(2) is_digit_not_space by simp
    moreover have "hd (show_nat (nat x) @ rest) \<noteq> CHR ''-''" "hd (show_nat (nat x) @ rest) \<noteq> CHR ''+''" "show_nat (nat x) @ rest \<noteq> []"
      using s c(2) is_digit_not_sign by simp_all
    ultimately show ?thesis using False by (simp add: scan_int_def show_int_def Let_def whole digits_val_show_nat)
  qed
qed

lemma no_digit_chars [simp]: "\<not> is_digit (CHR '' '')" "\<not> is_digit (CHR 0x0A)"
  by (simp_all add: is_digit_def)

lemma atoll_field: "- (2 ^ 63) \<le> v \<Longrightarrow> v < 2 ^ 63 \<Longrightarrow> atoll (field_text (v # vs)) = v"
  by (cases vs) (simp_all add: atoll_def scan_int_prefix saturate64_def)

lemma next_field_text: "next_field (field_text (v # w # vs)) = field_text (w # vs)"
proof -
  have "CHR '' '' \<notin> set (show_int v)" using show_int_digits by (force simp: is_digit_def)
  then have "takeWhile (\<lambda>x. x \<noteq> CHR '' '') (show_int v @ CHR '' '' # field_text (w # vs)) = show_int v" by (subst takeWhile_append2) auto
  then show ?thesis by (simp add: next_field_def find_char_def)
qed

lemma next_fields: "k < length vs \<Longrightarrow> (next_field ^^ k) (field_text vs) = field_text (drop k vs)"
proof (induction k)
  case (Suc k)
  then have "drop k vs = vs ! k # vs ! Suc k # drop (Suc (Suc k)) vs" "drop (Suc k) vs = vs ! Suc k # drop (Suc (Suc k)) vs"
    by (simp_all add: Cons_nth_drop_Suc)
  with Suc show ?case by (simp add: next_field_text del: field_text.simps)
qed simp

lemma getCpuTime_fields:
  assumes "12 \<le> length vs" "\<forall>v \<in> set vs. - (2 ^ 63) \<le> v \<and> v < 2 ^ 63"
  shows "getCpuTime hz (field_text vs) = \<lparr>userSeconds = (vs ! 10, hz), systemSeconds = (vs ! 11, hz)\<rparr>"
proof -
  have d: "drop 10 vs = vs ! 10 # vs ! 11 # drop 12 vs" using assms(1) Cons_nth_drop_Suc [of 10 vs] Cons_nth_drop_Suc [of 11 vs] by simp
  have "- (2 ^ 63) \<le> vs ! 10" "vs ! 10 < 2 ^ 63" "- (2 ^ 63) \<le> vs ! 11" "vs ! 11 < 2 ^ 63" using assms by simp_all
  then show ?thesis using assms(1) by (simp add: getCpuTime_def Let_def next_fields d next_field_text atoll_field del: field_text.simps)
qed

definition kernel_ok :: "kernel_thread \<Rightarrow> bool" where
  "kernel_ok k \<longleftrightarrow> CHR 0x00 \<notin> set (k_name k) \<and> k_state k \<noteq> CHR '')'' \<and> k_state k \<noteq> CHR 0x00 \<and> 12 \<le> length (k_fields k)
     \<and> (\<forall>v \<in> set (k_fields k). - (2 ^ 63) \<le> v \<and> v < 2 ^ 63)"

text \<open>The row: the number, the name, the state and the two times, which are the fields 14 and 15 of the line.\<close>

definition row_text :: "int \<Rightarrow> int \<Rightarrow> kernel_thread \<Rightarrow> string" where
  "row_text hz tid k = pad 5 tid @ '' '' @ pad_right 16 (k_name k) @ '' '' @ [k_state k] @ '' ''
     @ pad_left 12 (double_text 3 (k_fields k ! 10, hz)) @ '' '' @ pad_left 12 (double_text 3 (k_fields k ! 11, hz)) @ ''\<newline>''"

lemma stat_line_bounds:
  assumes "k_state k \<noteq> CHR '')''"
  shows "procname_bounds (stat_line tid k) = Some (length (show_int tid) + 1, length (show_int tid) + 2 + length (k_name k))"
proof -
  let ?s = "stat_line tid k" and ?tail = "CHR '' '' # k_state k # CHR '' '' # field_text (k_fields k)"
  have "\<forall>c \<in> set (show_int tid @ '' ''). c \<noteq> CHR ''(''" using show_int_plain plain_char_not by (auto simp: plain_char_def is_digit_def)
  then have "takeWhile (\<lambda>x. x \<noteq> CHR ''('') ?s = show_int tid @ '' ''"
    using takeWhile_append2 [of "show_int tid @ '' ''" "\<lambda>x. x \<noteq> CHR ''(''" "''('' @ k_name k @ '')'' @ ?tail"] by (simp add: stat_line_def)
  then have lp: "find_char (CHR ''('') ?s = Some (length (show_int tid) + 1)" by (simp add: find_char_def stat_line_def)
  define t where "t = rev ?tail"
  have "\<forall>c \<in> set t. c \<noteq> CHR '')''" unfolding t_def using assms field_text_plain plain_char_not by auto
  then have "takeWhile (\<lambda>x. x \<noteq> CHR '')'') (t @ '')'' @ r) = t" for r
    using takeWhile_append2 [of t "\<lambda>x. x \<noteq> CHR '')''" "'')'' @ r"] by simp
  moreover have "rev ?s = t @ '')'' @ rev (show_int tid @ '' ('' @ k_name k)" by (simp add: t_def stat_line_def)
  ultimately have "length (takeWhile (\<lambda>x. x \<noteq> CHR '')'') (rev ?s)) = length ?tail" by (simp only:) (simp add: t_def)
  moreover have "length ?s = length (show_int tid) + 2 + length (k_name k) + 1 + length ?tail" by (simp add: stat_line_def)
  ultimately have "length ?s - 1 - length (takeWhile (\<lambda>x. x \<noteq> CHR '')'') (rev ?s)) = length (show_int tid) + 2 + length (k_name k)" by linarith
  then have "rfind_char (CHR '')'') ?s = Some (length (show_int tid) + 2 + length (k_name k))" by (simp add: rfind_char_def stat_line_def)
  with lp show ?thesis by (simp add: procname_bounds_def)
qed

lemma procname_stat_line:
  assumes "k_state k \<noteq> CHR '')''"
  shows "procname (stat_line tid k) = k_name k"
  using stat_line_bounds [OF assms, of tid] by (simp add: procname_def stat_line_def)

lemma show_nat_no_zero: "CHR 0x00 \<notin> set (show_nat n)"
  using show_nat_digits [of n] by (auto simp: is_digit_def)

lemma row_no_null: "kernel_ok k \<Longrightarrow> CHR 0x00 \<notin> set (row_text hz tid k)"
  using show_nat_no_zero
  by (auto simp: row_text_def kernel_ok_def pad_def pad_left_def pad_right_def double_text_def fixed_text_def show_int_def Let_def)

lemma thread_row_stat_line:
  assumes "kernel_ok k"
  shows "thread_row hz tid (stat_line tid k) = Inr (take 255 (row_text hz tid k))"
proof -
  let ?s = "stat_line tid k" and ?lp = "length (show_int tid) + 1" and ?rp = "length (show_int tid) + 2 + length (k_name k)"
  define a where "a = show_int tid @ '' ('' @ k_name k"
  have parts: "?s = a @ [CHR '')'', CHR '' '', k_state k, CHR '' ''] @ field_text (k_fields k)" "?rp = length a"
    by (simp_all add: stat_line_def a_def)
  have at: "?s ! ?rp = CHR '')''" "?s ! (?rp + 2) = k_state k" "?rp + 4 \<le> length ?s" "drop (?rp + 4) ?s = field_text (k_fields k)"
    unfolding parts by (simp_all add: nth_append)
  have name: "take (?rp - ?lp - 1) (drop (?lp + 1) ?s) = k_name k" by (simp add: stat_line_def)
  have "CHR 0x00 \<notin> set (take 255 (row_text hz tid k))" using row_no_null [OF assms] by (meson in_set_takeD)
  then have "c_str (take 255 (row_text hz tid k)) = take 255 (row_text hz tid k)" by (auto simp: c_str_def takeWhile_eq_all_conv)
  moreover have "c_str (k_name k) = k_name k" using assms by (auto simp: kernel_ok_def c_str_def takeWhile_eq_all_conv)
  moreover have "getCpuTime hz (field_text (k_fields k)) = \<lparr>userSeconds = (k_fields k ! 10, hz), systemSeconds = (k_fields k ! 11, hz)\<rparr>"
    using assms by (intro getCpuTime_fields) (simp_all add: kernel_ok_def)
  ultimately show ?thesis
    using stat_line_bounds [of k tid] assms
    by (simp only: thread_row_def kernel_ok_def option.case prod.case at name assertE_True bindE_Inr if_True Let_def CpuTime.simps row_text_def simp_thms)
qed

definition gone :: "os_file \<Rightarrow> bool" where
  "gone f \<longleftrightarrow> (case open_errno f of Some e \<Rightarrow> e \<noteq> 0 | None \<Rightarrow> (case deliveries f of ReadError e # ds \<Rightarrow> e \<noteq> 0 | _ \<Rightarrow> False))"

definition holds_line :: "os_file \<Rightarrow> string \<Rightarrow> bool" where
  "holds_line f cs \<longleftrightarrow> open_errno f = None \<and> nonempty_pieces (deliveries f) \<and> delivered (deliveries f) = (cs, None) \<and> length cs < 65536"

lemma readFile_gone: "gone f \<Longrightarrow> fst (readFile f 65536 old) \<noteq> 0"
  by (auto simp: gone_def readFile_def readToString_def new_ReadSmallFile_def read_loop.simps [of 65536 "[]"] split: option.splits list.splits delivery.splits)

lemma readFile_line: "holds_line f cs \<Longrightarrow> readFile f 65536 old = (0, cs)"
  using read_file_spec [of f cs None 65536 old] by (simp add: holds_line_def)

lemma thread_rows_kernel:
  assumes "\<forall>tid \<in> set tids. case task tid of
      Some k \<Rightarrow> kernel_ok k \<and> holds_line (file_at sys (stat_path sys tid)) (stat_line tid k)
    | None \<Rightarrow> gone (file_at sys (stat_path sys tid))"
  shows "thread_rows sys tids stat result =
    Inr (result @ concat (map (\<lambda>tid. case task tid of Some k \<Rightarrow> take 255 (row_text (clockTicks sys) tid k) | None \<Rightarrow> []) tids))"
  using assms
proof (induction tids arbitrary: stat result)
  case (Cons tid tids)
  let ?f = "file_at sys (stat_path sys tid)"
  show ?case
  proof (cases "task tid")
    case None
    with Cons.prems have "fst (readFile ?f 65536 stat) \<noteq> 0" by (intro readFile_gone) simp
    moreover obtain err stat' where "readFile ?f 65536 stat = (err, stat')" by fastforce
    ultimately show ?thesis using Cons None by simp
  next
    case (Some k)
    with Cons.prems have k: "kernel_ok k" "holds_line ?f (stat_line tid k)" by simp_all
    have "readFile ?f 65536 stat = (0, stat_line tid k)" using k(2) by (rule readFile_line)
    with Cons Some show ?thesis by (simp add: thread_row_stat_line [OF k(1)])
  qed
qed simp

text \<open>
  The page of the threads: it has one row for every thread, in the order of their numbers, with the name (which may hold parentheses and spaces), the state and the times of user and
  system that the kernel wrote for it, however the system cuts the files into pieces; threads that end between the listing and the reading are left out; nothing is read outside the texts.
\<close>

theorem threads_page:
  assumes "\<forall>tid \<in> set (threads sys). case task tid of
      Some k \<Rightarrow> kernel_ok k \<and> holds_line (file_at sys (stat_path sys tid)) (stat_line tid k)
    | None \<Rightarrow> gone (file_at sys (stat_path sys tid))"
  shows "proc_threads sys = Inr (''  TID NAME             S    User Time  System Time\<newline>''
      @ concat (map (\<lambda>tid. case task tid of Some k \<Rightarrow> take 255 (row_text (clockTicks sys) tid k) | None \<Rightarrow> []) (threads sys)))"
    and "sorted (threads sys)"
  using thread_rows_kernel [OF assms] by (simp_all add: proc_threads_def threads_def)

definition demo_thread :: kernel_thread where
  "demo_thread = \<lparr>k_name = ''a) (b'', k_state = CHR ''S'', k_fields = replicate 10 1 @ [150, 20] @ replicate 30 (- 1)\<rparr>"

definition stat_path0 :: "int \<Rightarrow> string" where
  "stat_path0 tid = ''/proc/7/task/'' @ show_int tid @ ''/stat''"

definition demo_system :: system where
  "demo_system = \<lparr>clock = Timestamp 0, gmtime = (\<lambda>_. \<lparr>tm_sec = 0, tm_min = 0, tm_hour = 0, tm_mday = 1, tm_mon = 0, tm_year = 70\<rparr>), startTime = Timestamp 0, getpid = 7,
     passwd_name = None, gethostname = None, exe = None, fd_entries = [], task_entries = [''.'', ''12'', ''9'', ''7''], rlimit_nofile = None, tms = None, clockTicks = 100,
     debugBuild = True, utsname = None, file_at = (\<lambda>path.
       if path = stat_path0 9 then \<lparr>open_errno = Some 2, status_of = Inr 0, deliveries = []\<rparr>
       else if path = stat_path0 7 then \<lparr>open_errno = None, status_of = Inr 0, deliveries = [Piece (stat_line 7 demo_thread)]\<rparr>
       else \<lparr>open_errno = None, status_of = Inr 0, deliveries = [Piece (take 9 (stat_line 12 demo_thread)), Piece (drop 9 (stat_line 12 demo_thread))]\<rparr>)\<rparr>"

theorem threads_page_witness:
  "proc_threads demo_system = Inr (''  TID NAME             S    User Time  System Time\<newline>''
     @ take 255 (row_text 100 7 demo_thread) @ take 255 (row_text 100 12 demo_thread))"
proof -
  have threads: "threads demo_system = [7, 9, 12]" by code_simp
  have "show_int 7 = ''7''" "show_int 9 = ''9''" "show_int 12 = ''12''" by code_simp+
  then have path: "stat_path demo_system 7 = ''/proc/7/task/7/stat''" "stat_path demo_system 9 = ''/proc/7/task/9/stat''" "stat_path demo_system 12 = ''/proc/7/task/12/stat''"
    "stat_path0 7 = ''/proc/7/task/7/stat''" "stat_path0 9 = ''/proc/7/task/9/stat''"
    by (simp_all add: stat_path0_def stat_path_def demo_system_def)
  have files: "file_at demo_system ''/proc/7/task/9/stat'' = \<lparr>open_errno = Some 2, status_of = Inr 0, deliveries = []\<rparr>"
    "file_at demo_system ''/proc/7/task/7/stat'' = \<lparr>open_errno = None, status_of = Inr 0, deliveries = [Piece (stat_line 7 demo_thread)]\<rparr>"
    "file_at demo_system ''/proc/7/task/12/stat'' =
       \<lparr>open_errno = None, status_of = Inr 0, deliveries = [Piece (take 9 (stat_line 12 demo_thread)), Piece (drop 9 (stat_line 12 demo_thread))]\<rparr>"
    using path by (simp_all add: demo_system_def)
  have ok: "kernel_ok demo_thread" by (simp add: kernel_ok_def demo_thread_def)
  have "length (stat_line 7 demo_thread) \<le> 200" "length (stat_line 12 demo_thread) \<le> 200" by code_simp+
  then have short: "length (stat_line 7 demo_thread) < 65536" "length (stat_line 12 demo_thread) < 65536" by simp_all
  have lines: "stat_line 12 demo_thread \<noteq> []"
      "\<not> length (stat_line 12 demo_thread) \<le> 9" "stat_line 7 demo_thread \<noteq> []" by code_simp+
  have "proc_threads demo_system = Inr (''  TID NAME             S    User Time  System Time\<newline>''
      @ concat (map (\<lambda>tid. case (if tid = 9 then None else Some demo_thread) of Some k \<Rightarrow> take 255 (row_text (clockTicks demo_system) tid k) | None \<Rightarrow> []) (threads demo_system)))"
    by (rule threads_page) (simp add: threads path files ok gone_def holds_line_def lines short)
  then show ?thesis by (simp add: threads) (simp add: demo_system_def)
qed

end
