(* ===== verification/Inspector.thy ===== *)
theory Inspector
  imports Http Process_Info
begin

text \<open>
  \<open>net/inspect/Inspector.cc\<close>: pages of the HTTP server under the names \<open>/module/command\<close>, with the pages that the inspectors of the process and of the system register. A page is a
  function of the state of the system, the method and the arguments; a null \<open>std::function\<close> is \<open>None\<close>.
\<close>

section \<open>Paths\<close>

text \<open>\<open>str.find('/', start)\<close>.\<close>

definition find_slash :: "string \<Rightarrow> nat \<Rightarrow> nat option" where
  "find_slash str start = map_option ((+) start) (find_char (CHR ''/'') (drop start str))"

lemma takeWhile_shorter: "c \<in> set xs \<Longrightarrow> length (takeWhile (\<lambda>x. x \<noteq> c) xs) < length xs"
  by (induction xs) auto

lemma find_slash_range: "find_slash str start = Some pos \<Longrightarrow> start \<le> pos \<and> pos < length str"
proof -
  assume "find_slash str start = Some pos"
  then have "CHR ''/'' \<in> set (drop start str)" and pos: "pos = start + length (takeWhile (\<lambda>x. x \<noteq> CHR ''/'') (drop start str))"
    by (auto simp: find_slash_def find_char_def split: if_splits)
  then have "length (takeWhile (\<lambda>x. x \<noteq> CHR ''/'') (drop start str)) < length (drop start str)" by (intro takeWhile_shorter)
  with pos show ?thesis by simp
qed

function split_loop :: "string \<Rightarrow> nat \<Rightarrow> string list \<Rightarrow> string list" where
  "split_loop str start result =
     (case find_slash str start of
        Some pos \<Rightarrow> split_loop str (pos + 1) (if pos > start then result @ [take (pos - start) (drop start str)] else result)
      | None \<Rightarrow> if start < length str then result @ [drop start str] else result)"
  by pat_completeness auto
termination
  by (relation "measure (\<lambda>(str, start, result). length str - start)") (auto dest: find_slash_range)

declare split_loop.simps [simp del]

definition split :: "string \<Rightarrow> string list" where
  "split str = split_loop str 0 []"

section \<open>The inspector\<close>

type_synonym 's page = "'s \<Rightarrow> Method \<Rightarrow> string list \<Rightarrow> string res"

record 's Inspector =
  modules :: "(string \<times> (string \<times> 's page option) list) list"
  helps :: "(string \<times> (string \<times> string) list) list"

text \<open>\<open>map[key]\<close> makes an empty entry where there is none.\<close>

definition entry :: "string \<Rightarrow> (string \<times> (string \<times> 'v) list) list \<Rightarrow> (string \<times> 'v) list" where
  "entry k m = (case map_of m k of Some l \<Rightarrow> l | None \<Rightarrow> [])"

definition add_page :: "string \<Rightarrow> string \<Rightarrow> 's page option \<Rightarrow> string \<Rightarrow> 's Inspector \<Rightarrow> 's Inspector" where
  "add_page modname command cb help ins =
     ins\<lparr>modules := map_put modname (map_put command cb (entry modname (modules ins))) (modules ins),
         helps := map_put modname (map_put command help (entry modname (helps ins))) (helps ins)\<rparr>"

definition remove_page :: "string \<Rightarrow> string \<Rightarrow> 's Inspector \<Rightarrow> 's Inspector" where
  "remove_page modname command ins =
     (case map_of (modules ins) modname of
        Some commList \<Rightarrow>
          ins\<lparr>modules := map_put modname (map_erase command commList) (modules ins),
              helps := map_put modname (map_erase command (entry modname (helps ins))) (helps ins)\<rparr>
      | None \<Rightarrow> ins)"

definition help_line :: "string \<Rightarrow> string \<times> string \<Rightarrow> string" where
  "help_line modname it = (case it of (command, help) \<Rightarrow>
     let len = length modname + length command
     in ''/'' @ modname @ ''/'' @ command @ replicate (if len \<ge> 25 then 1 else 25 - len) (CHR '' '') @ help @ ''\<newline>'')"

definition overview_text :: "'s Inspector \<Rightarrow> string" where
  "overview_text ins = concat (map (\<lambda>(modname, helpList). concat (map (help_line modname) helpList)) (helps ins))"

text \<open>The icon that browsers ask for, an image of 1743 bytes.\<close>

definition favicon :: string where
  "favicon = map char_of
    [137, 80, 78, 71, 13, 10, 26, 10, 0, 0, 0, 13, 73, 72, 68, 82, 0, 0, 0, 16, 0, 0, 0, 16, 8, 6, 0, 0, 0, 31, 243, 255, 97, 0, 0, 0, 4, 115, 66, 73,
     84, 8, 8, 8, 8, 124, 8, 100, 136, 0, 0, 0, 9, 112, 72, 89, 115, 0, 0, 11, 18, 0, 0, 11, 18, 1, 210, 221, 126, 252, 0, 0, 0, 28, 116, 69, 88, 116, 83, 111,
     102, 116, 119, 97, 114, 101, 0, 65, 100, 111, 98, 101, 32, 70, 105, 114, 101, 119, 111, 114, 107, 115, 32, 67, 83, 51, 152, 214, 70, 3, 0, 0, 0, 21, 116, 69, 88, 116, 67, 114,
     101, 97, 116, 105, 111, 110, 32, 84, 105, 109, 101, 0, 50, 47, 49, 55, 47, 48, 56, 32, 156, 170, 88, 0, 0, 4, 17, 116, 69, 88, 116, 88, 77, 76, 58, 99, 111, 109, 46, 97,
     100, 111, 98, 101, 46, 120, 109, 112, 0, 60, 63, 120, 112, 97, 99, 107, 101, 116, 32, 98, 101, 103, 105, 110, 61, 34, 32, 32, 32, 34, 32, 105, 100, 61, 34, 87, 53, 77, 48, 77,
     112, 67, 101, 104, 105, 72, 122, 114, 101, 83, 122, 78, 84, 99, 122, 107, 99, 57, 100, 34, 63, 62, 10, 60, 120, 58, 120, 109, 112, 109, 101, 116, 97, 32, 120, 109, 108, 110, 115, 58,
     120, 61, 34, 97, 100, 111, 98, 101, 58, 110, 115, 58, 109, 101, 116, 97, 47, 34, 32, 120, 58, 120, 109, 112, 116, 107, 61, 34, 65, 100, 111, 98, 101, 32, 88, 77, 80, 32, 67, 111,
     114, 101, 32, 52, 46, 49, 45, 99, 48, 51, 52, 32, 52, 54, 46, 50, 55, 50, 57, 55, 54, 44, 32, 83, 97, 116, 32, 74, 97, 110, 32, 50, 55, 32, 50, 48, 48, 55, 32, 50,
     50, 58, 49, 49, 58, 52, 49, 32, 32, 32, 32, 32, 32, 32, 32, 34, 62, 10, 32, 32, 32, 60, 114, 100, 102, 58, 82, 68, 70, 32, 120, 109, 108, 110, 115, 58, 114, 100, 102, 61,
     34, 104, 116, 116, 112, 58, 47, 47, 119, 119, 119, 46, 119, 51, 46, 111, 114, 103, 47, 49, 57, 57, 57, 47, 48, 50, 47, 50, 50, 45, 114, 100, 102, 45, 115, 121, 110, 116, 97, 120,
     45, 110, 115, 35, 34, 62, 10, 32, 32, 32, 32, 32, 32, 60, 114, 100, 102, 58, 68, 101, 115, 99, 114, 105, 112, 116, 105, 111, 110, 32, 114, 100, 102, 58, 97, 98, 111, 117, 116, 61,
     34, 34, 10, 32, 32, 32, 32, 32, 32, 32, 32, 32, 32, 32, 32, 120, 109, 108, 110, 115, 58, 120, 97, 112, 61, 34, 104, 116, 116, 112, 58, 47, 47, 110, 115, 46, 97, 100, 111, 98,
     101, 46, 99, 111, 109, 47, 120, 97, 112, 47, 49, 46, 48, 47, 34, 62, 10, 32, 32, 32, 32, 32, 32, 32, 32, 32, 60, 120, 97, 112, 58, 67, 114, 101, 97, 116, 111, 114, 84, 111,
     111, 108, 62, 65, 100, 111, 98, 101, 32, 70, 105, 114, 101, 119, 111, 114, 107, 115, 32, 67, 83, 51, 60, 47, 120, 97, 112, 58, 67, 114, 101, 97, 116, 111, 114, 84, 111, 111, 108, 62,
     10, 32, 32, 32, 32, 32, 32, 32, 32, 32, 60, 120, 97, 112, 58, 67, 114, 101, 97, 116, 101, 68, 97, 116, 101, 62, 50, 48, 48, 56, 45, 48, 50, 45, 49, 55, 84, 48, 50, 58,
     51, 54, 58, 52, 53, 90, 60, 47, 120, 97, 112, 58, 67, 114, 101, 97, 116, 101, 68, 97, 116, 101, 62, 10, 32, 32, 32, 32, 32, 32, 32, 32, 32, 60, 120, 97, 112, 58, 77, 111,
     100, 105, 102, 121, 68, 97, 116, 101, 62, 50, 48, 48, 56, 45, 48, 51, 45, 50, 52, 84, 49, 57, 58, 48, 48, 58, 52, 50, 90, 60, 47, 120, 97, 112, 58, 77, 111, 100, 105, 102,
     121, 68, 97, 116, 101, 62, 10, 32, 32, 32, 32, 32, 32, 60, 47, 114, 100, 102, 58, 68, 101, 115, 99, 114, 105, 112, 116, 105, 111, 110, 62, 10, 32, 32, 32, 32, 32, 32, 60, 114,
     100, 102, 58, 68, 101, 115, 99, 114, 105, 112, 116, 105, 111, 110, 32, 114, 100, 102, 58, 97, 98, 111, 117, 116, 61, 34, 34, 10, 32, 32, 32, 32, 32, 32, 32, 32, 32, 32, 32, 32,
     120, 109, 108, 110, 115, 58, 100, 99, 61, 34, 104, 116, 116, 112, 58, 47, 47, 112, 117, 114, 108, 46, 111, 114, 103, 47, 100, 99, 47, 101, 108, 101, 109, 101, 110, 116, 115, 47, 49, 46,
     49, 47, 34, 62, 10, 32, 32, 32, 32, 32, 32, 32, 32, 32, 60, 100, 99, 58, 102, 111, 114, 109, 97, 116, 62, 105, 109, 97, 103, 101, 47, 112, 110, 103, 60, 47, 100, 99, 58, 102,
     111, 114, 109, 97, 116, 62, 10, 32, 32, 32, 32, 32, 32, 60, 47, 114, 100, 102, 58, 68, 101, 115, 99, 114, 105, 112, 116, 105, 111, 110, 62, 10, 32, 32, 32, 60, 47, 114, 100, 102,
     58, 82, 68, 70, 62, 10, 60, 47, 120, 58, 120, 109, 112, 109, 101, 116, 97, 62, 10, 32, 32, 32, 32, 32, 32, 32, 32, 32, 32, 32, 32, 32, 32, 32, 32, 32, 32, 32, 32, 32,
     32, 32, 32, 32, 32, 32, 32, 32, 32, 32, 32, 32, 32, 32, 32, 32, 32, 32, 32, 32, 32, 32, 32, 32, 32, 32, 32, 32, 32, 32, 32, 32, 32, 32, 32, 32, 32, 32, 32, 32,
     32, 32, 32, 32, 32, 32, 32, 32, 32, 32, 32, 32, 32, 32, 32, 32, 32, 32, 32, 32, 32, 32, 32, 32, 32, 32, 32, 32, 32, 32, 32, 32, 32, 32, 32, 32, 32, 32, 32, 10,
     32, 32, 32, 32, 32, 32, 32, 32, 32, 32, 32, 32, 32, 32, 32, 32, 32, 32, 32, 32, 32, 32, 32, 32, 32, 32, 32, 32, 32, 32, 32, 32, 32, 32, 32, 32, 32, 32, 32, 32,
     32, 32, 32, 32, 32, 32, 32, 32, 32, 32, 32, 32, 32, 32, 32, 32, 32, 32, 32, 32, 32, 32, 32, 32, 32, 32, 32, 32, 32, 32, 32, 32, 32, 32, 32, 32, 32, 32, 32, 32,
     32, 32, 32, 32, 32, 32, 32, 32, 32, 32, 32, 32, 32, 32, 32, 32, 32, 32, 32, 32, 10, 32, 32, 32, 32, 32, 32, 32, 32, 32, 32, 32, 32, 32, 32, 32, 32, 32, 32, 32,
     32, 32, 32, 32, 32, 32, 32, 32, 32, 32, 32, 32, 32, 32, 32, 32, 32, 32, 32, 32, 32, 32, 32, 32, 32, 32, 32, 32, 32, 32, 32, 32, 32, 32, 32, 32, 32, 32, 32, 32,
     32, 32, 32, 32, 32, 32, 32, 32, 32, 32, 32, 32, 32, 32, 32, 32, 32, 32, 32, 32, 32, 32, 32, 32, 32, 32, 32, 32, 32, 32, 32, 32, 53, 29, 82, 100, 0, 0, 2, 11,
     73, 68, 65, 84, 56, 141, 165, 147, 65, 107, 26, 65, 24, 134, 159, 137, 6, 35, 46, 116, 245, 32, 74, 14, 107, 32, 228, 226, 165, 120, 200, 161, 120, 137, 130, 23, 133, 130, 130, 61,
     38, 98, 88, 114, 205, 79, 241, 24, 75, 27, 47, 165, 50, 224, 181, 158, 53, 26, 88, 47, 233, 15, 232, 101, 109, 132, 162, 132, 44, 10, 107, 88, 98, 167, 135, 104, 104, 19, 161, 165,
     121, 225, 59, 12, 195, 251, 204, 55, 239, 124, 35, 148, 82, 188, 68, 126, 0, 33, 4, 0, 173, 86, 203, 24, 143, 199, 13, 219, 182, 211, 142, 227, 248, 131, 193, 160, 138, 199, 227, 63,
     18, 137, 68, 185, 92, 46, 247, 86, 166, 223, 15, 21, 74, 41, 132, 16, 52, 155, 205, 119, 150, 101, 125, 54, 12, 67, 228, 114, 57, 226, 241, 56, 183, 183, 183, 244, 251, 125, 6, 131,
     1, 169, 84, 234, 67, 165, 82, 57, 126, 10, 64, 41, 69, 171, 213, 50, 78, 79, 79, 127, 74, 41, 213, 221, 221, 221, 179, 234, 245, 122, 234, 228, 228, 68, 73, 41, 211, 43, 207, 170,
     54, 0, 198, 227, 113, 99, 103, 103, 71, 228, 243, 121, 0, 60, 207, 163, 80, 40, 224, 186, 46, 158, 231, 145, 74, 165, 216, 219, 219, 99, 52, 26, 125, 124, 154, 193, 6, 128, 109, 219,
     233, 108, 54, 139, 207, 231, 195, 243, 60, 92, 215, 5, 96, 54, 155, 225, 186, 46, 139, 197, 130, 76, 38, 131, 109, 219, 187, 107, 67, 116, 28, 199, 31, 139, 197, 0, 40, 22, 139, 143,
     155, 213, 106, 21, 0, 41, 37, 154, 166, 49, 159, 207, 197, 90, 192, 214, 214, 150, 154, 76, 38, 34, 20, 10, 33, 165, 100, 54, 155, 81, 173, 86, 169, 213, 106, 104, 154, 6, 192, 245,
     245, 53, 186, 174, 223, 175, 189, 130, 97, 24, 223, 44, 203, 122, 32, 250, 253, 4, 2, 1, 0, 52, 77, 35, 16, 8, 176, 88, 44, 232, 118, 187, 36, 18, 137, 139, 181, 29, 108, 111,
     111, 31, 117, 58, 157, 126, 56, 28, 38, 151, 203, 33, 132, 64, 74, 9, 192, 230, 230, 38, 237, 118, 155, 201, 100, 162, 166, 211, 233, 39, 120, 152, 155, 213, 83, 62, 206, 193, 249, 249,
     249, 251, 193, 96, 112, 156, 76, 38, 217, 223, 223, 39, 18, 137, 48, 28, 14, 185, 188, 188, 228, 230, 230, 70, 249, 124, 190, 47, 211, 233, 52, 15, 52, 234, 245, 122, 229, 25, 96, 25,
     214, 155, 209, 104, 212, 24, 14, 135, 187, 243, 249, 92, 232, 186, 126, 111, 24, 198, 69, 52, 26, 61, 44, 149, 74, 223, 77, 211, 188, 2, 94, 3, 95, 129, 131, 179, 179, 51, 231, 15,
     192, 223, 100, 154, 166, 177, 52, 235, 128, 3, 28, 108, 252, 147, 115, 169, 122, 189, 110, 3, 71, 203, 165, 14, 188, 226, 127, 126, 163, 105, 154, 135, 166, 105, 190, 85, 74, 61, 100, 240,
     18, 253, 2, 13, 83, 6, 36, 136, 63, 225, 105, 0, 0, 0, 0, 73, 69, 78, 68, 174, 66, 96, 130 :: nat]"

definition ok_response :: "string \<Rightarrow> string \<Rightarrow> HttpResponse \<Rightarrow> HttpResponse" where
  "ok_response contentType text resp =
     (setContentType contentType (resp\<lparr>statusCode := 200, statusMessage := ''OK''\<rparr>))\<lparr>body := text\<rparr>"

text \<open>The page that a path names.\<close>

definition find_page :: "string list \<Rightarrow> 's Inspector \<Rightarrow> ('s page \<times> string list) option" where
  "find_page result ins =
     (case result of
        modname # command # args \<Rightarrow>
          (case map_of (modules ins) modname of
             Some commList \<Rightarrow>
               (case map_of commList command of
                  Some (Some cb) \<Rightarrow> Some (cb, args)
                | _ \<Rightarrow> None)
           | None \<Rightarrow> None)
      | _ \<Rightarrow> None)"

definition inspect_request :: "'s \<Rightarrow> 's Inspector \<Rightarrow> HttpRequest \<Rightarrow> HttpResponse \<Rightarrow> HttpResponse res" where
  "inspect_request sys ins req resp =
     (if path req = ''/'' then Inr (ok_response ''text/plain'' (overview_text ins) resp)
      else let result = split (path req)
           in if length result = 1 \<and> result ! 0 = ''favicon.ico'' then Inr (ok_response ''image/png'' favicon resp)
              else (case find_page result ins of
                      Some (cb, args) \<Rightarrow> bindE (cb sys (method req) args) (\<lambda>text. Inr (ok_response ''text/plain'' text resp))
                    | None \<Rightarrow> Inr (resp\<lparr>statusCode := 404, statusMessage := ''Not Found''\<rparr>)))"

definition register_process :: "system Inspector \<Rightarrow> system Inspector" where
  "register_process ins =
     add_page ''proc'' ''threads'' (Some (\<lambda>sys _ _. proc_threads sys)) ''list /proc/self/task''
     (add_page ''proc'' ''status'' (Some (\<lambda>sys _ _. proc_status sys)) ''print /proc/self/status''
     (add_page ''proc'' ''pid'' (Some (\<lambda>sys _ _. proc_pid sys)) ''print pid''
     (add_page ''proc'' ''overview'' (Some (\<lambda>sys _ _. proc_overview sys)) ''print basic overview'' ins)))"

definition register_system :: "system Inspector \<Rightarrow> system Inspector" where
  "register_system ins =
     add_page ''sys'' ''stat'' (Some (\<lambda>sys _ _. sys_file ''/proc/stat'' sys)) ''print /proc/stat''
     (add_page ''sys'' ''meminfo'' (Some (\<lambda>sys _ _. sys_file ''/proc/meminfo'' sys)) ''print /proc/meminfo''
     (add_page ''sys'' ''cpuinfo'' (Some (\<lambda>sys _ _. sys_file ''/proc/cpuinfo'' sys)) ''print /proc/cpuinfo''
     (add_page ''sys'' ''version'' (Some (\<lambda>sys _ _. sys_file ''/proc/version'' sys)) ''print /proc/version''
     (add_page ''sys'' ''loadavg'' (Some (\<lambda>sys _ _. sys_file ''/proc/loadavg'' sys)) ''print /proc/loadavg''
     (add_page ''sys'' ''overview'' (Some (\<lambda>sys _ _. sys_overview sys)) ''print system overview'' ins)))))"

definition empty_Inspector :: "'s Inspector" where
  "empty_Inspector = \<lparr>modules = [], helps = []\<rparr>"

definition new_Inspector :: "system Inspector" where
  "new_Inspector = register_system (register_process empty_Inspector)"

section \<open>Splitting a path\<close>

text \<open>The texts between the slashes.\<close>

fun between_slashes :: "string \<Rightarrow> string list" where
  "between_slashes [] = [[]]"
| "between_slashes (c # s) =
     (if c = CHR ''/'' then [] # between_slashes s
      else (case between_slashes s of f # fs \<Rightarrow> (c # f) # fs | [] \<Rightarrow> [[c]]))"

lemma between_slashes_nonempty [simp]: "between_slashes s \<noteq> []"
  by (induction s) (auto split: list.split)

lemma between_slashes_first:
  "between_slashes s = (if CHR ''/'' \<in> set s
     then takeWhile (\<lambda>c. c \<noteq> CHR ''/'') s # between_slashes (drop (length (takeWhile (\<lambda>c. c \<noteq> CHR ''/'') s) + 1) s) else [s])"
  by (induction s) auto

lemma split_loop_pieces: "split_loop str start result = result @ filter (\<lambda>f. f \<noteq> []) (between_slashes (drop start str))"
proof (induction str start result rule: split_loop.induct)
  case (1 str start result)
  let ?rest = "drop start str" and ?f = "takeWhile (\<lambda>c. c \<noteq> CHR ''/'') (drop start str)"
  show ?case
  proof (cases "CHR ''/'' \<in> set ?rest")
    case True
    define p where "p = start + length ?f"
    have pos: "find_slash str start = Some p" using True by (simp add: find_slash_def find_char_def p_def)
    have "drop (p + 1) str = drop (length ?f + 1) ?rest" by (simp add: p_def add.commute)
    moreover have "take (p - start) ?rest = ?f" by (simp add: p_def takeWhile_eq_take [symmetric])
    moreover have "start < p \<longleftrightarrow> ?f \<noteq> []" by (simp add: p_def)
    ultimately have "split_loop str start result = (if ?f \<noteq> [] then result @ [?f] else result) @ filter (\<lambda>f. f \<noteq> []) (between_slashes (drop (length ?f + 1) ?rest))"
      using "1.IH" [OF pos] by (subst split_loop.simps) (simp only: pos option.case)
    then show ?thesis using True by (subst between_slashes_first) simp
  next
    case False
    then have "find_slash str start = None" by (simp add: find_slash_def find_char_def)
    with False show ?thesis by (subst split_loop.simps, subst between_slashes_first) simp
  qed
qed

lemma split_pieces: "split str = filter (\<lambda>f. f \<noteq> []) (between_slashes str)"
  by (simp add: split_def split_loop_pieces)

definition path_of :: "string list \<Rightarrow> string" where
  "path_of names = concat (map (\<lambda>n. CHR ''/'' # n) names)"

lemma between_path: "list_all (\<lambda>n. CHR ''/'' \<notin> set n) (n # names) \<Longrightarrow> between_slashes (n @ path_of names) = n # names"
proof (induction names arbitrary: n)
  case (Cons n' names)
  then have "takeWhile (\<lambda>c. c \<noteq> CHR ''/'') (n @ CHR ''/'' # n' @ path_of names) = n" by (subst takeWhile_append2) auto
  with Cons show ?case by (subst between_slashes_first) (simp add: path_of_def)
qed (simp add: between_slashes_first path_of_def)

lemma split_path:
  assumes "list_all (\<lambda>n. n \<noteq> [] \<and> CHR ''/'' \<notin> set n) names"
  shows "split (path_of names) = names"
proof -
  have "between_slashes ([] @ path_of names) = [] # names" using assms by (intro between_path) (auto simp: list_all_iff)
  moreover have "filter (\<lambda>f. f \<noteq> []) names = names" using assms by (simp add: list_all_iff)
  ultimately show ?thesis by (simp add: split_pieces)
qed

section \<open>What is registered\<close>

datatype 's registration = Add string string "'s page option" string | Remove string string

fun register :: "'s registration \<Rightarrow> 's Inspector \<Rightarrow> 's Inspector" where
  "register (Add m c cb h) ins = add_page m c cb h ins"
| "register (Remove m c) ins = remove_page m c ins"

text \<open>The specification: a table of the pages and their help texts.\<close>

type_synonym 's pages = "string \<times> string \<Rightarrow> ('s page option \<times> string) option"

fun register_spec :: "'s registration \<Rightarrow> 's pages \<Rightarrow> 's pages" where
  "register_spec (Add m c cb h) t = t((m, c) \<mapsto> (cb, h))"
| "register_spec (Remove m c) t = t((m, c) := None)"

definition pages_of :: "'s Inspector \<Rightarrow> 's pages" where
  "pages_of ins = (\<lambda>(m, c). case (map_of (entry m (modules ins)) c, map_of (entry m (helps ins)) c) of
       (Some cb, Some h) \<Rightarrow> Some (cb, h) | _ \<Rightarrow> None)"

definition nested_ordered :: "(string \<times> (string \<times> 'v) list) list \<Rightarrow> bool" where
  "nested_ordered m \<longleftrightarrow> map_ordered m \<and> (\<forall>(k, l) \<in> set m. map_ordered l)"

definition inspector_inv :: "'s Inspector \<Rightarrow> bool" where
  "inspector_inv ins \<longleftrightarrow> nested_ordered (modules ins) \<and> nested_ordered (helps ins)
     \<and> (\<forall>m. map_of (modules ins) m = None \<longleftrightarrow> map_of (helps ins) m = None)
     \<and> (\<forall>m c. map_of (entry m (modules ins)) c = None \<longleftrightarrow> map_of (entry m (helps ins)) c = None)"

lemma entry_put: "entry k' (map_put k l m) = (if k' = k then l else entry k' m)"
  by (simp add: entry_def)

lemma nested_put: "nested_ordered m \<Longrightarrow> map_ordered l \<Longrightarrow> nested_ordered (map_put k l m)"
proof -
  assume m: "nested_ordered m" and l: "map_ordered l"
  have ord: "map_ordered (map_put k l m)" using m by (simp add: nested_ordered_def)
  have "map_ordered l'" if "(k', l') \<in> set (map_put k l m)" for k' l'
  proof (cases "k' = k")
    case True
    then show ?thesis using that l map_of_mem_iff [OF ord, of k' l'] by simp
  next
    case False
    then show ?thesis using that m map_of_mem_iff [OF ord, of k' l'] map_of_mem_iff [of m k' l'] by (auto simp: nested_ordered_def)
  qed
  with ord show ?thesis by (auto simp: nested_ordered_def)
qed

lemma entry_ordered: "nested_ordered m \<Longrightarrow> map_ordered (entry k m)"
  by (auto simp: entry_def nested_ordered_def split: option.split dest: map_of_SomeD)

lemma register_refines:
  assumes "inspector_inv ins"
  shows "inspector_inv (register r ins) \<and> pages_of (register r ins) = register_spec r (pages_of ins)"
proof (cases r)
  case (Add m c cb h)
  then show ?thesis using assms
    by (auto simp: inspector_inv_def add_page_def entry_put pages_of_def fun_eq_iff intro!: nested_put map_ordered_put map_ordered_erase entry_ordered split: option.splits)
next
  case (Remove m c)
  show ?thesis
  proof (cases "map_of (modules ins) m")
    case None
    then have "entry m (modules ins) = []" by (simp add: entry_def)
    with None Remove assms show ?thesis by (auto simp: remove_page_def pages_of_def fun_eq_iff split: option.splits)
  next
    case (Some l)
    then have l: "l = entry m (modules ins)" by (simp add: entry_def)
    have "map_of (helps ins) m \<noteq> None" using assms Some unfolding inspector_inv_def by (metis option.distinct(1))
    with Some Remove assms show ?thesis
      by (auto simp: inspector_inv_def remove_page_def l entry_put pages_of_def fun_eq_iff intro!: nested_put map_ordered_put map_ordered_erase entry_ordered split: option.splits)
  qed
qed

lemma registrations_refine:
  "inspector_inv ins \<Longrightarrow> inspector_inv (fold register rs ins) \<and> pages_of (fold register rs ins) = fold register_spec rs (pages_of ins)"
  by (induction rs arbitrary: ins) (simp_all add: register_refines)

lemma empty_inspector: "inspector_inv empty_Inspector" "pages_of empty_Inspector = (\<lambda>_. None)"
  by (simp_all add: inspector_inv_def empty_Inspector_def nested_ordered_def entry_def pages_of_def fun_eq_iff)

text \<open>What the overview lists, module by module.\<close>

definition listing :: "'s Inspector \<Rightarrow> (string \<times> string \<times> string) list" where
  "listing ins = concat (map (\<lambda>(m, l). map (\<lambda>(c, h). (m, c, h)) l) (helps ins))"

lemma overview_listing: "overview_text ins = concat (map (\<lambda>(m, c, h). help_line m (c, h)) (listing ins))"
proof -
  have "concat (map (\<lambda>(m, l). concat (map (help_line m) l)) xs) =
      concat (map (\<lambda>(m, c, h). help_line m (c, h)) (concat (map (\<lambda>(m, l). map (\<lambda>(c, h). (m, c, h)) l) xs)))" for xs
    by (induction xs) (auto simp: comp_def case_prod_unfold)
  then show ?thesis by (simp add: overview_text_def listing_def)
qed

lemma listing_mem:
  assumes "inspector_inv ins"
  shows "(m, c, h) \<in> set (listing ins) \<longleftrightarrow> (\<exists>cb. pages_of ins (m, c) = Some (cb, h))"
proof -
  have ord: "nested_ordered (helps ins)" using assms by (simp add: inspector_inv_def)
  have "(m, c, h) \<in> set (listing ins) \<longleftrightarrow> (\<exists>l. (m, l) \<in> set (helps ins) \<and> (c, h) \<in> set l)" by (auto simp: listing_def)
  also have "\<dots> \<longleftrightarrow> (\<exists>l. map_of (helps ins) m = Some l \<and> map_of l c = Some h)"
  proof -
    have outer: "(m, l) \<in> set (helps ins) \<longleftrightarrow> map_of (helps ins) m = Some l" for l
      using ord by (intro map_of_mem_iff) (simp add: nested_ordered_def)
    have "map_ordered l" if "(m, l) \<in> set (helps ins)" for l using ord that by (auto simp: nested_ordered_def)
    then have inner: "map_of (helps ins) m = Some l \<Longrightarrow> (c, h) \<in> set l \<longleftrightarrow> map_of l c = Some h" for l
      using outer by (intro map_of_mem_iff) blast
    show ?thesis unfolding outer using inner by blast
  qed
  also have "\<dots> \<longleftrightarrow> map_of (entry m (helps ins)) c = Some h" by (auto simp: entry_def split: option.splits)
  also have "\<dots> \<longleftrightarrow> (\<exists>cb. pages_of ins (m, c) = Some (cb, h))"
  proof -
    have "map_of (entry m (modules ins)) c = None \<longleftrightarrow> map_of (entry m (helps ins)) c = None" using assms by (simp add: inspector_inv_def)
    then show ?thesis by (auto simp: pages_of_def split: option.splits)
  qed
  finally show ?thesis .
qed

definition before :: "string \<times> string \<times> string \<Rightarrow> string \<times> string \<times> string \<Rightarrow> bool" where
  "before x y \<longleftrightarrow> fst x < fst y \<or> fst x = fst y \<and> fst (snd x) < fst (snd y)"

lemma listing_sorted:
  assumes "nested_ordered (helps ins)"
  shows "sorted_wrt before (listing ins)"
proof -
  have "sorted_wrt before (concat (map (\<lambda>(m, l). map (\<lambda>(c, h). (m, c, h)) l) xs))"
    if "nested_ordered xs" for xs :: "(string \<times> (string \<times> string) list) list"
    using that
  proof (induction xs)
    case (Cons x xs)
    obtain m l where x: "x = (m, l)" by fastforce
    have l: "sorted_wrt (<) (map fst l)" "nested_ordered xs" and less: "\<forall>(m', l') \<in> set xs. m < m'"
      using Cons.prems by (auto simp: x nested_ordered_def map_ordered_def)
    have "sorted_wrt before (map (\<lambda>(c, h). (m, c, h)) l)"
      using l(1) by (simp add: sorted_wrt_map before_def case_prod_unfold)
    moreover have "before y z" if "y \<in> set (map (\<lambda>(c, h). (m, c, h)) l)" "z \<in> set (concat (map (\<lambda>(m, l). map (\<lambda>(c, h). (m, c, h)) l) xs))" for y z
    proof -
      have "fst y = m" using that(1) by auto
      moreover have "m < fst z" using that(2) less by auto
      ultimately show ?thesis by (simp add: before_def)
    qed
    ultimately show ?case using Cons.IH [OF l(2)] by (simp only: x sorted_wrt_append list.map concat.simps prod.case) blast
  qed simp
  with assms show ?thesis by (simp add: listing_def)
qed

lemma find_page_table:
  assumes "inspector_inv ins"
  shows "find_page (m # c # args) ins = (case pages_of ins (m, c) of Some (Some cb, h) \<Rightarrow> Some (cb, args) | _ \<Rightarrow> None)"
proof -
  have "map_of (entry m (modules ins)) c = None \<longleftrightarrow> map_of (entry m (helps ins)) c = None" using assms by (simp add: inspector_inv_def)
  then show ?thesis by (auto simp: find_page_def pages_of_def entry_def split: option.splits)
qed

text \<open>
  The inspector implements the table of the pages that were added and not removed since: a request for \<open>/module/command/args\<close> answers 200 with what the page returns for the method and
  the arguments, and 404 when there is no such page; the request for \<open>/\<close> lists exactly the pages of the table, each once, in the order of their modules and commands, with their help texts.
\<close>

theorem inspector_serves_table:
  fixes rs :: "'s registration list" and ins :: "'s Inspector"
  defines "ins \<equiv> fold register rs empty_Inspector" and "t \<equiv> fold register_spec rs (\<lambda>_. None)"
  assumes "list_all (\<lambda>n. n \<noteq> [] \<and> CHR ''/'' \<notin> set n) (m # c # args)"
  shows "inspect_request sys ins (req\<lparr>path := path_of (m # c # args)\<rparr>) resp =
      (case t (m, c) of
         Some (Some cb, h) \<Rightarrow> bindE (cb sys (method req) args) (\<lambda>text. Inr (ok_response ''text/plain'' text resp))
       | _ \<Rightarrow> Inr (resp\<lparr>statusCode := 404, statusMessage := ''Not Found''\<rparr>))"
    and "inspect_request sys ins (req\<lparr>path := ''/''\<rparr>) resp = Inr (ok_response ''text/plain'' (concat (map (\<lambda>(m, c, h). help_line m (c, h)) (listing ins))) resp)"
    and "(m', c', h) \<in> set (listing ins) \<longleftrightarrow> (\<exists>cb. t (m', c') = Some (cb, h))"
    and "sorted_wrt before (listing ins)"
proof -
  have inv: "inspector_inv ins" and t: "pages_of ins = t"
    using registrations_refine [OF empty_inspector(1), of rs] unfolding empty_inspector(2) ins_def t_def by simp_all
  have "path_of (m # c # args) \<noteq> ''/''" using assms(3) by (auto simp: path_of_def)
  then show "inspect_request sys ins (req\<lparr>path := path_of (m # c # args)\<rparr>) resp =
      (case t (m, c) of
         Some (Some cb, h) \<Rightarrow> bindE (cb sys (method req) args) (\<lambda>text. Inr (ok_response ''text/plain'' text resp))
       | _ \<Rightarrow> Inr (resp\<lparr>statusCode := 404, statusMessage := ''Not Found''\<rparr>))"
    using find_page_table [OF inv, of m c args] split_path [OF assms(3)] by (simp add: inspect_request_def Let_def t split: option.splits)
  show "inspect_request sys ins (req\<lparr>path := ''/''\<rparr>) resp = Inr (ok_response ''text/plain'' (concat (map (\<lambda>(m, c, h). help_line m (c, h)) (listing ins))) resp)"
    by (simp add: inspect_request_def overview_listing)
  show "(m', c', h) \<in> set (listing ins) \<longleftrightarrow> (\<exists>cb. t (m', c') = Some (cb, h))" using listing_mem [OF inv] by (simp add: t)
  show "sorted_wrt before (listing ins)"
    using inv by (intro listing_sorted) (simp add: inspector_inv_def)
qed

theorem inspector_serves_table_witness:
  fixes req :: HttpRequest and resp :: HttpResponse
  shows "inspect_request () (fold register [Add ''m'' ''c'' (Some (\<lambda>_ _ args. Inr (concat args))) ''help'', Add ''m'' ''d'' None ''x'', Remove ''m'' ''d''] empty_Inspector)
     (req\<lparr>path := ''/m/c/a/b''\<rparr>) resp = Inr (ok_response ''text/plain'' ''ab'' resp)"
  using inspector_serves_table(1) [of "''m''" "''c''" "[''a'', ''b'']" "()" "[Add ''m'' ''c'' (Some (\<lambda>_ _ args. Inr (concat args))) ''help'', Add ''m'' ''d'' None ''x'', Remove ''m'' ''d'']" req resp]
  by (simp add: path_of_def)

text \<open>A new inspector has the page of the process.\<close>

lemma new_inspector_pid: "inspect_request sys new_Inspector (req\<lparr>path := ''/proc/pid''\<rparr>) resp = Inr (ok_response ''text/plain'' (take 31 (show_int (getpid sys))) resp)"
proof -
  have "path_of [''proc'', ''pid''] = ''/proc/pid''" by (simp add: path_of_def)
  then have "split ''/proc/pid'' = [''proc'', ''pid'']" using split_path [of "[''proc'', ''pid'']"] by simp
  then show ?thesis
    by (simp add: inspect_request_def find_page_def new_Inspector_def register_system_def register_process_def add_page_def entry_def empty_Inspector_def proc_pid_def)
qed

lemma favicon_length: "length favicon = 1743"
  by (simp add: favicon_def)

end
