(* ===== verification/Sockets.thy ===== *)
theory Sockets
  imports Net_Buffer
begin

text \<open>
  \<open>net/InetAddress\<close>, \<open>net/SocketsOps.cc\<close> and \<open>net/Socket.cc\<close>. An address is the union of \<open>sockaddr_in\<close> and \<open>sockaddr_in6\<close>: the two share the family and the port, and the four bytes after
  them are the address of version 4 or the flow information of version 6. Ports and addresses are in network byte order. The conversions of addresses to text and back, the resolver and the
  results of the system calls are parameters.
\<close>

section \<open>Addresses\<close>

datatype sa_family = AF_UNSPEC | AF_INET | AF_INET6

record InetAddress =
  family :: sa_family
  portNetEndian :: "16 word"
  sin_addr :: "32 word"
  sin6_addr :: "128 word"
  sin6_scope_id :: "32 word"

record inet_lib =
  inet_pton4 :: "string \<Rightarrow> 32 word option"
  inet_pton6 :: "string \<Rightarrow> 128 word option"
  inet_ntop4 :: "32 word \<Rightarrow> string"
  inet_ntop6 :: "128 word \<Rightarrow> string"

text \<open>\<open>memZero\<close> of the part for version 6, which is everything, and of the part for version 4, which ends after the first eight bytes of the address of version 6; the rest stays as it was.\<close>

definition zero_address :: InetAddress where
  "zero_address = \<lparr>family = AF_UNSPEC, portNetEndian = 0, sin_addr = 0, sin6_addr = 0, sin6_scope_id = 0\<rparr>"

definition zero_addr4 :: "InetAddress \<Rightarrow> InetAddress" where
  "zero_addr4 old = zero_address\<lparr>sin6_addr := push_bit 64 (drop_bit 64 (sin6_addr old)), sin6_scope_id := sin6_scope_id old\<rparr>"

definition kInaddrAny :: "32 word" where
  "kInaddrAny = 0"

definition kInaddrLoopback :: "32 word" where
  "kInaddrLoopback = 0x7F000001"

text \<open>\<open>in6addr_any\<close> and \<open>in6addr_loopback\<close>, 16 bytes of which the last is the highest here.\<close>

definition in6addr_any :: "128 word" where
  "in6addr_any = 0"

definition in6addr_loopback :: "128 word" where
  "in6addr_loopback = 2 ^ 120"

text \<open>The constructors build on the bytes \<open>old\<close> that the memory holds.\<close>

definition InetAddress_of_port :: "InetAddress \<Rightarrow> 16 word \<Rightarrow> bool \<Rightarrow> bool \<Rightarrow> InetAddress" where
  "InetAddress_of_port old portArg loopbackOnly ipv6 =
     (if ipv6
      then zero_address\<lparr>family := AF_INET6, sin6_addr := (if loopbackOnly then in6addr_loopback else in6addr_any), portNetEndian := hostToNetwork16 portArg\<rparr>
      else (zero_addr4 old)\<lparr>family := AF_INET, sin_addr := hostToNetwork32 (if loopbackOnly then kInaddrLoopback else kInaddrAny), portNetEndian := hostToNetwork16 portArg\<rparr>)"

text \<open>An address that cannot be read is logged and left zero.\<close>

definition fromIpPort4 :: "inet_lib \<Rightarrow> string \<Rightarrow> 16 word \<Rightarrow> InetAddress \<Rightarrow> InetAddress" where
  "fromIpPort4 lib ip port addr =
     (let addr = addr\<lparr>family := AF_INET, portNetEndian := hostToNetwork16 port\<rparr>
      in case inet_pton4 lib ip of Some a \<Rightarrow> addr\<lparr>sin_addr := a\<rparr> | None \<Rightarrow> addr)"

definition fromIpPort6 :: "inet_lib \<Rightarrow> string \<Rightarrow> 16 word \<Rightarrow> InetAddress \<Rightarrow> InetAddress" where
  "fromIpPort6 lib ip port addr =
     (let addr = addr\<lparr>family := AF_INET6, portNetEndian := hostToNetwork16 port\<rparr>
      in case inet_pton6 lib ip of Some a \<Rightarrow> addr\<lparr>sin6_addr := a\<rparr> | None \<Rightarrow> addr)"

definition InetAddress_of_ip :: "inet_lib \<Rightarrow> InetAddress \<Rightarrow> string \<Rightarrow> 16 word \<Rightarrow> bool \<Rightarrow> InetAddress" where
  "InetAddress_of_ip lib old ip portArg ipv6 =
     (if ipv6 \<or> CHR '':'' \<in> set (c_str ip) then fromIpPort6 lib (c_str ip) portArg zero_address else fromIpPort4 lib (c_str ip) portArg (zero_addr4 old))"

definition INET_ADDRSTRLEN :: nat where "INET_ADDRSTRLEN = 16"

definition INET6_ADDRSTRLEN :: nat where "INET6_ADDRSTRLEN = 46"

text \<open>\<open>toIp\<close> writes into a buffer of \<open>room\<close> characters that starts with \<open>old\<close>, which stays when the family is unknown.\<close>

definition toIp_buffer :: "inet_lib \<Rightarrow> nat \<Rightarrow> string \<Rightarrow> InetAddress \<Rightarrow> string res" where
  "toIp_buffer lib room old addr =
     (case family addr of
        AF_INET \<Rightarrow> bindE (assertE (room \<ge> INET_ADDRSTRLEN)) (\<lambda>_. Inr (inet_ntop4 lib (sin_addr addr)))
      | AF_INET6 \<Rightarrow> bindE (assertE (room \<ge> INET6_ADDRSTRLEN)) (\<lambda>_. Inr (inet_ntop6 lib (sin6_addr addr)))
      | AF_UNSPEC \<Rightarrow> Inr old)"

definition toIpPort_buffer :: "inet_lib \<Rightarrow> nat \<Rightarrow> string \<Rightarrow> InetAddress \<Rightarrow> string res" where
  "toIpPort_buffer lib room old addr =
     (if family addr = AF_INET6
      then bindE (toIp_buffer lib (room - 1) (drop 1 old) addr) (\<lambda>ip.
           let text = ''['' @ ip
           in bindE (assertE (room > length text)) (\<lambda>_.
              Inr (text @ take (room - length text - 1) ('']:'' @ show_nat (unat (networkToHost16 (portNetEndian addr)))))))
      else bindE (toIp_buffer lib room old addr) (\<lambda>text.
           bindE (assertE (room > length text)) (\<lambda>_.
           Inr (text @ take (room - length text - 1) ('':'' @ show_nat (unat (networkToHost16 (portNetEndian addr))))))))"

definition toIpPort :: "inet_lib \<Rightarrow> InetAddress \<Rightarrow> string res" where
  "toIpPort lib addr = toIpPort_buffer lib 64 [] addr"

definition toIp :: "inet_lib \<Rightarrow> InetAddress \<Rightarrow> string res" where
  "toIp lib addr = toIp_buffer lib 64 [] addr"

definition ipv4NetEndian :: "InetAddress \<Rightarrow> 32 word res" where
  "ipv4NetEndian addr = bindE (assertE (family addr = AF_INET)) (\<lambda>_. Inr (sin_addr addr))"

definition port_of :: "InetAddress \<Rightarrow> 16 word" where
  "port_of addr = networkToHost16 (portNetEndian addr)"

text \<open>The resolver returns a code and perhaps an entry: the type and the length of its addresses and the first of them.\<close>

definition resolve :: "int \<times> (sa_family \<times> nat \<times> 32 word) option \<Rightarrow> InetAddress \<Rightarrow> (bool \<times> InetAddress) res" where
  "resolve answer out =
     (case answer of
        (ret, Some (h_addrtype, h_length, h_addr)) \<Rightarrow>
          if ret = 0
          then bindE (assertE (h_addrtype = AF_INET \<and> h_length = 4)) (\<lambda>_. Inr (True, out\<lparr>sin_addr := h_addr\<rparr>))
          else Inr (False, out)
      | (ret, None) \<Rightarrow> Inr (False, out))"

definition setScopeId :: "32 word \<Rightarrow> InetAddress \<Rightarrow> InetAddress" where
  "setScopeId scope_id addr = (if family addr = AF_INET6 then addr\<lparr>sin6_scope_id := scope_id\<rparr> else addr)"

section \<open>System calls on sockets\<close>

text \<open>The numbers of the errors of \<open>accept\<close> that are expected.\<close>

definition expected_errors :: "int set" where
  "expected_errors = {11 \<comment> \<open>EAGAIN\<close>, 103 \<comment> \<open>ECONNABORTED\<close>, 4 \<comment> \<open>EINTR\<close>, 71 \<comment> \<open>EPROTO\<close>, 1 \<comment> \<open>EPERM\<close>, 24 \<comment> \<open>EMFILE\<close>}"

text \<open>What the call returned: a descriptor with the address of the peer, or an error. The result is the descriptor, -1 on an expected error; the other errors abort the program.\<close>

definition sock_accept :: "(nat \<times> InetAddress) + int \<Rightarrow> InetAddress \<Rightarrow> (int \<times> int option \<times> InetAddress) res" where
  "sock_accept answer addr =
     (case answer of
        Inl (connfd, peer) \<Rightarrow> Inr (int connfd, None, peer)
      | Inr e \<Rightarrow> if e \<in> expected_errors then Inr (- 1, Some e, addr) else Inl Aborted)"

definition Socket_accept :: "(nat \<times> InetAddress) + int \<Rightarrow> InetAddress \<Rightarrow> (int \<times> InetAddress) res" where
  "Socket_accept answer peeraddr =
     bindE (sock_accept answer zero_address) (\<lambda>(connfd, _, addr). Inr (connfd, if connfd \<ge> 0 then addr else peeraddr))"

definition createNonblockingOrDie :: "int \<Rightarrow> int res" where
  "createNonblockingOrDie sockfd = (if sockfd < 0 then Inl Aborted else Inr sockfd)"

definition bindOrDie :: "int \<Rightarrow> unit res" where
  "bindOrDie ret = (if ret < 0 then Inl Aborted else Inr ())"

definition listenOrDie :: "int \<Rightarrow> unit res" where
  "listenOrDie ret = (if ret < 0 then Inl Aborted else Inr ())"

definition getSocketError :: "int + int \<Rightarrow> int" where
  "getSocketError answer = (case answer of Inl e \<Rightarrow> e | Inr optval \<Rightarrow> optval)"

text \<open>The addresses of the two ends; a failing call leaves a zero address.\<close>

definition getLocalAddr :: "InetAddress option \<Rightarrow> InetAddress" where
  "getLocalAddr sockname = (case sockname of Some a \<Rightarrow> a | None \<Rightarrow> zero_address)"

definition getPeerAddr :: "InetAddress option \<Rightarrow> InetAddress" where
  "getPeerAddr peername = (case peername of Some a \<Rightarrow> a | None \<Rightarrow> zero_address)"

definition isSelfConnect :: "InetAddress option \<Rightarrow> InetAddress option \<Rightarrow> bool" where
  "isSelfConnect sockname peername =
     (let localaddr = getLocalAddr sockname; peeraddr = getPeerAddr peername
      in if family localaddr = AF_INET then portNetEndian localaddr = portNetEndian peeraddr \<and> sin_addr localaddr = sin_addr peeraddr
         else if family localaddr = AF_INET6 then portNetEndian localaddr = portNetEndian peeraddr \<and> sin6_addr localaddr = sin6_addr peeraddr
         else False)"

text \<open>The options that the program sets, as the calls of \<open>setsockopt\<close>.\<close>

datatype sock_option = TCP_NODELAY | SO_REUSEADDR | SO_REUSEPORT | SO_KEEPALIVE

definition setTcpNoDelay :: "bool \<Rightarrow> (sock_option \<times> int) list \<Rightarrow> (sock_option \<times> int) list" where
  "setTcpNoDelay on calls = calls @ [(TCP_NODELAY, if on then 1 else 0)]"

definition setReuseAddr :: "bool \<Rightarrow> (sock_option \<times> int) list \<Rightarrow> (sock_option \<times> int) list" where
  "setReuseAddr on calls = calls @ [(SO_REUSEADDR, if on then 1 else 0)]"

definition setReusePort :: "bool \<Rightarrow> (sock_option \<times> int) list \<Rightarrow> (sock_option \<times> int) list" where
  "setReusePort on calls = calls @ [(SO_REUSEPORT, if on then 1 else 0)]"

definition setKeepAlive :: "bool \<Rightarrow> (sock_option \<times> int) list \<Rightarrow> (sock_option \<times> int) list" where
  "setKeepAlive on calls = calls @ [(SO_KEEPALIVE, if on then 1 else 0)]"

record tcp_info =
  tcpi_retransmits :: "32 word"
  tcpi_rto :: "32 word"
  tcpi_ato :: "32 word"
  tcpi_snd_mss :: "32 word"
  tcpi_rcv_mss :: "32 word"
  tcpi_lost :: "32 word"
  tcpi_retrans :: "32 word"
  tcpi_rtt :: "32 word"
  tcpi_rttvar :: "32 word"
  tcpi_snd_ssthresh :: "32 word"
  tcpi_snd_cwnd :: "32 word"
  tcpi_total_retrans :: "32 word"

definition getTcpInfoString :: "tcp_info option \<Rightarrow> nat \<Rightarrow> string \<Rightarrow> bool \<times> string" where
  "getTcpInfoString info len old =
     (case info of
        None \<Rightarrow> (False, old)
      | Some i \<Rightarrow> (True, take (len - 1) (''unrecovered='' @ show_nat (unat (tcpi_retransmits i)) @ '' rto='' @ show_nat (unat (tcpi_rto i))
          @ '' ato='' @ show_nat (unat (tcpi_ato i)) @ '' snd_mss='' @ show_nat (unat (tcpi_snd_mss i)) @ '' rcv_mss='' @ show_nat (unat (tcpi_rcv_mss i))
          @ '' lost='' @ show_nat (unat (tcpi_lost i)) @ '' retrans='' @ show_nat (unat (tcpi_retrans i)) @ '' rtt='' @ show_nat (unat (tcpi_rtt i))
          @ '' rttvar='' @ show_nat (unat (tcpi_rttvar i)) @ '' sshthresh='' @ show_nat (unat (tcpi_snd_ssthresh i)) @ '' cwnd='' @ show_nat (unat (tcpi_snd_cwnd i))
          @ '' total_retrans='' @ show_nat (unat (tcpi_total_retrans i)))))"

section \<open>Addresses and their texts\<close>

text \<open>An address as the constructors make it: it has a family, and without flow information when that is version 6. Two addresses are the same in what their family uses.\<close>

definition address_wf :: "InetAddress \<Rightarrow> bool" where
  "address_wf a \<longleftrightarrow> family a = AF_INET \<or> family a = AF_INET6 \<and> sin_addr a = 0"

definition same_address :: "InetAddress \<Rightarrow> InetAddress \<Rightarrow> bool" where
  "same_address a b \<longleftrightarrow> family a = family b \<and> portNetEndian a = portNetEndian b
     \<and> (if family a = AF_INET then sin_addr a = sin_addr b else sin6_addr a = sin6_addr b)"

text \<open>What the conversions of the C library promise.\<close>

definition inet_ok :: "inet_lib \<Rightarrow> bool" where
  "inet_ok lib \<longleftrightarrow> (\<forall>a. inet_pton4 lib (inet_ntop4 lib a) = Some a \<and> CHR '':'' \<notin> set (inet_ntop4 lib a) \<and> CHR 0x00 \<notin> set (inet_ntop4 lib a)
       \<and> length (inet_ntop4 lib a) < INET_ADDRSTRLEN)
     \<and> (\<forall>a. inet_pton6 lib (inet_ntop6 lib a) = Some a \<and> CHR '':'' \<in> set (inet_ntop6 lib a) \<and> CHR 0x00 \<notin> set (inet_ntop6 lib a)
       \<and> length (inet_ntop6 lib a) < INET6_ADDRSTRLEN)"

lemma port_swap [simp]: "networkToHost16 (hostToNetwork16 p) = p" "hostToNetwork16 (networkToHost16 p) = p"
  by (simp_all add: networkToHost16_def hostToNetwork16_def byte_swap_swap)

lemma port_text_length: "length (show_nat (unat (p :: 16 word))) \<le> 5"
proof -
  have "unat p < 2 ^ LENGTH(16)" by (rule unsigned_less)
  then have "unat p < 10 ^ 5" by simp
  then show ?thesis by (rule show_nat_length) simp
qed

lemma constructors_wf:
  "address_wf (InetAddress_of_port old p loopback v6)" "port_of (InetAddress_of_port old p loopback v6) = p"
  "address_wf (InetAddress_of_ip lib old ip p v6)" "port_of (InetAddress_of_ip lib old ip p v6) = p"
  by (auto simp: address_wf_def port_of_def InetAddress_of_port_def InetAddress_of_ip_def fromIpPort4_def fromIpPort6_def zero_addr4_def zero_address_def Let_def split: option.split)

text \<open>
  Well-formed addresses: every constructor gives a well-formed address with the port it was given; the scope of version 6 can be set without changing that. The text
  of a well-formed address is short enough for its buffers, the text with the port is the text of the address (in brackets for version 6), a colon and the port, and reading the text back
  with the port gives the same address again.
\<close>

theorem addresses_and_texts:
  assumes "inet_ok lib" "address_wf a"
  shows "address_wf (InetAddress_of_port old p loopback v6) \<and> port_of (InetAddress_of_port old p loopback v6) = p
    \<and> address_wf (InetAddress_of_ip lib old ip p v6) \<and> port_of (InetAddress_of_ip lib old ip p v6) = p
    \<and> address_wf (setScopeId scope a) \<and> port_of (setScopeId scope a) = port_of a
    \<and> (\<exists>t. toIp lib a = Inr t \<and> same_address (InetAddress_of_ip lib old t (port_of a) (family a = AF_INET6)) a \<and> same_address (InetAddress_of_ip lib old t (port_of a) False) a
        \<and> toIpPort lib a = Inr ((if family a = AF_INET6 then ''['' @ t @ '']'' else t) @ '':'' @ show_nat (unat (port_of a))))"
proof -
  let ?t = "if family a = AF_INET then inet_ntop4 lib (sin_addr a) else inet_ntop6 lib (sin6_addr a)"
  have lib: "inet_pton4 lib (inet_ntop4 lib x) = Some x" "CHR '':'' \<notin> set (inet_ntop4 lib x)" "CHR 0x00 \<notin> set (inet_ntop4 lib x)" "length (inet_ntop4 lib x) < 16"
    "inet_pton6 lib (inet_ntop6 lib y) = Some y" "CHR '':'' \<in> set (inet_ntop6 lib y)" "CHR 0x00 \<notin> set (inet_ntop6 lib y)" "length (inet_ntop6 lib y) < 46" for x y
    using assms(1) by (simp_all add: inet_ok_def INET_ADDRSTRLEN_def INET6_ADDRSTRLEN_def)
  have c: "c_str (inet_ntop4 lib x) = inet_ntop4 lib x" "c_str (inet_ntop6 lib y) = inet_ntop6 lib y" for x y
    using lib(3) [of x] lib(7) [of y] by (auto simp: c_str_def takeWhile_eq_all_conv)
  have scope: "address_wf (setScopeId scope a) \<and> port_of (setScopeId scope a) = port_of a"
    using assms(2) by (auto simp: address_wf_def setScopeId_def port_of_def)
  have "toIp lib a = Inr ?t \<and> same_address (InetAddress_of_ip lib old ?t (port_of a) (family a = AF_INET6)) a \<and> same_address (InetAddress_of_ip lib old ?t (port_of a) False) a
      \<and> toIpPort lib a = Inr ((if family a = AF_INET6 then ''['' @ ?t @ '']'' else ?t) @ '':'' @ show_nat (unat (port_of a)))"
  proof (cases "family a = AF_INET")
    case True
    have len: "length (inet_ntop4 lib (sin_addr a)) < 16" "length (show_nat (unat (port_of a))) \<le> 5" by (rule lib port_text_length)+
    show ?thesis
      using True assms(2) len
      by (auto simp: toIp_def toIp_buffer_def toIpPort_def toIpPort_buffer_def INET_ADDRSTRLEN_def InetAddress_of_ip_def fromIpPort4_def lib(1-3) c zero_addr4_def zero_address_def same_address_def port_of_def address_wf_def)
  next
    case False
    then have six: "family a = AF_INET6" using assms(2) by (auto simp: address_wf_def)
    have len: "length (inet_ntop6 lib (sin6_addr a)) < 46" "length (show_nat (unat (port_of a))) \<le> 5" by (rule lib port_text_length)+
    show ?thesis
      using six assms(2) len
      by (auto simp: toIp_def toIp_buffer_def toIpPort_def toIpPort_buffer_def INET6_ADDRSTRLEN_def InetAddress_of_ip_def fromIpPort6_def lib(5-7) c zero_address_def same_address_def port_of_def address_wf_def Let_def)
  qed
  with scope constructors_wf show ?thesis by blast
qed

text \<open>A self-connection is found by comparing the two ends of a socket; no address at one end is never a self-connection.\<close>

lemma self_connect:
  assumes "address_wf a" "family a = family b"
  shows "isSelfConnect (Some a) (Some b) \<longleftrightarrow> same_address a b"
  using assms by (auto simp: isSelfConnect_def getLocalAddr_def getPeerAddr_def address_wf_def same_address_def)

lemma no_self_connect: "\<not> isSelfConnect None p"
  by (simp add: isSelfConnect_def getLocalAddr_def zero_address_def)

text \<open>\<open>accept\<close> either gives a connection with the address of its peer, or leaves the address of the caller and returns -1 on one of six errors; every other error ends the program.\<close>

lemma accept_outcomes:
  "Socket_accept answer peer =
    (case answer of
       Inl (fd, a) \<Rightarrow> Inr (int fd, a)
     | Inr e \<Rightarrow> if e \<in> {1, 4, 11, 24, 71, 103} then Inr (- 1, peer) else Inl Aborted)"
  by (auto simp: Socket_accept_def sock_accept_def expected_errors_def split: sum.split)

text \<open>The resolver writes an address of version 4 whatever the family of its target: the target of version 6 is no longer well formed, and still has its old address.\<close>

lemma resolve_into_version_6:
  assumes "family out = AF_INET6" "address_wf out" "h \<noteq> 0"
  shows "\<exists>out'. resolve (0, Some (AF_INET, 4, h)) out = Inr (True, out') \<and> \<not> address_wf out' \<and> sin6_addr out' = sin6_addr out"
  using assms by (auto simp: resolve_def address_wf_def)

definition demo_inet :: inet_lib where
  "demo_inet = \<lparr>inet_pton4 = (\<lambda>s. Some (word_of_nat (digits_val s))), inet_pton6 = (\<lambda>s. Some (word_of_nat (digits_val (drop 2 s)))),
     inet_ntop4 = (\<lambda>a. show_nat (unat a)), inet_ntop6 = (\<lambda>a. ''::'' @ show_nat (unat a))\<rparr>"

lemma demo_inet_ok: "inet_ok demo_inet"
proof -
  have chars: "CHR '':'' \<notin> set (show_nat n)" "CHR 0x00 \<notin> set (show_nat n)" for n
    using show_nat_digits [of n] by (auto simp: is_digit_def)
  have "unat a < 2 ^ LENGTH(32)" for a :: "32 word" by (rule unsigned_less)
  then have "unat a < 10 ^ 15" for a :: "32 word" by (rule less_trans) simp
  then have four: "length (show_nat (unat a)) \<le> 15" for a :: "32 word" by (rule show_nat_length) simp
  have "unat a < 2 ^ LENGTH(128)" for a :: "128 word" by (rule unsigned_less)
  then have "unat a < 10 ^ 43" for a :: "128 word" by (rule less_trans) simp
  then have six: "length (show_nat (unat a)) \<le> 43" for a :: "128 word" by (rule show_nat_length) simp
  show ?thesis
    using le_imp_less_Suc [OF four] le_imp_less_Suc [OF six]
    by (simp add: inet_ok_def demo_inet_def digits_val_show_nat chars INET_ADDRSTRLEN_def INET6_ADDRSTRLEN_def)
qed

theorem addresses_and_texts_witness:
  "toIpPort demo_inet (InetAddress_of_port zero_address 8080 False True) = Inr ''[::0]:8080''"
proof -
  have wf: "address_wf (InetAddress_of_port zero_address 8080 False True)" "port_of (InetAddress_of_port zero_address 8080 False True) = 8080"
    by (rule constructors_wf)+
  have shown: "toIp demo_inet (InetAddress_of_port zero_address 8080 False True) = Inr ''::0''"
    by (simp add: toIp_def toIp_buffer_def demo_inet_def InetAddress_of_port_def zero_address_def in6addr_any_def INET6_ADDRSTRLEN_def) code_simp
  have "show_nat 8080 = ''8080''" by (simp add: show_nat.simps digit_char_def) code_simp
  then show ?thesis
    using addresses_and_texts [OF demo_inet_ok wf(1)] shown wf(2) by (auto simp: InetAddress_of_port_def)
qed

end
