(* ===== verification/Threads.thy ===== *)
theory Threads
  imports Monitors
begin

text \<open>
  \<open>base/Mutex.h\<close>, \<open>base/Thread.h\<close> and \<open>base/Thread.cc\<close>: the holder that a mutex remembers, and the start of a thread, which waits until the thread has its number. Threads are
  numbers from 1, as those of the system; a step is what runs between two calls that other threads can see.
\<close>

section \<open>The holder of a mutex\<close>

text \<open>\<open>owner\<close> is the thread that locked the mutex of the system, \<open>holder_\<close> the number that the class keeps, 0 for none.\<close>

record MutexLock =
  owner :: "nat option"
  holder :: nat

definition new_MutexLock :: MutexLock where
  "new_MutexLock = \<lparr>owner = None, holder = 0\<rparr>"

definition isLockedByThisThread :: "nat \<Rightarrow> MutexLock \<Rightarrow> bool" where
  "isLockedByThisThread t m \<longleftrightarrow> holder m = t"

definition assertLocked :: "nat \<Rightarrow> MutexLock \<Rightarrow> unit res" where
  "assertLocked t m = assertE (isLockedByThisThread t m)"

definition assignHolder :: "nat \<Rightarrow> MutexLock \<Rightarrow> MutexLock" where
  "assignHolder t m = m\<lparr>holder := t\<rparr>"

definition unassignHolder :: "MutexLock \<Rightarrow> MutexLock" where
  "unassignHolder m = m\<lparr>holder := 0\<rparr>"

text \<open>Destroying a mutex that is locked fails in \<open>pthread_mutex_destroy\<close>, and so in \<open>MCHECK\<close>.\<close>

definition destroy_MutexLock :: "MutexLock \<Rightarrow> unit res" where
  "destroy_MutexLock m = bindE (assertE (holder m = 0)) (\<lambda>_. assertE (owner m = None))"

text \<open>
  Where a thread is: \<open>lock\<close> is \<open>Outside\<close>, \<open>Acquired\<close>, \<open>Inside\<close>; \<open>unlock\<close> is \<open>Inside\<close>, \<open>Leaving\<close>, \<open>Outside\<close>; \<open>Condition::wait\<close> is \<open>Inside\<close>, \<open>Pausing\<close> (the \<open>UnassignGuard\<close>), \<open>Asleep\<close>,
  \<open>Acquired\<close>, \<open>Inside\<close>.
\<close>

datatype lock_place = Outside | Acquired | Inside | Leaving | Pausing | Asleep

type_synonym mutex_state = "MutexLock \<times> (nat \<Rightarrow> lock_place)"

inductive mutex_step :: "mutex_state \<Rightarrow> mutex_state \<Rightarrow> bool" where
  pthread_lock: "pc t = Outside \<Longrightarrow> owner m = None \<Longrightarrow> 0 < t \<Longrightarrow> mutex_step (m, pc) (m\<lparr>owner := Some t\<rparr>, pc(t := Acquired))"
| assign: "pc t = Acquired \<Longrightarrow> mutex_step (m, pc) (assignHolder t m, pc(t := Inside))"
| unlock_unassign: "pc t = Inside \<Longrightarrow> mutex_step (m, pc) (unassignHolder m, pc(t := Leaving))"
| pthread_unlock: "pc t = Leaving \<Longrightarrow> mutex_step (m, pc) (m\<lparr>owner := None\<rparr>, pc(t := Outside))"
| wait_unassign: "pc t = Inside \<Longrightarrow> mutex_step (m, pc) (unassignHolder m, pc(t := Pausing))"
| wait_release: "pc t = Pausing \<Longrightarrow> mutex_step (m, pc) (m\<lparr>owner := None\<rparr>, pc(t := Asleep))"
| wait_return: "pc t = Asleep \<Longrightarrow> owner m = None \<Longrightarrow> mutex_step (m, pc) (m\<lparr>owner := Some t\<rparr>, pc(t := Acquired))"

definition owns :: "lock_place \<Rightarrow> bool" where
  "owns p \<longleftrightarrow> p \<in> {Acquired, Inside, Leaving, Pausing}"

definition mutex_inv :: "mutex_state \<Rightarrow> bool" where
  "mutex_inv s \<longleftrightarrow> (case s of (m, pc) \<Rightarrow>
     case owner m of
       None \<Rightarrow> (\<forall>t. \<not> owns (pc t)) \<and> holder m = 0
     | Some w \<Rightarrow> owns (pc w) \<and> (\<forall>t. t \<noteq> w \<longrightarrow> \<not> owns (pc t)) \<and> holder m = (if pc w = Inside then w else 0)) \<and> snd s 0 = Outside"

lemma owns_simps [simp]:
  "owns Acquired" "owns Inside" "owns Leaving" "owns Pausing" "\<not> owns Outside" "\<not> owns Asleep"
  by (simp_all add: owns_def)

lemma mutex_inv_owner:
  assumes "mutex_inv (m, pc)" "owns (pc t)"
  shows "owner m = Some t \<and> holder m = (if pc t = Inside then t else 0) \<and> (\<forall>u. u \<noteq> t \<longrightarrow> \<not> owns (pc u)) \<and> pc 0 = Outside"
proof (cases "owner m")
  case None
  with assms show ?thesis by (simp add: mutex_inv_def)
next
  case (Some w)
  with assms have "w = t" unfolding mutex_inv_def by fastforce
  with Some assms show ?thesis by (simp add: mutex_inv_def)
qed

lemma mutex_inv_place: "mutex_inv (m, pc) \<Longrightarrow> pc t \<noteq> Outside \<Longrightarrow> 0 < t"
  by (cases t) (simp_all add: mutex_inv_def)

lemma mutex_inv_free:
  "owner m = None \<Longrightarrow> holder m = 0 \<Longrightarrow> (\<And>u. \<not> owns (pc u)) \<Longrightarrow> pc 0 = Outside \<Longrightarrow> mutex_inv (m, pc)"
  by (simp add: mutex_inv_def)

lemma mutex_inv_held:
  "owner m = Some w \<Longrightarrow> owns (pc w) \<Longrightarrow> holder m = (if pc w = Inside then w else 0) \<Longrightarrow> (\<And>u. u \<noteq> w \<Longrightarrow> \<not> owns (pc u))
   \<Longrightarrow> pc 0 = Outside \<Longrightarrow> mutex_inv (m, pc)"
  by (simp add: mutex_inv_def)

lemma mutex_inv_freeD: "mutex_inv (m, pc) \<Longrightarrow> owner m = None \<Longrightarrow> holder m = 0 \<and> (\<forall>u. \<not> owns (pc u)) \<and> pc 0 = Outside"
  by (simp add: mutex_inv_def)

lemma mutex_step_inv: "mutex_step s s' \<Longrightarrow> mutex_inv s \<Longrightarrow> mutex_inv s'"
proof (induction rule: mutex_step.induct)
  case (pthread_lock pc t m)
  with mutex_inv_freeD [of m pc] show ?case by (auto intro!: mutex_inv_held [where w = t])
next
  case (assign pc t m)
  with mutex_inv_owner [of m pc t] mutex_inv_place [of m pc t] show ?case by (auto simp: assignHolder_def intro!: mutex_inv_held [where w = t])
next
  case (unlock_unassign pc t m)
  with mutex_inv_owner [of m pc t] mutex_inv_place [of m pc t] show ?case by (auto simp: unassignHolder_def intro!: mutex_inv_held [where w = t])
next
  case (pthread_unlock pc t m)
  with mutex_inv_owner [of m pc t] mutex_inv_place [of m pc t] show ?case by (auto simp: intro!: mutex_inv_free split: if_splits)
next
  case (wait_unassign pc t m)
  with mutex_inv_owner [of m pc t] mutex_inv_place [of m pc t] show ?case by (auto simp: unassignHolder_def intro!: mutex_inv_held [where w = t])
next
  case (wait_release pc t m)
  with mutex_inv_owner [of m pc t] mutex_inv_place [of m pc t] show ?case by (auto simp: intro!: mutex_inv_free split: if_splits)
next
  case (wait_return pc t m)
  with mutex_inv_freeD [of m pc] mutex_inv_place [of m pc t] show ?case by (auto intro!: mutex_inv_held [where w = t])
qed

lemma mutex_reach_inv: "mutex_step\<^sup>*\<^sup>* (new_MutexLock, \<lambda>_. Outside) s \<Longrightarrow> mutex_inv s"
proof (induction rule: rtranclp_induct)
  case base
  show ?case by (simp add: mutex_inv_def new_MutexLock_def owns_def)
next
  case (step s s')
  then show ?case by (blast intro: mutex_step_inv)
qed

text \<open>
  The holder of a mutex: along every interleaving of threads that lock, unlock and wait, at most one thread is between the lock and the unlock of the system, the question whether the mutex is locked by
  this thread is answered \<open>true\<close> exactly in the threads that hold it and have not started to leave, so that the assertion of a thread never depends on the others, and a mutex can be
  destroyed exactly when nobody holds it.
\<close>

theorem mutex_holder:
  assumes "mutex_step\<^sup>*\<^sup>* (new_MutexLock, \<lambda>_. Outside) (m, pc)"
  shows "(\<forall>t t'. owns (pc t) \<and> owns (pc t') \<longrightarrow> t = t') \<and> (\<forall>t > 0. isLockedByThisThread t m \<longleftrightarrow> pc t = Inside)
    \<and> (\<forall>t > 0. assertLocked t m = Inr () \<longleftrightarrow> pc t = Inside) \<and> (destroy_MutexLock m = Inr () \<longleftrightarrow> (\<forall>t. \<not> owns (pc t)))"
proof -
  have inv: "mutex_inv (m, pc)" using assms by (rule mutex_reach_inv)
  have own: "owner m = Some t \<longleftrightarrow> owns (pc t)" for t
  proof
    show "owns (pc t)" if "owner m = Some t" using inv that by (simp add: mutex_inv_def)
  qed (use mutex_inv_owner [OF inv] in blast)
  have hold: "holder m = t \<longleftrightarrow> pc t = Inside" if "0 < t" for t
  proof
    show "holder m = t" if "pc t = Inside" using mutex_inv_owner [OF inv, of t] that by simp
    show "pc t = Inside" if "holder m = t" using inv that \<open>0 < t\<close> by (cases "owner m") (simp_all add: mutex_inv_def split: if_splits)
  qed
  have free: "owner m = None \<longleftrightarrow> (\<forall>t. \<not> owns (pc t))" using own by (cases "owner m") auto
  have "holder m = 0" if "owner m = None" using inv that by (simp add: mutex_inv_def)
  moreover have "t = t'" if "owns (pc t)" "owns (pc t')" for t t' using that own by (metis option.inject)
  ultimately show ?thesis using hold free by (auto simp: isLockedByThisThread_def assertLocked_def destroy_MutexLock_def bindE_assertE)
qed

section \<open>The start of a thread\<close>

record Thread =
  started :: bool
  joined :: bool
  thread_tid :: int
  thread_name :: string
  latch :: CountDownLatch

text \<open>\<open>numCreated_\<close> counts the threads; it numbers those without a name.\<close>

definition setDefaultName :: "nat \<Rightarrow> Thread \<Rightarrow> nat \<times> Thread" where
  "setDefaultName numCreated th =
     (let num = numCreated + 1
      in (num, if thread_name th = [] then th\<lparr>thread_name := take 31 (''Thread'' @ show_nat num)\<rparr> else th))"

definition new_Thread :: "string \<Rightarrow> nat \<Rightarrow> nat \<times> Thread" where
  "new_Thread n numCreated =
     setDefaultName numCreated \<lparr>started = False, joined = False, thread_tid = 0, thread_name = n, latch = new_CountDownLatch 1\<rparr>"

text \<open>The places of the starting thread and of the started one.\<close>

datatype starter = BeforeStart | InStart | Started | InJoin | Joined

datatype runner = NoThread | Begun | HasTid | Counted | Ended

record thread_system =
  thread :: Thread
  starter_at :: starter
  runner_at :: runner

definition thread_start :: "bool \<Rightarrow> thread_system \<Rightarrow> thread_system res" where
  "thread_start created s =
     bindE (assertE (\<not> started (thread s))) (\<lambda>_.
     if created then Inr (s\<lparr>thread := (thread s)\<lparr>started := True\<rparr>, starter_at := InStart, runner_at := Begun\<rparr>)
     else Inl Aborted)"

text \<open>\<open>latch_.wait()\<close> and the assertion after it. The starting thread is the thread 0 of the latch.\<close>

definition start_waits :: "thread_system \<Rightarrow> thread_system res" where
  "start_waits s =
     (let l = latch (thread s)
      in case latch_wait 0 (l\<lparr>condition := cond_resume 0 (condition l)\<rparr>) of (returned, l') \<Rightarrow>
           let s' = s\<lparr>thread := (thread s)\<lparr>latch := l'\<rparr>\<rparr>
           in if returned then bindE (assertE (0 < thread_tid (thread s))) (\<lambda>_. Inr (s'\<lparr>starter_at := Started\<rparr>)) else Inr s')"

text \<open>\<open>ThreadData::runInThread\<close>: an exception of the function ends the program.\<close>

definition runInThread :: "int \<Rightarrow> bool \<Rightarrow> thread_system \<Rightarrow> thread_system res" where
  "runInThread tid throws s =
     (case runner_at s of
        Begun \<Rightarrow> Inr (s\<lparr>thread := (thread s)\<lparr>thread_tid := tid\<rparr>, runner_at := HasTid\<rparr>)
      | HasTid \<Rightarrow> Inr (s\<lparr>thread := (thread s)\<lparr>latch := countDown (latch (thread s))\<rparr>, runner_at := Counted\<rparr>)
      | Counted \<Rightarrow> if throws then Inl Aborted else Inr (s\<lparr>runner_at := Ended\<rparr>)
      | _ \<Rightarrow> Inr s)"

definition thread_join :: "thread_system \<Rightarrow> thread_system res" where
  "thread_join s =
     bindE (assertE (started (thread s))) (\<lambda>_. bindE (assertE (\<not> joined (thread s))) (\<lambda>_.
     Inr (s\<lparr>thread := (thread s)\<lparr>joined := True\<rparr>, starter_at := InJoin\<rparr>)))"

datatype starting_event = StartCall | StartGoesOn | RunnerGoesOn | SpuriousWake | JoinCall | JoinReturns

fun starting_step :: "int \<Rightarrow> starting_event \<Rightarrow> thread_system \<Rightarrow> thread_system res" where
  "starting_step tid StartCall s = (if starter_at s = BeforeStart then thread_start True s else Inr s)"
| "starting_step tid StartGoesOn s =
     (if starter_at s = InStart \<and> 0 \<notin> set (waiting (condition (latch (thread s)))) then start_waits s else Inr s)"
| "starting_step tid RunnerGoesOn s = runInThread tid False s"
| "starting_step tid SpuriousWake s =
     (let l = latch (thread s)
      in Inr (if 0 \<in> set (waiting (condition l)) then s\<lparr>thread := (thread s)\<lparr>latch := l\<lparr>condition := cond_wake 0 (condition l)\<rparr>\<rparr>\<rparr> else s))"
| "starting_step tid JoinCall s = (if starter_at s = Started then thread_join s else Inr s)"
| "starting_step tid JoinReturns s = Inr (if starter_at s = InJoin \<and> runner_at s = Ended then s\<lparr>starter_at := Joined\<rparr> else s)"

fun starting_run :: "int \<Rightarrow> starting_event list \<Rightarrow> thread_system \<Rightarrow> thread_system res" where
  "starting_run tid [] s = Inr s"
| "starting_run tid (e # es) s = bindE (starting_step tid e s) (starting_run tid es)"

definition new_thread_system :: "string \<Rightarrow> nat \<Rightarrow> thread_system" where
  "new_thread_system n num = \<lparr>thread = snd (new_Thread n num), starter_at = BeforeStart, runner_at = NoThread\<rparr>"

definition thread_inv :: "int \<Rightarrow> thread_system \<Rightarrow> bool" where
  "thread_inv tid s \<longleftrightarrow>
     (started (thread s) \<longleftrightarrow> starter_at s \<noteq> BeforeStart) \<and> (joined (thread s) \<longleftrightarrow> starter_at s \<in> {InJoin, Joined})
     \<and> (starter_at s = BeforeStart \<longleftrightarrow> runner_at s = NoThread)
     \<and> count (latch (thread s)) = (if runner_at s \<in> {Counted, Ended} then 0 else 1)
     \<and> (runner_at s \<in> {HasTid, Counted, Ended} \<longrightarrow> thread_tid (thread s) = tid)
     \<and> (starter_at s \<in> {Started, InJoin, Joined} \<longrightarrow> runner_at s \<in> {Counted, Ended})
     \<and> (runner_at s \<in> {Counted, Ended} \<longrightarrow> waiting (condition (latch (thread s))) = [])
     \<and> (starter_at s = Joined \<longrightarrow> runner_at s = Ended)"

lemma starting_step_inv:
  assumes "thread_inv tid s" "0 < tid"
  shows "\<exists>s'. starting_step tid e s = Inr s' \<and> thread_inv tid s'"
proof (cases e)
  case StartCall
  then show ?thesis using assms by (auto simp: thread_inv_def thread_start_def)
next
  case StartGoesOn
  then show ?thesis using assms
    by (auto simp: thread_inv_def start_waits_def latch_wait_def cond_resume_def cond_wait_def Let_def split: if_splits)
next
  case RunnerGoesOn
  then show ?thesis using assms
    by (cases "runner_at s") (auto simp: thread_inv_def runInThread_def countDown_def cond_notifyAll_def Let_def)
next
  case SpuriousWake
  then show ?thesis using assms by (auto simp: thread_inv_def cond_wake_def Let_def)
next
  case JoinCall
  then show ?thesis using assms by (auto simp: thread_inv_def thread_join_def)
next
  case JoinReturns
  then show ?thesis using assms by (auto simp: thread_inv_def)
qed

lemma starting_run_inv: "thread_inv tid s \<Longrightarrow> 0 < tid \<Longrightarrow> \<exists>s'. starting_run tid es s = Inr s' \<and> thread_inv tid s'"
proof (induction es arbitrary: s)
  case (Cons e es)
  then obtain s1 where "starting_step tid e s = Inr s1" "thread_inv tid s1" using starting_step_inv by blast
  with Cons show ?case by simp
qed simp

text \<open>
  The start of a thread: whatever the interleaving of the two threads and of spurious wake-ups, no assertion fails; when \<open>start\<close> has returned the thread has its number; the starting thread is not
  left waiting once the number is there; and when \<open>join\<close> has returned the function has ended.
\<close>

theorem thread_start_and_join:
  assumes "0 < tid"
  shows "\<exists>s. starting_run tid es (new_thread_system n num) = Inr s
    \<and> (starter_at s \<in> {Started, InJoin, Joined} \<longrightarrow> thread_tid (thread s) = tid)
    \<and> (starter_at s = InStart \<and> runner_at s \<in> {Counted, Ended} \<longrightarrow> (\<exists>s'. starting_step tid StartGoesOn s = Inr s' \<and> starter_at s' = Started))
    \<and> (starter_at s = Joined \<longrightarrow> runner_at s = Ended)"
proof -
  have "thread_inv tid (new_thread_system n num)"
    by (auto simp: thread_inv_def new_thread_system_def new_Thread_def setDefaultName_def new_CountDownLatch_def Let_def)
  then obtain s where s: "starting_run tid es (new_thread_system n num) = Inr s" "thread_inv tid s" using starting_run_inv assms by blast
  have "\<exists>s'. starting_step tid StartGoesOn s = Inr s' \<and> starter_at s' = Started" if "starter_at s = InStart" "runner_at s \<in> {Counted, Ended}"
    using that s(2) assms by (auto simp: thread_inv_def start_waits_def latch_wait_def Let_def)
  with s show ?thesis by (auto simp: thread_inv_def)
qed

theorem thread_start_and_join_witness:
  "map_sum id starter_at (starting_run 7 [StartCall, StartGoesOn, RunnerGoesOn, RunnerGoesOn, StartGoesOn] (new_thread_system [] 0)) = Inr Started
   \<and> (\<exists>s. starting_run 7 [StartCall] (new_thread_system [] 0) = Inr s)"
proof
  show "\<exists>s. starting_run 7 [StartCall] (new_thread_system [] 0) = Inr s" using thread_start_and_join [of 7 "[StartCall]" "[]" 0] by auto
  show "map_sum id starter_at (starting_run 7 [StartCall, StartGoesOn, RunnerGoesOn, RunnerGoesOn, StartGoesOn] (new_thread_system [] 0)) = Inr Started"
    by code_simp
qed

end
