(* ===== verification/Loop_Thread.thy ===== *)
theory Loop_Thread
  imports Event_Loop Monitors
begin

text \<open>
  \<open>net/EventLoopThread.h\<close> and \<open>net/EventLoopThread.cc\<close>: a thread with an event loop on its stack. \<open>startLoop\<close> waits until the loop is there, the destructor makes the loop quit and joins the thread.
  The owner and the thread interleave; a step is one critical section, one access to the flag of the loop, or one step of the loop of the theory \<open>Event_Loop\<close>.
\<close>

section \<open>The owner and the thread\<close>

datatype owner_place = Fresh | AtLoopPtr | HasLoop | AtQuit | AtWakeup | AtJoin | Destroyed

datatype func_place = Unborn | Calling_Back | Looping_Soon | In_Loop | Loop_Over | Func_Ended

text \<open>\<open>stack_loop\<close> is the loop on the stack of the thread, \<open>loop_ptr\<close> whether \<open>loop_\<close> points to it, \<open>init_calls\<close> what the callback does with the loop.\<close>

record EventLoopThread =
  loop_ptr :: bool
  exiting :: bool
  thread_started :: bool
  elt_cond :: Condition
  init_calls :: "Event_Loop.call list"
  stack_loop :: "EventLoop option"
  owner_at :: owner_place
  func_at :: func_place

definition new_EventLoopThread :: "Event_Loop.call list \<Rightarrow> EventLoopThread" where
  "new_EventLoopThread cb =
     \<lparr>loop_ptr = False, exiting = False, thread_started = False, elt_cond = new_Condition, init_calls = cb, stack_loop = None,
      owner_at = Fresh, func_at = Unborn\<rparr>"

text \<open>One turn of the loop in the while statement of \<open>startLoop\<close>. The owner is the thread 0 of the condition.\<close>

definition look_at_loop :: "EventLoopThread \<Rightarrow> EventLoopThread" where
  "look_at_loop s =
     (let s = s\<lparr>elt_cond := cond_resume 0 (elt_cond s)\<rparr>
      in if loop_ptr s then s\<lparr>owner_at := HasLoop\<rparr> else s\<lparr>elt_cond := cond_wait 0 (elt_cond s)\<rparr>)"

definition startLoop :: "EventLoopThread \<Rightarrow> EventLoopThread res" where
  "startLoop s =
     bindE (assertE (\<not> thread_started s)) (\<lambda>_. Inr (s\<lparr>thread_started := True, owner_at := AtLoopPtr, func_at := Calling_Back,
        stack_loop := Some (new_EventLoop (init_calls s) [])\<rparr>))"

text \<open>The destructor up to the call of \<open>quit\<close>. A loop that is gone is used as if it were there; the model stops.\<close>

definition destroy_begins :: "EventLoopThread \<Rightarrow> EventLoopThread" where
  "destroy_begins s = s\<lparr>exiting := True, owner_at := (if loop_ptr s then AtQuit else Destroyed)\<rparr>"

definition on_loop :: "(EventLoop \<Rightarrow> EventLoop) \<Rightarrow> EventLoopThread \<Rightarrow> EventLoopThread res" where
  "on_loop f s = (case stack_loop s of Some l \<Rightarrow> Inr (s\<lparr>stack_loop := Some (f l)\<rparr>) | None \<Rightarrow> Inl NullDereference)"

definition destroy_quits :: "EventLoopThread \<Rightarrow> EventLoopThread res" where
  "destroy_quits s = bindE (on_loop (\<lambda>l. snd (quit_loop False l)) s) (\<lambda>s'. Inr (s'\<lparr>owner_at := AtWakeup\<rparr>))"

definition destroy_wakes :: "EventLoopThread \<Rightarrow> EventLoopThread res" where
  "destroy_wakes s = bindE (on_loop wakeup s) (\<lambda>s'. Inr (s'\<lparr>owner_at := AtJoin\<rparr>))"

text \<open>One step of the loop with what the poller reports; it reports nothing that is not ready.\<close>

definition loop_moves :: "active_channel list \<Rightarrow> EventLoop \<Rightarrow> EventLoop" where
  "loop_moves active l =
     (case phase l of
        Outside [] \<Rightarrow> l
      | Outside (c # cs) \<Rightarrow> (let (rest, l') = make_call True c l in l'\<lparr>phase := Outside (rest @ cs)\<rparr>)
      | LoopHead \<Rightarrow> loop_head l
      | Polling \<Rightarrow> if WakeupChannel \<in> set active \<longrightarrow> 0 < wakeups l then poll_returns active l else l
      | Handling ac cs \<Rightarrow> handle_step ac cs l
      | BeforeSwap \<Rightarrow> swap_functors l
      | Calling fs cs \<Rightarrow> call_step fs cs l)"

definition publish :: "EventLoopThread \<Rightarrow> EventLoopThread" where
  "publish s = s\<lparr>loop_ptr := True, elt_cond := cond_notify 0 (elt_cond s), func_at := Looping_Soon\<rparr>"

text \<open>\<open>threadFunc\<close>; at its end the pointer is cleared and the loop on the stack is destroyed.\<close>

definition threadFunc :: "active_channel list \<Rightarrow> EventLoopThread \<Rightarrow> EventLoopThread res" where
  "threadFunc active s =
     (case (func_at s, stack_loop s) of
        (Calling_Back, Some l) \<Rightarrow> if phase l = Outside [] then Inr (publish s) else Inr (s\<lparr>stack_loop := Some (loop_moves active l)\<rparr>)
      | (Looping_Soon, Some l) \<Rightarrow> bindE (enter_loop l) (\<lambda>l'. Inr (s\<lparr>stack_loop := Some l', func_at := In_Loop\<rparr>))
      | (In_Loop, Some l) \<Rightarrow> (let l' = loop_moves active l
          in Inr (s\<lparr>stack_loop := Some l', func_at := (if phase l' = Outside [] then Loop_Over else In_Loop)\<rparr>))
      | (Loop_Over, _) \<Rightarrow> Inr (s\<lparr>loop_ptr := False, stack_loop := None, func_at := Func_Ended\<rparr>)
      | _ \<Rightarrow> Inr s)"

datatype elt_event = OwnerMoves | OwnerWakes | DestroyCall | FuncMoves "active_channel list"

definition owner_moves :: "EventLoopThread \<Rightarrow> EventLoopThread res" where
  "owner_moves s =
     (case owner_at s of
        Fresh \<Rightarrow> startLoop s
      | AtLoopPtr \<Rightarrow> Inr (if 0 \<in> set (waiting (elt_cond s)) then s else look_at_loop s)
      | AtQuit \<Rightarrow> destroy_quits s
      | AtWakeup \<Rightarrow> destroy_wakes s
      | AtJoin \<Rightarrow> Inr (if func_at s = Func_Ended then s\<lparr>owner_at := Destroyed\<rparr> else s)
      | _ \<Rightarrow> Inr s)"

fun elt_step :: "elt_event \<Rightarrow> EventLoopThread \<Rightarrow> EventLoopThread res" where
  "elt_step OwnerMoves s = owner_moves s"
| "elt_step OwnerWakes s = Inr (if 0 \<in> set (waiting (elt_cond s)) then s\<lparr>elt_cond := cond_wake 0 (elt_cond s)\<rparr> else s)"
| "elt_step DestroyCall s = Inr (if owner_at s = HasLoop then destroy_begins s else s)"
| "elt_step (FuncMoves active) s = threadFunc active s"

fun elt_run :: "elt_event list \<Rightarrow> EventLoopThread \<Rightarrow> EventLoopThread res" where
  "elt_run [] s = Inr s"
| "elt_run (e # es) s = bindE (elt_step e s) (elt_run es)"

section \<open>The start\<close>

text \<open>Where the loop is: \<open>loop()\<close> runs exactly when the thread is in it, and before and after it the loop thread has only the calls of the callback to make.\<close>

definition loop_place :: "func_place \<Rightarrow> EventLoop \<Rightarrow> bool" where
  "loop_place f l \<longleftrightarrow>
     (looping l \<longleftrightarrow> f = In_Loop) \<and> ((\<exists>p. phase l = Outside p) \<longleftrightarrow> f \<noteq> In_Loop) \<and> (f \<in> {Looping_Soon, Loop_Over} \<longrightarrow> phase l = Outside [])"

definition elt_inv :: "EventLoopThread \<Rightarrow> bool" where
  "elt_inv s \<longleftrightarrow>
     (owner_at s = Fresh \<longleftrightarrow> func_at s = Unborn) \<and> (thread_started s \<longleftrightarrow> owner_at s \<noteq> Fresh)
     \<and> (loop_ptr s \<longleftrightarrow> func_at s \<in> {Looping_Soon, In_Loop, Loop_Over})
     \<and> (case stack_loop s of None \<Rightarrow> func_at s \<in> {Unborn, Func_Ended} | Some l \<Rightarrow> func_at s \<notin> {Unborn, Func_Ended} \<and> loop_place (func_at s) l)
     \<and> waiting (elt_cond s) \<in> {[], [0]}
     \<and> (waiting (elt_cond s) \<noteq> [] \<longrightarrow> owner_at s = AtLoopPtr \<and> func_at s \<in> {Calling_Back, Func_Ended})
     \<and> (exiting s \<longleftrightarrow> owner_at s \<in> {AtQuit, AtWakeup, AtJoin, Destroyed})"

lemma new_elt_inv: "elt_inv (new_EventLoopThread cb)"
  by (simp add: elt_inv_def new_EventLoopThread_def new_Condition_def)

lemma make_call_place: "make_call True c l = (rest, l') \<Longrightarrow> looping l' = looping l"
  using make_call_loop by blast

lemma loop_moves_before:
  assumes "phase l = Outside p" "\<not> looping l"
  shows "\<not> looping (loop_moves active l) \<and> (\<exists>p'. phase (loop_moves active l) = Outside p')"
proof (cases p)
  case (Cons c cs)
  then show ?thesis using assms make_call_place by (cases "make_call True c l") (auto simp: loop_moves_def)
qed (use assms in \<open>simp add: loop_moves_def\<close>)

lemma handle_step_place: "looping (handle_step active cs l) = looping l \<and> (\<forall>p. phase (handle_step active cs l) \<noteq> Outside p)"
proof (cases "(active, cs, l)" rule: handle_step.cases)
  case (1 ac c ds k)
  then show ?thesis using make_call_place by (cases "make_call True c k") auto
qed (auto simp: handleRead_def)

lemma call_step_place: "looping (call_step fs cs l) = looping l \<and> (\<forall>p. phase (call_step fs cs l) \<noteq> Outside p)"
proof (cases "(fs, cs, l)" rule: call_step.cases)
  case (1 gs c ds k)
  then show ?thesis using make_call_place by (cases "make_call True c k") auto
qed auto

lemma loop_moves_inside:
  assumes "looping l" "\<forall>p. phase l \<noteq> Outside p"
  shows "loop_place (if phase (loop_moves active l) = Outside [] then Loop_Over else In_Loop) (loop_moves active l)"
proof (cases "phase l")
  case LoopHead
  then show ?thesis using assms by (simp add: loop_moves_def loop_head_def loop_place_def)
next
  case Polling
  then show ?thesis using assms by (simp add: loop_moves_def poll_returns_def loop_place_def)
next
  case (Handling ac cs)
  then show ?thesis using assms handle_step_place [of ac cs l] by (simp add: loop_moves_def loop_place_def)
next
  case BeforeSwap
  then show ?thesis using assms by (simp add: loop_moves_def loop_place_def swap_functors_def)
next
  case (Calling fs cs)
  then show ?thesis using assms call_step_place [of fs cs l] by (simp add: loop_moves_def loop_place_def)
qed (use assms in simp)

lemma threadFunc_inv:
  assumes inv: "elt_inv s"
  shows "\<exists>s'. threadFunc active s = Inr s' \<and> elt_inv s' \<and> owner_at s' = owner_at s"
proof (cases "stack_loop s")
  case None
  with inv have "func_at s = Unborn \<or> func_at s = Func_Ended" by (simp add: elt_inv_def)
  with inv show ?thesis by (auto simp: threadFunc_def)
next
  case (Some l)
  show ?thesis
  proof (cases "func_at s")
    case Calling_Back
    then obtain p where p: "phase l = Outside p" "\<not> looping l" using inv Some by (auto simp: elt_inv_def loop_place_def)
    show ?thesis
    proof (cases "p = []")
      case True
      then show ?thesis using Calling_Back Some inv p
        by (auto simp: threadFunc_def publish_def elt_inv_def cond_notify_def cond_wake_def loop_place_def)
    next
      case False
      then show ?thesis using Calling_Back Some inv p loop_moves_before [OF p, of active]
        by (auto simp: threadFunc_def elt_inv_def loop_place_def)
    qed
  next
    case Looping_Soon
    then show ?thesis using Some inv by (auto simp: threadFunc_def enter_loop_def elt_inv_def loop_place_def)
  next
    case In_Loop
    then have "looping l" "\<forall>p. phase l \<noteq> Outside p" using Some inv by (auto simp: elt_inv_def loop_place_def)
    then have place: "loop_place (if phase (loop_moves active l) = Outside [] then Loop_Over else In_Loop) (loop_moves active l)" by (rule loop_moves_inside)
    show ?thesis
    proof (cases "phase (loop_moves active l) = Outside []")
      case True
      with place In_Loop Some inv show ?thesis by (simp add: threadFunc_def elt_inv_def Let_def)
    next
      case False
      with place In_Loop Some inv show ?thesis by (simp add: threadFunc_def elt_inv_def Let_def)
    qed
  next
    case Loop_Over
    then show ?thesis using Some inv by (auto simp: threadFunc_def elt_inv_def)
  qed (use Some inv in \<open>auto simp: elt_inv_def\<close>)
qed

lemma owner_loop_place: "loop_place f (wakeup l) = loop_place f l" "loop_place f (snd (quit_loop b l)) = loop_place f l"
  by (simp_all add: loop_place_def wakeup_def quit_loop_def)

lemma look_at_loop_inv: "elt_inv s \<Longrightarrow> owner_at s = AtLoopPtr \<Longrightarrow> 0 \<notin> set (waiting (elt_cond s)) \<Longrightarrow> elt_inv (look_at_loop s)"
  by (cases "func_at s") (auto simp: look_at_loop_def elt_inv_def cond_resume_def cond_wait_def Let_def split: option.splits)

lemma owner_moves_inv:
  assumes inv: "elt_inv s"
  shows "(case owner_moves s of Inr s' \<Rightarrow> elt_inv s'
      | Inl f \<Rightarrow> owner_at s \<in> {AtQuit, AtWakeup} \<and> func_at s = Func_Ended)"
proof (cases "owner_at s")
  case Fresh
  then show ?thesis using inv by (auto simp: owner_moves_def startLoop_def elt_inv_def new_EventLoop_def loop_place_def)
next
  case AtLoopPtr
  then show ?thesis using inv look_at_loop_inv [of s] by (simp add: owner_moves_def)
next
  case AtQuit
  then show ?thesis using inv by (cases "stack_loop s") (auto simp: owner_moves_def destroy_quits_def on_loop_def elt_inv_def owner_loop_place)
next
  case AtWakeup
  then show ?thesis using inv by (cases "stack_loop s") (auto simp: owner_moves_def destroy_wakes_def on_loop_def elt_inv_def owner_loop_place)
next
  case AtJoin
  then show ?thesis using inv by (cases "stack_loop s") (auto simp: owner_moves_def elt_inv_def)
qed (use inv in \<open>auto simp: owner_moves_def\<close>)

lemma elt_step_inv:
  assumes "elt_inv s"
  shows "(case elt_step e s of Inr s' \<Rightarrow> elt_inv s' | Inl f \<Rightarrow> owner_at s \<in> {AtQuit, AtWakeup} \<and> func_at s = Func_Ended)"
proof (cases e)
  case OwnerMoves
  then show ?thesis using owner_moves_inv [OF assms] by (auto split: sum.splits)
next
  case OwnerWakes
  then show ?thesis using assms by (cases "waiting (elt_cond s) = []") (auto simp: elt_inv_def cond_wake_def split: option.splits)
next
  case DestroyCall
  then show ?thesis using assms by (cases "stack_loop s") (auto simp: elt_inv_def destroy_begins_def)
next
  case (FuncMoves active)
  then show ?thesis using threadFunc_inv [OF assms, of active] by auto
qed

lemma elt_run_inv: "elt_inv s \<Longrightarrow> elt_run es s = Inr s' \<Longrightarrow> elt_inv s'"
proof (induction es arbitrary: s)
  case (Cons e es)
  then obtain s1 where "elt_step e s = Inr s1" "elt_run es s1 = Inr s'" by (cases "elt_step e s") auto
  moreover have "elt_inv s1" using elt_step_inv [OF Cons(2), of e] \<open>elt_step e s = Inr s1\<close> by simp
  ultimately show ?case using Cons(1) by blast
qed simp

text \<open>
  The start of an event loop thread: in every interleaving, \<open>startLoop\<close> returns only a loop that is there and on which the init callback has run; an owner that sleeps sleeps because there is no loop, and
  is woken when it is there; and the only steps that can fail are those in which the destructor uses the loop of a thread that has ended.
\<close>

theorem loop_thread_start:
  assumes "elt_run es (new_EventLoopThread cb) = Inr s"
  shows "(owner_at s = AtLoopPtr \<and> func_at s \<in> {Looping_Soon, In_Loop, Loop_Over} \<longrightarrow>
        (\<exists>s'. elt_step OwnerMoves s = Inr s' \<and> owner_at s' = HasLoop))
    \<and> (owner_at s = AtLoopPtr \<and> elt_step OwnerMoves s = Inr s' \<and> owner_at s' = HasLoop \<longrightarrow>
        (\<exists>l. stack_loop s = Some l) \<and> func_at s \<noteq> Calling_Back)
    \<and> (elt_step e s = Inl f \<longrightarrow> owner_at s \<in> {AtQuit, AtWakeup} \<and> func_at s = Func_Ended)"
proof -
  have inv: "elt_inv s" using elt_run_inv [OF new_elt_inv assms] .
  have there: "loop_ptr s \<longleftrightarrow> func_at s \<in> {Looping_Soon, In_Loop, Loop_Over}" "stack_loop s = None \<longrightarrow> func_at s \<in> {Unborn, Func_Ended}"
    using inv by (auto simp: elt_inv_def)
  have asleep: "waiting (elt_cond s) = [] \<or> \<not> loop_ptr s" using inv by (auto simp: elt_inv_def)
  have "\<exists>s'. elt_step OwnerMoves s = Inr s' \<and> owner_at s' = HasLoop" if "owner_at s = AtLoopPtr" "loop_ptr s"
    using that asleep by (simp add: owner_moves_def look_at_loop_def Let_def)
  moreover have "loop_ptr s" if "owner_at s = AtLoopPtr" "elt_step OwnerMoves s = Inr s'" "owner_at s' = HasLoop"
    using that by (auto simp: owner_moves_def look_at_loop_def Let_def split: if_splits)
  moreover have "owner_at s \<in> {AtQuit, AtWakeup} \<and> func_at s = Func_Ended" if "elt_step e s = Inl f"
    using elt_step_inv [OF inv, of e] that by simp
  ultimately show ?thesis using there by (cases "stack_loop s") auto
qed

section \<open>The end\<close>

text \<open>A quit that comes between the moment the owner has the loop and the entry of \<open>loop()\<close> is forgotten there. The loop then has nothing to do, and the destructor waits for it.\<close>

definition lost_quit :: "elt_event list" where
  "lost_quit = [OwnerMoves, FuncMoves [], OwnerMoves, DestroyCall, OwnerMoves, OwnerMoves, FuncMoves []]"

definition idle_loop :: "EventLoop \<Rightarrow> bool" where
  "idle_loop l \<longleftrightarrow> \<not> quit l \<and> pendingFunctors l = []
     \<and> (case phase l of
          Outside p \<Rightarrow> False | Handling ac cs \<Rightarrow> cs = [] \<and> set ac \<subseteq> {WakeupChannel, OtherChannel []} | Calling fs cs \<Rightarrow> fs = [] \<and> cs = []
        | _ \<Rightarrow> True)"

definition destructor_hangs :: "EventLoopThread \<Rightarrow> bool" where
  "destructor_hangs s \<longleftrightarrow> owner_at s = AtJoin \<and> func_at s = In_Loop \<and> (case stack_loop s of Some l \<Rightarrow> idle_loop l | None \<Rightarrow> False)"

lemma idle_loop_moves:
  assumes "idle_loop l" "set active \<subseteq> {WakeupChannel, OtherChannel []}"
  shows "idle_loop (loop_moves active l)"
proof (cases "phase l")
  case (Handling ac cs)
  with assms show ?thesis by (cases ac) (auto simp: idle_loop_def loop_moves_def handleRead_def)
qed (use assms in \<open>auto simp: idle_loop_def loop_moves_def loop_head_def poll_returns_def swap_functors_def\<close>)

lemma idle_phase: "idle_loop l \<Longrightarrow> phase l \<noteq> Outside []"
  by (auto simp: idle_loop_def)

fun uneventful :: "elt_event \<Rightarrow> bool" where
  "uneventful (FuncMoves active) \<longleftrightarrow> set active \<subseteq> {WakeupChannel, OtherChannel []}"
| "uneventful e \<longleftrightarrow> e \<noteq> OwnerWakes"

lemma hanging_step:
  assumes "destructor_hangs s" "uneventful e"
  shows "\<exists>s'. elt_step e s = Inr s' \<and> destructor_hangs s'"
proof -
  obtain l where l: "stack_loop s = Some l" "idle_loop l" "owner_at s = AtJoin" "func_at s = In_Loop"
    using assms(1) by (auto simp: destructor_hangs_def split: option.splits)
  show ?thesis
  proof (cases e)
    case (FuncMoves active)
    then have "idle_loop (loop_moves active l)" using assms(2) l(2) idle_loop_moves by simp
    then show ?thesis using FuncMoves l idle_phase by (auto simp: threadFunc_def destructor_hangs_def Let_def)
  qed (use assms l in \<open>auto simp: owner_moves_def destructor_hangs_def\<close>)
qed

theorem quit_before_loop_is_lost:
  assumes "\<forall>e \<in> set es. uneventful e"
  shows "\<exists>s. elt_run (lost_quit @ es) (new_EventLoopThread []) = Inr s \<and> owner_at s = AtJoin"
proof -
  have run: "elt_run (xs @ ys) s = bindE (elt_run xs s) (elt_run ys)" for xs ys s
    by (induction xs arbitrary: s) (auto split: sum.splits simp: bindE_def)
  have keeps: "destructor_hangs s \<Longrightarrow> \<exists>s'. elt_run es s = Inr s' \<and> destructor_hangs s'" for s
    using assms
  proof (induction es arbitrary: s)
    case (Cons e es)
    then show ?case using hanging_step [of s e] by fastforce
  qed simp
  have "\<exists>s. elt_run lost_quit (new_EventLoopThread []) = Inr s \<and> destructor_hangs s"
    by (simp add: lost_quit_def new_EventLoopThread_def owner_moves_def startLoop_def new_EventLoop_def new_Condition_def threadFunc_def publish_def
        look_at_loop_def cond_resume_def cond_notify_def Let_def destroy_begins_def destroy_quits_def on_loop_def quit_loop_def destroy_wakes_def wakeup_def enter_loop_def
        destructor_hangs_def idle_loop_def)
  then show ?thesis using keeps run by (fastforce simp: destructor_hangs_def)
qed

text \<open>A loop that ends before the owner has looked leaves it asleep, and one that ends between \<open>quit\<close> and its wake-up is used after it is gone.\<close>

lemma loop_over_before_the_look:
  "map_sum id (\<lambda>s. (owner_at s, waiting (elt_cond s), func_at s)) (elt_run ([OwnerMoves, OwnerMoves, FuncMoves []] @ replicate 2 (FuncMoves []) @ [FuncMoves [OtherChannel [Quit]]] @ replicate 7 (FuncMoves []) @ [OwnerMoves])
     (new_EventLoopThread [])) = Inr (AtLoopPtr, [0], Func_Ended)"
  by code_simp

lemma wakeup_of_a_dead_loop:
  "elt_run ([OwnerMoves, FuncMoves [], OwnerMoves, FuncMoves [], FuncMoves [], DestroyCall, OwnerMoves, FuncMoves []] @ replicate 5 (FuncMoves []) @ [OwnerMoves])
     (new_EventLoopThread []) = Inl NullDereference"
  by code_simp

end
