(* ===== verification/Spec2Isabelle.thy ===== *)
theory Spec2Isabelle
  imports Delivery User_Storage Session_Inv Timers Connection_Props Pollers Http
    Event_Loop Tcp_Server Tcp_Client Thread_Pool Log_Format Async_Logging Zone_File
    Rpc Logger Inspector Sockets Threads Loop_Thread
begin

text \<open>
  The chat server under \<open>src/IMServer\<close>: a server on the \<open>muduo\<close> network library (\<open>base/\<close>, \<open>net/\<close>) that
  keeps users and friendships in memory and in MySQL, relays chat messages between sessions, and caches those of absent users.

  \<^bold>\<open>The parts and how they interact.\<close> A connection (\<open>net/TcpConnection\<close>) reads into a buffer
  (\<open>net/Buffer\<close>) and hands it to the codec of its session (\<open>IMCodec\<close>, \<open>net/protobuf/ProtobufCodecLite\<close>). The codec cuts the stream
  into frames and calls the session (\<open>ClientSession\<close>), which dispatches on the command. The handlers use the user
  manager (\<open>UserManager\<close>), which sends SQL text through \<open>MySqlManager\<close> and \<open>mysqltool\<close>, the registry of sessions
  (\<open>IMSer\<close>), the offline cache (\<open>MsgCacheManager\<close>) and the gRPC clients. Below, a poller (\<open>net/poller\<close>) reports ready channels
  (\<open>net/Channel\<close>), and the timer queue (\<open>net/TimerQueue\<close>) runs callbacks at their time. \<open>net/http\<close> is a second
  protocol on the same connections.

  \<^bold>\<open>Theories, in the order of their imports.\<close>

  \<^item> \<open>Prelude\<close>: faults as values (a failed \<open>assert\<close>, a null pointer, an uncaught exception are \<open>Inl\<close> of a \<open>res\<close>), 32-bit integers,
    decimal text, the vector and the ordered map and set of the standard library.
  \<^item> \<open>Net_Buffer\<close> (\<open>net/Buffer.*\<close>, \<open>net/Endian.h\<close>): the buffer with its two indices. Its contents are a queue of
    characters (locale \<open>byte_queue\<close>, interpreted on the buffer): what is appended comes out unchanged, integers survive the byte order.
  \<^item> \<open>Codec\<close>: frames, checksum, parsing. A stream of frames cut at any place is decoded into the messages that were encoded; bad
    frames end in the error callback; the loop terminates and no assertion fails.
  \<^item> \<open>MsgCache\<close>: the offline cache refines one mailbox per user (locale for mailboxes, interpreted).
  \<^item> \<open>Database\<close>, \<open>Users\<close>, \<open>User_Storage\<close>: rows, statements, schema check; the user manager with its SQL text; loading, quoting. The
    invariant of the manager (ids, names, symmetric friendship) is kept by every operation.
  \<^item> \<open>Messages\<close>, \<open>Services\<close>, \<open>Sessions\<close>, \<open>Handlers\<close>: message types, gRPC calls, the registry and the state of the whole server
    (record \<open>world\<close>), one definition per handler of \<open>ClientSession.cpp\<close>.
  \<^item> \<open>Session_Props\<close>, \<open>Delivery\<close>, \<open>Session_Inv\<close>: what the handlers do together. After a login no handler meets a null pointer; a
    message reaches every addressee once, at once or at the next login; the invariants hold along any stream of requests.
  \<^item> \<open>Calendar\<close> (\<open>base/Date\<close>, \<open>base/Timestamp\<close>), \<open>Timers\<close>: day numbers, time stamps; the timer queue with its heap, where
    callbacks may add and cancel timers. Its sets stay consistent, every timer that is due runs once, in the order of expiration.
  \<^item> \<open>Channels\<close>, \<open>Connection\<close>, \<open>Connection_Props\<close>: events of a descriptor; the state machine of a connection as an inductive step
    relation with the functors queued in the loop. Along every reachable sequence no assertion fails and the characters handed to the
    socket are a prefix of those sent; \<open>shutdown\<close> writes everything first.
  \<^item> \<open>Pollers\<close>: both pollers implement the same table of watched descriptors (locale \<open>poller\<close>, interpreted on each).
  \<^item> \<open>Http\<close>: the request parser on the buffer implements a parser on strings; a request cut in any number of pieces is answered once.
  \<^item> \<open>Event_Loop\<close> (\<open>net/EventLoop\<close>): the loop thread and other threads as an inductive step relation on the queue of functors, the flag and the wake-up
    descriptor. The loop never sleeps on work it was given, and every functor that is queued is run, in order.
  \<^item> \<open>Tcp_Server\<close> (\<open>net/TcpServer\<close>, \<open>net/EventLoopThreadPool\<close>, \<open>net/Acceptor\<close>): connections get the loops in turn and distinct names; the
    table holds those that are open; the spare descriptor takes care of a full table of descriptors.
  \<^item> \<open>Log_Stream\<close>, \<open>Log_Format\<close> (\<open>base/LogStream\<close>): a log line is never cut inside an item and never overruns its buffer; the
    length of the texts of \<open>formatSI\<close> and \<open>formatIEC\<close>, with double precision numbers as rounded rationals.
  \<^item> \<open>Logger\<close> (\<open>base/Logging\<close>): the statements of a thread give one line each, with the parts in the order of the code; what goes wrong when a message fills
    the line or the time zone changes.

  \<^item> \<open>Time_Zone\<close>, \<open>Zone_File\<close> (\<open>base/TimeZone\<close>): broken-down time, the table of transitions with the conversions to local time and back, the
    reader of zone files. A file of version 2 is read back as it was written (locale \<open>reader\<close>, interpreted on the readers of integers); local time
    and back is the identity except around the last transition.

  \<^item> \<open>Monitors\<close> (\<open>base/Condition\<close>, the blocking queues, \<open>CountDownLatch\<close>): threads as sequences of critical sections, with the choice of \<open>notify\<close> and
    spurious wake-ups left open. Both queues satisfy one contract (locale \<open>blocking_queue\<close>, interpreted on each), from which it follows that items come out in order, that no
    wake-up is lost and that producers and consumers finish.
  \<^item> \<open>Thread_Pool\<close> (\<open>base/ThreadPool\<close>): tasks are started in the order they were accepted, no worker sleeps on a task, and after \<open>stop\<close> all threads end.
  \<^item> \<open>Log_File\<close>, \<open>Async_Logging\<close> (\<open>base/FileUtil\<close>, \<open>base/LogFile\<close>, \<open>base/AsyncLogging\<close>): lines are kept whole and in order over the files; the buffers of
    the log thread are never missing, and what was logged is in the files or still in the buffers.
  \<^item> \<open>Tcp_Client\<close> (\<open>net/Connector\<close>, \<open>net/TcpClient\<close>): one attempt at a time, every socket accounted for, delays that double; and two orders of calls that
    fail an assertion.
  \<^item> \<open>Rpc\<close> (\<open>net/protorpc\<close>): two ends of a connection that exchange requests and responses in any order; every call gets the answer of the method it
    named, once, or none.
  \<^item> \<open>Small_Files\<close>, \<open>Process_Info\<close>, \<open>Inspector\<close> (\<open>base/FileUtil\<close>, \<open>base/ProcessInfo\<close>, \<open>net/inspect\<close>): small files are read whole however the system cuts them; the texts of
    \<open>/proc\<close> are taken apart as the kernel wrote them; the inspector implements a table of pages.

  \<^item> \<open>Sockets\<close> (\<open>net/InetAddress\<close>, \<open>net/SocketsOps\<close>, \<open>net/Socket\<close>): addresses of both versions with their texts, which are read back as they were written; what \<open>accept\<close> makes of
    an error, and how a socket that is connected to itself is found.
  \<^item> \<open>Threads\<close>, \<open>Loop_Thread\<close> (\<open>base/Mutex.h\<close>, \<open>base/Thread\<close>, \<open>net/EventLoopThread\<close>): the holder of a mutex over all interleavings; a thread whose \<open>start\<close> returns has its number;
    a loop that \<open>startLoop\<close> returns is there, and the orders of events in which the destructor hangs or uses a loop that is gone.

  \<^bold>\<open>Parameters.\<close> Code that is not in the repository is an argument of the definitions: the protobuf runtime and zlib (\<open>pb_lib\<close>), the
  classes generated from \<open>im.proto\<close> (\<open>im_pb\<close>), the MySQL client (\<open>mysql_api\<close>), the gRPC stubs, the system calls \<open>readv\<close>, \<open>write\<close> and
  \<open>getsockopt\<close>, the allocator and the clock. What a theorem needs of them is a named hypothesis, and its witness instantiates them.

  \<^bold>\<open>Bounds and termination.\<close> Loops over containers are structural. The loop of the codec and the string parser of HTTP have a
  termination proof on the length of the input; \<open>parseRequest\<close> is a partial function in the option monad, and it is shown that it
  returns whenever a line is expected and never returns otherwise. No definition uses fuel. \<open>int32_t\<close> values wrap explicitly, byte order is on words.

  \<^bold>\<open>Not modelled.\<close> The calls of the logger in the other models; the program entry; the calls of \<open>SocketsOps\<close> that only pass on; data races:
  each operation is one step, as under its lock or in its loop. The
  pages of the inspector that need tcmalloc, the compression wrappers and the JSON library are not used by the server.
\<close>

end
